(* ===== verification/Go_Base.thy ===== *)
theory Go_Base
  imports Main "HOL-Library.AList" "HOL-Library.Word" "HOL-Library.Multiset"
begin

text \<open>
  The prelude of the development: the Go values every component uses, and the generic
  lemmas they share.

  \<^item> A Go \<open>string\<close> is a list of bytes, so it is a HOL \<open>string\<close>; \<open>strings.Contains\<close>,
    \<open>strings.HasPrefix\<close> and their kin are recursive functions on it.
  \<^item> A Go \<open>map[K]V\<close> is an association list without duplicate keys, in one of the orders an
    iteration may take (\<open>go_get\<close>, \<open>go_put\<close>, \<open>go_delete\<close>).
  \<^item> \<open>time.Time\<close> is an integer number of nanoseconds with 0 for the zero value
    (\<open>IsZero\<close>); \<open>time.Duration\<close> is an \<open>int64\<close> number of nanoseconds: \<open>Time.Sub\<close> saturates
    and the arithmetic on durations wraps around, and both are written out.
\<close>

section \<open>Durations and instants\<close>

type_synonym duration = int
type_synonym instant = int

definition second :: duration where "second = 1000000000"
definition millisecond :: duration where "millisecond = 1000000"
definition minute :: duration where "minute = 60 * second"

definition min_int64 :: int where "min_int64 = - (2 ^ 63)"
definition max_int64 :: int where "max_int64 = 2 ^ 63 - 1"

text \<open>Wrap-around of \<open>int64\<close> arithmetic.\<close>

definition wrap64 :: "int \<Rightarrow> int" where
  "wrap64 x = (x + 2 ^ 63) mod 2 ^ 64 - 2 ^ 63"

text \<open>\<open>t.Sub(u)\<close>: the difference, saturated to the range of a duration.\<close>

definition time_sub :: "instant \<Rightarrow> instant \<Rightarrow> duration" where
  "time_sub t u = max min_int64 (min max_int64 (t - u))"

definition is_zero_time :: "instant \<Rightarrow> bool" where
  "is_zero_time t \<longleftrightarrow> t = 0"

lemma wrap64_id: "min_int64 \<le> x \<Longrightarrow> x \<le> max_int64 \<Longrightarrow> wrap64 x = x"
  by (simp add: wrap64_def min_int64_def max_int64_def)

lemma wrap64_range: "min_int64 \<le> wrap64 x \<and> wrap64 x \<le> max_int64"
proof -
  have "0 \<le> (x + 2 ^ 63) mod 2 ^ 64" and "(x + 2 ^ 63) mod 2 ^ 64 < (2::int) ^ 64"
    by simp_all
  then show ?thesis by (simp add: wrap64_def min_int64_def max_int64_def)
qed

lemma time_sub_ge: "d \<le> max_int64 \<Longrightarrow> min_int64 < d \<Longrightarrow> d \<le> time_sub t u \<longleftrightarrow> u + d \<le> t"
  by (auto simp: time_sub_def)

lemma time_sub_less: "d \<le> max_int64 \<Longrightarrow> min_int64 < d \<Longrightarrow> time_sub t u < d \<longleftrightarrow> t < u + d"
  by (auto simp: time_sub_def)

lemma time_sub_antimono: "u \<le> v \<Longrightarrow> time_sub t v \<le> time_sub t u"
  by (auto simp: time_sub_def)

section \<open>Byte strings\<close>

fun has_prefix :: "string \<Rightarrow> string \<Rightarrow> bool" where
  "has_prefix s [] = True"
| "has_prefix [] (p # ps) = False"
| "has_prefix (c # cs) (p # ps) = (c = p \<and> has_prefix cs ps)"

fun str_contains :: "string \<Rightarrow> string \<Rightarrow> bool" where
  "str_contains [] p = (p = [])"
| "str_contains (c # cs) p = (has_prefix (c # cs) p \<or> str_contains cs p)"

text \<open>\<open>strings.Join\<close>.\<close>

fun join :: "string \<Rightarrow> string list \<Rightarrow> string" where
  "join sep [] = []"
| "join sep [x] = x"
| "join sep (x # y # ys) = x @ sep @ join sep (y # ys)"

lemma has_prefix_iff: "has_prefix s p \<longleftrightarrow> (\<exists>r. s = p @ r)"
  by (induction s p rule: has_prefix.induct) auto

lemma str_contains_iff: "str_contains s p \<longleftrightarrow> (\<exists>l r. s = l @ p @ r)"
proof (induction s)
  case Nil
  then show ?case by auto
next
  case (Cons c cs)
  show ?case
  proof
    assume "str_contains (c # cs) p"
    then consider "has_prefix (c # cs) p" | "str_contains cs p" by auto
    then show "\<exists>l r. c # cs = l @ p @ r"
    proof cases
      case 1
      then obtain r where "c # cs = [] @ p @ r" by (auto simp: has_prefix_iff)
      then show ?thesis by blast
    next
      case 2
      then obtain l r where "cs = l @ p @ r" using Cons.IH by blast
      then have "c # cs = (c # l) @ p @ r" by simp
      then show ?thesis by blast
    qed
  next
    assume "\<exists>l r. c # cs = l @ p @ r"
    then obtain l r where *: "c # cs = l @ p @ r" by blast
    show "str_contains (c # cs) p"
    proof (cases l)
      case Nil
      with * have "has_prefix (c # cs) p" by (auto simp: has_prefix_iff)
      then show ?thesis by simp
    next
      case (Cons a l')
      with * have "cs = l' @ p @ r" by simp
      then show ?thesis using Cons.IH by auto
    qed
  qed
qed

section \<open>Go maps\<close>

type_synonym ('k, 'v) go_map = "('k \<times> 'v) list"

abbreviation go_get :: "('k, 'v) go_map \<Rightarrow> 'k \<Rightarrow> 'v option" where
  "go_get m k \<equiv> map_of m k"

abbreviation go_put :: "'k \<Rightarrow> 'v \<Rightarrow> ('k, 'v) go_map \<Rightarrow> ('k, 'v) go_map" where
  "go_put k v m \<equiv> AList.update k v m"

abbreviation go_delete :: "'k \<Rightarrow> ('k, 'v) go_map \<Rightarrow> ('k, 'v) go_map" where
  "go_delete k m \<equiv> AList.delete k m"

definition go_map_ok :: "('k, 'v) go_map \<Rightarrow> bool" where
  "go_map_ok m \<longleftrightarrow> distinct (map fst m)"

lemma go_get_put [simp]: "go_get (go_put k v m) k' = (if k' = k then Some v else go_get m k')"
  by (simp add: update_conv')

lemma go_get_delete [simp]: "go_get (go_delete k m) k' = (if k' = k then None else go_get m k')"
  by (simp add: delete_conv')

lemma go_map_ok_empty [simp]: "go_map_ok []"
  by (simp add: go_map_ok_def)

lemma go_map_ok_put [simp]: "go_map_ok m \<Longrightarrow> go_map_ok (go_put k v m)"
  by (simp add: go_map_ok_def distinct_update)

lemma go_map_ok_delete [simp]: "go_map_ok m \<Longrightarrow> go_map_ok (go_delete k m)"
  by (simp add: go_map_ok_def distinct_delete)

lemma go_get_iff: "go_map_ok m \<Longrightarrow> (k, v) \<in> set m \<longleftrightarrow> go_get m k = Some v"
  by (simp add: go_map_ok_def)

lemma go_get_None: "go_get m k = None \<longleftrightarrow> k \<notin> fst ` set m"
  by (rule map_of_eq_None_iff)

lemma length_go_put:
  "length (go_put k v m) = (case go_get m k of None \<Rightarrow> Suc (length m) | Some _ \<Rightarrow> length m)"
  by (induction m) (auto split: option.splits)

lemma length_go_delete:
  "go_map_ok m \<Longrightarrow>
   length (go_delete k m) = (case go_get m k of None \<Rightarrow> length m | Some _ \<Rightarrow> length m - 1)"
proof (induction m)
  case Nil
  then show ?case by simp
next
  case (Cons x m)
  obtain a b where x: "x = (a, b)" by (cases x)
  from Cons.prems have ok: "go_map_ok m" and notin: "a \<notin> fst ` set m"
    by (auto simp: go_map_ok_def x)
  show ?case
  proof (cases "a = k")
    case True
    with notin have "go_get m k = None" by (simp add: map_of_eq_None_iff)
    with Cons.IH [OF ok] True show ?thesis by (simp add: x)
  next
    case False
    have "m \<noteq> []" if "go_get m k = Some v" for v using that by auto
    with Cons.IH [OF ok] False show ?thesis
      by (cases "go_get m k") (auto simp: x Suc_diff_le Suc_leI)
  qed
qed

section \<open>Counting in multisets\<close>

text \<open>The number of elements of a multiset that satisfy a predicate.\<close>

definition mcount :: "('a \<Rightarrow> bool) \<Rightarrow> 'a multiset \<Rightarrow> nat" where
  "mcount P M = size (filter_mset P M)"

lemma mcount_empty [simp]: "mcount P {#} = 0"
  by (simp add: mcount_def)

lemma mcount_add [simp]: "mcount P (add_mset x M) = mcount P M + (if P x then 1 else 0)"
  by (simp add: mcount_def)

lemma mcount_union [simp]: "mcount P (M + N) = mcount P M + mcount P N"
  by (simp add: mcount_def)

lemma mcount_zero_iff: "mcount P M = 0 \<longleftrightarrow> (\<forall>x. x \<in># M \<longrightarrow> \<not> P x)"
  by (auto simp: mcount_def filter_mset_eq_conv multiset_eq_iff count_eq_zero_iff)

lemma mcount_pos: "x \<in># M \<Longrightarrow> P x \<Longrightarrow> 0 < mcount P M"
  using mcount_zero_iff [of P M] by auto

section \<open>Counting in lists\<close>

definition lcount :: "('a \<Rightarrow> bool) \<Rightarrow> 'a list \<Rightarrow> nat" where
  "lcount P xs = length (filter P xs)"

lemma lcount_Nil [simp]: "lcount P [] = 0"
  by (simp add: lcount_def)

lemma lcount_Cons [simp]: "lcount P (x # xs) = (if P x then 1 else 0) + lcount P xs"
  by (simp add: lcount_def)

lemma lcount_append [simp]: "lcount P (xs @ ys) = lcount P xs + lcount P ys"
  by (simp add: lcount_def)

lemma lcount_zero_iff: "lcount P xs = 0 \<longleftrightarrow> (\<forall>x \<in> set xs. \<not> P x)"
  by (auto simp: lcount_def filter_empty_conv)

lemma lcount_two:
  assumes "x \<in> set xs" and "y \<in> set xs" and "x \<noteq> y" and "P x" and "P y"
  shows "2 \<le> lcount P xs"
proof -
  have "card {x, y} \<le> card (set (filter P xs))" using assms by (intro card_mono) auto
  also have "\<dots> \<le> length (filter P xs)" by (rule card_length)
  finally show ?thesis using assms(3) by (simp add: lcount_def)
qed

section \<open>Updating a list by index\<close>

lemma lcount_list_update:
  "i < length xs \<Longrightarrow> lcount P (xs[i := y]) + (if P (xs ! i) then 1 else 0) = lcount P xs + (if P y then 1 else 0)"
proof (induction xs arbitrary: i)
  case (Cons x xs)
  then show ?case by (cases i) auto
qed simp

lemma ball_list_update: "\<forall>x \<in> set xs. P x \<Longrightarrow> P y \<Longrightarrow> \<forall>x \<in> set (xs[i := y]). P x"
  using set_update_subset_insert [of xs i y] by auto

lemma bex_list_update:
  assumes "i < length xs" and "\<exists>x \<in> set xs. P x" and "P (xs ! i) \<Longrightarrow> P y"
  shows "\<exists>x \<in> set (xs[i := y]). P x"
proof -
  from assms(2) obtain j where j: "j < length xs" "P (xs ! j)" by (auto simp: in_set_conv_nth)
  then have "P (xs[i := y] ! j)" using assms(3) by (cases "i = j") simp_all
  with j(1) show ?thesis by (metis length_list_update nth_mem)
qed

end
