(* ===== verification/Amqp_Types.thy ===== *)
theory Amqp_Types
  imports Go_Base
begin

text \<open>
  The data of the library (src/types.go): messages, queue configurations, delivery options and
  statistics, and the translation of a message to and from the wire types of amqp091. A header
  or argument table is a Go map with values of type \<open>any\<close> (\<open>hval\<close>: the dynamic type is the
  constructor). The nil map of Go is not told apart from the empty one: no operation here
  observes the difference (writing to a nil map is guarded by the code everywhere).
\<close>

section \<open>Values of header and argument tables\<close>

type_synonym bytes = "8 word list"

datatype hval =
    VNil
  | VBool bool
  | VInt int
  | VInt32 int
  | VInt64 int
  | VStr string
  | VBytes bytes
  | VTime instant
  | VList "hval list"
  | VTable "(string \<times> hval) list"

type_synonym table = "(string, hval) go_map"

text \<open>\<open>maps.Copy(dst, src)\<close>: every entry of the source overwrites the one of the target.\<close>

definition maps_Copy :: "('k, 'v) go_map \<Rightarrow> ('k, 'v) go_map \<Rightarrow> ('k, 'v) go_map" where
  "maps_Copy dst src = fold (\<lambda>(k, v) m. go_put k v m) src dst"

lemma go_get_maps_Copy:
  "go_map_ok src \<Longrightarrow>
   go_get (maps_Copy dst src) k = (case go_get src k of Some v \<Rightarrow> Some v | None \<Rightarrow> go_get dst k)"
proof (induction src arbitrary: dst)
  case Nil
  then show ?case by (simp add: maps_Copy_def)
next
  case (Cons x src)
  obtain a b where x: "x = (a, b)" by (cases x)
  from Cons.prems have ok: "go_map_ok src" and a: "go_get src a = None"
    by (auto simp: go_map_ok_def x map_of_eq_None_iff)
  have "maps_Copy dst (x # src) = maps_Copy (go_put a b dst) src"
    by (simp add: maps_Copy_def x)
  with Cons.IH [OF ok, of "go_put a b dst"] a show ?case
    by (auto simp: x split: option.splits)
qed

lemma go_map_ok_maps_Copy: "go_map_ok dst \<Longrightarrow> go_map_ok (maps_Copy dst src)"
  unfolding maps_Copy_def by (induction src arbitrary: dst) auto

section \<open>Messages\<close>

definition ContentTypeJSON :: string where "ContentTypeJSON = ''application/json''"
definition ContentTypeText :: string where "ContentTypeText = ''text/plain''"

record message =
  m_Body :: bytes
  m_ContentType :: string
  m_Headers :: table
  m_Exchange :: string
  m_RoutingKey :: string
  m_Persistent :: bool
  m_MessageID :: string
  m_CorrelationID :: string
  m_ReplyTo :: string
  m_Type :: string
  m_AppID :: string
  m_UserID :: string
  m_Timestamp :: int
  m_Expiration :: string
  m_Priority :: "8 word"

text \<open>Decimal notation of a number, for the formatted strings of the code.\<close>

fun digits :: "nat \<Rightarrow> string" where
  "digits n = (if n < 10 then [char_of (48 + n)] else digits (n div 10) @ [char_of (48 + n mod 10)])"

declare digits.simps [simp del]

definition show_int :: "int \<Rightarrow> string" where
  "show_int i = (if i < 0 then ''-'' @ digits (nat (- i)) else digits (nat i))"

text \<open>
  \<open>ulid.New\<close> is third-party code: its result is the argument \<open>ulid\<close> (\<open>None\<close> when it fails),
  with the wall clock in nanoseconds for the fallback.
\<close>

definition generateMessageID :: "string option \<Rightarrow> int \<Rightarrow> string" where
  "generateMessageID ulid unixNano =
     (case ulid of Some s \<Rightarrow> s | None \<Rightarrow> ''msg-'' @ show_int unixNano)"

definition NewMessageWithID :: "bytes \<Rightarrow> string \<Rightarrow> int \<Rightarrow> message" where
  "NewMessageWithID body messageID unix =
     \<lparr>m_Body = body, m_ContentType = ContentTypeJSON, m_Headers = [], m_Exchange = [],
      m_RoutingKey = [], m_Persistent = True, m_MessageID = messageID, m_CorrelationID = [],
      m_ReplyTo = [], m_Type = [], m_AppID = [], m_UserID = [], m_Timestamp = unix,
      m_Expiration = [], m_Priority = 0\<rparr>"

definition NewMessage :: "bytes \<Rightarrow> string option \<Rightarrow> int \<Rightarrow> int \<Rightarrow> message" where
  "NewMessage body ulid unixNano unix =
     NewMessageWithID body (generateMessageID ulid unixNano) unix"

definition NewTextMessage :: "bytes \<Rightarrow> string option \<Rightarrow> int \<Rightarrow> int \<Rightarrow> message" where
  "NewTextMessage body ulid unixNano unix =
     (NewMessage body ulid unixNano unix)\<lparr>m_ContentType := ContentTypeText\<rparr>"

definition WithHeader :: "string \<Rightarrow> hval \<Rightarrow> message \<Rightarrow> message" where
  "WithHeader k v m = m\<lparr>m_Headers := go_put k v (m_Headers m)\<rparr>"

definition WithHeaders :: "table \<Rightarrow> message \<Rightarrow> message" where
  "WithHeaders hs m = m\<lparr>m_Headers := maps_Copy (m_Headers m) hs\<rparr>"

text \<open>
  \<open>Clone\<close> copies every field; the body and the header table are fresh, with the header values
  copied one by one into an empty table.
\<close>

definition Clone :: "message \<Rightarrow> message" where
  "Clone m =
     \<lparr>m_Body = m_Body m, m_ContentType = m_ContentType m,
      m_Headers = maps_Copy [] (m_Headers m), m_Exchange = m_Exchange m,
      m_RoutingKey = m_RoutingKey m, m_Persistent = m_Persistent m,
      m_MessageID = m_MessageID m, m_CorrelationID = m_CorrelationID m,
      m_ReplyTo = m_ReplyTo m, m_Type = m_Type m, m_AppID = m_AppID m, m_UserID = m_UserID m,
      m_Timestamp = m_Timestamp m, m_Expiration = m_Expiration m, m_Priority = m_Priority m\<rparr>"

text \<open>A map with every key written once is rebuilt by copying it into an empty one.\<close>

lemma maps_Copy_Nil: "go_map_ok m \<Longrightarrow> maps_Copy [] m = m"
proof -
  have put_new: "go_get d k = None \<Longrightarrow> go_put k v d = d @ [(k, v)]" for k :: 'a and v :: 'b and d
    by (induction d) (auto split: if_splits)
  have "go_map_ok (d @ m) \<Longrightarrow> maps_Copy d m = d @ m" for d :: "('a, 'b) go_map"
  proof (induction m arbitrary: d)
    case Nil
    then show ?case by (simp add: maps_Copy_def)
  next
    case (Cons x m)
    obtain a b where x: "x = (a, b)" by (cases x)
    from Cons.prems have "go_get d a = None"
      by (auto simp: go_map_ok_def x map_of_eq_None_iff)
    then have "maps_Copy d (x # m) = maps_Copy (d @ [(a, b)]) m"
      by (simp add: maps_Copy_def x put_new)
    with Cons show ?case by (simp add: x)
  qed
  from this [of "[]"] show "go_map_ok m \<Longrightarrow> maps_Copy [] m = m" by simp
qed

lemma Clone_id: "go_map_ok (m_Headers m) \<Longrightarrow> Clone m = m"
  by (cases m) (simp add: Clone_def maps_Copy_Nil)

section \<open>Publishing and delivery on the wire\<close>

text \<open>\<open>amqp.Publishing\<close> and the fields of \<open>amqp.Delivery\<close> the code reads.\<close>

record publishing =
  pub_Headers :: table
  pub_ContentType :: string
  pub_DeliveryMode :: "8 word"
  pub_Priority :: "8 word"
  pub_CorrelationId :: string
  pub_ReplyTo :: string
  pub_Expiration :: string
  pub_MessageId :: string
  pub_Timestamp :: instant
  pub_Type :: string
  pub_UserId :: string
  pub_AppId :: string
  pub_Body :: bytes

record delivery = publishing +
  dl_MessageCount :: "32 word"
  dl_DeliveryTag :: "64 word"
  dl_Redelivered :: bool
  dl_Exchange :: string
  dl_RoutingKey :: string

text \<open>\<open>time.Unix(s, 0)\<close> and \<open>t.Unix()\<close>.\<close>

definition unix_epoch :: instant where "unix_epoch = 62135596800 * second"
definition time_Unix :: "int \<Rightarrow> instant" where "time_Unix s = unix_epoch + s * second"
definition Unix_of :: "instant \<Rightarrow> int" where "Unix_of t = (t - unix_epoch) div second"

lemma Unix_of_time_Unix [simp]: "Unix_of (time_Unix s) = s"
  by (simp add: Unix_of_def time_Unix_def second_def)

definition ToAMQPPublishing :: "message \<Rightarrow> publishing" where
  "ToAMQPPublishing m =
     \<lparr>pub_Headers = m_Headers m, pub_ContentType = m_ContentType m,
      pub_DeliveryMode = (if m_Persistent m then 2 else 1), pub_Priority = m_Priority m,
      pub_CorrelationId = m_CorrelationID m, pub_ReplyTo = m_ReplyTo m,
      pub_Expiration = m_Expiration m, pub_MessageId = m_MessageID m,
      pub_Timestamp = time_Unix (m_Timestamp m), pub_Type = m_Type m, pub_UserId = m_UserID m,
      pub_AppId = m_AppID m, pub_Body = m_Body m\<rparr>"

text \<open>\<open>ToPublishing\<close>, the older conversion: defaults for the content type and the message ID.\<close>

definition ToPublishing :: "string option \<Rightarrow> int \<Rightarrow> message \<Rightarrow> publishing" where
  "ToPublishing ulid unixNano m =
     \<lparr>pub_Headers = m_Headers m,
      pub_ContentType = (if m_ContentType m = [] then ContentTypeJSON else m_ContentType m),
      pub_DeliveryMode = (if m_Persistent m then 2 else 1), pub_Priority = m_Priority m,
      pub_CorrelationId = m_CorrelationID m, pub_ReplyTo = m_ReplyTo m,
      pub_Expiration = m_Expiration m,
      pub_MessageId = (if m_MessageID m = [] then generateMessageID ulid unixNano else m_MessageID m),
      pub_Timestamp = time_Unix (m_Timestamp m), pub_Type = m_Type m, pub_UserId = m_UserID m,
      pub_AppId = m_AppID m, pub_Body = m_Body m\<rparr>"

definition FromAMQPDelivery :: "'a publishing_scheme \<Rightarrow> message" where
  "FromAMQPDelivery d =
     \<lparr>m_Body = pub_Body d, m_ContentType = pub_ContentType d, m_Headers = pub_Headers d,
      m_Exchange = [], m_RoutingKey = [], m_Persistent = (pub_DeliveryMode d = 2),
      m_MessageID = pub_MessageId d, m_CorrelationID = pub_CorrelationId d,
      m_ReplyTo = pub_ReplyTo d, m_Type = pub_Type d, m_AppID = pub_AppId d,
      m_UserID = pub_UserId d, m_Timestamp = Unix_of (pub_Timestamp d),
      m_Expiration = pub_Expiration d, m_Priority = pub_Priority d\<rparr>"

record deliveryInfo =
  di_MessageCount :: "32 word"
  di_Exchange :: string
  di_RoutingKey :: string
  di_Redelivered :: bool
  di_DeliveryTag :: "64 word"
  di_MessageID :: string
  di_CorrelationID :: string
  di_ReplyTo :: string
  di_Type :: string
  di_AppID :: string
  di_UserID :: string
  di_Timestamp :: instant
  di_ContentType :: string
  di_Priority :: "8 word"
  di_Headers :: table

definition ExtractDeliveryInfo :: "delivery \<Rightarrow> deliveryInfo" where
  "ExtractDeliveryInfo d =
     \<lparr>di_MessageCount = dl_MessageCount d, di_Exchange = dl_Exchange d,
      di_RoutingKey = dl_RoutingKey d, di_Redelivered = dl_Redelivered d,
      di_DeliveryTag = dl_DeliveryTag d, di_MessageID = pub_MessageId d,
      di_CorrelationID = pub_CorrelationId d, di_ReplyTo = pub_ReplyTo d, di_Type = pub_Type d,
      di_AppID = pub_AppId d, di_UserID = pub_UserId d, di_Timestamp = pub_Timestamp d,
      di_ContentType = pub_ContentType d, di_Priority = pub_Priority d,
      di_Headers = pub_Headers d\<rparr>"

section \<open>Validation\<close>

text \<open>
  \<open>time.ParseDuration\<close> of the standard library: a sign, then one or more numbers with an
  optional fraction and a unit. The result is the number of nanoseconds, \<open>None\<close> for an error;
  the fractional part, which Go multiplies out in floating point, is rounded down exactly.
\<close>

definition is_digit :: "char \<Rightarrow> bool" where
  "is_digit c \<longleftrightarrow> 48 \<le> (of_char c :: nat) \<and> (of_char c :: nat) \<le> 57"

definition digit_val :: "char \<Rightarrow> nat" where "digit_val c = of_char c - 48"

definition digits_val :: "string \<Rightarrow> nat" where
  "digits_val ds = fold (\<lambda>c v. 10 * v + digit_val c) ds 0"

definition unitMap :: "string \<Rightarrow> nat option" where
  "unitMap u =
     (if u = ''ns'' then Some 1 else if u = ''us'' then Some 1000
      else if u = [char_of (194::nat), char_of (181::nat), CHR ''s''] then Some 1000
      else if u = [char_of (206::nat), char_of (188::nat), CHR ''s''] then Some 1000
      else if u = ''ms'' then Some 1000000 else if u = ''s'' then Some 1000000000
      else if u = ''m'' then Some 60000000000 else if u = ''h'' then Some 3600000000000
      else None)"

function parse_units :: "string \<Rightarrow> nat \<Rightarrow> nat option" where
  "parse_units s d =
     (if s = [] then Some d
      else
        (let ds = takeWhile is_digit s; s1 = dropWhile is_digit s;
             dot = (s1 \<noteq> [] \<and> hd s1 = CHR ''.'');
             fs = (if dot then takeWhile is_digit (tl s1) else []);
             s2 = (if dot then dropWhile is_digit (tl s1) else s1);
             isunit = (\<lambda>c. c \<noteq> CHR ''.'' \<and> \<not> is_digit c);
             u = takeWhile isunit s2; s3 = dropWhile isunit s2 in
         if (ds = [] \<and> fs = []) \<or> u = [] then None
         else
           (case unitMap u of
              None \<Rightarrow> None
            | Some unit \<Rightarrow>
                (let v = digits_val ds * unit + digits_val fs * unit div 10 ^ length fs in
                 if digits_val ds > 2 ^ 63 div unit \<or> v > 2 ^ 63 \<or> d + v > 2 ^ 63 then None
                 else parse_units s3 (d + v)))))"
  by pat_completeness auto

lemma length_dropWhile_less: "takeWhile P xs \<noteq> [] \<Longrightarrow> length (dropWhile P xs) < length xs"
  by (cases xs) (auto simp: length_dropWhile_le less_Suc_eq_le split: if_splits)

lemma length_fraction_le:
  "length (if dot \<and> xs \<noteq> [] then dropWhile P (tl xs) else xs) \<le> length xs"
  by (cases xs) (auto simp: le_Suc_eq intro: order.trans [OF length_dropWhile_le])

termination parse_units
proof (relation "measure (\<lambda>(s, d). length s)", goal_cases)
  case 1
  then show ?case by simp
next
  case (2 s d ds s1 dot fs s2 isunit u s3 unit v)
  have "length s3 < length s2"
    unfolding \<open>s3 = _\<close> by (rule length_dropWhile_less) (use 2 in simp)
  also have "length s2 \<le> length s1"
    unfolding \<open>s2 = _\<close> \<open>dot = _\<close> using length_fraction_le [of "hd s1 = CHR ''.''" s1 is_digit]
    by (simp add: conj_commute)
  also have "length s1 \<le> length s" unfolding \<open>s1 = _\<close> by (rule length_dropWhile_le)
  finally show ?case by simp
qed

definition parse_sign :: "string \<Rightarrow> bool \<times> string" where
  "parse_sign s =
     (case s of [] \<Rightarrow> (False, [])
      | c # cs \<Rightarrow> if c = CHR ''-'' then (True, cs) else if c = CHR ''+'' then (False, cs) else (False, s))"

definition ParseDuration :: "string \<Rightarrow> duration option" where
  "ParseDuration s0 =
     (let (neg, s) = parse_sign s0 in
      if s = ''0'' then Some 0
      else if s = [] then None
      else case parse_units s 0 of
             None \<Rightarrow> None
           | Some d \<Rightarrow>
               if neg then Some (- int d) else if d > 2 ^ 63 - 1 then None else Some (int d))"

datatype validate_error = EmptyBody | EmptyContentType | InvalidExpiration string

definition Validate :: "message \<Rightarrow> validate_error option" where
  "Validate m =
     (if length (m_Body m) = 0 then Some EmptyBody
      else if m_ContentType m = [] then Some EmptyContentType
      else if m_Expiration m \<noteq> [] \<and> ParseDuration (m_Expiration m @ ''ms'') = None
           then Some (InvalidExpiration (m_Expiration m))
      else None)"

section \<open>Queues\<close>

datatype queueType = QueueTypeClassic | QueueTypeQuorum | QueueTypeStream | QueueTypeOther string

record queueConfig =
  qc_Name :: string
  qc_Durable :: bool
  qc_AutoDelete :: bool
  qc_Exclusive :: bool
  qc_NoWait :: bool
  qc_Arguments :: table
  qc_QueueType :: queueType
  qc_HighAvailability :: bool
  qc_ReplicationFactor :: int
  qc_MaxLength :: int
  qc_MaxLengthBytes :: int
  qc_MessageTTL :: int
  qc_DeadLetterExchange :: string
  qc_DeadLetterRoutingKey :: string

definition DefaultQuorumQueueConfig :: "string \<Rightarrow> queueConfig" where
  "DefaultQuorumQueueConfig name =
     \<lparr>qc_Name = name, qc_Durable = True, qc_AutoDelete = False, qc_Exclusive = False,
      qc_NoWait = False, qc_Arguments = [], qc_QueueType = QueueTypeQuorum,
      qc_HighAvailability = False, qc_ReplicationFactor = 3, qc_MaxLength = 0,
      qc_MaxLengthBytes = 0, qc_MessageTTL = 0, qc_DeadLetterExchange = [],
      qc_DeadLetterRoutingKey = []\<rparr>"

definition DefaultHAQueueConfig :: "string \<Rightarrow> queueConfig" where
  "DefaultHAQueueConfig name =
     \<lparr>qc_Name = name, qc_Durable = True, qc_AutoDelete = False, qc_Exclusive = False,
      qc_NoWait = False, qc_Arguments = [], qc_QueueType = QueueTypeClassic,
      qc_HighAvailability = True, qc_ReplicationFactor = 0, qc_MaxLength = 0,
      qc_MaxLengthBytes = 0, qc_MessageTTL = 0, qc_DeadLetterExchange = [],
      qc_DeadLetterRoutingKey = []\<rparr>"

definition DefaultClassicQueueConfig :: "string \<Rightarrow> queueConfig" where
  "DefaultClassicQueueConfig name =
     \<lparr>qc_Name = name, qc_Durable = True, qc_AutoDelete = False, qc_Exclusive = False,
      qc_NoWait = False, qc_Arguments = [], qc_QueueType = QueueTypeClassic,
      qc_HighAvailability = False, qc_ReplicationFactor = 0, qc_MaxLength = 0,
      qc_MaxLengthBytes = 0, qc_MessageTTL = 0, qc_DeadLetterExchange = [],
      qc_DeadLetterRoutingKey = []\<rparr>"

text \<open>A write to the arguments map under a condition.\<close>

definition put_if :: "bool \<Rightarrow> string \<Rightarrow> hval \<Rightarrow> table \<Rightarrow> table" where
  "put_if b k v m = (if b then go_put k v m else m)"

lemma go_get_put_if [simp]:
  "go_get (put_if b k v m) k' = (if b \<and> k' = k then Some v else go_get m k')"
  by (simp add: put_if_def)

lemma go_map_ok_put_if [simp]: "go_map_ok m \<Longrightarrow> go_map_ok (put_if b k v m)"
  by (simp add: put_if_def)

definition ToArguments_type :: "queueConfig \<Rightarrow> table \<Rightarrow> table" where
  "ToArguments_type q args =
     (case qc_QueueType q of
        QueueTypeQuorum \<Rightarrow>
          put_if (qc_ReplicationFactor q > 0) ''x-quorum-initial-group-size''
            (VInt (qc_ReplicationFactor q)) (go_put ''x-queue-type'' (VStr ''quorum'') args)
      | QueueTypeStream \<Rightarrow> go_put ''x-queue-type'' (VStr ''stream'') args
      | QueueTypeClassic \<Rightarrow>
          put_if (qc_HighAvailability q) ''x-ha-sync-mode'' (VStr ''automatic'')
            (put_if (qc_HighAvailability q) ''x-ha-policy'' (VStr ''all'') args)
      | QueueTypeOther s \<Rightarrow> args)"

definition ToArguments :: "queueConfig \<Rightarrow> table" where
  "ToArguments q =
     (let args = ToArguments_type q (maps_Copy [] (qc_Arguments q));
          args = put_if (qc_MaxLength q > 0) ''x-max-length'' (VInt (qc_MaxLength q)) args;
          args = put_if (qc_MaxLengthBytes q > 0) ''x-max-length-bytes''
                   (VInt (qc_MaxLengthBytes q)) args;
          args = put_if (qc_MessageTTL q > 0) ''x-message-ttl'' (VInt (qc_MessageTTL q)) args;
          args = put_if (qc_DeadLetterExchange q \<noteq> []) ''x-dead-letter-exchange''
                   (VStr (qc_DeadLetterExchange q)) args
      in put_if (qc_DeadLetterExchange q \<noteq> [] \<and> qc_DeadLetterRoutingKey q \<noteq> [])
           ''x-dead-letter-routing-key'' (VStr (qc_DeadLetterRoutingKey q)) args)"

definition WithoutDeadLetter :: "queueConfig \<Rightarrow> queueConfig" where
  "WithoutDeadLetter q = q\<lparr>qc_DeadLetterExchange := [], qc_DeadLetterRoutingKey := []\<rparr>"

definition WithCustomDeadLetter :: "string \<Rightarrow> string \<Rightarrow> queueConfig \<Rightarrow> queueConfig" where
  "WithCustomDeadLetter dlxName routingKey q =
     q\<lparr>qc_DeadLetterExchange := dlxName, qc_DeadLetterRoutingKey := routingKey\<rparr>"

section \<open>Delivery assurance\<close>

datatype deliveryOutcome = DeliverySuccess | DeliveryFailed | DeliveryNacked | DeliveryTimeout

text \<open>A callback is identified by a number; calling it is an entry of the publisher's log.\<close>

type_synonym callback = nat

record deliveryOptions =
  do_MessageID :: string
  do_Mandatory :: bool
  do_Callback :: "callback option"
  do_Timeout :: duration

record deliveryStats =
  st_TotalPublished :: int
  st_TotalConfirmed :: int
  st_TotalReturned :: int
  st_TotalNacked :: int
  st_TotalTimedOut :: int
  st_TotalOrphaned :: int
  st_PendingMessages :: int
  st_LastConfirmation :: instant
  st_LastReturn :: instant
  st_LastNack :: instant

section \<open>What the types promise\<close>

text \<open>Publishing a message and reading it back from the delivery gives the message again,
  except for its exchange and routing key, which travel outside of the properties.\<close>

lemma publishing_roundtrip:
  "FromAMQPDelivery (ToAMQPPublishing m) = m\<lparr>m_Exchange := [], m_RoutingKey := []\<rparr>"
  by (cases m) (simp add: FromAMQPDelivery_def ToAMQPPublishing_def)

end
