(* ===== verification/Pending_Map.thy ===== *)
theory Pending_Map
  imports Go_Base
begin

unbundle bit_operations_syntax

text \<open>
  The sharded map of messages awaiting a confirmation (src/pending_map.go). Every operation
  of the Go type locks the shards it touches, so each is one atomic step here. The interface
  the publisher relies on is the locale \<open>pending_store\<close>: a map by message ID and a map by
  delivery key, kept together by \<open>Store\<close> and \<open>Delete\<close>; the interpretation at the end shows
  that the sharded representation provides it.
\<close>

section \<open>The sharded representation\<close>

definition numShards :: nat where "numShards = 32"

record 'v pendingShard =
  byMessageID :: "(string, 'v) go_map"
  byDeliveryTag :: "(64 word, 'v) go_map"

text \<open>The array \<open>[numShards]pendingShard\<close> as a function of the index.\<close>

type_synonym 'v shardedPendingMap = "nat \<Rightarrow> 'v pendingShard"

definition newShardedPendingMap :: "'v shardedPendingMap" where
  "newShardedPendingMap = (\<lambda>i. \<lparr>byMessageID = [], byDeliveryTag = []\<rparr>)"

text \<open>FNV-1a with 32 bits (\<open>hash/fnv\<close>): xor a byte in, multiply by the prime.\<close>

definition fnv32a :: "string \<Rightarrow> 32 word" where
  "fnv32a s = fold (\<lambda>c h. (h XOR of_char c) * 16777619) s 2166136261"

definition getShard :: "string \<Rightarrow> nat" where
  "getShard messageID = unat (fnv32a messageID) mod numShards"

definition getShardByDeliveryTag :: "64 word \<Rightarrow> nat" where
  "getShardByDeliveryTag deliveryTag = unat deliveryTag mod numShards"

text \<open>
  \<open>Store\<close> rejects a message ID that is already present. When both shards are the same one
  the two maps are written under one lock, otherwise under both.
\<close>

definition Store ::
  "string \<Rightarrow> 64 word \<Rightarrow> 'v \<Rightarrow> 'v shardedPendingMap \<Rightarrow> bool \<times> 'v shardedPendingMap" where
  "Store messageID deliveryTag pending m =
     (let msgShard = getShard messageID; tagShard = getShardByDeliveryTag deliveryTag in
      if msgShard = tagShard then
        (case go_get (byMessageID (m msgShard)) messageID of
           Some _ \<Rightarrow> (False, m)
         | None \<Rightarrow>
             (True, m(msgShard := (m msgShard)
                \<lparr>byMessageID := go_put messageID pending (byMessageID (m msgShard)),
                 byDeliveryTag := go_put deliveryTag pending (byDeliveryTag (m msgShard))\<rparr>)))
      else
        (case go_get (byMessageID (m msgShard)) messageID of
           Some _ \<Rightarrow> (False, m)
         | None \<Rightarrow>
             (let m1 = m(msgShard := (m msgShard)
                \<lparr>byMessageID := go_put messageID pending (byMessageID (m msgShard))\<rparr>) in
              (True, m1(tagShard := (m1 tagShard)
                \<lparr>byDeliveryTag := go_put deliveryTag pending (byDeliveryTag (m1 tagShard))\<rparr>)))))"

definition LoadByMessageID :: "'v shardedPendingMap \<Rightarrow> string \<Rightarrow> 'v option" where
  "LoadByMessageID m messageID = go_get (byMessageID (m (getShard messageID))) messageID"

definition LoadByDeliveryTag :: "'v shardedPendingMap \<Rightarrow> 64 word \<Rightarrow> 'v option" where
  "LoadByDeliveryTag m deliveryTag =
     go_get (byDeliveryTag (m (getShardByDeliveryTag deliveryTag))) deliveryTag"

definition Delete :: "string \<Rightarrow> 64 word \<Rightarrow> 'v shardedPendingMap \<Rightarrow> 'v shardedPendingMap" where
  "Delete messageID deliveryTag m =
     (let msgShard = getShard messageID; tagShard = getShardByDeliveryTag deliveryTag in
      if msgShard = tagShard then
        m(msgShard := (m msgShard)
           \<lparr>byMessageID := go_delete messageID (byMessageID (m msgShard)),
            byDeliveryTag := go_delete deliveryTag (byDeliveryTag (m msgShard))\<rparr>)
      else
        (let m1 = m(msgShard := (m msgShard)
           \<lparr>byMessageID := go_delete messageID (byMessageID (m msgShard))\<rparr>) in
         m1(tagShard := (m1 tagShard)
           \<lparr>byDeliveryTag := go_delete deliveryTag (byDeliveryTag (m1 tagShard))\<rparr>)))"

definition Count :: "'v shardedPendingMap \<Rightarrow> nat" where
  "Count m = (\<Sum>i\<leftarrow>[0..<numShards]. length (byMessageID (m i)))"

text \<open>The entries \<open>Range\<close> visits, shard by shard; every caller collects or counts them all.\<close>

definition Range_entries :: "'v shardedPendingMap \<Rightarrow> (string \<times> 'v) list" where
  "Range_entries m = concat (map (\<lambda>i. byMessageID (m i)) [0..<numShards])"

section \<open>Writing one of the two maps\<close>

definition putID :: "string \<Rightarrow> 'v \<Rightarrow> 'v shardedPendingMap \<Rightarrow> 'v shardedPendingMap" where
  "putID i v m = m(getShard i := (m (getShard i))
     \<lparr>byMessageID := go_put i v (byMessageID (m (getShard i)))\<rparr>)"

definition putTag :: "64 word \<Rightarrow> 'v \<Rightarrow> 'v shardedPendingMap \<Rightarrow> 'v shardedPendingMap" where
  "putTag k v m = m(getShardByDeliveryTag k := (m (getShardByDeliveryTag k))
     \<lparr>byDeliveryTag := go_put k v (byDeliveryTag (m (getShardByDeliveryTag k)))\<rparr>)"

definition delID :: "string \<Rightarrow> 'v shardedPendingMap \<Rightarrow> 'v shardedPendingMap" where
  "delID i m = m(getShard i := (m (getShard i))
     \<lparr>byMessageID := go_delete i (byMessageID (m (getShard i)))\<rparr>)"

definition delTag :: "64 word \<Rightarrow> 'v shardedPendingMap \<Rightarrow> 'v shardedPendingMap" where
  "delTag k m = m(getShardByDeliveryTag k := (m (getShardByDeliveryTag k))
     \<lparr>byDeliveryTag := go_delete k (byDeliveryTag (m (getShardByDeliveryTag k)))\<rparr>)"

lemma Load_put:
  "LoadByMessageID (putID i v m) j = (if j = i then Some v else LoadByMessageID m j)"
  "LoadByDeliveryTag (putID i v m) l = LoadByDeliveryTag m l"
  "LoadByMessageID (putTag k v m) j = LoadByMessageID m j"
  "LoadByDeliveryTag (putTag k v m) l = (if l = k then Some v else LoadByDeliveryTag m l)"
  by (auto simp: putID_def putTag_def LoadByMessageID_def LoadByDeliveryTag_def)

lemma Load_del:
  "LoadByMessageID (delID i m) j = (if j = i then None else LoadByMessageID m j)"
  "LoadByDeliveryTag (delID i m) l = LoadByDeliveryTag m l"
  "LoadByMessageID (delTag k m) j = LoadByMessageID m j"
  "LoadByDeliveryTag (delTag k m) l = (if l = k then None else LoadByDeliveryTag m l)"
  by (auto simp: delID_def delTag_def LoadByMessageID_def LoadByDeliveryTag_def)

section \<open>Well-formedness\<close>

text \<open>Go maps have no duplicate keys, and every entry is in the shard its key hashes to.\<close>

definition shard_ok :: "nat \<Rightarrow> 'v pendingShard \<Rightarrow> bool" where
  "shard_ok i sh \<longleftrightarrow>
     go_map_ok (byMessageID sh) \<and> go_map_ok (byDeliveryTag sh) \<and>
     (\<forall>k. go_get (byMessageID sh) k \<noteq> None \<longrightarrow> getShard k = i) \<and>
     (\<forall>k. go_get (byDeliveryTag sh) k \<noteq> None \<longrightarrow> getShardByDeliveryTag k = i)"

definition pending_ok :: "'v shardedPendingMap \<Rightarrow> bool" where
  "pending_ok m \<longleftrightarrow> (\<forall>i. shard_ok i (m i))"

lemma pending_okD: "pending_ok m \<Longrightarrow> shard_ok i (m i)"
  by (simp add: pending_ok_def)

lemma pending_ok_upd: "pending_ok m \<Longrightarrow> shard_ok i sh \<Longrightarrow> pending_ok (m(i := sh))"
  by (simp add: pending_ok_def)

lemma shard_ok_id_put:
  "shard_ok i sh \<Longrightarrow> getShard k = i \<Longrightarrow>
   shard_ok i (sh\<lparr>byMessageID := go_put k v (byMessageID sh)\<rparr>)"
  by (simp add: shard_ok_def)

lemma shard_ok_tag_put:
  "shard_ok i sh \<Longrightarrow> getShardByDeliveryTag k = i \<Longrightarrow>
   shard_ok i (sh\<lparr>byDeliveryTag := go_put k v (byDeliveryTag sh)\<rparr>)"
  by (simp add: shard_ok_def)

lemma shard_ok_id_delete:
  "shard_ok i sh \<Longrightarrow> shard_ok i (sh\<lparr>byMessageID := go_delete k (byMessageID sh)\<rparr>)"
  by (simp add: shard_ok_def)

lemma shard_ok_tag_delete:
  "shard_ok i sh \<Longrightarrow> shard_ok i (sh\<lparr>byDeliveryTag := go_delete k (byDeliveryTag sh)\<rparr>)"
  by (simp add: shard_ok_def)

lemma getShard_less: "getShard k < numShards"
  by (simp add: getShard_def numShards_def)

lemma getShardByDeliveryTag_less: "getShardByDeliveryTag k < numShards"
  by (simp add: getShardByDeliveryTag_def numShards_def)

lemma pending_ok_new: "pending_ok newShardedPendingMap"
  by (simp add: pending_ok_def shard_ok_def newShardedPendingMap_def)

text \<open>
  Whether the two keys share a shard only decides under how many locks the two maps are
  written: the resulting map is the same two updates.
\<close>

lemma Store_unfold:
  "Store i k v m =
     (if LoadByMessageID m i \<noteq> None then (False, m)
      else (True, putTag k v (putID i v m)))"
  by (auto simp: Store_def Let_def LoadByMessageID_def putID_def putTag_def split: option.splits)

lemma Delete_unfold: "Delete i k m = delTag k (delID i m)"
  by (simp add: Delete_def Let_def delID_def delTag_def)

lemma pending_ok_Store: "pending_ok m \<Longrightarrow> pending_ok (snd (Store i k v m))"
  by (simp add: Store_unfold putID_def putTag_def pending_ok_upd shard_ok_id_put
      shard_ok_tag_put pending_okD)

lemma pending_ok_Delete: "pending_ok m \<Longrightarrow> pending_ok (Delete i k m)"
  by (simp add: Delete_unfold delID_def delTag_def pending_ok_upd shard_ok_id_delete
      shard_ok_tag_delete pending_okD)

section \<open>The laws\<close>

lemma Load_new:
  "LoadByMessageID newShardedPendingMap i = None"
  "LoadByDeliveryTag newShardedPendingMap k = None"
  by (simp_all add: LoadByMessageID_def LoadByDeliveryTag_def newShardedPendingMap_def)

lemma Store_rejects: "fst (Store i k v m) \<longleftrightarrow> LoadByMessageID m i = None"
  by (simp add: Store_unfold)

lemma Store_rejected: "LoadByMessageID m i \<noteq> None \<Longrightarrow> snd (Store i k v m) = m"
  by (simp add: Store_unfold)

lemma LoadByMessageID_Store:
  "LoadByMessageID m i = None \<Longrightarrow>
   LoadByMessageID (snd (Store i k v m)) j = (if j = i then Some v else LoadByMessageID m j)"
  by (simp add: Store_unfold Load_put)

lemma LoadByDeliveryTag_Store:
  "LoadByMessageID m i = None \<Longrightarrow>
   LoadByDeliveryTag (snd (Store i k v m)) l = (if l = k then Some v else LoadByDeliveryTag m l)"
  by (simp add: Store_unfold Load_put)

lemma LoadByMessageID_Delete:
  "LoadByMessageID (Delete i k m) j = (if j = i then None else LoadByMessageID m j)"
  by (simp add: Delete_unfold Load_del)

lemma LoadByDeliveryTag_Delete:
  "LoadByDeliveryTag (Delete i k m) l = (if l = k then None else LoadByDeliveryTag m l)"
  by (simp add: Delete_unfold Load_del)

lemma Range_entries_iff:
  assumes "pending_ok m"
  shows "(i, v) \<in> set (Range_entries m) \<longleftrightarrow> LoadByMessageID m i = Some v"
proof
  assume "(i, v) \<in> set (Range_entries m)"
  then obtain s where "(i, v) \<in> set (byMessageID (m s))"
    by (auto simp: Range_entries_def)
  moreover have ok: "shard_ok s (m s)" using assms by (rule pending_okD)
  ultimately have g: "go_get (byMessageID (m s)) i = Some v"
    by (simp add: shard_ok_def go_get_iff)
  with ok have "getShard i = s" by (simp add: shard_ok_def)
  with g show "LoadByMessageID m i = Some v" by (simp add: LoadByMessageID_def)
next
  assume "LoadByMessageID m i = Some v"
  then have "(i, v) \<in> set (byMessageID (m (getShard i)))"
    by (simp add: LoadByMessageID_def map_of_SomeD)
  then show "(i, v) \<in> set (Range_entries m)"
    using getShard_less [of i] by (auto simp: Range_entries_def)
qed

lemma Count_eq: "Count m = length (Range_entries m)"
  by (simp add: Count_def Range_entries_def length_concat comp_def)

section \<open>The interface the publisher relies on\<close>

text \<open>
  \<open>indexed\<close>: the two maps hold the same entries, each under the message ID and the delivery
  key that the entry itself carries.
\<close>

definition indexed ::
  "('m \<Rightarrow> 'i \<Rightarrow> 'a option) \<Rightarrow> ('m \<Rightarrow> 'k \<Rightarrow> 'a option) \<Rightarrow> ('a \<Rightarrow> 'i) \<Rightarrow> ('a \<Rightarrow> 'k) \<Rightarrow> 'm \<Rightarrow> bool"
  where
  "indexed load_id load_key idf keyf m \<longleftrightarrow>
     (\<forall>i a. load_id m i = Some a \<longrightarrow> idf a = i \<and> load_key m (keyf a) = Some a) \<and>
     (\<forall>k a. load_key m k = Some a \<longrightarrow> keyf a = k \<and> load_id m (idf a) = Some a)"

lemma indexedI:
  assumes "\<And>i a. load_id m i = Some a \<Longrightarrow> idf a = i \<and> load_key m (keyf a) = Some a"
    and "\<And>k a. load_key m k = Some a \<Longrightarrow> keyf a = k \<and> load_id m (idf a) = Some a"
  shows "indexed load_id load_key idf keyf m"
  using assms by (simp add: indexed_def)

lemma indexed_idD:
  "indexed load_id load_key idf keyf m \<Longrightarrow> load_id m i = Some a \<Longrightarrow>
   idf a = i \<and> load_key m (keyf a) = Some a"
  by (simp add: indexed_def)

lemma indexed_keyD:
  "indexed load_id load_key idf keyf m \<Longrightarrow> load_key m k = Some a \<Longrightarrow>
   keyf a = k \<and> load_id m (idf a) = Some a"
  by (simp add: indexed_def)

locale pending_store =
  fixes empty :: "'m"
    and store :: "'i \<Rightarrow> 'k \<Rightarrow> 'a \<Rightarrow> 'm \<Rightarrow> bool \<times> 'm"
    and load_id :: "'m \<Rightarrow> 'i \<Rightarrow> 'a option"
    and load_key :: "'m \<Rightarrow> 'k \<Rightarrow> 'a option"
    and delete :: "'i \<Rightarrow> 'k \<Rightarrow> 'm \<Rightarrow> 'm"
    and entries :: "'m \<Rightarrow> ('i \<times> 'a) list"
    and ok :: "'m \<Rightarrow> bool"
  assumes load_empty: "load_id empty i = None" "load_key empty k = None"
    and store_fst: "fst (store i k a m) \<longleftrightarrow> load_id m i = None"
    and store_dup: "load_id m i \<noteq> None \<Longrightarrow> snd (store i k a m) = m"
    and load_id_store:
      "load_id m i = None \<Longrightarrow> load_id (snd (store i k a m)) j = (if j = i then Some a else load_id m j)"
    and load_key_store:
      "load_id m i = None \<Longrightarrow> load_key (snd (store i k a m)) l = (if l = k then Some a else load_key m l)"
    and load_id_delete: "load_id (delete i k m) j = (if j = i then None else load_id m j)"
    and load_key_delete: "load_key (delete i k m) l = (if l = k then None else load_key m l)"
    and ok_empty: "ok empty"
    and ok_store: "ok m \<Longrightarrow> ok (snd (store i k a m))"
    and ok_delete: "ok m \<Longrightarrow> ok (delete i k m)"
    and entries_iff: "ok m \<Longrightarrow> (i, a) \<in> set (entries m) \<longleftrightarrow> load_id m i = Some a"
begin

lemma indexed_empty: "indexed load_id load_key idf keyf empty"
  by (simp add: indexed_def load_empty)

lemma indexed_store:
  assumes ix: "indexed load_id load_key idf keyf m"
    and i: "load_id m (idf a) = None" and k: "load_key m (keyf a) = None"
  shows "indexed load_id load_key idf keyf (snd (store (idf a) (keyf a) a m))"
proof (rule indexedI)
  note st = load_id_store [OF i, where k = "keyf a" and a = a]
    load_key_store [OF i, where k = "keyf a" and a = a]
  fix j b assume *: "load_id (snd (store (idf a) (keyf a) a m)) j = Some b"
  show "idf b = j \<and> load_key (snd (store (idf a) (keyf a) a m)) (keyf b) = Some b"
  proof (cases "j = idf a")
    case True
    with * st(1) [of j] have "b = a" by simp
    with True show ?thesis by (simp add: st(2))
  next
    case False
    with * st(1) [of j] have "load_id m j = Some b" by simp
    note b = indexed_idD [OF ix this]
    with k have "keyf b \<noteq> keyf a" by force
    with b show ?thesis by (simp add: st(2))
  qed
next
  note st = load_id_store [OF i, where k = "keyf a" and a = a]
    load_key_store [OF i, where k = "keyf a" and a = a]
  fix l b assume *: "load_key (snd (store (idf a) (keyf a) a m)) l = Some b"
  show "keyf b = l \<and> load_id (snd (store (idf a) (keyf a) a m)) (idf b) = Some b"
  proof (cases "l = keyf a")
    case True
    with * st(2) [of l] have "b = a" by simp
    with True show ?thesis by (simp add: st(1))
  next
    case False
    with * st(2) [of l] have "load_key m l = Some b" by simp
    note b = indexed_keyD [OF ix this]
    with i have "idf b \<noteq> idf a" by force
    with b show ?thesis by (simp add: st(1))
  qed
qed

lemma indexed_delete:
  assumes ix: "indexed load_id load_key idf keyf m" and a: "load_key m (keyf a) = Some a"
  shows "indexed load_id load_key idf keyf (delete (idf a) (keyf a) m)"
proof (rule indexedI)
  fix i b assume "load_id (delete (idf a) (keyf a) m) i = Some b"
  then have i: "i \<noteq> idf a" and "load_id m i = Some b"
    by (simp_all add: load_id_delete split: if_splits)
  note b = indexed_idD [OF ix this(2)]
  have "keyf b \<noteq> keyf a"
  proof
    assume "keyf b = keyf a"
    with a b have "b = a" by simp
    with b i show False by simp
  qed
  with b show "idf b = i \<and> load_key (delete (idf a) (keyf a) m) (keyf b) = Some b"
    by (simp add: load_key_delete)
next
  fix k b assume "load_key (delete (idf a) (keyf a) m) k = Some b"
  then have k: "k \<noteq> keyf a" and "load_key m k = Some b"
    by (simp_all add: load_key_delete split: if_splits)
  note b = indexed_keyD [OF ix this(2)] and ia = indexed_keyD [OF ix a]
  have "idf b \<noteq> idf a"
  proof
    assume "idf b = idf a"
    with ia b have "b = a" by simp
    with b k show False by simp
  qed
  with b show "keyf b = k \<and> load_id (delete (idf a) (keyf a) m) (idf b) = Some b"
    by (simp add: load_id_delete)
qed

lemma load_key_delete_other:
  assumes "indexed load_id load_key idf keyf m"
    and "load_key m (keyf a) = Some a" and "load_key m (keyf b) = Some b" and "b \<noteq> a"
  shows "load_key (delete (idf a) (keyf a) m) (keyf b) = Some b"
proof -
  have "keyf b \<noteq> keyf a" using assms(2-4) by force
  with assms(3) show ?thesis by (simp add: load_key_delete)
qed

lemma entries_indexed:
  assumes "ok m" and "indexed load_id load_key idf keyf m" and "load_key m (keyf a) = Some a"
  shows "a \<in> snd ` set (entries m)"
proof -
  from indexed_keyD [OF assms(2,3)] have "load_id m (idf a) = Some a" by simp
  with assms(1) have "(idf a, a) \<in> set (entries m)" by (simp add: entries_iff)
  then show ?thesis by force
qed

end

interpretation pmap: pending_store newShardedPendingMap Store LoadByMessageID LoadByDeliveryTag
  Delete Range_entries pending_ok
  by unfold_locales
    (auto simp: Load_new Store_rejects Store_rejected LoadByMessageID_Store LoadByDeliveryTag_Store
      LoadByMessageID_Delete LoadByDeliveryTag_Delete pending_ok_new pending_ok_Store
      pending_ok_Delete Range_entries_iff)

end
