(* ===== verification/Delivery_Model.thy ===== *)
theory Delivery_Model
  imports Amqp_Types Pending_Map
begin

text \<open>
  The delivery-assurance machinery of the publisher (src/publisher.go, with the health
  bookkeeping of src/publisher_health.go): the confirm-channel generations, the registration
  of a message together with its publish, the readers' handlers, the timers, the automatic
  retries and \<open>Close\<close>. A handler runs under the mutex of the message it works on, so each is
  one function on the publisher's state; \<open>publishTracked\<close>, which holds \<open>publishMu\<close> across a
  blocking send, is split at the points where it releases the message. The step relation at
  the end lets the handlers, timers, goroutines, publishes and channel events interleave in
  every order.
\<close>

section \<open>State\<close>

text \<open>Pending messages are heap objects shared by the map, timers and goroutines.\<close>

type_synonym addr = nat

text \<open>The reasons given to callbacks, one constructor per format string of the code.\<close>

datatype errorMessage =
    NoErrorMessage
  | NegativelyAcknowledged
  | MessageReturned string int
  | ConfirmChannelClosed string
  | ConfirmationTimeoutAfter duration
  | NackedAfterRetries int
  | RetryFailedWith string

text \<open>A timer of \<open>time.AfterFunc\<close>: what it runs, and when.\<close>

datatype timer_func = RunTimeout "64 word" | RunGrace

type_synonym timer = "timer_func \<times> instant"

record pendingMessage =
  pm_MessageID :: string
  pm_PublishedAt :: instant
  pm_Callback :: "callback option"
  pm_TimeoutTimer :: "timer option"
  pm_key :: "64 word"
  pm_brokerTag :: "64 word"
  pm_generation :: "64 word"
  pm_timeout :: duration
  pm_inFlight :: bool
  pm_orphanDeferred :: bool
  pm_orphanReason :: string
  pm_timeoutDeferred :: bool
  pm_Exchange :: string
  pm_RoutingKey :: string
  pm_Mandatory :: bool
  pm_OriginalMessage :: "message option"
  pm_RetryCount :: int
  pm_RetryOptions :: deliveryOptions
  pm_Confirmed :: bool
  pm_Returned :: bool
  pm_ReturnReason :: errorMessage
  pm_Nacked :: bool
  pm_CallbackFired :: bool
  pm_FinalOutcome :: "deliveryOutcome option"
  pm_FinalError :: errorMessage

text \<open>\<open>attempt\<close>: a fresh entry for one publish attempt of the message described by a template.\<close>

definition attempt :: "pendingMessage \<Rightarrow> pendingMessage" where
  "attempt m =
     \<lparr>pm_MessageID = pm_MessageID m, pm_PublishedAt = pm_PublishedAt m,
      pm_Callback = pm_Callback m, pm_TimeoutTimer = None, pm_key = 0, pm_brokerTag = 0,
      pm_generation = 0, pm_timeout = pm_timeout m, pm_inFlight = False,
      pm_orphanDeferred = False, pm_orphanReason = [], pm_timeoutDeferred = False,
      pm_Exchange = pm_Exchange m, pm_RoutingKey = pm_RoutingKey m,
      pm_Mandatory = pm_Mandatory m, pm_OriginalMessage = pm_OriginalMessage m,
      pm_RetryCount = pm_RetryCount m, pm_RetryOptions = pm_RetryOptions m,
      pm_Confirmed = False, pm_Returned = False, pm_ReturnReason = NoErrorMessage,
      pm_Nacked = False, pm_CallbackFired = False, pm_FinalOutcome = None,
      pm_FinalError = NoErrorMessage\<rparr>"

text \<open>
  One incarnation of the confirm channel. \<open>cg_chClosed\<close> is \<open>ch.IsClosed()\<close>; the reason queued
  in \<open>closes\<close> is present when the broker or the connection gave one.
\<close>

record confirmGeneration =
  cg_published :: "64 word"
  cg_dead :: bool
  cg_chClosed :: bool
  cg_closes :: "string option"
  cg_returnsDone :: bool
  cg_confirmsDone :: bool
  cg_since :: instant

record publisherConfig =
  cf_mandatoryGracePeriod :: duration
  cf_deliveryTimeout :: duration
  cf_enableAutomaticRetries :: bool
  cf_maxRetryAttempts :: int
  cf_retryDelay :: duration

text \<open>
  The goroutines that are scheduled but have not run: fired timers, the retries and the final
  step of \<open>finishAsync\<close>, and the orphans a sweep has collected and not settled yet.
\<close>

datatype goroutine =
    GTimeout "64 word"
  | GGrace addr
  | GOrphan addr string
  | GFinish addr string "64 word" "callback option" deliveryOutcome errorMessage
  | GRetry addr
  | GRetrySleep addr string "64 word"
  | GRepublish addr

text \<open>
  What the outside observes: callbacks invoked, \<open>publishTracked\<close> returning an error or nil, a
  retry handing its message over to a new attempt, and a message dropped without a callback.
\<close>

datatype event =
    Called addr callback string deliveryOutcome errorMessage
  | Refused addr
  | Accepted addr
  | HandedOver addr addr
  | Dropped addr

text \<open>
  Where the publish that holds \<open>publishMu\<close> is: blocked in the send, or past it with the values
  of \<open>deferred\<close>, \<open>reason\<close> and \<open>deferredTimeout\<close> it has read and the channel's own tag. The
  second component of each is the message a retry republishes.
\<close>

datatype publishing_phase =
    Idle
  | Sending addr "addr option"
  | Settling addr "addr option" bool string bool "64 word option"

record publisher =
  pb_config :: publisherConfig
  pb_heap :: "addr \<Rightarrow> pendingMessage"
  pb_next :: addr
  pb_pendingMessages :: "addr shardedPendingMap"
  pb_genCounter :: "64 word"
  pb_gens :: "64 word \<Rightarrow> confirmGeneration"
  pb_confirmGen :: "64 word"
  pb_phase :: publishing_phase
  pb_closed :: bool
  pb_stats :: deliveryStats
  pb_now :: instant
  pb_startedAt :: instant
  pb_lastPublishOff :: duration
  pb_lastResponseOff :: duration
  pb_failuresSinceResponse :: int
  pb_lastErr :: errorMessage
  pb_lastErrAt :: instant
  pb_goroutines :: "goroutine multiset"
  pb_log :: "event list"

text \<open>Updates of one message, of the statistics and of one generation.\<close>

definition upd_pm :: "addr \<Rightarrow> (pendingMessage \<Rightarrow> pendingMessage) \<Rightarrow> publisher \<Rightarrow> publisher" where
  "upd_pm a f s = s\<lparr>pb_heap := (pb_heap s)(a := f (pb_heap s a))\<rparr>"

definition upd_stats :: "(deliveryStats \<Rightarrow> deliveryStats) \<Rightarrow> publisher \<Rightarrow> publisher" where
  "upd_stats f s = s\<lparr>pb_stats := f (pb_stats s)\<rparr>"

definition upd_gen ::
  "64 word \<Rightarrow> (confirmGeneration \<Rightarrow> confirmGeneration) \<Rightarrow> publisher \<Rightarrow> publisher" where
  "upd_gen g f s = s\<lparr>pb_gens := (pb_gens s)(g := f (pb_gens s g))\<rparr>"

definition go :: "goroutine \<Rightarrow> publisher \<Rightarrow> publisher" where
  "go t s = s\<lparr>pb_goroutines := add_mset t (pb_goroutines s)\<rparr>"

definition emit :: "event \<Rightarrow> publisher \<Rightarrow> publisher" where
  "emit e s = s\<lparr>pb_log := e # pb_log s\<rparr>"

definition map_Delete :: "string \<Rightarrow> 64 word \<Rightarrow> publisher \<Rightarrow> publisher" where
  "map_Delete i k s = s\<lparr>pb_pendingMessages := Delete i k (pb_pendingMessages s)\<rparr>"

definition note_pending :: "publisher \<Rightarrow> publisher" where
  "note_pending s =
     upd_stats (\<lambda>st. st\<lparr>st_PendingMessages := int (Count (pb_pendingMessages s))\<rparr>) s"

section \<open>Delivery keys\<close>

definition deliveryTagBits :: nat where "deliveryTagBits = 40"

definition deliveryKey :: "64 word \<Rightarrow> 64 word \<Rightarrow> 64 word" where
  "deliveryKey generation tag =
     push_bit deliveryTagBits generation OR (tag AND (push_bit deliveryTagBits 1 - 1))"

section \<open>Health bookkeeping\<close>

text \<open>\<open>sinceStart\<close>: never 0, which stands for \<open>never\<close>.\<close>

definition sinceStart :: "publisher \<Rightarrow> duration" where
  "sinceStart s = max 1 (time_sub (pb_now s) (pb_startedAt s))"

definition atOffset :: "publisher \<Rightarrow> duration \<Rightarrow> instant" where
  "atOffset s off = (if off = 0 then 0 else pb_startedAt s + off)"

definition noteResponse :: "publisher \<Rightarrow> publisher" where
  "noteResponse s = s\<lparr>pb_lastResponseOff := sinceStart s, pb_failuresSinceResponse := 0\<rparr>"

definition noteFailureLocked :: "64 word \<Rightarrow> errorMessage \<Rightarrow> publisher \<Rightarrow> publisher" where
  "noteFailureLocked generation reason s =
     s\<lparr>pb_lastErr := reason, pb_lastErrAt := pb_now s,
       pb_failuresSinceResponse :=
         (if pb_confirmGen s = generation then pb_failuresSinceResponse s + 1
          else pb_failuresSinceResponse s)\<rparr>"

section \<open>Finishing a message\<close>

text \<open>Stop the timer, if it has not fired yet.\<close>

definition stop_timer :: "addr \<Rightarrow> publisher \<Rightarrow> publisher" where
  "stop_timer a = upd_pm a (\<lambda>m. m\<lparr>pm_TimeoutTimer := None\<rparr>)"

definition arm_timer :: "addr \<Rightarrow> timer_func \<Rightarrow> duration \<Rightarrow> publisher \<Rightarrow> publisher" where
  "arm_timer a f d s = upd_pm a (\<lambda>m. m\<lparr>pm_TimeoutTimer := Some (f, pb_now s + d)\<rparr>) s"

definition finishAsync ::
  "addr \<Rightarrow> string \<Rightarrow> 64 word \<Rightarrow> callback option \<Rightarrow> deliveryOutcome \<Rightarrow> errorMessage \<Rightarrow>
   publisher \<Rightarrow> publisher" where
  "finishAsync a messageID key cb outcome err = go (GFinish a messageID key cb outcome err)"

text \<open>Invoke a callback, when there is one.\<close>

definition call_back ::
  "addr \<Rightarrow> callback option \<Rightarrow> string \<Rightarrow> deliveryOutcome \<Rightarrow> errorMessage \<Rightarrow> publisher \<Rightarrow> publisher"
  where
  "call_back a cb messageID outcome err =
     (case cb of Some c \<Rightarrow> emit (Called a c messageID outcome err) | None \<Rightarrow> emit (Dropped a))"

text \<open>The body of the goroutine \<open>finishAsync\<close> starts.\<close>

definition run_finish ::
  "addr \<Rightarrow> string \<Rightarrow> 64 word \<Rightarrow> callback option \<Rightarrow> deliveryOutcome \<Rightarrow> errorMessage \<Rightarrow>
   publisher \<Rightarrow> publisher" where
  "run_finish a messageID key cb outcome err s =
     call_back a cb messageID outcome err (note_pending (map_Delete messageID key s))"

definition claim :: "addr \<Rightarrow> deliveryOutcome \<Rightarrow> errorMessage \<Rightarrow> publisher \<Rightarrow> publisher" where
  "claim a outcome err =
     upd_pm a (\<lambda>m. m\<lparr>pm_CallbackFired := True, pm_FinalOutcome := Some outcome, pm_FinalError := err\<rparr>)"

definition count_outcome :: "deliveryOutcome \<Rightarrow> instant \<Rightarrow> deliveryStats \<Rightarrow> deliveryStats" where
  "count_outcome outcome now st =
     (case outcome of
        DeliverySuccess \<Rightarrow>
          st\<lparr>st_TotalConfirmed := st_TotalConfirmed st + 1, st_LastConfirmation := now\<rparr>
      | DeliveryFailed \<Rightarrow> st\<lparr>st_TotalReturned := st_TotalReturned st + 1, st_LastReturn := now\<rparr>
      | DeliveryNacked \<Rightarrow> st\<lparr>st_TotalNacked := st_TotalNacked st + 1, st_LastNack := now\<rparr>
      | DeliveryTimeout \<Rightarrow> st\<lparr>st_TotalTimedOut := st_TotalTimedOut st + 1\<rparr>)"

section \<open>The handlers\<close>

definition finalize ::
  "addr \<Rightarrow> deliveryOutcome \<Rightarrow> errorMessage \<Rightarrow> publisher \<Rightarrow> publisher" where
  "finalize a outcome err s =
     (let s1 = stop_timer a (claim a outcome err s);
          s2 = upd_stats (count_outcome outcome (pb_now s)) s1;
          m = pb_heap s2 a in
      if outcome = DeliveryNacked \<and> cf_enableAutomaticRetries (pb_config s) \<and>
         pm_OriginalMessage m \<noteq> None \<and> pm_RetryCount m < cf_maxRetryAttempts (pb_config s)
      then go (GRetry a) s2
      else finishAsync a (pm_MessageID m) (pm_key m) (pm_Callback m) outcome err s2)"

definition tryFinalizeMessage :: "addr \<Rightarrow> publisher \<Rightarrow> publisher" where
  "tryFinalizeMessage a s =
     (let m = pb_heap s a in
      if pm_CallbackFired m then s
      else if pm_Nacked m then finalize a DeliveryNacked NegativelyAcknowledged s
      else if pm_Returned m then finalize a DeliveryFailed (pm_ReturnReason m) s
      else if pm_Confirmed m \<and> \<not> pm_Mandatory m then finalize a DeliverySuccess NoErrorMessage s
      else if pm_Confirmed m \<and> pm_Mandatory m then
        arm_timer a RunGrace (cf_mandatoryGracePeriod (pb_config s)) (stop_timer a s)
      else s)"

definition handleConfirmation :: "64 word \<Rightarrow> 64 word \<Rightarrow> bool \<Rightarrow> publisher \<Rightarrow> publisher" where
  "handleConfirmation generation tag ack s0 =
     (let s = noteResponse s0 in
      case LoadByDeliveryTag (pb_pendingMessages s) (deliveryKey generation tag) of
        None \<Rightarrow> s
      | Some a \<Rightarrow>
          tryFinalizeMessage a
            (upd_pm a (\<lambda>m. if ack then m\<lparr>pm_Confirmed := True\<rparr> else m\<lparr>pm_Nacked := True\<rparr>) s))"

definition handleReturn :: "string \<Rightarrow> int \<Rightarrow> string \<Rightarrow> publisher \<Rightarrow> publisher" where
  "handleReturn messageID replyCode replyText s0 =
     (let s = noteResponse s0 in
      case LoadByMessageID (pb_pendingMessages s) messageID of
        None \<Rightarrow> s
      | Some a \<Rightarrow>
          if pm_CallbackFired (pb_heap s a) then s
          else tryFinalizeMessage a
            (upd_pm a (\<lambda>m. m\<lparr>pm_Returned := True,
                             pm_ReturnReason := MessageReturned replyText replyCode\<rparr>) s))"

definition handleMandatoryGracePeriodExpired :: "64 word \<Rightarrow> publisher \<Rightarrow> publisher" where
  "handleMandatoryGracePeriodExpired key s =
     (case LoadByDeliveryTag (pb_pendingMessages s) key of
        None \<Rightarrow> s
      | Some a \<Rightarrow>
          (let m = pb_heap s a in
           if pm_CallbackFired m then s
           else if pm_Returned m then s
           else finishAsync a (pm_MessageID m) key (pm_Callback m) DeliverySuccess NoErrorMessage
                  (upd_stats (count_outcome DeliverySuccess (pb_now s))
                    (claim a DeliverySuccess NoErrorMessage s))))"

definition handleTimeout :: "64 word \<Rightarrow> publisher \<Rightarrow> publisher" where
  "handleTimeout key s =
     (case LoadByDeliveryTag (pb_pendingMessages s) key of
        None \<Rightarrow> s
      | Some a \<Rightarrow>
          (let m = pb_heap s a;
               err = ConfirmationTimeoutAfter (cf_deliveryTimeout (pb_config s)) in
           if pm_CallbackFired m then s
           else if pm_inFlight m then upd_pm a (\<lambda>m. m\<lparr>pm_timeoutDeferred := True\<rparr>) s
           else finishAsync a (pm_MessageID m) key (pm_Callback m) DeliveryTimeout err
                  (noteFailureLocked (pm_generation m) err
                    (upd_stats (count_outcome DeliveryTimeout (pb_now s))
                      (claim a DeliveryTimeout err s)))))"

definition settleOrphan :: "addr \<Rightarrow> string \<Rightarrow> publisher \<Rightarrow> publisher" where
  "settleOrphan a reason s =
     (let m = pb_heap s a; err = ConfirmChannelClosed reason in
      if pm_CallbackFired m \<or> pm_Confirmed m \<or> pm_Nacked m \<or> pm_Returned m then s
      else if pm_inFlight m then
        upd_pm a (\<lambda>m. m\<lparr>pm_orphanDeferred := True, pm_orphanReason := reason\<rparr>) s
      else
        finishAsync a (pm_MessageID m) (pm_key m) (pm_Callback m) DeliveryFailed err
          (noteFailureLocked (pm_generation m) err
            (upd_stats (\<lambda>st. st\<lparr>st_TotalOrphaned := st_TotalOrphaned st + 1\<rparr>)
              (stop_timer a (claim a DeliveryFailed err s)))))"

text \<open>
  \<open>failOrphans\<close>, run by the confirm reader at the end of its channel: mark the generation dead,
  collect its messages, and settle them one by one. Each settlement locks its own message, so
  it is a goroutine step of its own here (in any order, which includes the code's).
\<close>

definition close_reason :: "string option \<Rightarrow> string" where
  "close_reason e = (case e of None \<Rightarrow> [] | Some t \<Rightarrow> '' (channel closed: '' @ t @ '')'')"

definition orphans_of :: "64 word \<Rightarrow> publisher \<Rightarrow> addr list" where
  "orphans_of g s =
     filter (\<lambda>a. pm_generation (pb_heap s a) = g) (map snd (Range_entries (pb_pendingMessages s)))"

text \<open>
  \<open>shutdown\<close>: one of the two selects saw \<open>shutdownChan\<close> closed. Otherwise the return reader of
  the generation has exited (\<open>returnsDone\<close>) before the sweep.
\<close>

definition failOrphans :: "bool \<Rightarrow> 64 word \<Rightarrow> publisher \<Rightarrow> publisher" where
  "failOrphans shutdown g s =
     (if shutdown then s
      else
        (let s1 = upd_gen g (\<lambda>c. c\<lparr>cg_dead := True\<rparr>) s;
             reason = close_reason (cg_closes (pb_gens s g)) in
         s1\<lparr>pb_goroutines :=
              mset (map (\<lambda>a. GOrphan a reason) (orphans_of g s1)) + pb_goroutines s1\<rparr>))"

section \<open>Publishing\<close>

datatype publish_error =
    ErrPublisherClosed
  | ErrChannelClosed
  | ErrContext
  | ErrDuplicateMessageID string
  | ErrSend string

text \<open>
  \<open>publishTracked\<close> up to the send: every check that can reject the publish, then the timer, the
  registration and the statistics. \<open>stray\<close> says whether the timer of a publish rejected after it
  was armed had already fired when it was stopped.
\<close>

definition publishTracked_register ::
  "bool \<Rightarrow> bool \<Rightarrow> pendingMessage \<Rightarrow> duration \<Rightarrow> addr option \<Rightarrow> publisher \<Rightarrow>
   publish_error option \<times> publisher" where
  "publishTracked_register ctxErr stray m timeout origin s =
     (let g = pb_confirmGen s; gen = pb_gens s g in
      if pb_closed s then (Some ErrPublisherClosed, s)
      else if cg_chClosed gen then (Some ErrChannelClosed, s)
      else if ctxErr then (Some ErrContext, s)
      else
        (let tag = cg_published gen + 1; key = deliveryKey g tag; a = pb_next s;
             pending = m\<lparr>pm_key := key, pm_brokerTag := tag, pm_generation := g,
                         pm_inFlight := True,
                         pm_TimeoutTimer := Some (RunTimeout key, pb_now s + timeout)\<rparr>;
             rejected = (if stray then go (GTimeout key) s else s) in
         if cg_dead gen then (Some ErrChannelClosed, rejected)
         else
           (let (stored, mp) = Store (pm_MessageID m) key a (pb_pendingMessages s) in
            if \<not> stored then (Some (ErrDuplicateMessageID (pm_MessageID m)), rejected)
            else
              (None,
               note_pending
                 (upd_stats (\<lambda>st. st\<lparr>st_TotalPublished := st_TotalPublished st + 1\<rparr>)
                   (s\<lparr>pb_heap := (pb_heap s)(a := pending), pb_next := Suc a,
                      pb_pendingMessages := mp, pb_phase := Sending a origin\<rparr>))))))"

text \<open>The send returned an error: one signal only, so the message is claimed and removed.\<close>

definition publishTracked_failed :: "addr \<Rightarrow> publisher \<Rightarrow> publisher" where
  "publishTracked_failed a s =
     (let s1 = upd_pm a (\<lambda>m. m\<lparr>pm_inFlight := False, pm_CallbackFired := True\<rparr>) s;
          s2 = stop_timer a (map_Delete (pm_MessageID (pb_heap s1 a)) (pm_key (pb_heap s1 a)) s1);
          s3 = note_pending
                 (upd_stats (\<lambda>st. st\<lparr>st_TotalPublished := st_TotalPublished st - 1\<rparr>) s2) in
      emit (Refused a) (s3\<lparr>pb_phase := Idle\<rparr>))"

text \<open>The send went through; \<open>dc\<close> is the delivery tag of its deferred confirmation.\<close>

definition publishTracked_sent ::
  "addr \<Rightarrow> addr option \<Rightarrow> 64 word option \<Rightarrow> publisher \<Rightarrow> publisher" where
  "publishTracked_sent a origin dc s =
     (let m = pb_heap s a;
          deferredTimeout =
            (pm_timeoutDeferred m \<and> \<not> pm_Confirmed m \<and> \<not> pm_Nacked m \<and> \<not> pm_Returned m);
          s1 = upd_pm a (\<lambda>m. m\<lparr>pm_inFlight := False\<rparr>) s;
          s2 = upd_gen (pm_generation m) (\<lambda>c. c\<lparr>cg_published := cg_published c + 1\<rparr>) s1 in
      s2\<lparr>pb_lastPublishOff := sinceStart s2,
         pb_phase := Settling a origin (pm_orphanDeferred m) (pm_orphanReason m) deferredTimeout dc\<rparr>)"

definition rekeyPending :: "addr \<Rightarrow> 64 word \<Rightarrow> 64 word \<Rightarrow> duration \<Rightarrow> publisher \<Rightarrow> publisher" where
  "rekeyPending a generation tag timeout s =
     (let m = pb_heap s a; newKey = deliveryKey generation tag in
      if pm_CallbackFired m then s
      else
        (let s1 = map_Delete (pm_MessageID m) (pm_key m) (stop_timer a s);
             s2 = arm_timer a (RunTimeout newKey) timeout
                    (upd_pm a (\<lambda>m. m\<lparr>pm_key := newKey, pm_brokerTag := tag\<rparr>) s1) in
         s2\<lparr>pb_pendingMessages :=
              snd (Store (pm_MessageID m) newKey a (pb_pendingMessages s2))\<rparr>))"

text \<open>The rest of \<open>publishTracked\<close>, and the return to the caller or to the retry.\<close>

definition publishTracked_settle ::
  "addr \<Rightarrow> addr option \<Rightarrow> bool \<Rightarrow> string \<Rightarrow> bool \<Rightarrow> 64 word option \<Rightarrow> publisher \<Rightarrow> publisher" where
  "publishTracked_settle a origin deferred reason deferredTimeout dc s =
     (let m = pb_heap s a;
          s1 = (if deferred then settleOrphan a reason s
                else if deferredTimeout then handleTimeout (pm_key m) s
                else s);
          s2 = (case dc of
                  None \<Rightarrow> s1
                | Some t \<Rightarrow>
                    if t \<noteq> pm_brokerTag m then
                      upd_gen (pm_generation m) (\<lambda>c. c\<lparr>cg_published := t\<rparr>)
                        (rekeyPending a (pm_generation m) t (pm_timeout m) s1)
                    else s1) in
      emit (Accepted a) (s2\<lparr>pb_phase := Idle\<rparr>))"

section \<open>The front end of a publish\<close>

definition no_options :: deliveryOptions where
  "no_options = \<lparr>do_MessageID = [], do_Mandatory = False, do_Callback = None, do_Timeout = 0\<rparr>"

datatype prepare_error =
    TopologyValidationFailed string
  | MessageIDRequired
  | CallbackRequired
  | CodecFailed string

record frontend =
  fe_DefaultExchange :: string
  fe_Persistent :: bool
  fe_defaultDeliveryCallback :: "callback option"
  fe_defaultMandatory :: bool

text \<open>
  \<open>publishWithDeliveryAssurance\<close> up to its publish loop: the template of the attempts and the
  publishing, or the error returned before anything is registered. \<open>validateExchange\<close> is the
  topology validator, when there is one (the client checks for \<open>nil\<close>), and \<open>codec\<close> the
  configured compression and encryption (Codec).
\<close>

definition prepare_publish ::
  "(string \<Rightarrow> bool) option \<Rightarrow> (message \<Rightarrow> string + message) \<Rightarrow> frontend \<Rightarrow> publisherConfig \<Rightarrow>
   instant \<Rightarrow> string \<Rightarrow> string \<Rightarrow> message \<Rightarrow> deliveryOptions \<Rightarrow> int \<Rightarrow>
   prepare_error + pendingMessage \<times> publishing" where
  "prepare_publish validateExchange codec fe cf now exchange0 routingKey msg0 options retryCount =
     (let exchange = (if exchange0 = [] then fe_DefaultExchange fe else exchange0);
          messageID = (if do_MessageID options = [] then m_MessageID msg0 else do_MessageID options);
          cb = (case do_Callback options of None \<Rightarrow> fe_defaultDeliveryCallback fe | Some c \<Rightarrow> Some c);
          timeout = (if do_Timeout options = 0 then cf_deliveryTimeout cf else do_Timeout options);
          mandatory = (do_Mandatory options \<or> fe_defaultMandatory fe);
          msg1 = (if fe_Persistent fe \<and> \<not> m_Persistent msg0
                  then (Clone msg0)\<lparr>m_Persistent := fe_Persistent fe\<rparr> else msg0) in
      if (case validateExchange of None \<Rightarrow> False | Some ok \<Rightarrow> exchange \<noteq> [] \<and> \<not> ok exchange)
      then Inl (TopologyValidationFailed exchange)
      else if messageID = [] then Inl MessageIDRequired
      else if cb = None then Inl CallbackRequired
      else
        (case codec msg1 of
           Inl e \<Rightarrow> Inl (CodecFailed e)
         | Inr msg2 \<Rightarrow>
             Inr (\<lparr>pm_MessageID = messageID, pm_PublishedAt = now, pm_Callback = cb,
                   pm_TimeoutTimer = None, pm_key = 0, pm_brokerTag = 0, pm_generation = 0,
                   pm_timeout = timeout, pm_inFlight = False, pm_orphanDeferred = False,
                   pm_orphanReason = [], pm_timeoutDeferred = False, pm_Exchange = exchange,
                   pm_RoutingKey = routingKey, pm_Mandatory = mandatory,
                   pm_OriginalMessage =
                     (if cf_enableAutomaticRetries cf then Some (Clone msg2) else None),
                   pm_RetryCount = retryCount,
                   pm_RetryOptions =
                     (if cf_enableAutomaticRetries cf then options else no_options),
                   pm_Confirmed = False, pm_Returned = False, pm_ReturnReason = NoErrorMessage,
                   pm_Nacked = False, pm_CallbackFired = False, pm_FinalOutcome = None,
                   pm_FinalError = NoErrorMessage\<rparr>,
                  (ToAMQPPublishing msg2)\<lparr>pub_MessageId := messageID\<rparr>)))"

section \<open>Automatic retries\<close>

text \<open>
  \<open>retryMessage\<close> up to its sleep. The test for exhausted retries comes after the increment; the
  sleep ends in \<open>retry_awake\<close>, after which the republish runs.
\<close>

definition retryMessage :: "addr \<Rightarrow> publisher \<Rightarrow> publisher" where
  "retryMessage a s0 =
     (let s = upd_pm a (\<lambda>m. m\<lparr>pm_RetryCount := pm_RetryCount m + 1\<rparr>) s0;
          m = pb_heap s a in
      if pm_RetryCount m > cf_maxRetryAttempts (pb_config s) then
        call_back a (pm_Callback m) (pm_MessageID m) DeliveryNacked
          (NackedAfterRetries (pm_RetryCount m))
          (note_pending (map_Delete (pm_MessageID m) (pm_key m) s))
      else go (GRetrySleep a (pm_MessageID m) (pm_key m)) s)"

definition retry_awake :: "addr \<Rightarrow> string \<Rightarrow> 64 word \<Rightarrow> publisher \<Rightarrow> publisher" where
  "retry_awake a messageID oldKey s = go (GRepublish a) (map_Delete messageID oldKey s)"

text \<open>The republish failed: only the callback of the options is told.\<close>

definition retry_failed :: "addr \<Rightarrow> string \<Rightarrow> publisher \<Rightarrow> publisher" where
  "retry_failed a err s =
     (let m = pb_heap s a in
      call_back a (do_Callback (pm_RetryOptions m)) (pm_MessageID m) DeliveryFailed
        (RetryFailedWith err) s)"

section \<open>Confirm-channel generations\<close>

definition installConfirmGenerationLocked :: "publisher \<Rightarrow> publisher" where
  "installConfirmGenerationLocked s =
     (let g = pb_genCounter s + 1 in
      s\<lparr>pb_genCounter := g,
        pb_gens := (pb_gens s)(g :=
          \<lparr>cg_published = 0, cg_dead = False, cg_chClosed = False, cg_closes = None,
           cg_returnsDone = False, cg_confirmsDone = False, cg_since = pb_now s\<rparr>),
        pb_failuresSinceResponse := 0, pb_confirmGen := g\<rparr>)"

datatype refresh_error = RefreshClosed | RefreshBusy | RefreshGetChannel string | RefreshConfirmMode string

text \<open>The check that is made three times: \<open>Some r\<close> returns \<open>r\<close> (\<open>None\<close> for nil).\<close>

definition refresh_check :: "64 word \<Rightarrow> publisher \<Rightarrow> refresh_error option option" where
  "refresh_check failed s =
     (if pb_closed s then Some (Some RefreshClosed)
      else if pb_confirmGen s \<noteq> failed then Some None
      else None)"

text \<open>
  Opening the new channel, between the second and the third check: \<open>lockBusy\<close> is the answer of
  \<open>refreshMu.TryLock\<close>, \<open>ch\<close> the client's (\<open>Inl None\<close> for \<open>errConnectionBusy\<close>), \<open>confirm\<close> the
  error of \<open>Confirm(false)\<close>.
\<close>

definition refresh_open ::
  "bool \<Rightarrow> bool \<Rightarrow> string option + unit \<Rightarrow> bool \<Rightarrow> string option \<Rightarrow> refresh_error option" where
  "refresh_open nonBlocking lockBusy ch closed confirm =
     (if nonBlocking \<and> lockBusy then Some RefreshBusy
      else
        (case ch of
           Inl None \<Rightarrow> Some (if nonBlocking then RefreshBusy else RefreshGetChannel [])
         | Inl (Some e) \<Rightarrow> Some (RefreshGetChannel e)
         | Inr _ \<Rightarrow>
             if closed then Some RefreshClosed
             else map_option RefreshConfirmMode confirm))"

definition refresh_install :: "64 word \<Rightarrow> publisher \<Rightarrow> refresh_error option \<times> publisher" where
  "refresh_install failed s =
     (case refresh_check failed s of
        Some r \<Rightarrow> (r, s)
      | None \<Rightarrow> (None, installConfirmGenerationLocked s))"

section \<open>Creation and Close\<close>

definition no_generation :: confirmGeneration where
  "no_generation =
     \<lparr>cg_published = 0, cg_dead = True, cg_chClosed = True, cg_closes = None,
      cg_returnsDone = True, cg_confirmsDone = True, cg_since = 0\<rparr>"

definition zero_pending :: pendingMessage where
  "zero_pending =
     \<lparr>pm_MessageID = [], pm_PublishedAt = 0, pm_Callback = None, pm_TimeoutTimer = None,
      pm_key = 0, pm_brokerTag = 0, pm_generation = 0, pm_timeout = 0, pm_inFlight = False,
      pm_orphanDeferred = False, pm_orphanReason = [], pm_timeoutDeferred = False,
      pm_Exchange = [], pm_RoutingKey = [], pm_Mandatory = False, pm_OriginalMessage = None,
      pm_RetryCount = 0, pm_RetryOptions = no_options, pm_Confirmed = False,
      pm_Returned = False, pm_ReturnReason = NoErrorMessage, pm_Nacked = False,
      pm_CallbackFired = False, pm_FinalOutcome = None, pm_FinalError = NoErrorMessage\<rparr>"

definition zero_stats :: deliveryStats where
  "zero_stats =
     \<lparr>st_TotalPublished = 0, st_TotalConfirmed = 0, st_TotalReturned = 0, st_TotalNacked = 0,
      st_TotalTimedOut = 0, st_TotalOrphaned = 0, st_PendingMessages = 0,
      st_LastConfirmation = 0, st_LastReturn = 0, st_LastNack = 0\<rparr>"

definition initDeliveryAssurance :: "publisherConfig \<Rightarrow> instant \<Rightarrow> publisher" where
  "initDeliveryAssurance cf now =
     installConfirmGenerationLocked
       \<lparr>pb_config = cf, pb_heap = (\<lambda>_. zero_pending), pb_next = 0,
        pb_pendingMessages = newShardedPendingMap, pb_genCounter = 0,
        pb_gens = (\<lambda>_. no_generation), pb_confirmGen = 0, pb_phase = Idle, pb_closed = False,
        pb_stats = zero_stats, pb_now = now, pb_startedAt = now, pb_lastPublishOff = 0,
        pb_lastResponseOff = 0, pb_failuresSinceResponse = 0, pb_lastErr = NoErrorMessage,
        pb_lastErrAt = 0, pb_goroutines = {#}, pb_log = []\<rparr>"

text \<open>\<open>Close\<close>: announce it first; when the readers have stopped, cancel the timeouts.\<close>

definition Close_begin :: "publisher \<Rightarrow> publisher" where
  "Close_begin s = s\<lparr>pb_closed := True\<rparr>"

definition Close_cancel :: "publisher \<Rightarrow> publisher" where
  "Close_cancel s =
     s\<lparr>pb_heap := (\<lambda>a. if a \<in> snd ` set (Range_entries (pb_pendingMessages s))
                       then (pb_heap s a)\<lparr>pm_TimeoutTimer := None\<rparr> else pb_heap s a)\<rparr>"

section \<open>The step relation\<close>

text \<open>A timer fires: its function becomes a goroutine.\<close>

definition timer_goroutine :: "addr \<Rightarrow> timer_func \<Rightarrow> goroutine" where
  "timer_goroutine a f = (case f of RunTimeout k \<Rightarrow> GTimeout k | RunGrace \<Rightarrow> GGrace a)"

definition take_goroutine :: "goroutine \<Rightarrow> publisher \<Rightarrow> publisher" where
  "take_goroutine t s = s\<lparr>pb_goroutines := pb_goroutines s - {#t#}\<rparr>"

text \<open>
  What a scheduled goroutine does when it runs; \<open>GRepublish\<close> is not here, since a republish is
  a publish of its own. The grace timer reads the key when it runs.
\<close>

fun run_goroutine :: "goroutine \<Rightarrow> publisher \<Rightarrow> publisher" where
  "run_goroutine (GTimeout k) s = handleTimeout k s"
| "run_goroutine (GGrace a) s = handleMandatoryGracePeriodExpired (pm_key (pb_heap s a)) s"
| "run_goroutine (GOrphan a reason) s = settleOrphan a reason s"
| "run_goroutine (GFinish a i k cb outcome err) s = run_finish a i k cb outcome err s"
| "run_goroutine (GRetry a) s = retryMessage a s"
| "run_goroutine (GRetrySleep a i k) s = retry_awake a i k s"
| "run_goroutine (GRepublish a) s = s"

fun is_republish :: "goroutine \<Rightarrow> bool" where
  "is_republish (GRepublish a) = True"
| "is_republish t = False"

definition origin_of :: "publishing_phase \<Rightarrow> addr option" where
  "origin_of ph =
     (case ph of Idle \<Rightarrow> None | Sending a origin \<Rightarrow> origin | Settling a origin d r dt dc \<Rightarrow> origin)"

text \<open>
  The layout limits of the delivery keys, stated in the code beside \<open>deliveryTagBits\<close>: fewer
  than 2^40 publishes on a channel and fewer than 2^24 channels.
\<close>

definition tag_limit :: "publisher \<Rightarrow> bool" where
  "tag_limit s \<longleftrightarrow> unat (cg_published (pb_gens s (pb_confirmGen s))) + 1 < 2 ^ 40"

definition gen_limit :: "publisher \<Rightarrow> bool" where
  "gen_limit s \<longleftrightarrow> unat (pb_genCounter s) + 1 < 2 ^ 24"

text \<open>
  Every interleaving. \<open>publish\<close> and \<open>republish\<close> are one attempt of the publish loop each (the
  front end may have run earlier, at \<open>t0\<close>); the validator, the codec and the front-end
  configuration are arbitrary. Confirm and return frames are arbitrary as long as the reader
  of their channel runs. The broker's side is assumed in two places: a send that fails was not
  answered (\<open>send_failed\<close>: amqp091 returns an error only for a publish it did not write), and
  a successful send has a tag beyond those already used on the channel (\<open>send_ok\<close>).
\<close>

inductive step :: "publisher \<Rightarrow> publisher \<Rightarrow> bool" where
  publish:
    "pb_phase s = Idle \<Longrightarrow> tag_limit s \<Longrightarrow> t0 \<le> pb_now s \<Longrightarrow>
     prepare_publish validateExchange codec fe (pb_config s) t0 ex rk msg options 0 = Inr (m, p) \<Longrightarrow>
     publishTracked_register ctxErr stray (attempt m) (pm_timeout m) None s = (r, s') \<Longrightarrow>
     step s s'"
| republish:
    "pb_phase s = Idle \<Longrightarrow> tag_limit s \<Longrightarrow> t0 \<le> pb_now s \<Longrightarrow> GRepublish b \<in># pb_goroutines s \<Longrightarrow>
     pm_OriginalMessage (pb_heap s b) = Some msg \<Longrightarrow>
     prepare_publish validateExchange codec fe (pb_config s) t0 (pm_Exchange (pb_heap s b))
       (pm_RoutingKey (pb_heap s b)) msg (pm_RetryOptions (pb_heap s b))
       (pm_RetryCount (pb_heap s b)) = Inr (m, p) \<Longrightarrow>
     publishTracked_register ctxErr stray (attempt m) (pm_timeout m) (Some b) s = (r, s') \<Longrightarrow>
     step s s'"
| send_failed:
    "pb_phase s = Sending a origin \<Longrightarrow> \<not> pm_Confirmed (pb_heap s a) \<Longrightarrow>
     \<not> pm_Nacked (pb_heap s a) \<Longrightarrow> \<not> pm_Returned (pb_heap s a) \<Longrightarrow>
     step s (publishTracked_failed a s)"
| send_ok:
    "pb_phase s = Sending a origin \<Longrightarrow>
     (\<And>t. dc = Some t \<Longrightarrow> unat (cg_published (pb_gens s (pb_confirmGen s))) < unat t \<and> unat t < 2 ^ 40) \<Longrightarrow>
     step s (publishTracked_sent a origin dc s)"
| settle:
    "pb_phase s = Settling a None deferred reason deferredTimeout dc \<Longrightarrow>
     step s (publishTracked_settle a None deferred reason deferredTimeout dc s)"
| settle_republish:
    "pb_phase s = Settling a (Some b) deferred reason deferredTimeout dc \<Longrightarrow>
     step s (emit (HandedOver b a)
       (take_goroutine (GRepublish b)
         (publishTracked_settle a (Some b) deferred reason deferredTimeout dc s)))"
| republish_failed:
    "GRepublish b \<in># pb_goroutines s \<Longrightarrow> origin_of (pb_phase s) \<noteq> Some b \<Longrightarrow>
     step s (retry_failed b err (take_goroutine (GRepublish b) s))"
| confirm_frame:
    "\<not> cg_confirmsDone (pb_gens s g) \<Longrightarrow> step s (handleConfirmation g tag ack s)"
| return_frame:
    "\<not> cg_returnsDone (pb_gens s g) \<Longrightarrow> step s (handleReturn i code txt s)"
| timer_fires:
    "pm_TimeoutTimer (pb_heap s a) = Some (f, t) \<Longrightarrow> a < pb_next s \<Longrightarrow> t \<le> pb_now s \<Longrightarrow>
     step s (go (timer_goroutine a f) (stop_timer a s))"
| goroutine_runs:
    "t \<in># pb_goroutines s \<Longrightarrow> \<not> is_republish t \<Longrightarrow>
     step s (run_goroutine t (take_goroutine t s))"
| channel_closes:
    "\<not> cg_chClosed (pb_gens s g) \<Longrightarrow>
     step s (upd_gen g (\<lambda>c. c\<lparr>cg_chClosed := True, cg_closes := why\<rparr>) s)"
| return_reader_exits:
    "\<not> cg_returnsDone (pb_gens s g) \<Longrightarrow> cg_chClosed (pb_gens s g) \<or> pb_closed s \<Longrightarrow>
     step s (upd_gen g (\<lambda>c. c\<lparr>cg_returnsDone := True\<rparr>) s)"
| confirm_reader_exits:
    "\<not> cg_confirmsDone (pb_gens s g) \<Longrightarrow> shutdown \<longrightarrow> pb_closed s \<Longrightarrow>
     \<not> shutdown \<longrightarrow> cg_chClosed (pb_gens s g) \<and> cg_returnsDone (pb_gens s g) \<Longrightarrow>
     step s (upd_gen g (\<lambda>c. c\<lparr>cg_confirmsDone := True\<rparr>) (failOrphans shutdown g s))"
| refresh:
    "pb_phase s = Idle \<Longrightarrow> gen_limit s \<Longrightarrow> refresh_install failed s = (r, s') \<Longrightarrow> step s s'"
| tick: "0 \<le> d \<Longrightarrow> step s (s\<lparr>pb_now := pb_now s + d\<rparr>)"
| close_begin: "step s (Close_begin s)"
| close_cancel: "pb_closed s \<Longrightarrow> step s (Close_cancel s)"

inductive_cases stepE: "step s s'"

inductive reachable :: "publisherConfig \<Rightarrow> instant \<Rightarrow> publisher \<Rightarrow> bool" for cf t0 where
  reach_init: "reachable cf t0 (initDeliveryAssurance cf t0)"
| reach_step: "reachable cf t0 s \<Longrightarrow> step s s' \<Longrightarrow> reachable cf t0 s'"

end
