(* ===== verification/Delivery_Inv.thy ===== *)
theory Delivery_Inv
  imports Delivery_Model
begin

text \<open>
  The safety invariant of the delivery-assurance machinery and its preservation by every step.
  The handlers are reduced to two shapes first: \<open>settles\<close> (a message gets its outcome and the
  one goroutine that will report it) and \<open>touches\<close> (a message changes, but has no new outcome).
\<close>

section \<open>Delivery keys\<close>

lemma tag_mask: "push_bit deliveryTagBits (1::64 word) - 1 = mask 40"
  by (simp add: deliveryTagBits_def mask_eq_exp_minus_1 push_bit_of_1)

lemma deliveryKey_tag: "take_bit 40 (deliveryKey g t) = take_bit 40 t"
  unfolding deliveryKey_def tag_mask
  by (rule bit_word_eqI) (auto simp: bit_simps deliveryTagBits_def)

lemma deliveryKey_gen: "drop_bit 40 (deliveryKey g t) = take_bit 24 g"
  unfolding deliveryKey_def tag_mask
  by (rule bit_word_eqI) (auto simp: bit_simps deliveryTagBits_def)

lemma take_bit_small: "unat (w :: 64 word) < 2 ^ n \<Longrightarrow> take_bit n w = w"
  by (simp add: word_unat_eq_iff unsigned_take_bit_eq take_bit_nat_eq_self)

lemma deliveryKey_eq_iff:
  assumes "unat g < 2 ^ 24" "unat g' < 2 ^ 24" "unat t < 2 ^ 40" "unat t' < 2 ^ 40"
  shows "deliveryKey g t = deliveryKey g' t' \<longleftrightarrow> g = g' \<and> t = t'"
  using assms deliveryKey_tag [of g t] deliveryKey_tag [of g' t']
    deliveryKey_gen [of g t] deliveryKey_gen [of g' t']
  by (auto simp: take_bit_small)

lemma unat_Suc: "unat (w :: 64 word) + 1 < 2 ^ 64 \<Longrightarrow> unat (w + 1) = unat w + 1"
  by (simp add: unat_word_ariths)

section \<open>Reading the state after a primitive update\<close>

named_theorems prim

declare upd_pm_def [prim] upd_stats_def [prim] upd_gen_def [prim] go_def [prim] emit_def [prim]
  map_Delete_def [prim] note_pending_def [prim] noteResponse_def [prim]
  noteFailureLocked_def [prim] stop_timer_def [prim] arm_timer_def [prim] claim_def [prim]
  finishAsync_def [prim] take_goroutine_def [prim]

section \<open>The invariant\<close>

definition refused :: "publisher \<Rightarrow> addr \<Rightarrow> bool" where
  "refused s a \<longleftrightarrow> Refused a \<in> set (pb_log s)"

definition answered :: "pendingMessage \<Rightarrow> bool" where
  "answered m \<longleftrightarrow> pm_Confirmed m \<or> pm_Nacked m \<or> pm_Returned m"

text \<open>The sum of the terminal outcomes in the statistics.\<close>

definition totals :: "deliveryStats \<Rightarrow> int" where
  "totals st = st_TotalConfirmed st + st_TotalReturned st + st_TotalNacked st +
     st_TotalTimedOut st + st_TotalOrphaned st"

text \<open>
  The token of a settled message: the goroutine that will report it, or the event that did.
\<close>

fun token_of :: "addr \<Rightarrow> goroutine \<Rightarrow> bool" where
  "token_of a (GFinish b i k cb outcome err) = (a = b)"
| "token_of a (GRetry b) = (a = b)"
| "token_of a (GRetrySleep b i k) = (a = b)"
| "token_of a (GRepublish b) = (a = b)"
| "token_of a t = False"

fun ends :: "addr \<Rightarrow> event \<Rightarrow> bool" where
  "ends a (Called b c i outcome err) = (a = b)"
| "ends a (HandedOver b a') = (a = b)"
| "ends a (Dropped b) = (a = b)"
| "ends a (Refused b) = (a = b)"
| "ends a (Accepted b) = False"

fun returned :: "addr \<Rightarrow> event \<Rightarrow> bool" where
  "returned a (Refused b) = (a = b)"
| "returned a (Accepted b) = (a = b)"
| "returned a e = False"

text \<open>Goroutines that will still delete the message's entry of the pending map.\<close>

fun holds_entry :: "addr \<Rightarrow> goroutine \<Rightarrow> bool" where
  "holds_entry a (GFinish b i k cb outcome err) = (a = b)"
| "holds_entry a (GRetry b) = (a = b)"
| "holds_entry a (GRetrySleep b i k) = (a = b)"
| "holds_entry a t = False"

definition tokens :: "publisher \<Rightarrow> addr \<Rightarrow> nat" where
  "tokens s a = mcount (token_of a) (pb_goroutines s) + lcount (ends a) (pb_log s)"

fun busy :: "publishing_phase \<Rightarrow> addr \<Rightarrow> bool" where
  "busy Idle a = False"
| "busy (Sending b origin) a = (a = b)"
| "busy (Settling b origin d r dt dc) a = (a = b)"

text \<open>What holds of one message on its own.\<close>

definition obj_ok :: "publisherConfig \<Rightarrow> pendingMessage \<Rightarrow> bool" where
  "obj_ok cf m \<longleftrightarrow>
     pm_Callback m \<noteq> None \<and>
     pm_RetryCount m \<le> max 0 (cf_maxRetryAttempts cf) \<and>
     (pm_OriginalMessage m \<noteq> None \<longrightarrow> cf_enableAutomaticRetries cf) \<and>
     (\<not> pm_CallbackFired m \<longrightarrow>
        \<not> pm_Nacked m \<and> \<not> pm_Returned m \<and> pm_FinalOutcome m = None \<and>
        (pm_Confirmed m \<longrightarrow> pm_Mandatory m)) \<and>
     (\<forall>k d. pm_TimeoutTimer m = Some (RunTimeout k, d) \<longrightarrow>
        k = pm_key m \<and> (pm_Confirmed m \<and> \<not> pm_CallbackFired m \<longrightarrow> \<not> pm_inFlight m)) \<and>
     (\<forall>d. pm_TimeoutTimer m = Some (RunGrace, d) \<longrightarrow> pm_Confirmed m) \<and>
     (pm_FinalOutcome m = Some DeliverySuccess \<longrightarrow> pm_Confirmed m \<and> \<not> pm_Returned m) \<and>
     (pm_FinalOutcome m = Some DeliveryNacked \<longrightarrow> pm_Nacked m) \<and>
     (pm_FinalOutcome m = Some DeliveryFailed \<longrightarrow>
        pm_Returned m \<and> pm_FinalError m = pm_ReturnReason m \<or>
        (\<exists>r. pm_FinalError m = ConfirmChannelClosed r)) \<and>
     (pm_FinalOutcome m = Some DeliveryTimeout \<longrightarrow>
        pm_FinalError m = ConfirmationTimeoutAfter (cf_deliveryTimeout cf))"

fun task_ok :: "publisherConfig \<Rightarrow> (addr \<Rightarrow> pendingMessage) \<Rightarrow> addr \<Rightarrow> goroutine \<Rightarrow> bool" where
  "task_ok cf H n (GTimeout k) = True"
| "task_ok cf H n (GGrace a) = (a < n \<and> pm_Confirmed (H a))"
| "task_ok cf H n (GOrphan a r) = (a < n)"
| "task_ok cf H n (GFinish a i k cb outcome err) =
     (i = pm_MessageID (H a) \<and> k = pm_key (H a) \<and> cb = pm_Callback (H a) \<and>
      pm_FinalOutcome (H a) = Some outcome \<and> err = pm_FinalError (H a))"
| "task_ok cf H n (GRetry a) =
     (pm_FinalOutcome (H a) = Some DeliveryNacked \<and> pm_OriginalMessage (H a) \<noteq> None \<and>
      pm_RetryCount (H a) < cf_maxRetryAttempts cf)"
| "task_ok cf H n (GRetrySleep a i k) =
     (i = pm_MessageID (H a) \<and> k = pm_key (H a) \<and> pm_FinalOutcome (H a) = Some DeliveryNacked \<and>
      pm_OriginalMessage (H a) \<noteq> None)"
| "task_ok cf H n (GRepublish a) =
     (pm_FinalOutcome (H a) = Some DeliveryNacked \<and> pm_OriginalMessage (H a) \<noteq> None)"

fun event_ok :: "(addr \<Rightarrow> pendingMessage) \<Rightarrow> event \<Rightarrow> bool" where
  "event_ok H (Called a c i outcome err) =
     (i = pm_MessageID (H a) \<and>
      (pm_Callback (H a) = Some c \<and> pm_FinalOutcome (H a) = Some outcome \<and> err = pm_FinalError (H a) \<or>
       pm_FinalOutcome (H a) = Some DeliveryNacked \<and> pm_OriginalMessage (H a) \<noteq> None \<and>
       outcome = DeliveryFailed \<and>
       (\<exists>e. err = RetryFailedWith e) \<and> do_Callback (pm_RetryOptions (H a)) = Some c))"
| "event_ok H (Dropped a) =
     (pm_FinalOutcome (H a) = Some DeliveryNacked \<and> pm_OriginalMessage (H a) \<noteq> None \<and>
      do_Callback (pm_RetryOptions (H a)) = None)"
| "event_ok H (HandedOver a a') =
     (pm_FinalOutcome (H a) = Some DeliveryNacked \<and> pm_OriginalMessage (H a) \<noteq> None)"
| "event_ok H (Refused a) = (\<not> answered (H a) \<and> pm_CallbackFired (H a))"
| "event_ok H (Accepted a) = True"

definition inv_index :: "publisher \<Rightarrow> bool" where
  "inv_index s \<longleftrightarrow>
     pending_ok (pb_pendingMessages s) \<and>
     indexed LoadByMessageID LoadByDeliveryTag (\<lambda>a. pm_MessageID (pb_heap s a))
       (\<lambda>a. pm_key (pb_heap s a)) (pb_pendingMessages s) \<and>
     (\<forall>k a. LoadByDeliveryTag (pb_pendingMessages s) k = Some a \<longrightarrow> a < pb_next s \<and> \<not> refused s a)"

definition inv_member :: "publisher \<Rightarrow> bool" where
  "inv_member s \<longleftrightarrow>
     (\<forall>a < pb_next s.
        \<not> pm_CallbackFired (pb_heap s a) \<or> 0 < mcount (holds_entry a) (pb_goroutines s) \<longrightarrow>
        LoadByDeliveryTag (pb_pendingMessages s) (pm_key (pb_heap s a)) = Some a)"

definition inv_tokens :: "publisher \<Rightarrow> bool" where
  "inv_tokens s \<longleftrightarrow>
     (\<forall>a. tokens s a = (if a < pb_next s \<and> pm_CallbackFired (pb_heap s a) then 1 else 0))"

definition inv_tasks :: "publisher \<Rightarrow> bool" where
  "inv_tasks s \<longleftrightarrow>
     (\<forall>t. t \<in># pb_goroutines s \<longrightarrow> task_ok (pb_config s) (pb_heap s) (pb_next s) t)"

definition inv_log :: "publisher \<Rightarrow> bool" where
  "inv_log s \<longleftrightarrow> (\<forall>e. e \<in> set (pb_log s) \<longrightarrow> event_ok (pb_heap s) e)"

definition inv_obj :: "publisher \<Rightarrow> bool" where
  "inv_obj s \<longleftrightarrow> (\<forall>a < pb_next s. obj_ok (pb_config s) (pb_heap s a))"

definition inv_calls :: "publisher \<Rightarrow> bool" where
  "inv_calls s \<longleftrightarrow>
     (\<forall>a. (if busy (pb_phase s) a then 1 else 0) + lcount (returned a) (pb_log s) =
        (if a < pb_next s then 1 else (0::nat)))"

definition inv_phase :: "publisher \<Rightarrow> bool" where
  "inv_phase s \<longleftrightarrow>
     (\<forall>a < pb_next s. pm_inFlight (pb_heap s a) \<longrightarrow> (\<exists>origin. pb_phase s = Sending a origin)) \<and>
     (\<forall>b. origin_of (pb_phase s) = Some b \<longrightarrow> GRepublish b \<in># pb_goroutines s) \<and>
     (case pb_phase s of
        Idle \<Rightarrow> True
      | Sending a origin \<Rightarrow>
          a < pb_next s \<and> pm_inFlight (pb_heap s a) \<and>
          pm_generation (pb_heap s a) = pb_confirmGen s \<and>
          pm_brokerTag (pb_heap s a) = cg_published (pb_gens s (pb_confirmGen s)) + 1 \<and>
          unat (cg_published (pb_gens s (pb_confirmGen s))) + 1 < 2 ^ 40 \<and>
          (pm_CallbackFired (pb_heap s a) \<longrightarrow> answered (pb_heap s a))
      | Settling a origin d r dt dc \<Rightarrow>
          a < pb_next s \<and> \<not> pm_inFlight (pb_heap s a) \<and>
          pm_generation (pb_heap s a) = pb_confirmGen s \<and>
          (\<not> pm_CallbackFired (pb_heap s a) \<longrightarrow>
             pm_brokerTag (pb_heap s a) = cg_published (pb_gens s (pb_confirmGen s))) \<and>
          (\<forall>t. dc = Some t \<longrightarrow>
             unat (cg_published (pb_gens s (pb_confirmGen s))) \<le> unat t \<and> unat t < 2 ^ 40))"

definition inv_keys :: "publisher \<Rightarrow> bool" where
  "inv_keys s \<longleftrightarrow>
     pb_confirmGen s = pb_genCounter s \<and> unat (pb_genCounter s) < 2 ^ 24 \<and>
     unat (cg_published (pb_gens s (pb_genCounter s))) < 2 ^ 40 \<and>
     (\<forall>a < pb_next s.
        pm_key (pb_heap s a) = deliveryKey (pm_generation (pb_heap s a)) (pm_brokerTag (pb_heap s a)) \<and>
        unat (pm_generation (pb_heap s a)) \<le> unat (pb_genCounter s) \<and>
        unat (pm_brokerTag (pb_heap s a)) < 2 ^ 40 \<and>
        (unat (pm_brokerTag (pb_heap s a))
           \<le> unat (cg_published (pb_gens s (pm_generation (pb_heap s a)))) \<or>
         refused s a \<or> (\<exists>origin. pb_phase s = Sending a origin)))"

definition inv_uniq :: "publisher \<Rightarrow> bool" where
  "inv_uniq s \<longleftrightarrow>
     (\<forall>a b. a < pb_next s \<longrightarrow> b < pb_next s \<longrightarrow> \<not> refused s a \<longrightarrow> \<not> refused s b \<longrightarrow>
        pm_key (pb_heap s a) = pm_key (pb_heap s b) \<longrightarrow> a = b)"

definition unsettled :: "publisher \<Rightarrow> addr set" where
  "unsettled s = {a. a < pb_next s \<and> \<not> pm_CallbackFired (pb_heap s a)}"

definition inv_stats :: "publisher \<Rightarrow> bool" where
  "inv_stats s \<longleftrightarrow> st_TotalPublished (pb_stats s) = totals (pb_stats s) + int (card (unsettled s))"

definition inv :: "publisher \<Rightarrow> bool" where
  "inv s \<longleftrightarrow> inv_index s \<and> inv_member s \<and> inv_tokens s \<and> inv_tasks s \<and> inv_log s \<and>
     inv_obj s \<and> inv_calls s \<and> inv_phase s \<and> inv_keys s \<and> inv_uniq s \<and> inv_stats s"

lemmas inv_defs = inv_index_def inv_member_def inv_tokens_def inv_tasks_def inv_log_def
  inv_obj_def inv_calls_def inv_phase_def inv_keys_def inv_uniq_def inv_stats_def

lemma invD:
  assumes "inv s"
  shows "inv_index s" "inv_member s" "inv_tokens s" "inv_tasks s" "inv_log s" "inv_obj s"
    "inv_calls s" "inv_phase s" "inv_keys s" "inv_uniq s" "inv_stats s"
  using assms by (simp_all add: inv_def)

section \<open>Two shapes of handlers\<close>

text \<open>The parts of the state no handler of a message changes.\<close>

definition same_frame :: "publisher \<Rightarrow> publisher \<Rightarrow> bool" where
  "same_frame s s' \<longleftrightarrow>
     pb_config s' = pb_config s \<and> pb_next s' = pb_next s \<and>
     pb_pendingMessages s' = pb_pendingMessages s \<and> pb_genCounter s' = pb_genCounter s \<and>
     pb_gens s' = pb_gens s \<and> pb_confirmGen s' = pb_confirmGen s \<and> pb_phase s' = pb_phase s \<and>
     pb_closed s' = pb_closed s \<and> pb_log s' = pb_log s \<and>
     st_TotalPublished (pb_stats s') = st_TotalPublished (pb_stats s)"

text \<open>The parts of a message that its outcome does not change.\<close>

definition same_id :: "pendingMessage \<Rightarrow> pendingMessage \<Rightarrow> bool" where
  "same_id m m' \<longleftrightarrow>
     pm_MessageID m' = pm_MessageID m \<and> pm_key m' = pm_key m \<and>
     pm_brokerTag m' = pm_brokerTag m \<and> pm_generation m' = pm_generation m \<and>
     pm_Callback m' = pm_Callback m \<and> pm_OriginalMessage m' = pm_OriginalMessage m \<and> pm_inFlight m' = pm_inFlight m \<and>
     pm_RetryCount m' = pm_RetryCount m \<and> pm_RetryOptions m' = pm_RetryOptions m \<and>
     (pm_Confirmed m \<longrightarrow> pm_Confirmed m') \<and> (answered m \<longrightarrow> answered m')"

definition token_for :: "publisherConfig \<Rightarrow> addr \<Rightarrow> pendingMessage \<Rightarrow> goroutine \<Rightarrow> bool" where
  "token_for cf a m t \<longleftrightarrow>
     (\<exists>outcome. pm_FinalOutcome m = Some outcome \<and>
        t = GFinish a (pm_MessageID m) (pm_key m) (pm_Callback m) outcome (pm_FinalError m)) \<or>
     t = GRetry a \<and> pm_FinalOutcome m = Some DeliveryNacked \<and> pm_OriginalMessage m \<noteq> None \<and>
       pm_RetryCount m < cf_maxRetryAttempts cf"

definition settles :: "addr \<Rightarrow> publisher \<Rightarrow> publisher \<Rightarrow> bool" where
  "settles a s s' \<longleftrightarrow>
     (\<exists>m t. same_id (pb_heap s a) m \<and> pm_CallbackFired m \<and> obj_ok (pb_config s) m \<and>
        (pm_inFlight m \<longrightarrow> answered m) \<and> token_for (pb_config s) a m t \<and>
        pb_heap s' = (pb_heap s)(a := m) \<and> pb_goroutines s' = add_mset t (pb_goroutines s) \<and>
        totals (pb_stats s') = totals (pb_stats s) + 1 \<and> same_frame s s')"

definition touches :: "addr \<Rightarrow> publisher \<Rightarrow> publisher \<Rightarrow> bool" where
  "touches a s s' \<longleftrightarrow>
     (\<exists>m. same_id (pb_heap s a) m \<and> obj_ok (pb_config s) m \<and>
        pm_CallbackFired m = pm_CallbackFired (pb_heap s a) \<and>
        pm_FinalOutcome m = pm_FinalOutcome (pb_heap s a) \<and>
        pm_FinalError m = pm_FinalError (pb_heap s a) \<and>
        pb_heap s' = (pb_heap s)(a := m) \<and> pb_goroutines s' = pb_goroutines s \<and>
        totals (pb_stats s') = totals (pb_stats s) \<and> same_frame s s')"

section \<open>The two shapes keep the invariant\<close>

lemma loaded:
  assumes "inv s" "LoadByDeliveryTag (pb_pendingMessages s) k = Some a"
  shows "a < pb_next s" "\<not> refused s a" "pm_key (pb_heap s a) = k"
  using assms by (auto simp: inv_def inv_index_def dest: indexed_keyD)

lemma loaded_id:
  assumes "inv s" "LoadByMessageID (pb_pendingMessages s) i = Some a"
  shows "a < pb_next s" "\<not> refused s a" "pm_MessageID (pb_heap s a) = i"
  using assms indexed_idD [of LoadByMessageID LoadByDeliveryTag]
  by (fastforce simp: inv_def inv_index_def)+

lemma same_frameD:
  assumes "same_frame s s'"
  shows "pb_config s' = pb_config s" "pb_next s' = pb_next s"
    "pb_pendingMessages s' = pb_pendingMessages s" "pb_genCounter s' = pb_genCounter s"
    "pb_gens s' = pb_gens s" "pb_confirmGen s' = pb_confirmGen s" "pb_phase s' = pb_phase s"
    "pb_closed s' = pb_closed s" "pb_log s' = pb_log s"
    "st_TotalPublished (pb_stats s') = st_TotalPublished (pb_stats s)"
  using assms by (simp_all add: same_frame_def)

lemma refused_same_frame: "same_frame s s' \<Longrightarrow> refused s' = refused s"
  by (simp add: same_frame_def refused_def fun_eq_iff)

lemma token_for_token: "token_for cf a m t \<Longrightarrow> token_of b t = (b = a) \<and> holds_entry b t = (b = a)"
  by (auto simp: token_for_def)

lemma task_ok_upd:
  assumes "task_ok cf H n t" "same_id (H a) m" "pm_FinalOutcome m = pm_FinalOutcome (H a)"
    "pm_FinalError m = pm_FinalError (H a)"
  shows "task_ok cf (H(a := m)) n t"
  using assms by (cases t) (auto simp: same_id_def)

lemma task_ok_upd_other:
  assumes "task_ok cf H n t" "\<not> token_of a t" "same_id (H a) m"
  shows "task_ok cf (H(a := m)) n t"
  using assms by (cases t) (auto simp: same_id_def)

lemma event_ok_upd_other:
  assumes "event_ok H e" "\<not> ends a e"
  shows "event_ok (H(a := m)) e"
  using assms by (cases e) auto

lemma event_ok_upd:
  assumes "event_ok H e" "same_id (H a) m" "pm_FinalOutcome m = pm_FinalOutcome (H a)"
    "pm_FinalError m = pm_FinalError (H a)" "e \<noteq> Refused a"
  shows "event_ok (H(a := m)) e"
  using assms by (cases e) (auto simp: same_id_def)

lemma no_token:
  assumes "inv s" "\<not> (a < pb_next s \<and> pm_CallbackFired (pb_heap s a))"
  shows "t \<in># pb_goroutines s \<Longrightarrow> \<not> token_of a t" "e \<in> set (pb_log s) \<Longrightarrow> \<not> ends a e"
proof -
  have "tokens s a = 0" using invD(3) [OF assms(1)] assms(2) by (simp add: inv_tokens_def)
  then have "mcount (token_of a) (pb_goroutines s) = 0" "lcount (ends a) (pb_log s) = 0"
    by (simp_all add: tokens_def)
  then show "t \<in># pb_goroutines s \<Longrightarrow> \<not> token_of a t" "e \<in> set (pb_log s) \<Longrightarrow> \<not> ends a e"
    by (auto simp: mcount_zero_iff lcount_zero_iff)
qed

lemma unfired_not_refused:
  assumes "inv s" "\<not> pm_CallbackFired (pb_heap s a)"
  shows "\<not> refused s a"
  using no_token(2) [OF assms(1), of a "Refused a"] assms(2) by (auto simp: refused_def)

lemma settles_inv:
  assumes i: "inv s" and a: "a < pb_next s" "\<not> pm_CallbackFired (pb_heap s a)"
    and st: "settles a s s'"
  shows "inv s'"
proof -
  obtain m t where id: "same_id (pb_heap s a) m" and fired: "pm_CallbackFired m"
    and ok: "obj_ok (pb_config s) m" and fl: "pm_inFlight m \<longrightarrow> answered m"
    and tok: "token_for (pb_config s) a m t"
    and H: "pb_heap s' = (pb_heap s)(a := m)" and G: "pb_goroutines s' = add_mset t (pb_goroutines s)"
    and T: "totals (pb_stats s') = totals (pb_stats s) + 1" and fr: "same_frame s s'"
    using st unfolding settles_def by blast
  note f = same_frameD [OF fr] and R = refused_same_frame [OF fr]
  note [simp] = H G f R
  note tk = token_for_token [OF tok]
  note inv = invD [OF i]
  have nt: "u \<in># pb_goroutines s \<Longrightarrow> \<not> token_of a u" "e \<in> set (pb_log s) \<Longrightarrow> \<not> ends a e" for u e
    using no_token [OF i] a by auto
  have k: "pm_key (pb_heap s' b) = pm_key (pb_heap s b)"
    "pm_generation (pb_heap s' b) = pm_generation (pb_heap s b)"
    "pm_brokerTag (pb_heap s' b) = pm_brokerTag (pb_heap s b)" for b
    using id by (simp_all add: same_id_def)
  have "inv_index s'"
    using inv(1) id by (simp add: inv_index_def indexed_def same_id_def)
  moreover have "inv_member s'"
  proof -
    have "LoadByDeliveryTag (pb_pendingMessages s) (pm_key (pb_heap s a)) = Some a"
      using inv(2) a by (simp add: inv_member_def)
    then show ?thesis using inv(2) id tk by (auto simp: inv_member_def same_id_def)
  qed
  moreover have "inv_tokens s'"
  proof -
    have "tokens s' b = tokens s b + (if b = a then 1 else 0)" for b
      using tk by (simp add: tokens_def)
    then show ?thesis using inv(3) a fired by (auto simp: inv_tokens_def)
  qed
  moreover have "inv_tasks s'"
  proof -
    have "task_ok (pb_config s) ((pb_heap s)(a := m)) (pb_next s) t"
      using tok by (auto simp: token_for_def)
    then show ?thesis
      using inv(4) nt id task_ok_upd_other by (auto simp: inv_tasks_def)
  qed
  moreover have "inv_log s'"
    using inv(5) nt event_ok_upd_other by (auto simp: inv_log_def)
  moreover have "inv_obj s'"
    using inv(6) ok by (simp add: inv_obj_def)
  moreover have "inv_calls s'"
    using inv(7) by (simp add: inv_calls_def)
  moreover have "inv_phase s'"
    using inv(8) id fl fired by (auto simp: inv_phase_def same_id_def split: publishing_phase.splits)
  moreover have "inv_keys s'"
    using inv(9) unfolding inv_keys_def k f R .
  moreover have "inv_uniq s'"
    using inv(10) unfolding inv_uniq_def k f R .
  moreover have "inv_stats s'"
  proof -
    have u: "unsettled s' = unsettled s - {a}" using fired by (auto simp: unsettled_def)
    have "a \<in> unsettled s" and fin: "finite (unsettled s)" using a by (auto simp: unsettled_def)
    then have "card (unsettled s) = Suc (card (unsettled s'))"
      unfolding u by (metis card_Suc_Diff1)
    then show ?thesis using inv(11) T by (simp add: inv_stats_def)
  qed
  ultimately show ?thesis by (simp add: inv_def)
qed

lemma touches_inv:
  assumes i: "inv s" and a: "a < pb_next s" "\<not> refused s a" and st: "touches a s s'"
  shows "inv s'"
proof -
  obtain m where id: "same_id (pb_heap s a) m" and ok: "obj_ok (pb_config s) m"
    and fired: "pm_CallbackFired m = pm_CallbackFired (pb_heap s a)"
    and out: "pm_FinalOutcome m = pm_FinalOutcome (pb_heap s a)"
      "pm_FinalError m = pm_FinalError (pb_heap s a)"
    and H: "pb_heap s' = (pb_heap s)(a := m)" and G: "pb_goroutines s' = pb_goroutines s"
    and T: "totals (pb_stats s') = totals (pb_stats s)" and fr: "same_frame s s'"
    using st unfolding touches_def by blast
  note f = same_frameD [OF fr] and R = refused_same_frame [OF fr]
  note [simp] = H G f R T
  note inv = invD [OF i]
  have k: "pm_key (pb_heap s' b) = pm_key (pb_heap s b)"
    "pm_generation (pb_heap s' b) = pm_generation (pb_heap s b)"
    "pm_brokerTag (pb_heap s' b) = pm_brokerTag (pb_heap s b)" for b
    using id by (simp_all add: same_id_def)
  have "inv_index s'"
    using inv(1) id by (simp add: inv_index_def indexed_def same_id_def)
  moreover have "inv_member s'"
    using inv(2) id fired by (simp add: inv_member_def same_id_def)
  moreover have "inv_tokens s'"
    using inv(3) fired by (simp add: inv_tokens_def tokens_def)
  moreover have "inv_tasks s'"
    using inv(4) task_ok_upd [of _ "pb_heap s" _ _ a m] id out by (simp add: inv_tasks_def)
  moreover have "inv_log s'"
  proof -
    have "Refused a \<notin> set (pb_log s)" using a by (simp add: refused_def)
    then show ?thesis using inv(5) event_ok_upd [of "pb_heap s" _ a m] id out by (auto simp: inv_log_def)
  qed
  moreover have "inv_obj s'"
    using inv(6) ok by (simp add: inv_obj_def)
  moreover have "inv_calls s'"
    using inv(7) by (simp add: inv_calls_def)
  moreover have "inv_phase s'"
    using inv(8) id fired by (auto simp: inv_phase_def same_id_def split: publishing_phase.splits)
  moreover have "inv_keys s'"
    using inv(9) unfolding inv_keys_def k f R .
  moreover have "inv_uniq s'"
    using inv(10) unfolding inv_uniq_def k f R .
  moreover have "inv_stats s'"
  proof -
    have "unsettled s' = unsettled s" using fired by (auto simp: unsettled_def split: if_splits)
    then show ?thesis using inv(11) by (simp add: inv_stats_def)
  qed
  ultimately show ?thesis by (simp add: inv_def)
qed

section \<open>The readers' handlers\<close>

definition same_core :: "publisher \<Rightarrow> publisher \<Rightarrow> bool" where
  "same_core s s' \<longleftrightarrow>
     pb_heap s' = pb_heap s \<and> pb_goroutines s' = pb_goroutines s \<and>
     totals (pb_stats s') = totals (pb_stats s) \<and> same_frame s s'"

lemma inv_same_core:
  assumes "inv s" "same_core s s'"
  shows "inv s'"
proof -
  have fr: "same_frame s s'" and H: "pb_heap s' = pb_heap s" "pb_goroutines s' = pb_goroutines s"
    "totals (pb_stats s') = totals (pb_stats s)" using assms(2) by (simp_all add: same_core_def)
  note f = same_frameD [OF fr] and R = refused_same_frame [OF fr]
  show ?thesis
    using assms(1)
    unfolding inv_def inv_defs tokens_def unsettled_def f R H .
qed

lemma same_core_noteResponse: "same_core s (noteResponse s)"
  by (simp add: same_core_def same_frame_def noteResponse_def)

lemma same_core_trans: "same_core s s' \<Longrightarrow> same_core s' s'' \<Longrightarrow> same_core s s''"
  by (simp add: same_core_def same_frame_def)

lemma inv_obj_ok: "inv s \<Longrightarrow> a < pb_next s \<Longrightarrow> obj_ok (pb_config s) (pb_heap s a)"
  by (simp add: inv_def inv_obj_def)

lemma totals_count_outcome: "totals (count_outcome outcome now st) = totals st + 1"
  "st_TotalPublished (count_outcome outcome now st) = st_TotalPublished st"
  by (cases outcome; simp add: count_outcome_def totals_def)+

text \<open>Setting a flag of a message and then finalizing it.\<close>

lemma settles_finalize:
  assumes id: "same_id (pb_heap s a) m"
    and ok: "obj_ok (pb_config s) (m\<lparr>pm_CallbackFired := True, pm_FinalOutcome := Some outcome,
               pm_FinalError := err, pm_TimeoutTimer := None\<rparr>)"
    and fl: "pm_inFlight m \<longrightarrow> answered m"
  shows "settles a s (finalize a outcome err (upd_pm a (\<lambda>_. m) s))"
proof -
  let ?m = "m\<lparr>pm_CallbackFired := True, pm_FinalOutcome := Some outcome,
               pm_FinalError := err, pm_TimeoutTimer := None\<rparr>"
  let ?s = "finalize a outcome err (upd_pm a (\<lambda>_. m) s)"
  have "pb_heap ?s = (pb_heap s)(a := ?m)" "same_frame s ?s"
    "totals (pb_stats ?s) = totals (pb_stats s) + 1"
    by (simp_all add: finalize_def Let_def prim same_frame_def totals_count_outcome)
  moreover have "same_id (pb_heap s a) ?m"
    using id by (simp add: same_id_def answered_def)
  moreover have "pm_inFlight ?m \<longrightarrow> answered ?m" using fl by (simp add: answered_def)
  moreover have "\<exists>t. pb_goroutines ?s = add_mset t (pb_goroutines s) \<and> token_for (pb_config s) a ?m t"
    by (simp add: finalize_def Let_def prim token_for_def)
  ultimately show ?thesis using ok unfolding settles_def by auto
qed

lemma touches_upd:
  assumes "same_id (pb_heap s a) m" "obj_ok (pb_config s) m"
    "pm_CallbackFired m = pm_CallbackFired (pb_heap s a)"
    "pm_FinalOutcome m = pm_FinalOutcome (pb_heap s a)"
    "pm_FinalError m = pm_FinalError (pb_heap s a)"
  shows "touches a s (upd_pm a (\<lambda>_. m) s)"
  using assms unfolding touches_def by (auto simp: upd_pm_def same_frame_def intro!: exI [of _ m])

text \<open>What the broker's answer does to a message that is still waiting.\<close>

lemma tryFinalizeMessage_inv:
  assumes i: "inv s" and a: "a < pb_next s" "\<not> refused s a"
    and id: "same_id (pb_heap s a) m"
    and fired: "pm_CallbackFired m = pm_CallbackFired (pb_heap s a)"
      "pm_FinalOutcome m = pm_FinalOutcome (pb_heap s a)"
      "pm_FinalError m = pm_FinalError (pb_heap s a)" "pm_Mandatory m = pm_Mandatory (pb_heap s a)"
      "pm_TimeoutTimer m = pm_TimeoutTimer (pb_heap s a)"
    and ret: "pm_Returned m = pm_Returned (pb_heap s a) \<and> pm_ReturnReason m = pm_ReturnReason (pb_heap s a)
       \<or> \<not> pm_CallbackFired m"
    and ans: "answered m"
    and nck: "pm_Nacked (pb_heap s a) \<longrightarrow> pm_Nacked m"
  shows "inv (tryFinalizeMessage a (upd_pm a (\<lambda>_. m) s))"
proof -
  let ?s = "upd_pm a (\<lambda>_. m) s"
  have h [simp]: "pb_heap ?s a = m" by (simp add: upd_pm_def)
  have okm: "obj_ok (pb_config s) (pb_heap s a)" using i a(1) by (rule inv_obj_ok)
  have fin: "inv (finalize a outcome err ?s)"
    if "\<not> pm_CallbackFired m"
      "obj_ok (pb_config s) (m\<lparr>pm_CallbackFired := True, pm_FinalOutcome := Some outcome,
               pm_FinalError := err, pm_TimeoutTimer := None\<rparr>)" for outcome err
  proof -
    have "settles a s (finalize a outcome err ?s)"
      using id that(2) ans by (simp add: settles_finalize)
    then show ?thesis using settles_inv [OF i a(1)] that(1) fired(1) by simp
  qed
  consider "pm_CallbackFired m" | "\<not> pm_CallbackFired m" "pm_Nacked m"
    | "\<not> pm_CallbackFired m" "\<not> pm_Nacked m" "pm_Returned m"
    | "\<not> pm_CallbackFired m" "\<not> pm_Nacked m" "\<not> pm_Returned m" "\<not> pm_Mandatory m" "pm_Confirmed m"
    | "\<not> pm_CallbackFired m" "\<not> pm_Nacked m" "\<not> pm_Returned m" "pm_Mandatory m" "pm_Confirmed m"
    using ans by (auto simp: answered_def)
  then show ?thesis
  proof cases
    case 1
    then have "obj_ok (pb_config s) m"
      using okm id fired ret nck by (simp add: obj_ok_def same_id_def)
    then have "touches a s ?s" using id fired by (intro touches_upd) auto
    then have "inv ?s" by (rule touches_inv [OF i a])
    with 1 show ?thesis by (simp add: tryFinalizeMessage_def)
  next
    case 2
    then have "inv (finalize a DeliveryNacked NegativelyAcknowledged ?s)"
      using okm id fired by (intro fin) (auto simp: obj_ok_def same_id_def)
    with 2 show ?thesis by (simp add: tryFinalizeMessage_def Let_def)
  next
    case 3
    then have "inv (finalize a DeliveryFailed (pm_ReturnReason m) ?s)"
      using okm id fired by (intro fin) (auto simp: obj_ok_def same_id_def)
    with 3 show ?thesis by (simp add: tryFinalizeMessage_def Let_def)
  next
    case 4
    then have "inv (finalize a DeliverySuccess NoErrorMessage ?s)"
      using okm id fired by (intro fin) (auto simp: obj_ok_def same_id_def)
    with 4 show ?thesis by (simp add: tryFinalizeMessage_def Let_def)
  next
    case 5
    let ?m = "m\<lparr>pm_TimeoutTimer := Some (RunGrace, pb_now s + cf_mandatoryGracePeriod (pb_config s))\<rparr>"
    have "obj_ok (pb_config s) ?m"
      using 5 okm id fired by (auto simp: obj_ok_def same_id_def)
    then have "touches a s (upd_pm a (\<lambda>_. ?m) s)"
      using id fired by (intro touches_upd) (auto simp: same_id_def answered_def)
    then have "inv (upd_pm a (\<lambda>_. ?m) s)" by (rule touches_inv [OF i a])
    with 5 show ?thesis by (simp add: tryFinalizeMessage_def Let_def prim)
  qed
qed

lemma handleConfirmation_inv:
  assumes "inv s"
  shows "inv (handleConfirmation g tag ack s)"
proof -
  have i: "inv (noteResponse s)" using assms same_core_noteResponse by (rule inv_same_core)
  show ?thesis
  proof (cases "LoadByDeliveryTag (pb_pendingMessages (noteResponse s)) (deliveryKey g tag)")
    case None
    with i show ?thesis by (simp add: handleConfirmation_def Let_def)
  next
    case (Some a)
    note l = loaded [OF i Some]
    let ?H = "pb_heap (noteResponse s)"
    let ?m = "if ack then (?H a)\<lparr>pm_Confirmed := True\<rparr> else (?H a)\<lparr>pm_Nacked := True\<rparr>"
    have "inv (tryFinalizeMessage a (upd_pm a (\<lambda>_. ?m) (noteResponse s)))"
      by (rule tryFinalizeMessage_inv [OF i l(1,2)]) (auto simp: same_id_def answered_def)
    then show ?thesis using Some by (simp add: handleConfirmation_def Let_def upd_pm_def)
  qed
qed

lemma handleReturn_inv:
  assumes "inv s"
  shows "inv (handleReturn mid code txt s)"
proof -
  have i: "inv (noteResponse s)" using assms same_core_noteResponse by (rule inv_same_core)
  show ?thesis
  proof (cases "LoadByMessageID (pb_pendingMessages (noteResponse s)) mid")
    case None
    with i show ?thesis by (simp add: handleReturn_def Let_def)
  next
    case (Some a)
    note l = loaded_id [OF i Some]
    let ?H = "pb_heap (noteResponse s)"
    let ?m = "(?H a)\<lparr>pm_Returned := True, pm_ReturnReason := MessageReturned txt code\<rparr>"
    show ?thesis
    proof (cases "pm_CallbackFired (?H a)")
      case True
      with i Some show ?thesis by (simp add: handleReturn_def Let_def)
    next
      case False
      then have "inv (tryFinalizeMessage a (upd_pm a (\<lambda>_. ?m) (noteResponse s)))"
        by (intro tryFinalizeMessage_inv [OF i l(1,2)]) (auto simp: same_id_def answered_def)
      with False Some show ?thesis by (simp add: handleReturn_def Let_def upd_pm_def)
    qed
  qed
qed

section \<open>Timers, orphans and scheduled goroutines\<close>

lemma handleTimeout_inv:
  assumes i: "inv s"
  shows "inv (handleTimeout k s)"
proof (cases "LoadByDeliveryTag (pb_pendingMessages s) k")
  case None
  with i show ?thesis by (simp add: handleTimeout_def)
next
  case (Some a)
  note l = loaded [OF i Some]
  let ?m = "pb_heap s a"
  have ok: "obj_ok (pb_config s) ?m" using i l(1) by (rule inv_obj_ok)
  consider "pm_CallbackFired ?m" | "\<not> pm_CallbackFired ?m" "pm_inFlight ?m"
    | "\<not> pm_CallbackFired ?m" "\<not> pm_inFlight ?m" by blast
  then show ?thesis
  proof cases
    case 1
    with i Some show ?thesis by (simp add: handleTimeout_def Let_def)
  next
    case 2
    have "touches a s (upd_pm a (\<lambda>_. ?m\<lparr>pm_timeoutDeferred := True\<rparr>) s)"
      using ok by (intro touches_upd) (auto simp: same_id_def answered_def obj_ok_def)
    then have "inv (upd_pm a (\<lambda>_. ?m\<lparr>pm_timeoutDeferred := True\<rparr>) s)"
      by (rule touches_inv [OF i l(1,2)])
    with 2 Some show ?thesis by (simp add: handleTimeout_def Let_def upd_pm_def)
  next
    case 3
    let ?err = "ConfirmationTimeoutAfter (cf_deliveryTimeout (pb_config s))"
    let ?n = "?m\<lparr>pm_CallbackFired := True, pm_FinalOutcome := Some DeliveryTimeout,
                 pm_FinalError := ?err\<rparr>"
    have "settles a s (handleTimeout k s)"
      unfolding settles_def
    proof (intro exI conjI)
      show "same_id (pb_heap s a) ?n" by (simp add: same_id_def answered_def)
      show "obj_ok (pb_config s) ?n" using ok by (auto simp: obj_ok_def)
      show "token_for (pb_config s) a ?n
          (GFinish a (pm_MessageID ?n) (pm_key ?n) (pm_Callback ?n) DeliveryTimeout (pm_FinalError ?n))"
        by (simp add: token_for_def)
    qed (use 3 Some l(3) in \<open>simp_all add: handleTimeout_def Let_def prim same_frame_def totals_count_outcome\<close>)
    then show ?thesis using settles_inv [OF i l(1) 3(1)] by simp
  qed
qed

lemma handleMandatoryGracePeriodExpired_inv:
  assumes i: "inv s" and c: "\<And>a. LoadByDeliveryTag (pb_pendingMessages s) k = Some a \<Longrightarrow> pm_Confirmed (pb_heap s a)"
  shows "inv (handleMandatoryGracePeriodExpired k s)"
proof (cases "LoadByDeliveryTag (pb_pendingMessages s) k")
  case None
  with i show ?thesis by (simp add: handleMandatoryGracePeriodExpired_def)
next
  case (Some a)
  note l = loaded [OF i Some]
  let ?m = "pb_heap s a"
  have ok: "obj_ok (pb_config s) ?m" using i l(1) by (rule inv_obj_ok)
  show ?thesis
  proof (cases "pm_CallbackFired ?m \<or> pm_Returned ?m")
    case True
    with i Some show ?thesis by (auto simp: handleMandatoryGracePeriodExpired_def Let_def)
  next
    case False
    let ?n = "?m\<lparr>pm_CallbackFired := True, pm_FinalOutcome := Some DeliverySuccess,
                 pm_FinalError := NoErrorMessage\<rparr>"
    have "settles a s (handleMandatoryGracePeriodExpired k s)"
      unfolding settles_def
    proof (intro exI conjI)
      show "same_id (pb_heap s a) ?n" by (simp add: same_id_def answered_def)
      show "obj_ok (pb_config s) ?n" using ok c [OF Some] False by (auto simp: obj_ok_def)
      show "token_for (pb_config s) a ?n
          (GFinish a (pm_MessageID ?n) (pm_key ?n) (pm_Callback ?n) DeliverySuccess (pm_FinalError ?n))"
        by (simp add: token_for_def)
      show "pm_inFlight ?n \<longrightarrow> answered ?n" using c [OF Some] by (simp add: answered_def)
    qed (use False Some l(3) in \<open>simp_all add: handleMandatoryGracePeriodExpired_def Let_def prim same_frame_def totals_count_outcome\<close>)
    then show ?thesis using settles_inv [OF i l(1)] False by simp
  qed
qed

lemma settleOrphan_inv:
  assumes i: "inv s" and a: "a < pb_next s"
  shows "inv (settleOrphan a reason s)"
proof -
  let ?m = "pb_heap s a"
  have ok: "obj_ok (pb_config s) ?m" using i a by (rule inv_obj_ok)
  consider "pm_CallbackFired ?m \<or> answered ?m"
    | "\<not> pm_CallbackFired ?m" "\<not> answered ?m" "pm_inFlight ?m"
    | "\<not> pm_CallbackFired ?m" "\<not> answered ?m" "\<not> pm_inFlight ?m" by blast
  then show ?thesis
  proof cases
    case 1
    with i show ?thesis by (auto simp: settleOrphan_def answered_def Let_def)
  next
    case 2
    let ?n = "?m\<lparr>pm_orphanDeferred := True, pm_orphanReason := reason\<rparr>"
    have "touches a s (upd_pm a (\<lambda>_. ?n) s)"
      using ok by (intro touches_upd) (auto simp: same_id_def answered_def obj_ok_def)
    then have "inv (upd_pm a (\<lambda>_. ?n) s)"
      using touches_inv [OF i a unfired_not_refused [OF i 2(1)]] by simp
    with 2 show ?thesis by (simp add: settleOrphan_def answered_def Let_def upd_pm_def)
  next
    case 3
    let ?n = "?m\<lparr>pm_CallbackFired := True, pm_FinalOutcome := Some DeliveryFailed,
                 pm_FinalError := ConfirmChannelClosed reason, pm_TimeoutTimer := None\<rparr>"
    have "settles a s (settleOrphan a reason s)"
      unfolding settles_def
    proof (intro exI conjI)
      show "same_id (pb_heap s a) ?n" by (simp add: same_id_def answered_def)
      show "obj_ok (pb_config s) ?n" using ok by (auto simp: obj_ok_def)
      show "token_for (pb_config s) a ?n
          (GFinish a (pm_MessageID ?n) (pm_key ?n) (pm_Callback ?n) DeliveryFailed (pm_FinalError ?n))"
        by (simp add: token_for_def)
    qed (use 3 in \<open>simp_all add: settleOrphan_def answered_def Let_def prim same_frame_def totals_def\<close>)
    then show ?thesis using settles_inv [OF i a 3(1)] by simp
  qed
qed

text \<open>A goroutine that is no token of a message may be taken off the queue.\<close>

lemma mcount_remove: "t \<in># G \<Longrightarrow> mcount P (G - {#t#}) = mcount P G - (if P t then 1 else 0)"
  by (auto simp: mcount_def filter_diff_mset size_Diff_singleton)

lemma take_goroutine_inv:
  assumes i: "inv s" and t: "t \<in># pb_goroutines s" "\<And>a. \<not> token_of a t"
  shows "inv (take_goroutine t s)"
proof -
  have h: "\<not> holds_entry a t" for a using t(2) [of a] by (cases t) auto
  have rep: "t \<noteq> GRepublish b" for b using t(2) [of b] by auto
  have R: "refused (take_goroutine t s) = refused s"
    by (simp add: refused_def fun_eq_iff take_goroutine_def)
  have in_diff: "x \<noteq> t \<Longrightarrow> x \<in># pb_goroutines s - {#t#} \<longleftrightarrow> x \<in># pb_goroutines s" for x
    by (simp add: in_diff_count)
  note inv = invD [OF i]
  have "inv_index (take_goroutine t s)"
    using inv(1) by (simp add: inv_index_def R) (simp add: take_goroutine_def)
  moreover have "inv_member (take_goroutine t s)"
    using inv(2) h by (simp add: inv_member_def take_goroutine_def mcount_remove [OF t(1)])
  moreover have "inv_tokens (take_goroutine t s)"
    using inv(3) t(2) by (simp add: inv_tokens_def tokens_def take_goroutine_def mcount_remove [OF t(1)])
  moreover have "inv_tasks (take_goroutine t s)"
    using inv(4) by (auto simp: inv_tasks_def take_goroutine_def dest: in_diffD)
  moreover have "inv_log (take_goroutine t s)"
    using inv(5) by (simp add: inv_log_def take_goroutine_def)
  moreover have "inv_obj (take_goroutine t s)"
    using inv(6) by (simp add: inv_obj_def take_goroutine_def)
  moreover have "inv_calls (take_goroutine t s)"
    using inv(7) by (simp add: inv_calls_def take_goroutine_def)
  moreover have "inv_phase (take_goroutine t s)"
  proof -
    have "GRepublish b \<in># pb_goroutines s - {#t#} \<longleftrightarrow> GRepublish b \<in># pb_goroutines s" for b
      using in_diff rep [of b] by metis
    then show ?thesis
      using inv(8) by (simp add: inv_phase_def take_goroutine_def split: publishing_phase.splits)
  qed
  moreover have "inv_keys (take_goroutine t s)"
    using inv(9) unfolding inv_keys_def R by (simp add: take_goroutine_def)
  moreover have "inv_uniq (take_goroutine t s)"
    using inv(10) unfolding inv_uniq_def R by (simp add: take_goroutine_def)
  moreover have "inv_stats (take_goroutine t s)"
    using inv(11) by (simp add: inv_stats_def unsettled_def take_goroutine_def)
  ultimately show ?thesis by (simp add: inv_def)
qed

section \<open>The token of a settled message\<close>

text \<open>
  A token moves on: the goroutine that holds it is replaced by the next one, or by the event
  that ends the message's story. \<open>del\<close> says whether the message's entry is deleted on the way.
\<close>

definition token_moves ::
  "addr \<Rightarrow> goroutine \<Rightarrow> goroutine + event \<Rightarrow> bool \<Rightarrow> int \<Rightarrow> publisher \<Rightarrow> publisher \<Rightarrow> bool" where
  "token_moves a t nxt del r s s' \<longleftrightarrow>
     pb_heap s' = (pb_heap s)(a := (pb_heap s a)\<lparr>pm_RetryCount := r\<rparr>) \<and>
     pb_goroutines s' =
       (case nxt of Inl u \<Rightarrow> add_mset u (pb_goroutines s - {#t#}) | Inr e \<Rightarrow> pb_goroutines s - {#t#}) \<and>
     pb_log s' = (case nxt of Inl u \<Rightarrow> pb_log s | Inr e \<Rightarrow> e # pb_log s) \<and>
     pb_pendingMessages s' =
       (if del then Delete (pm_MessageID (pb_heap s a)) (pm_key (pb_heap s a)) (pb_pendingMessages s)
        else pb_pendingMessages s) \<and>
     pb_config s' = pb_config s \<and> pb_next s' = pb_next s \<and> pb_genCounter s' = pb_genCounter s \<and>
     pb_gens s' = pb_gens s \<and> pb_confirmGen s' = pb_confirmGen s \<and> pb_phase s' = pb_phase s \<and>
     st_TotalPublished (pb_stats s') = st_TotalPublished (pb_stats s) \<and>
     totals (pb_stats s') = totals (pb_stats s)"

text \<open>The message a token belongs to is settled, and has no other token.\<close>

lemma token_unique:
  assumes i: "inv s" and t: "t \<in># pb_goroutines s" "token_of a t"
  shows "a < pb_next s \<and> pm_CallbackFired (pb_heap s a)"
    "u \<in># pb_goroutines s - {#t#} \<Longrightarrow> \<not> token_of a u"
    "e \<in> set (pb_log s) \<Longrightarrow> \<not> ends a e"
proof -
  have "0 < mcount (token_of a) (pb_goroutines s)" using t by (rule mcount_pos)
  then have tok: "tokens s a \<noteq> 0" by (simp add: tokens_def)
  then show fired: "a < pb_next s \<and> pm_CallbackFired (pb_heap s a)"
    using invD(3) [OF i] by (auto simp: inv_tokens_def split: if_splits)
  then have "tokens s a = 1" using invD(3) [OF i] by (simp add: inv_tokens_def)
  moreover have "mcount (token_of a) (pb_goroutines s) =
      Suc (mcount (token_of a) (pb_goroutines s - {#t#}))"
    using mcount_add [of "token_of a" t "pb_goroutines s - {#t#}"] t by simp
  ultimately have "mcount (token_of a) (pb_goroutines s - {#t#}) = 0" "lcount (ends a) (pb_log s) = 0"
    by (simp_all add: tokens_def)
  then show "u \<in># pb_goroutines s - {#t#} \<Longrightarrow> \<not> token_of a u"
    "e \<in> set (pb_log s) \<Longrightarrow> \<not> ends a e"
    by (auto simp: mcount_zero_iff lcount_zero_iff)
qed

lemma taskD: "inv s \<Longrightarrow> t \<in># pb_goroutines s \<Longrightarrow> task_ok (pb_config s) (pb_heap s) (pb_next s) t"
  by (simp add: inv_def inv_tasks_def)

lemma holds_entry_token: "holds_entry a t \<Longrightarrow> token_of a t"
  by (cases t) auto

lemma task_ok_retry_count:
  "\<not> token_of a u \<Longrightarrow> task_ok cf H n u \<Longrightarrow> task_ok cf (H(a := (H a)\<lparr>pm_RetryCount := r\<rparr>)) n u"
  by (cases u) auto

lemma token_moves_inv:
  assumes i: "inv s" and t: "t \<in># pb_goroutines s" "token_of a t"
    and mv: "token_moves a t nxt del r s s'"
    and u: "\<And>u. nxt = Inl u \<Longrightarrow> token_of a u \<and> (holds_entry a u \<longrightarrow> holds_entry a t \<and> \<not> del) \<and>
              task_ok (pb_config s) (pb_heap s') (pb_next s) u"
    and e: "\<And>e. nxt = Inr e \<Longrightarrow> ends a e \<and> e \<noteq> Refused a \<and> event_ok (pb_heap s') e"
    and org: "t = GRepublish a \<Longrightarrow> origin_of (pb_phase s) \<noteq> Some a"
    and del: "del \<Longrightarrow> holds_entry a t"
    and r: "r \<le> max 0 (cf_maxRetryAttempts (pb_config s))"
  shows "inv s'"
proof -
  let ?H = "pb_heap s" and ?G = "pb_goroutines s - {#t#}"
  have fG: "pb_goroutines s' = (case nxt of Inl u \<Rightarrow> add_mset u ?G | Inr e \<Rightarrow> ?G)"
    and f: "pb_heap s' = ?H(a := (?H a)\<lparr>pm_RetryCount := r\<rparr>)"
      "pb_log s' = (case nxt of Inl u \<Rightarrow> pb_log s | Inr e \<Rightarrow> e # pb_log s)"
      "pb_pendingMessages s' =
       (if del then Delete (pm_MessageID (pb_heap s a)) (pm_key (pb_heap s a)) (pb_pendingMessages s)
        else pb_pendingMessages s)"
      "pb_config s' = pb_config s" "pb_next s' = pb_next s" "pb_genCounter s' = pb_genCounter s"
      "pb_gens s' = pb_gens s" "pb_confirmGen s' = pb_confirmGen s" "pb_phase s' = pb_phase s"
      "st_TotalPublished (pb_stats s') = st_TotalPublished (pb_stats s)"
      "totals (pb_stats s') = totals (pb_stats s)"
    using mv by (simp_all add: token_moves_def)
  note inv = invD [OF i] and un = token_unique [OF i t]
  have a: "a < pb_next s" "pm_CallbackFired (?H a)" using un(1) by auto
  have k: "pm_key (pb_heap s' b) = pm_key (?H b)" "pm_generation (pb_heap s' b) = pm_generation (?H b)"
    "pm_brokerTag (pb_heap s' b) = pm_brokerTag (?H b)" "pm_MessageID (pb_heap s' b) = pm_MessageID (?H b)"
    "pm_CallbackFired (pb_heap s' b) = pm_CallbackFired (?H b)" for b
    using f by simp_all
  have tok_b: "token_of b x \<longleftrightarrow> b = a" if "token_of a x" for b x using that by (cases x) auto
  have end_b: "ends b x \<longleftrightarrow> b = a" if "ends a x" for b x using that by (cases x) auto
  have hold_b: "holds_entry b x \<longleftrightarrow> b = a" if "holds_entry a x" for b x using that by (cases x) auto
  have hold_no: "\<not> holds_entry b x" if "token_of a x" "b \<noteq> a" for b x using that by (cases x) auto
  have ret: "returned b x = False" if "ends a x" "x \<noteq> Refused a" for b x using that by (cases x) auto
  have R: "refused s' = refused s"
  proof
    fix b show "refused s' b = refused s b"
    proof (cases nxt)
      case (Inr x)
      with e [OF Inr] f show ?thesis by (cases x) (auto simp: refused_def)
    qed (use f in \<open>simp add: refused_def\<close>)
  qed
  have mem_a: "LoadByDeliveryTag (pb_pendingMessages s) (pm_key (?H a)) = Some a" if "holds_entry a t"
    using inv(2) a mcount_pos [OF t(1), of "holds_entry a"] that by (simp add: inv_member_def)
  have G0: "mcount (holds_entry a) ?G = 0" "mcount (token_of a) ?G = 0"
    using un(2) holds_entry_token by (auto simp: mcount_zero_iff)
  have Gt: "mcount (holds_entry b) ?G = mcount (holds_entry b) (pb_goroutines s)" if "b \<noteq> a" for b
    using hold_no [OF t(2) that] by (simp add: mcount_remove [OF t(1)])
  have "inv_index s'"
  proof -
    have ix: "indexed LoadByMessageID LoadByDeliveryTag (\<lambda>a. pm_MessageID (?H a))
       (\<lambda>a. pm_key (?H a)) (pb_pendingMessages s)" "pending_ok (pb_pendingMessages s)"
      using inv(1) by (simp_all add: inv_index_def)
    have "indexed LoadByMessageID LoadByDeliveryTag (\<lambda>a. pm_MessageID (?H a))
       (\<lambda>a. pm_key (?H a)) (pb_pendingMessages s')"
      using f(3) ix mem_a del pmap.indexed_delete [of "\<lambda>a. pm_MessageID (?H a)" "\<lambda>a. pm_key (?H a)" _ a]
      by simp
    moreover have "pending_ok (pb_pendingMessages s')"
      using f(3) ix(2) by (simp add: pending_ok_Delete)
    moreover have "b < pb_next s \<and> \<not> refused s b" if "LoadByDeliveryTag (pb_pendingMessages s') l = Some b" for l b
    proof -
      have "LoadByDeliveryTag (pb_pendingMessages s) l = Some b"
        using that unfolding f(3) by (simp add: LoadByDeliveryTag_Delete split: if_splits)
      then show ?thesis using inv(1) by (simp add: inv_index_def)
    qed
    ultimately show ?thesis
      unfolding inv_index_def R k f(5) by simp
  qed
  moreover have "inv_member s'"
    unfolding inv_member_def k
  proof (intro allI impI)
    fix b assume b: "b < pb_next s'"
      and c: "\<not> pm_CallbackFired (?H b) \<or> 0 < mcount (holds_entry b) (pb_goroutines s')"
    show "LoadByDeliveryTag (pb_pendingMessages s') (pm_key (?H b)) = Some b"
    proof (cases "b = a")
      case True
      with c a have "0 < mcount (holds_entry a) (pb_goroutines s')" by simp
      then have "holds_entry a t \<and> \<not> del"
        using fG G0 u by (cases nxt) (simp_all split: if_splits)
      then show ?thesis using True mem_a f by simp
    next
      case False
      have "mcount (holds_entry b) (pb_goroutines s') = mcount (holds_entry b) (pb_goroutines s)"
        using fG Gt [OF False] u hold_no [OF _ False] by (cases nxt) simp_all
      with c b f inv(2) have mb: "LoadByDeliveryTag (pb_pendingMessages s) (pm_key (?H b)) = Some b"
        by (simp add: inv_member_def)
      show ?thesis
      proof (cases del)
        case True
        have ma: "LoadByDeliveryTag (pb_pendingMessages s) (pm_key (?H a)) = Some a"
          using del [OF True] mem_a by simp
        have "pm_key (?H b) \<noteq> pm_key (?H a)" using ma mb False by auto
        then show ?thesis using mb f True by (simp add: LoadByDeliveryTag_Delete)
      qed (use mb f in simp)
    qed
  qed
  moreover have "inv_tokens s'"
  proof -
    have "tokens s' b = tokens s b" for b
    proof (cases "b = a")
      case True
      have "tokens s a = 1" using inv(3) a by (simp add: inv_tokens_def)
      moreover have "lcount (ends a) (pb_log s) = 0" using un(3) by (simp add: lcount_zero_iff)
      moreover have "tokens s' a = 1"
        using fG f(2) u e G0 calculation(2) by (cases nxt) (simp_all add: tokens_def)
      ultimately show ?thesis using True by simp
    next
      case False
      have "mcount (token_of b) ?G = mcount (token_of b) (pb_goroutines s)"
        using tok_b [OF t(2), of b] False by (simp add: mcount_remove [OF t(1)])
      then show ?thesis
        using fG f(2) u e False tok_b [of _ b] end_b [of _ b]
        by (cases nxt) (simp_all add: tokens_def)
    qed
    then show ?thesis using inv(3) f by (simp add: inv_tokens_def)
  qed
  moreover have "inv_tasks s'"
  proof -
    have "task_ok (pb_config s) (pb_heap s') (pb_next s) x" if "x \<in># ?G" for x
    proof -
      have "task_ok (pb_config s) ?H (pb_next s) x"
        using inv(4) in_diffD [OF that] by (simp add: inv_tasks_def)
      with un(2) [OF that] f show ?thesis by (simp add: task_ok_retry_count)
    qed
    then show ?thesis using fG f(4,5) u by (cases nxt) (auto simp: inv_tasks_def)
  qed
  moreover have "inv_log s'"
  proof -
    have "event_ok (pb_heap s') x" if "x \<in> set (pb_log s)" for x
      using event_ok_upd_other [of ?H x a] un(3) [OF that] inv(5) that f by (simp add: inv_log_def)
    then show ?thesis using f(2) e by (cases nxt) (auto simp: inv_log_def)
  qed
  moreover have "inv_obj s'"
    using inv(6) f r by (auto simp: inv_obj_def obj_ok_def)
  moreover have "inv_calls s'"
  proof -
    have "lcount (returned b) (pb_log s') = lcount (returned b) (pb_log s)" for b
      using f(2) e ret [of _ b] by (cases nxt) simp_all
    then show ?thesis using inv(7) f by (simp add: inv_calls_def)
  qed
  moreover have "inv_phase s'"
  proof -
    have "GRepublish b \<in># pb_goroutines s'" if "origin_of (pb_phase s) = Some b" for b
    proof -
      have "GRepublish b \<in># pb_goroutines s" using that inv(8) by (simp add: inv_phase_def)
      moreover have "GRepublish b \<noteq> t" using that org t(2) by auto
      ultimately have "GRepublish b \<in># ?G" by (simp add: in_diff_count)
      then show ?thesis using fG by (cases nxt) auto
    qed
    then show ?thesis
      using inv(8) f by (auto simp: inv_phase_def answered_def split: publishing_phase.splits)
  qed
  moreover have "inv_keys s'"
    using inv(9) f unfolding inv_keys_def k R by simp
  moreover have "inv_uniq s'"
    using inv(10) f unfolding inv_uniq_def k R by simp
  moreover have "inv_stats s'"
  proof -
    have "unsettled s' = unsettled s" unfolding unsettled_def k f(5) ..
    then show ?thesis using inv(11) f(10,11) by (simp add: inv_stats_def)
  qed
  ultimately show ?thesis by (simp add: inv_def)
qed

lemma obj_ok_retry: "obj_ok cf m \<Longrightarrow> pm_RetryCount m \<le> max 0 (cf_maxRetryAttempts cf)"
  by (simp add: obj_ok_def)

lemma run_finish_inv:
  assumes i: "inv s" and t: "GFinish a mid k cb outcome err \<in># pb_goroutines s"
  shows "inv (run_finish a mid k cb outcome err (take_goroutine (GFinish a mid k cb outcome err) s))"
proof -
  let ?t = "GFinish a mid k cb outcome err"
  have tok: "token_of a ?t" by simp
  note un = token_unique [OF i t tok]
  have ok: "task_ok (pb_config s) (pb_heap s) (pb_next s) ?t"
    using i t by (rule taskD)
  have obj: "obj_ok (pb_config s) (pb_heap s a)" using un(1) i by (simp add: inv_obj_ok)
  with ok obtain c where c: "cb = Some c" "pm_Callback (pb_heap s a) = Some c"
    and eq: "mid = pm_MessageID (pb_heap s a)" "k = pm_key (pb_heap s a)"
      "err = pm_FinalError (pb_heap s a)" "pm_FinalOutcome (pb_heap s a) = Some outcome"
    by (auto simp: obj_ok_def)
  show ?thesis
    by (rule token_moves_inv [OF i t tok, where nxt = "Inr (Called a c mid outcome err)" and del = True
          and r = "pm_RetryCount (pb_heap s a)"])
      (use eq c obj_ok_retry [OF obj] in
        \<open>simp_all add: token_moves_def run_finish_def call_back_def prim totals_def\<close>)
qed

lemma retryMessage_inv:
  assumes i: "inv s" and t: "GRetry a \<in># pb_goroutines s"
  shows "inv (retryMessage a (take_goroutine (GRetry a) s))"
proof -
  have tok: "token_of a (GRetry a)" by simp
  note un = token_unique [OF i t tok]
  have ok: "task_ok (pb_config s) (pb_heap s) (pb_next s) (GRetry a)"
    using i t by (rule taskD)
  then have r: "pm_RetryCount (pb_heap s a) + 1 \<le> max 0 (cf_maxRetryAttempts (pb_config s))"
    by (auto simp: max_def)
  show ?thesis
    by (rule token_moves_inv [OF i t tok, where del = False and r = "pm_RetryCount (pb_heap s a) + 1"
          and nxt = "Inl (GRetrySleep a (pm_MessageID (pb_heap s a)) (pm_key (pb_heap s a)))"])
      (use ok r in \<open>simp_all add: token_moves_def retryMessage_def Let_def prim totals_def\<close>)
qed

lemma retry_awake_inv:
  assumes i: "inv s" and t: "GRetrySleep a mid k \<in># pb_goroutines s"
  shows "inv (retry_awake a mid k (take_goroutine (GRetrySleep a mid k) s))"
proof -
  have tok: "token_of a (GRetrySleep a mid k)" by simp
  note un = token_unique [OF i t tok]
  have ok: "task_ok (pb_config s) (pb_heap s) (pb_next s) (GRetrySleep a mid k)"
    using i t by (rule taskD)
  have obj: "obj_ok (pb_config s) (pb_heap s a)" using un(1) i by (simp add: inv_obj_ok)
  show ?thesis
    by (rule token_moves_inv [OF i t tok, where del = True and r = "pm_RetryCount (pb_heap s a)"
          and nxt = "Inl (GRepublish a)"])
      (use ok obj_ok_retry [OF obj] in
        \<open>simp_all add: token_moves_def retry_awake_def Let_def prim totals_def\<close>)
qed

lemma retry_failed_inv:
  assumes i: "inv s" and t: "GRepublish a \<in># pb_goroutines s"
    and org: "origin_of (pb_phase s) \<noteq> Some a"
  shows "inv (retry_failed a err (take_goroutine (GRepublish a) s))"
proof -
  have tok: "token_of a (GRepublish a)" by simp
  note un = token_unique [OF i t tok]
  have ok: "task_ok (pb_config s) (pb_heap s) (pb_next s) (GRepublish a)"
    using i t by (rule taskD)
  have obj: "obj_ok (pb_config s) (pb_heap s a)" using un(1) i by (simp add: inv_obj_ok)
  let ?e = "case do_Callback (pm_RetryOptions (pb_heap s a)) of
              Some c \<Rightarrow> Called a c (pm_MessageID (pb_heap s a)) DeliveryFailed (RetryFailedWith err)
            | None \<Rightarrow> Dropped a"
  show ?thesis
    by (rule token_moves_inv [OF i t tok, where del = False and r = "pm_RetryCount (pb_heap s a)"
          and nxt = "Inr ?e"])
      (use ok obj_ok_retry [OF obj] org in
        \<open>simp_all add: token_moves_def retry_failed_def call_back_def Let_def prim totals_def split: option.splits\<close>)
qed

lemma hand_over_inv:
  assumes i: "inv s" and t: "GRepublish b \<in># pb_goroutines s" and idle: "pb_phase s = Idle"
  shows "inv (emit (HandedOver b a) (take_goroutine (GRepublish b) s))"
proof -
  have tok: "token_of b (GRepublish b)" by simp
  note un = token_unique [OF i t tok]
  have ok: "task_ok (pb_config s) (pb_heap s) (pb_next s) (GRepublish b)"
    using i t by (rule taskD)
  have obj: "obj_ok (pb_config s) (pb_heap s b)" using un(1) i by (simp add: inv_obj_ok)
  show ?thesis
    by (rule token_moves_inv [OF i t tok, where del = False and r = "pm_RetryCount (pb_heap s b)"
          and nxt = "Inr (HandedOver b a)"])
      (use ok obj_ok_retry [OF obj] idle in \<open>simp_all add: token_moves_def prim origin_of_def\<close>)
qed

section \<open>Registration\<close>

lemma go_inv:
  assumes i: "inv s" and t: "\<And>a. \<not> token_of a t" "task_ok (pb_config s) (pb_heap s) (pb_next s) t"
  shows "inv (go t s)"
proof -
  have h: "\<not> holds_entry a t" for a using t(1) [of a] by (cases t) auto
  have R: "refused (go t s) = refused s" by (simp add: refused_def fun_eq_iff go_def)
  note inv = invD [OF i]
  have "inv_index (go t s)"
    using inv(1) by (simp add: inv_index_def R) (simp add: go_def)
  moreover have "inv_member (go t s)"
    using inv(2) h by (simp add: inv_member_def go_def)
  moreover have "inv_tokens (go t s)"
    using inv(3) t(1) by (simp add: inv_tokens_def tokens_def go_def)
  moreover have "inv_tasks (go t s)"
    using inv(4) t(2) by (simp add: inv_tasks_def go_def)
  moreover have "inv_log (go t s)"
    using inv(5) by (simp add: inv_log_def go_def)
  moreover have "inv_obj (go t s)"
    using inv(6) by (simp add: inv_obj_def go_def)
  moreover have "inv_calls (go t s)"
    using inv(7) by (simp add: inv_calls_def go_def)
  moreover have "inv_phase (go t s)"
    using inv(8) by (simp add: inv_phase_def go_def split: publishing_phase.splits)
  moreover have "inv_keys (go t s)"
    using inv(9) unfolding inv_keys_def R by (simp add: go_def)
  moreover have "inv_uniq (go t s)"
    using inv(10) unfolding inv_uniq_def R by (simp add: go_def)
  moreover have "inv_stats (go t s)"
    using inv(11) by (simp add: inv_stats_def unsettled_def go_def)
  ultimately show ?thesis by (simp add: inv_def)
qed

lemma indexed_cong:
  assumes "indexed f g idf keyf M"
    and "\<And>i a. f M i = Some a \<Longrightarrow> idf' a = idf a \<and> keyf' a = keyf a"
  shows "indexed f g idf' keyf' M"
proof (rule indexedI)
  fix i a assume "f M i = Some a"
  with indexed_idD [OF assms(1) this] assms(2) [OF this]
  show "idf' a = i \<and> g M (keyf' a) = Some a" by simp
next
  fix k a assume "g M k = Some a"
  with indexed_keyD [OF assms(1) this] assms(2) [of "idf a" a]
  show "keyf' a = k \<and> f M (idf' a) = Some a" by simp
qed

text \<open>The key of a tag beyond those published on the current channel is not in the map.\<close>

lemma fresh_key:
  assumes i: "inv s" and t: "unat (cg_published (pb_gens s (pb_confirmGen s))) < unat t" "unat t < 2 ^ 40"
    and b: "b < pb_next s" "\<not> refused s b" "\<nexists>origin. pb_phase s = Sending b origin"
  shows "pm_key (pb_heap s b) \<noteq> deliveryKey (pb_confirmGen s) t"
proof
  assume eq: "pm_key (pb_heap s b) = deliveryKey (pb_confirmGen s) t"
  note k = invD(9) [OF i, unfolded inv_keys_def]
  have kb: "pm_key (pb_heap s b) = deliveryKey (pm_generation (pb_heap s b)) (pm_brokerTag (pb_heap s b))"
    "unat (pm_generation (pb_heap s b)) < 2 ^ 24" "unat (pm_brokerTag (pb_heap s b)) < 2 ^ 40"
    "unat (pm_brokerTag (pb_heap s b)) \<le> unat (cg_published (pb_gens s (pm_generation (pb_heap s b))))"
    "unat (pb_confirmGen s) < 2 ^ 24"
    using k b by auto
  from eq kb have "pm_generation (pb_heap s b) = pb_confirmGen s \<and> pm_brokerTag (pb_heap s b) = t"
    using deliveryKey_eq_iff [OF kb(2) kb(5) kb(3) t(2)] by simp
  with kb(4) t(1) show False by simp
qed

lemma publishTracked_register_cases:
  fixes s :: publisher
  defines "key \<equiv> deliveryKey (pb_confirmGen s) (cg_published (pb_gens s (pb_confirmGen s)) + 1)"
  shows "snd (publishTracked_register ctxErr stray m timeout origin s) = s \<or>
     snd (publishTracked_register ctxErr stray m timeout origin s) =
       (if stray then go (GTimeout key) s else s) \<or>
     LoadByMessageID (pb_pendingMessages s) (pm_MessageID m) = None \<and>
     snd (publishTracked_register ctxErr stray m timeout origin s) =
       note_pending (upd_stats (\<lambda>st. st\<lparr>st_TotalPublished := st_TotalPublished st + 1\<rparr>)
         (s\<lparr>pb_heap := (pb_heap s)(pb_next s := m\<lparr>pm_key := key,
              pm_brokerTag := cg_published (pb_gens s (pb_confirmGen s)) + 1,
              pm_generation := pb_confirmGen s, pm_inFlight := True,
              pm_TimeoutTimer := Some (RunTimeout key, pb_now s + timeout)\<rparr>),
            pb_next := Suc (pb_next s),
            pb_pendingMessages := snd (Store (pm_MessageID m) key (pb_next s) (pb_pendingMessages s)),
            pb_phase := Sending (pb_next s) origin\<rparr>))"
    (is "?r = s \<or> ?r = ?rejected \<or> ?fresh \<and> ?r = ?registered")
proof -
  obtain stored mp where S: "Store (pm_MessageID m) key (pb_next s) (pb_pendingMessages s) = (stored, mp)"
    by (cases "Store (pm_MessageID m) key (pb_next s) (pb_pendingMessages s)")
  have st: "stored \<longleftrightarrow> ?fresh"
    using Store_rejects [of "pm_MessageID m" key "pb_next s" "pb_pendingMessages s"] by (simp add: S)
  have r: "?r =
     (if pb_closed s \<or> cg_chClosed (pb_gens s (pb_confirmGen s)) \<or> ctxErr then s
      else if cg_dead (pb_gens s (pb_confirmGen s)) \<or> \<not> stored then ?rejected
      else ?registered)"
    unfolding publishTracked_register_def Let_def key_def [symmetric] S prod.case snd_conv
    by (simp only: snd_conv split: if_split) simp
  show ?thesis unfolding r using st by presburger
qed

text \<open>A freshly registered message.\<close>

lemma register_inv:
  assumes i: "inv s" and idle: "pb_phase s = Idle" and lim: "tag_limit s"
    and m: "pm_Callback m \<noteq> None" "pm_RetryCount m \<le> max 0 (cf_maxRetryAttempts (pb_config s))"
      "\<not> pm_CallbackFired m" "\<not> answered m" "pm_FinalOutcome m = None"
      "pm_OriginalMessage m \<noteq> None \<Longrightarrow> cf_enableAutomaticRetries (pb_config s)"
    and org: "\<And>b. origin = Some b \<Longrightarrow> GRepublish b \<in># pb_goroutines s"
    and r: "publishTracked_register ctxErr stray m timeout origin s = (r, s')"
  shows "inv s'"
proof -
  let ?g = "pb_confirmGen s"
  let ?tag = "cg_published (pb_gens s ?g) + 1" and ?a = "pb_next s" and ?H = "pb_heap s"
  let ?key = "deliveryKey ?g ?tag"
  let ?m = "m\<lparr>pm_key := ?key, pm_brokerTag := ?tag, pm_generation := ?g, pm_inFlight := True,
              pm_TimeoutTimer := Some (RunTimeout ?key, pb_now s + timeout)\<rparr>"
  have stray: "inv (if stray then go (GTimeout ?key) s else s)"
    using i by (simp add: go_inv)
  have s': "s' = snd (publishTracked_register ctxErr stray m timeout origin s)" by (simp add: r)
  consider "s' = s" | "s' = (if stray then go (GTimeout ?key) s else s)"
    | "LoadByMessageID (pb_pendingMessages s) (pm_MessageID m) = None"
      "s' = note_pending (upd_stats (\<lambda>st. st\<lparr>st_TotalPublished := st_TotalPublished st + 1\<rparr>)
             (s\<lparr>pb_heap := ?H(?a := ?m), pb_next := Suc ?a,
                pb_pendingMessages := snd (Store (pm_MessageID m) ?key ?a (pb_pendingMessages s)),
                pb_phase := Sending ?a origin\<rparr>))"
    using publishTracked_register_cases [of ctxErr stray m timeout origin s] unfolding s' by (elim disjE conjE)
  then show ?thesis
  proof cases
    case 1
    with i show ?thesis by simp
  next
    case 2
    with stray show ?thesis by simp
  next
    case 3
    note inv = invD [OF i]
    have R: "refused s' = refused s" by (simp add: 3(2) refused_def fun_eq_iff prim)
    have H: "pb_heap s' = ?H(?a := ?m)" and n: "pb_next s' = Suc ?a" and G: "pb_goroutines s' = pb_goroutines s"
      and M: "pb_pendingMessages s' = snd (Store (pm_MessageID m) ?key ?a (pb_pendingMessages s))"
      and P: "pb_phase s' = Sending ?a origin" and L: "pb_log s' = pb_log s"
      and fr: "pb_config s' = pb_config s" "pb_gens s' = pb_gens s" "pb_confirmGen s' = ?g"
        "pb_genCounter s' = pb_genCounter s"
      and S: "st_TotalPublished (pb_stats s') = st_TotalPublished (pb_stats s) + 1"
        "totals (pb_stats s') = totals (pb_stats s)"
      by (simp_all add: 3(2) prim totals_def)
    have ut: "unat ?tag = unat (cg_published (pb_gens s ?g)) + 1" "unat ?tag < 2 ^ 40"
      using lim by (simp_all add: tag_limit_def unat_Suc)
    have nr: "\<not> refused s ?a" using no_token(2) [OF i, of ?a "Refused ?a"] by (auto simp: refused_def)
    have fk: "pm_key (?H b) \<noteq> ?key" if "b < ?a" "\<not> refused s b" for b
    proof (rule fresh_key [OF i _ ut(2) that])
      show "unat (cg_published (pb_gens s ?g)) < unat ?tag" unfolding ut(1) by simp
    qed (simp add: idle)
    have old: "b < ?a" "\<not> refused s b" "(?H(?a := ?m)) b = ?H b"
      if "LoadByDeliveryTag (pb_pendingMessages s) k = Some b" for k b
      using loaded [OF i that] by auto
    have ix: "indexed LoadByMessageID LoadByDeliveryTag (\<lambda>a. pm_MessageID (?H a))
       (\<lambda>a. pm_key (?H a)) (pb_pendingMessages s)" "pending_ok (pb_pendingMessages s)"
      using inv(1) by (simp_all add: inv_index_def)
    have ix': "indexed LoadByMessageID LoadByDeliveryTag (\<lambda>a. pm_MessageID ((?H(?a := ?m)) a))
       (\<lambda>a. pm_key ((?H(?a := ?m)) a)) (pb_pendingMessages s)"
      using ix(1) by (rule indexed_cong) (use loaded_id [OF i] in auto)
    have nokey: "LoadByDeliveryTag (pb_pendingMessages s) ?key = None"
    proof (cases "LoadByDeliveryTag (pb_pendingMessages s) ?key")
      case (Some b)
      then show ?thesis using fk [of b] old(1,2) [OF Some] loaded(3) [OF i Some] by simp
    qed
    have "inv_index s'"
    proof -
      have "indexed LoadByMessageID LoadByDeliveryTag (\<lambda>a. pm_MessageID (pb_heap s' a))
         (\<lambda>a. pm_key (pb_heap s' a)) (pb_pendingMessages s')"
        using pmap.indexed_store [OF ix', of ?a] 3(1) nokey by (simp add: H M)
      moreover have "pending_ok (pb_pendingMessages s')" using ix(2) by (simp add: M pending_ok_Store)
      moreover have "b < pb_next s' \<and> \<not> refused s' b"
        if "LoadByDeliveryTag (pb_pendingMessages s') k = Some b" for k b
      proof (cases "k = ?key")
        case True
        then show ?thesis using that nr by (simp add: M LoadByDeliveryTag_Store 3(1) n R)
      next
        case False
        then have "LoadByDeliveryTag (pb_pendingMessages s) k = Some b"
          using that by (simp add: M LoadByDeliveryTag_Store 3(1))
        then show ?thesis using old(1,2) by (simp add: n R less_SucI)
      qed
      ultimately show ?thesis by (simp add: inv_index_def)
    qed
    moreover have "inv_member s'"
      unfolding inv_member_def n G
    proof (intro allI impI)
      fix b assume b: "b < Suc ?a"
        and c: "\<not> pm_CallbackFired (pb_heap s' b) \<or> 0 < mcount (holds_entry b) (pb_goroutines s)"
      show "LoadByDeliveryTag (pb_pendingMessages s') (pm_key (pb_heap s' b)) = Some b"
      proof (cases "b = ?a")
        case True
        then show ?thesis by (simp add: H M LoadByDeliveryTag_Store 3(1))
      next
        case False
        with b c inv(2) have mb: "LoadByDeliveryTag (pb_pendingMessages s) (pm_key (?H b)) = Some b"
          by (simp add: inv_member_def H)
        with nokey have "pm_key (?H b) \<noteq> ?key" by auto
        with mb False show ?thesis by (simp add: H M LoadByDeliveryTag_Store 3(1))
      qed
    qed
    moreover have "inv_tokens s'"
    proof -
      have "tokens s' b = tokens s b" for b by (simp add: tokens_def G L)
      then show ?thesis using inv(3) m(3) by (auto simp: inv_tokens_def H n less_Suc_eq)
    qed
    moreover have "inv_tasks s'"
    proof -
      have "task_ok (pb_config s) (?H(?a := ?m)) (Suc ?a) t" if t: "t \<in># pb_goroutines s" for t
      proof -
        have "\<not> token_of ?a t" using no_token(1) [OF i _ t] by simp
        with taskD [OF i t] show ?thesis by (cases t) auto
      qed
      then show ?thesis by (simp add: inv_tasks_def H n G fr)
    qed
    moreover have "inv_log s'"
      using inv(5) event_ok_upd_other no_token(2) [OF i, of ?a] by (simp add: inv_log_def H L)
    moreover have "inv_obj s'"
      using inv(6) m by (auto simp: inv_obj_def H n fr obj_ok_def answered_def less_Suc_eq)
    moreover have "inv_calls s'"
      using inv(7) idle by (auto simp: inv_calls_def n L P less_Suc_eq)
    moreover have "inv_phase s'"
      using inv(8) idle org m ut(2) lim
      by (auto simp: inv_phase_def H n G P fr origin_of_def tag_limit_def less_Suc_eq)
    moreover have "inv_keys s'"
      using inv(9) idle ut
      by (auto simp: inv_keys_def H n P fr R less_Suc_eq simp del: power_numeral)
    moreover have "inv_uniq s'"
      using inv(10) fk fk [THEN not_sym] by (auto simp: inv_uniq_def H n R less_Suc_eq)
    moreover have "inv_stats s'"
    proof -
      have "unsettled s' = insert ?a (unsettled s)"
        using m(3) by (auto simp: unsettled_def H n less_Suc_eq)
      moreover have "?a \<notin> unsettled s" "finite (unsettled s)" by (simp_all add: unsettled_def)
      ultimately show ?thesis using inv(11) S by (simp add: inv_stats_def)
    qed
    ultimately show ?thesis by (simp add: inv_def)
  qed
qed

section \<open>The end of a publish\<close>

lemma phase_Sending:
  assumes i: "inv s" and p: "pb_phase s = Sending a origin"
  shows "a < pb_next s" "pm_inFlight (pb_heap s a)" "pm_generation (pb_heap s a) = pb_confirmGen s"
    "pm_brokerTag (pb_heap s a) = cg_published (pb_gens s (pb_confirmGen s)) + 1"
    "unat (cg_published (pb_gens s (pb_confirmGen s))) + 1 < 2 ^ 40"
    "pm_CallbackFired (pb_heap s a) \<longrightarrow> answered (pb_heap s a)"
    "b < pb_next s \<Longrightarrow> b \<noteq> a \<Longrightarrow> \<not> pm_inFlight (pb_heap s b)"
  using invD(8) [OF i] p by (auto simp: inv_phase_def)

lemma phase_Settling:
  assumes i: "inv s" and p: "pb_phase s = Settling a origin d reason dt dc"
  shows "a < pb_next s" "b < pb_next s \<Longrightarrow> \<not> pm_inFlight (pb_heap s b)"
    "pm_generation (pb_heap s a) = pb_confirmGen s"
    "\<not> pm_CallbackFired (pb_heap s a) \<Longrightarrow>
       pm_brokerTag (pb_heap s a) = cg_published (pb_gens s (pb_confirmGen s))"
    "dc = Some t \<Longrightarrow> unat (cg_published (pb_gens s (pb_confirmGen s))) \<le> unat t \<and> unat t < 2 ^ 40"
    "origin = Some b \<Longrightarrow> GRepublish b \<in># pb_goroutines s"
  using invD(8) [OF i] p by (auto simp: inv_phase_def origin_of_def)

lemma publishTracked_failed_inv:
  assumes i: "inv s" and p: "pb_phase s = Sending a origin" and na: "\<not> answered (pb_heap s a)"
  shows "inv (publishTracked_failed a s)"
proof -
  let ?H = "pb_heap s" and ?s = "publishTracked_failed a s"
  let ?m = "(?H a)\<lparr>pm_inFlight := False, pm_CallbackFired := True, pm_TimeoutTimer := None\<rparr>"
  note inv = invD [OF i] and ph = phase_Sending [OF i p]
  have unf: "\<not> pm_CallbackFired (?H a)" using ph(6) na by blast
  have H: "pb_heap ?s = ?H(a := ?m)" and n: "pb_next ?s = pb_next s"
    and G: "pb_goroutines ?s = pb_goroutines s"
    and M: "pb_pendingMessages ?s = Delete (pm_MessageID (?H a)) (pm_key (?H a)) (pb_pendingMessages s)"
    and P: "pb_phase ?s = Idle" and L: "pb_log ?s = Refused a # pb_log s"
    and fr: "pb_config ?s = pb_config s" "pb_gens ?s = pb_gens s" "pb_confirmGen ?s = pb_confirmGen s"
      "pb_genCounter ?s = pb_genCounter s"
    and S: "st_TotalPublished (pb_stats ?s) = st_TotalPublished (pb_stats s) - 1"
      "totals (pb_stats ?s) = totals (pb_stats s)"
    by (simp_all add: publishTracked_failed_def Let_def prim totals_def)
  have k: "pm_key (pb_heap ?s b) = pm_key (?H b)" "pm_generation (pb_heap ?s b) = pm_generation (?H b)"
    "pm_brokerTag (pb_heap ?s b) = pm_brokerTag (?H b)" "pm_MessageID (pb_heap ?s b) = pm_MessageID (?H b)"
    for b by (simp_all add: H)
  have R: "refused ?s b \<longleftrightarrow> b = a \<or> refused s b" for b by (auto simp: refused_def L)
  have ma: "LoadByDeliveryTag (pb_pendingMessages s) (pm_key (?H a)) = Some a"
    using inv(2) ph(1) unf by (simp add: inv_member_def)
  have ix: "indexed LoadByMessageID LoadByDeliveryTag (\<lambda>a. pm_MessageID (?H a))
     (\<lambda>a. pm_key (?H a)) (pb_pendingMessages s)" "pending_ok (pb_pendingMessages s)"
    using inv(1) by (simp_all add: inv_index_def)
  have nt: "t \<in># pb_goroutines s \<Longrightarrow> \<not> token_of a t" "e \<in> set (pb_log s) \<Longrightarrow> \<not> ends a e" for t e
    using no_token [OF i] unf by auto
  have "inv_index ?s"
  proof -
    have "b < pb_next s \<and> \<not> refused ?s b" if "LoadByDeliveryTag (pb_pendingMessages ?s) l = Some b" for l b
    proof -
      have l: "LoadByDeliveryTag (pb_pendingMessages s) l = Some b" "l \<noteq> pm_key (?H a)"
        using that unfolding M by (simp_all add: LoadByDeliveryTag_Delete split: if_splits)
      then show ?thesis using loaded [OF i l(1)] R by auto
    qed
    then show ?thesis
      using pmap.indexed_delete [OF ix(1), of a] ma pending_ok_Delete [OF ix(2)]
      unfolding inv_index_def k n M by blast
  qed
  moreover have "inv_member ?s"
    unfolding inv_member_def n G k
  proof (intro allI impI)
    fix b assume b: "b < pb_next s"
      and c: "\<not> pm_CallbackFired (pb_heap ?s b) \<or> 0 < mcount (holds_entry b) (pb_goroutines s)"
    have "0 = mcount (holds_entry a) (pb_goroutines s)"
      using nt(1) holds_entry_token mcount_zero_iff [of "holds_entry a"] by metis
    with c have ba: "b \<noteq> a" by (auto simp: H)
    with b c inv(2) have "LoadByDeliveryTag (pb_pendingMessages s) (pm_key (?H b)) = Some b"
      by (simp add: inv_member_def H)
    then show "LoadByDeliveryTag (pb_pendingMessages ?s) (pm_key (?H b)) = Some b"
      using pmap.load_key_delete_other [OF ix(1) ma _ ba] by (simp add: M)
  qed
  moreover have "inv_tokens ?s"
  proof -
    have "tokens ?s b = tokens s b + (if b = a then 1 else 0)" for b by (simp add: tokens_def G L)
    then show ?thesis using inv(3) ph(1) unf by (auto simp: inv_tokens_def H n)
  qed
  moreover have "inv_tasks ?s"
  proof -
    have "task_ok (pb_config s) (?H(a := ?m)) (pb_next s) t" if t: "t \<in># pb_goroutines s" for t
      using taskD [OF i t] nt(1) [OF t] by (cases t) auto
    then show ?thesis by (simp add: inv_tasks_def H n G fr)
  qed
  moreover have "inv_log ?s"
    using inv(5) event_ok_upd_other nt(2) na by (auto simp: inv_log_def H L answered_def)
  moreover have "inv_obj ?s"
    using inv(6) ph(1) unf by (auto simp: inv_obj_def H n fr obj_ok_def)
  moreover have "inv_calls ?s"
    using inv(7) p by (simp add: inv_calls_def n L P)
  moreover have "inv_phase ?s"
    using ph(7) by (simp add: inv_phase_def H n P origin_of_def)
  moreover have "inv_keys ?s"
    using inv(9) p unfolding inv_keys_def k n P fr R by auto
  moreover have "inv_uniq ?s"
    using inv(10) unfolding inv_uniq_def k n R by blast
  moreover have "inv_stats ?s"
  proof -
    have u: "unsettled ?s = unsettled s - {a}" by (auto simp: unsettled_def H n)
    have "a \<in> unsettled s" "finite (unsettled s)" using ph(1) unf by (auto simp: unsettled_def)
    then have "card (unsettled s) = Suc (card (unsettled ?s))" unfolding u by (metis card_Suc_Diff1)
    then show ?thesis using inv(11) S by (simp add: inv_stats_def)
  qed
  ultimately show ?thesis by (simp add: inv_def)
qed

lemma publishTracked_sent_inv:
  assumes i: "inv s" and p: "pb_phase s = Sending a origin"
    and dc: "\<And>t. dc = Some t \<Longrightarrow>
      unat (cg_published (pb_gens s (pb_confirmGen s))) < unat t \<and> unat t < 2 ^ 40"
  shows "inv (publishTracked_sent a origin dc s)"
proof -
  let ?H = "pb_heap s" and ?s = "publishTracked_sent a origin dc s" and ?g = "pb_confirmGen s"
  let ?pub = "cg_published (pb_gens s ?g)"
  note inv = invD [OF i] and ph = phase_Sending [OF i p]
  have H: "pb_heap ?s = ?H(a := (?H a)\<lparr>pm_inFlight := False\<rparr>)" and n: "pb_next ?s = pb_next s"
    and G: "pb_goroutines ?s = pb_goroutines s" and M: "pb_pendingMessages ?s = pb_pendingMessages s"
    and L: "pb_log ?s = pb_log s" and P: "\<exists>d r dt. pb_phase ?s = Settling a origin d r dt dc"
    and gens: "pb_gens ?s = (pb_gens s)(?g := (pb_gens s ?g)\<lparr>cg_published := ?pub + 1\<rparr>)"
    and fr: "pb_config ?s = pb_config s" "pb_confirmGen ?s = ?g" "pb_genCounter ?s = pb_genCounter s"
    and S: "pb_stats ?s = pb_stats s"
    by (simp_all add: publishTracked_sent_def Let_def prim ph(3))
  have R: "refused ?s = refused s" by (simp add: refused_def L fun_eq_iff)
  have u: "unat (?pub + 1) = unat ?pub + 1" using ph(5) by (simp add: unat_Suc)
  have u40: "unat (?pub + 1) < 2 ^ 40" using ph(5) by (simp only: u)
  obtain d r dt where P: "pb_phase ?s = Settling a origin d r dt dc" using P by blast
  have k: "pm_key (pb_heap ?s b) = pm_key (?H b)" "pm_generation (pb_heap ?s b) = pm_generation (?H b)"
    "pm_brokerTag (pb_heap ?s b) = pm_brokerTag (?H b)" "pm_MessageID (pb_heap ?s b) = pm_MessageID (?H b)"
    "pm_CallbackFired (pb_heap ?s b) = pm_CallbackFired (?H b)" for b by (simp_all add: H)
  have "inv_index ?s" using inv(1) unfolding inv_index_def k n M R .
  moreover have "inv_member ?s" using inv(2) unfolding inv_member_def k n M G .
  moreover have "inv_tokens ?s" using inv(3) unfolding inv_tokens_def tokens_def k n G L .
  moreover have "inv_tasks ?s"
  proof -
    have "task_ok (pb_config s) (?H(a := (?H a)\<lparr>pm_inFlight := False\<rparr>)) (pb_next s) t"
      if t: "t \<in># pb_goroutines s" for t
      using taskD [OF i t] by (cases t) auto
    then show ?thesis by (simp add: inv_tasks_def H n G fr)
  qed
  moreover have "inv_log ?s"
  proof -
    have "event_ok (pb_heap ?s) e" if "event_ok ?H e" for e
      using that by (cases e) (auto simp: H answered_def)
    then show ?thesis using inv(5) by (simp add: inv_log_def L)
  qed
  moreover have "inv_obj ?s"
    using inv(6) by (auto simp: inv_obj_def H n fr obj_ok_def)
  moreover have "inv_calls ?s"
    using inv(7) p P by (simp add: inv_calls_def n L)
  moreover have "inv_phase ?s"
  proof -
    have "unat (?pub + 1) \<le> unat t \<and> unat t < 2 ^ 40" if "dc = Some t" for t
      using dc [OF that] by (simp add: u)
    moreover have "origin = Some b \<Longrightarrow> GRepublish b \<in># pb_goroutines s" for b
      using inv(8) p by (simp add: inv_phase_def origin_of_def)
    ultimately show ?thesis
      using ph(1,3,4,7) unfolding inv_phase_def P H n G fr gens publishing_phase.case origin_of_def
      by simp
  qed
  moreover have "inv_keys ?s"
  proof -
    have "unat (pm_brokerTag (?H b)) \<le> unat (cg_published (pb_gens ?s (pm_generation (?H b))))
        \<or> refused s b" if "b < pb_next s" for b
    proof (cases "b = a")
      case True
      then show ?thesis using ph(3,4) by (simp add: gens)
    next
      case False
      then have "unat (pm_brokerTag (?H b)) \<le> unat (cg_published (pb_gens s (pm_generation (?H b))))
          \<or> refused s b"
        using inv(9) that p by (auto simp: inv_keys_def)
      then show ?thesis using u by (auto simp: gens)
    qed
    then show ?thesis
      using inv(9) u40 unfolding inv_keys_def k n fr R P by (simp add: gens)
  qed
  moreover have "inv_uniq ?s" using inv(10) unfolding inv_uniq_def k n R .
  moreover have "inv_stats ?s" using inv(11) unfolding inv_stats_def unsettled_def k n S .
  ultimately show ?thesis by (simp add: inv_def)
qed

text \<open>The end of a publish: the caller is told, and the phase is over.\<close>

lemma accepted_inv:
  assumes i: "inv s" and p: "pb_phase s = Settling a origin d reason dt dc"
  shows "inv (emit (Accepted a) (s\<lparr>pb_phase := Idle\<rparr>))" (is "inv ?s")
proof -
  note inv = invD [OF i] and ph = phase_Settling [OF i p]
  have R: "refused ?s = refused s" by (simp add: refused_def fun_eq_iff prim)
  have "inv_index ?s" using inv(1) by (simp add: inv_index_def R) (simp add: prim)
  moreover have "inv_member ?s" using inv(2) by (simp add: inv_member_def prim)
  moreover have "inv_tokens ?s" using inv(3) by (simp add: inv_tokens_def tokens_def prim)
  moreover have "inv_tasks ?s" using inv(4) by (simp add: inv_tasks_def prim)
  moreover have "inv_log ?s" using inv(5) by (simp add: inv_log_def prim)
  moreover have "inv_obj ?s" using inv(6) by (simp add: inv_obj_def prim)
  moreover have "inv_calls ?s" using inv(7) p by (simp add: inv_calls_def prim)
  moreover have "inv_phase ?s" using ph(2) by (simp add: inv_phase_def prim origin_of_def)
  moreover have "inv_keys ?s" using inv(9) p unfolding inv_keys_def R by (simp add: prim)
  moreover have "inv_uniq ?s" using inv(10) unfolding inv_uniq_def R by (simp add: prim)
  moreover have "inv_stats ?s" using inv(11) by (simp add: inv_stats_def unsettled_def prim)
  ultimately show ?thesis by (simp add: inv_def)
qed

text \<open>Taking over the channel's own tag, when it is not the expected one.\<close>

lemma rekeyPending_inv:
  assumes i: "inv s" and p: "pb_phase s = Settling a origin d reason dt (Some t)"
    and ne: "\<not> pm_CallbackFired (pb_heap s a) \<Longrightarrow> t \<noteq> pm_brokerTag (pb_heap s a)"
  shows "inv (upd_gen (pb_confirmGen s) (\<lambda>c. c\<lparr>cg_published := t\<rparr>)
    (rekeyPending a (pb_confirmGen s) t timeout s))" (is "inv ?s")
proof -
  let ?g = "pb_confirmGen s" and ?H = "pb_heap s" and ?M = "pb_pendingMessages s"
  let ?key = "deliveryKey ?g t"
  note inv = invD [OF i] and ph = phase_Settling [OF i p]
  have t: "unat (cg_published (pb_gens s ?g)) \<le> unat t" "unat t < 2 ^ 40" using ph(5) [of t] by auto
  let ?m = "if pm_CallbackFired (?H a) then ?H a
     else (?H a)\<lparr>pm_key := ?key, pm_brokerTag := t,
                 pm_TimeoutTimer := Some (RunTimeout ?key, pb_now s + timeout)\<rparr>"
  let ?D = "Delete (pm_MessageID (?H a)) (pm_key (?H a)) ?M"
  let ?N = "if pm_CallbackFired (?H a) then ?M else snd (Store (pm_MessageID (?H a)) ?key a ?D)"
  have H: "pb_heap ?s = ?H(a := ?m)" and n: "pb_next ?s = pb_next s"
    and G: "pb_goroutines ?s = pb_goroutines s" and M: "pb_pendingMessages ?s = ?N"
    and L: "pb_log ?s = pb_log s" and P: "pb_phase ?s = pb_phase s"
    and gens: "pb_gens ?s = (pb_gens s)(?g := (pb_gens s ?g)\<lparr>cg_published := t\<rparr>)"
    and fr: "pb_config ?s = pb_config s" "pb_confirmGen ?s = ?g" "pb_genCounter ?s = pb_genCounter s"
    and S: "pb_stats ?s = pb_stats s"
    by (simp_all add: rekeyPending_def Let_def prim)
  have R: "refused ?s = refused s" by (simp add: refused_def L fun_eq_iff)
  have k: "pm_generation (pb_heap ?s b) = pm_generation (?H b)"
    "pm_MessageID (pb_heap ?s b) = pm_MessageID (?H b)"
    "pm_CallbackFired (pb_heap ?s b) = pm_CallbackFired (?H b)"
    "pm_inFlight (pb_heap ?s b) = pm_inFlight (?H b)" for b by (simp_all add: H)
  have kk: "pm_key (pb_heap ?s b) = (if b = a \<and> \<not> pm_CallbackFired (?H a) then ?key else pm_key (?H b))"
    "pm_brokerTag (pb_heap ?s b) = (if b = a \<and> \<not> pm_CallbackFired (?H a) then t else pm_brokerTag (?H b))"
    for b by (simp_all add: H)
  have nt: "u \<in># pb_goroutines s \<Longrightarrow> \<not> token_of a u" "e \<in> set (pb_log s) \<Longrightarrow> \<not> ends a e"
    if "\<not> pm_CallbackFired (?H a)" for u e
    using no_token [OF i] that by auto
  have ix: "indexed LoadByMessageID LoadByDeliveryTag (\<lambda>a. pm_MessageID (?H a))
     (\<lambda>a. pm_key (?H a)) ?M" "pending_ok ?M"
    using inv(1) by (simp_all add: inv_index_def)
  have fk: "pm_key (?H b) \<noteq> ?key"
    if "\<not> pm_CallbackFired (?H a)" "b < pb_next s" "\<not> refused s b" for b
  proof (rule fresh_key [OF i _ t(2) that(2,3)])
    show "unat (cg_published (pb_gens s ?g)) < unat t"
      using t(1) ne [OF that(1)] ph(4) [OF that(1)] by (metis le_neq_implies_less unat_eq_nat_uint word_unat_eq_iff)
  qed (simp add: p)
  have ma: "LoadByDeliveryTag ?M (pm_key (?H a)) = Some a" if "\<not> pm_CallbackFired (?H a)"
    using inv(2) ph(1) that by (simp add: inv_member_def)
  have Dload: "LoadByMessageID ?D (pm_MessageID (?H a)) = None" by (simp add: LoadByMessageID_Delete)
  have Dkey: "LoadByDeliveryTag ?D ?key = None" if nf: "\<not> pm_CallbackFired (?H a)"
  proof (cases "LoadByDeliveryTag ?M ?key")
    case (Some b)
    then show ?thesis using fk [OF nf, of b] loaded [OF i Some] by simp
  qed (simp add: LoadByDeliveryTag_Delete)
  have load: "LoadByDeliveryTag (pb_pendingMessages ?s) l =
      (if pm_CallbackFired (?H a) then LoadByDeliveryTag ?M l
       else if l = ?key then Some a else if l = pm_key (?H a) then None else LoadByDeliveryTag ?M l)" for l
    by (simp add: M LoadByDeliveryTag_Store Dload LoadByDeliveryTag_Delete)
  have "inv_index ?s"
  proof (cases "pm_CallbackFired (?H a)")
    case True
    then show ?thesis using inv(1) by (simp add: inv_index_def R) (simp add: H M n)
  next
    case False
    have "indexed LoadByMessageID LoadByDeliveryTag (\<lambda>a. pm_MessageID (pb_heap ?s a))
       (\<lambda>a. pm_key (pb_heap ?s a)) ?D"
    proof (rule indexed_cong [OF pmap.indexed_delete [OF ix(1), of a, OF ma [OF False]]])
      fix j b assume "LoadByMessageID ?D j = Some b"
      then have "j \<noteq> pm_MessageID (?H a)" "LoadByMessageID ?M j = Some b"
        by (simp_all add: LoadByMessageID_Delete split: if_splits)
      with loaded_id [OF i this(2)] have "b \<noteq> a" by auto
      then show "pm_MessageID (pb_heap ?s b) = pm_MessageID (?H b) \<and> pm_key (pb_heap ?s b) = pm_key (?H b)"
        by (simp add: H)
    qed
    from pmap.indexed_store [OF this, of a] Dload Dkey [OF False] False
    have "indexed LoadByMessageID LoadByDeliveryTag (\<lambda>a. pm_MessageID (pb_heap ?s a))
       (\<lambda>a. pm_key (pb_heap ?s a)) (pb_pendingMessages ?s)"
      by (simp add: k kk M)
    moreover have "pending_ok (pb_pendingMessages ?s)"
      using ix(2) by (simp add: M pending_ok_Store pending_ok_Delete)
    moreover have "b < pb_next ?s \<and> \<not> refused ?s b"
      if "LoadByDeliveryTag (pb_pendingMessages ?s) l = Some b" for l b
      using that ph(1) unfired_not_refused [OF i False] loaded [OF i]
      unfolding load n R by (auto split: if_splits)
    ultimately show ?thesis by (simp add: inv_index_def)
  qed
  moreover have "inv_member ?s"
    unfolding inv_member_def n G k
  proof (intro allI impI)
    fix b assume b: "b < pb_next s"
      and c: "\<not> pm_CallbackFired (?H b) \<or> 0 < mcount (holds_entry b) (pb_goroutines s)"
    then have mb: "LoadByDeliveryTag ?M (pm_key (?H b)) = Some b"
      using inv(2) by (simp add: inv_member_def)
    show "LoadByDeliveryTag (pb_pendingMessages ?s) (pm_key (pb_heap ?s b)) = Some b"
    proof (cases "pm_CallbackFired (?H a) \<or> b = a")
      case True
      then show ?thesis using mb by (auto simp: load kk)
    next
      case False
      then have "pm_key (?H b) \<noteq> ?key" using fk b loaded(2) [OF i mb] by simp
      moreover have "pm_key (?H b) \<noteq> pm_key (?H a)" using ma mb False by auto
      ultimately show ?thesis using False mb by (simp add: load kk)
    qed
  qed
  moreover have "inv_tokens ?s" using inv(3) unfolding inv_tokens_def tokens_def k n G L .
  moreover have "inv_tasks ?s"
  proof -
    have "task_ok (pb_config s) (pb_heap ?s) (pb_next s) u" if u: "u \<in># pb_goroutines s" for u
      using taskD [OF i u] nt(1) [OF _ u] by (cases u) (auto simp: H)
    then show ?thesis by (simp add: inv_tasks_def n G fr)
  qed
  moreover have "inv_log ?s"
  proof -
    have "event_ok (pb_heap ?s) e" if "event_ok ?H e" for e
      using that by (cases e) (auto simp: H answered_def)
    then show ?thesis using inv(5) by (simp add: inv_log_def L)
  qed
  moreover have "inv_obj ?s"
    using inv(6) ph(1,2) by (auto simp: inv_obj_def H n fr obj_ok_def)
  moreover have "inv_calls ?s"
    using inv(7) by (simp add: inv_calls_def n L P)
  moreover have "inv_phase ?s"
    using inv(8) p t(2) by (auto simp: inv_phase_def H n G P fr gens)
  moreover have "inv_keys ?s"
  proof -
    have "unat (pm_brokerTag (pb_heap ?s b)) \<le> unat (cg_published (pb_gens ?s (pm_generation (?H b))))
        \<or> refused s b" if "b < pb_next s" for b
    proof -
      have "unat (pm_brokerTag (?H b)) \<le> unat (cg_published (pb_gens s (pm_generation (?H b))))
          \<or> refused s b"
        using inv(9) that p by (auto simp: inv_keys_def)
      then show ?thesis using t(1) ph(3) by (auto simp: gens kk)
    qed
    then show ?thesis
      using inv(9) t(2) ph(3) unfolding inv_keys_def k n fr R P p kk gens by auto
  qed
  moreover have "inv_uniq ?s"
    using inv(10) fk fk [THEN not_sym] unfolding inv_uniq_def n R kk by auto
  moreover have "inv_stats ?s" using inv(11) unfolding inv_stats_def unsettled_def k n S .
  ultimately show ?thesis by (simp add: inv_def)
qed

section \<open>Generations, timers and Close\<close>

text \<open>A handler leaves the phase and the identity of every message alone.\<close>

definition keeps :: "publisher \<Rightarrow> publisher \<Rightarrow> bool" where
  "keeps s s' \<longleftrightarrow>
     pb_phase s' = pb_phase s \<and> pb_confirmGen s' = pb_confirmGen s \<and>
     (\<forall>a. pm_brokerTag (pb_heap s' a) = pm_brokerTag (pb_heap s a) \<and>
          pm_generation (pb_heap s' a) = pm_generation (pb_heap s a) \<and>
          pm_timeout (pb_heap s' a) = pm_timeout (pb_heap s a))"

lemma keeps_settleOrphan: "keeps s (settleOrphan a reason s)"
  by (simp add: keeps_def settleOrphan_def Let_def prim)

lemma keeps_handleTimeout: "keeps s (handleTimeout k s)"
  by (simp add: keeps_def handleTimeout_def Let_def prim split: option.splits)

lemma publishTracked_settle_inv:
  assumes i: "inv s" and p: "pb_phase s = Settling a origin d reason dt dc"
  shows "inv (publishTracked_settle a origin d reason dt dc s)"
    "pb_phase (publishTracked_settle a origin d reason dt dc s) = Idle"
    "origin = Some b \<Longrightarrow>
       GRepublish b \<in># pb_goroutines (publishTracked_settle a origin d reason dt dc s)"
proof -
  let ?m = "pb_heap s a"
  define s1 where "s1 = (if d then settleOrphan a reason s
    else if dt then handleTimeout (pm_key ?m) s else s)"
  note ph = phase_Settling [OF i p]
  have i1: "inv s1"
    using i ph(1) by (simp add: s1_def settleOrphan_inv handleTimeout_inv)
  have kp: "keeps s s1"
    using keeps_settleOrphan keeps_handleTimeout by (simp add: s1_def keeps_def)
  have p1: "pb_phase s1 = Settling a origin d reason dt dc" and g1: "pb_confirmGen s1 = pb_confirmGen s"
    and t1: "pm_brokerTag (pb_heap s1 a) = pm_brokerTag ?m"
    using kp p by (simp_all add: keeps_def)
  define s2 where "s2 = (case dc of None \<Rightarrow> s1
      | Some t \<Rightarrow> if t \<noteq> pm_brokerTag ?m
          then upd_gen (pm_generation ?m) (\<lambda>c. c\<lparr>cg_published := t\<rparr>)
                 (rekeyPending a (pm_generation ?m) t (pm_timeout ?m) s1)
          else s1)"
  have i2: "inv s2"
  proof (cases dc)
    case None
    then show ?thesis using i1 by (simp add: s2_def)
  next
    case (Some t)
    have "inv (upd_gen (pb_confirmGen s1) (\<lambda>c. c\<lparr>cg_published := t\<rparr>)
           (rekeyPending a (pb_confirmGen s1) t (pm_timeout ?m) s1))"
      if "t \<noteq> pm_brokerTag ?m"
      using rekeyPending_inv [OF i1 p1 [unfolded Some]] that t1 by simp
    then show ?thesis using Some i1 g1 ph(3) by (simp add: s2_def)
  qed
  have p2: "pb_phase s2 = pb_phase s1"
    by (simp add: s2_def rekeyPending_def Let_def prim split: option.splits)
  have st: "publishTracked_settle a origin d reason dt dc s = emit (Accepted a) (s2\<lparr>pb_phase := Idle\<rparr>)"
    unfolding publishTracked_settle_def Let_def s2_def s1_def ..
  show "inv (publishTracked_settle a origin d reason dt dc s)"
    unfolding st by (rule accepted_inv [OF i2]) (simp add: p2 p1)
  show "pb_phase (publishTracked_settle a origin d reason dt dc s) = Idle"
    by (simp add: st emit_def)
  assume o: "origin = Some b"
  show "GRepublish b \<in># pb_goroutines (publishTracked_settle a origin d reason dt dc s)"
    unfolding st using phase_Settling(6) [OF i2 p2 [unfolded p1] o] by (simp add: emit_def)
qed

text \<open>Changes of a generation's flags are not seen by the invariant.\<close>

lemma upd_gen_inv:
  assumes i: "inv s" and f: "\<And>c. cg_published (f c) = cg_published c"
  shows "inv (upd_gen g f s)" (is "inv ?s")
proof -
  note inv = invD [OF i]
  have R: "refused ?s = refused s" by (simp add: refused_def fun_eq_iff prim)
  have pub: "cg_published (pb_gens ?s h) = cg_published (pb_gens s h)" for h by (simp add: prim f)
  have fr: "pb_heap ?s = pb_heap s" "pb_next ?s = pb_next s" "pb_goroutines ?s = pb_goroutines s"
    "pb_pendingMessages ?s = pb_pendingMessages s" "pb_log ?s = pb_log s" "pb_phase ?s = pb_phase s"
    "pb_config ?s = pb_config s" "pb_confirmGen ?s = pb_confirmGen s"
    "pb_genCounter ?s = pb_genCounter s" "pb_stats ?s = pb_stats s"
    by (simp_all add: prim)
  show ?thesis
    using i unfolding inv_def inv_defs tokens_def unsettled_def fr R pub .
qed

lemma failOrphans_inv:
  assumes i: "inv s"
  shows "inv (failOrphans shutdown g s)"
proof -
  let ?s = "upd_gen g (\<lambda>c. c\<lparr>cg_dead := True\<rparr>) s"
  let ?r = "close_reason (cg_closes (pb_gens s g))"
  have add: "inv (s'\<lparr>pb_goroutines := mset (map (\<lambda>a. GOrphan a ?r) as) + pb_goroutines s'\<rparr>)"
    if "inv s'" "\<forall>a \<in> set as. a < pb_next s'" for s' as
    using that
  proof (induction as arbitrary: s')
    case Nil
    then show ?case by simp
  next
    case (Cons a as)
    from Cons.prems have "inv (go (GOrphan a ?r) s')" by (intro go_inv) auto
    from Cons.IH [OF this] Cons.prems show ?case by (simp add: go_def)
  qed
  have i1: "inv ?s" using i by (rule upd_gen_inv) simp
  have "\<forall>a \<in> set (orphans_of g ?s). a < pb_next ?s"
  proof
    fix a assume "a \<in> set (orphans_of g ?s)"
    then obtain j where "(j, a) \<in> set (Range_entries (pb_pendingMessages ?s))"
      by (auto simp: orphans_of_def)
    then have "LoadByMessageID (pb_pendingMessages ?s) j = Some a"
      using Range_entries_iff [of "pb_pendingMessages ?s"] invD(1) [OF i1] by (simp add: inv_index_def)
    then show "a < pb_next ?s" by (rule loaded_id(1) [OF i1])
  qed
  from add [OF i1 this] i show ?thesis by (simp add: failOrphans_def Let_def)
qed

lemma installConfirmGeneration_inv:
  assumes i: "inv s" and idle: "pb_phase s = Idle" and lim: "gen_limit s"
  shows "inv (installConfirmGenerationLocked s)" (is "inv ?s")
proof -
  note inv = invD [OF i]
  let ?g = "pb_genCounter s + 1"
  have R: "refused ?s = refused s"
    by (simp add: refused_def fun_eq_iff installConfirmGenerationLocked_def Let_def)
  have u: "unat ?g = unat (pb_genCounter s) + 1"
    using lim by (simp add: gen_limit_def unat_Suc)
  have fr: "pb_heap ?s = pb_heap s" "pb_next ?s = pb_next s" "pb_goroutines ?s = pb_goroutines s"
    "pb_pendingMessages ?s = pb_pendingMessages s" "pb_log ?s = pb_log s" "pb_phase ?s = Idle"
    "pb_config ?s = pb_config s" "pb_stats ?s = pb_stats s"
    "pb_confirmGen ?s = ?g" "pb_genCounter ?s = ?g"
    by (simp_all add: installConfirmGenerationLocked_def Let_def idle)
  have "inv_keys ?s"
  proof -
    have c: "unat ?g < 2 ^ 24" using lim u by (simp add: gen_limit_def)
    have pub: "cg_published (pb_gens ?s h) = (if h = ?g then 0 else cg_published (pb_gens s h))" for h
      by (simp add: installConfirmGenerationLocked_def Let_def)
    have "pm_generation (pb_heap s b) \<noteq> ?g" if "b < pb_next s" for b
    proof
      assume "pm_generation (pb_heap s b) = ?g"
      then have "unat ?g \<le> unat (pb_genCounter s)" using inv(9) that by (auto simp: inv_keys_def)
      with u show False by simp
    qed
    then show ?thesis
      using inv(9) idle u c unfolding inv_keys_def fr R pub by auto
  qed
  moreover have "inv_index ?s" using inv(1) unfolding inv_index_def fr R .
  moreover have "inv_member ?s" using inv(2) unfolding inv_member_def fr .
  moreover have "inv_tokens ?s" using inv(3) unfolding inv_tokens_def tokens_def fr .
  moreover have "inv_tasks ?s" using inv(4) unfolding inv_tasks_def fr .
  moreover have "inv_log ?s" using inv(5) unfolding inv_log_def fr .
  moreover have "inv_obj ?s" using inv(6) unfolding inv_obj_def fr .
  moreover have "inv_calls ?s" using inv(7) idle unfolding inv_calls_def fr by simp
  moreover have "inv_phase ?s"
    using inv(8) idle unfolding inv_phase_def fr by (auto simp: origin_of_def)
  moreover have "inv_uniq ?s" using inv(10) unfolding inv_uniq_def fr R .
  moreover have "inv_stats ?s" using inv(11) unfolding inv_stats_def unsettled_def fr .
  ultimately show ?thesis by (simp add: inv_def)
qed

text \<open>Timers: stopping any of them, and one that fires.\<close>

lemma heap_timers_inv:
  assumes i: "inv s" and H: "\<And>a. h a = pb_heap s a \<or> h a = (pb_heap s a)\<lparr>pm_TimeoutTimer := None\<rparr>"
  shows "inv (s\<lparr>pb_heap := h\<rparr>)" (is "inv ?s")
proof -
  note inv = invD [OF i]
  have R: "refused ?s = refused s" by (simp add: refused_def fun_eq_iff)
  have k: "pm_key (h b) = pm_key (pb_heap s b)" "pm_generation (h b) = pm_generation (pb_heap s b)"
    "pm_brokerTag (h b) = pm_brokerTag (pb_heap s b)" "pm_MessageID (h b) = pm_MessageID (pb_heap s b)"
    "pm_CallbackFired (h b) = pm_CallbackFired (pb_heap s b)"
    "pm_inFlight (h b) = pm_inFlight (pb_heap s b)" "answered (h b) = answered (pb_heap s b)"
    "pm_Confirmed (h b) = pm_Confirmed (pb_heap s b)" "pm_FinalOutcome (h b) = pm_FinalOutcome (pb_heap s b)"
    "pm_FinalError (h b) = pm_FinalError (pb_heap s b)" "pm_Callback (h b) = pm_Callback (pb_heap s b)"
    "pm_RetryCount (h b) = pm_RetryCount (pb_heap s b)"
    "pm_OriginalMessage (h b) = pm_OriginalMessage (pb_heap s b)"
    "pm_RetryOptions (h b) = pm_RetryOptions (pb_heap s b)" for b
    using H [of b] by (auto simp: answered_def)
  have sel: "pb_heap ?s = h" "pb_next ?s = pb_next s" "pb_goroutines ?s = pb_goroutines s"
    "pb_pendingMessages ?s = pb_pendingMessages s" "pb_log ?s = pb_log s" "pb_phase ?s = pb_phase s"
    "pb_config ?s = pb_config s" "pb_stats ?s = pb_stats s" "pb_gens ?s = pb_gens s"
    "pb_confirmGen ?s = pb_confirmGen s" "pb_genCounter ?s = pb_genCounter s" by simp_all
  have "inv_index ?s" using inv(1) unfolding inv_index_def sel k R .
  moreover have "inv_member ?s" using inv(2) unfolding inv_member_def sel k R .
  moreover have "inv_tokens ?s" using inv(3) unfolding inv_tokens_def tokens_def sel k R .
  moreover have "inv_tasks ?s"
  proof -
    have "task_ok (pb_config s) h (pb_next s) t" if t: "t \<in># pb_goroutines s" for t
      using taskD [OF i t] by (cases t) (simp_all add: k)
    then show ?thesis by (simp add: inv_tasks_def)
  qed
  moreover have "inv_log ?s"
  proof -
    have "event_ok h e" if "event_ok (pb_heap s) e" for e
      using that by (cases e) (simp_all add: k)
    then show ?thesis using inv(5) by (simp add: inv_log_def)
  qed
  moreover have "inv_obj ?s"
  proof -
    have "obj_ok (pb_config s) (h a)" if "obj_ok (pb_config s) (pb_heap s a)" for a
    proof -
      have "obj_ok cf m \<Longrightarrow> obj_ok cf (m\<lparr>pm_TimeoutTimer := None\<rparr>)" for cf m
        by (simp add: obj_ok_def)
      then show ?thesis using that H [of a] by metis
    qed
    then show ?thesis using inv(6) by (simp add: inv_obj_def)
  qed
  moreover have "inv_calls ?s" using inv(7) unfolding inv_calls_def sel k R .
  moreover have "inv_phase ?s" using inv(8) unfolding inv_phase_def sel k R .
  moreover have "inv_keys ?s" using inv(9) unfolding inv_keys_def sel k R .
  moreover have "inv_uniq ?s" using inv(10) unfolding inv_uniq_def sel k R .
  moreover have "inv_stats ?s" using inv(11) unfolding inv_stats_def unsettled_def sel k R .
  ultimately show ?thesis by (simp add: inv_def)
qed

lemma timer_fires_inv:
  assumes i: "inv s" and a: "a < pb_next s" and t: "pm_TimeoutTimer (pb_heap s a) = Some (f, d)"
  shows "inv (go (timer_goroutine a f) (stop_timer a s))"
proof (rule go_inv)
  show "inv (stop_timer a s)"
    unfolding stop_timer_def upd_pm_def by (rule heap_timers_inv [OF i]) auto
  show "\<not> token_of b (timer_goroutine a f)" for b
    by (cases f) (simp_all add: timer_goroutine_def)
  show "task_ok (pb_config (stop_timer a s)) (pb_heap (stop_timer a s)) (pb_next (stop_timer a s))
     (timer_goroutine a f)"
    using inv_obj_ok [OF i a] a t
    by (cases f) (auto simp: timer_goroutine_def prim obj_ok_def)
qed

lemma Close_cancel_inv: "inv s \<Longrightarrow> inv (Close_cancel s)"
  unfolding Close_cancel_def by (rule heap_timers_inv) auto

lemma inv_cong:
  assumes i: "inv s"
    and fr: "pb_heap s' = pb_heap s" "pb_next s' = pb_next s" "pb_goroutines s' = pb_goroutines s"
      "pb_pendingMessages s' = pb_pendingMessages s" "pb_log s' = pb_log s" "pb_phase s' = pb_phase s"
      "pb_config s' = pb_config s" "pb_stats s' = pb_stats s" "pb_gens s' = pb_gens s"
      "pb_confirmGen s' = pb_confirmGen s" "pb_genCounter s' = pb_genCounter s"
  shows "inv s'"
proof -
  have R: "refused s' = refused s" by (simp add: refused_def fun_eq_iff fr)
  show ?thesis using i unfolding inv_def inv_defs tokens_def unsettled_def fr R .
qed

lemma tick_close_inv:
  assumes i: "inv s"
  shows "inv (s\<lparr>pb_now := t\<rparr>)" "inv (Close_begin s)"
  by (rule inv_cong [OF i]; simp add: Close_begin_def)+

section \<open>Every reachable state\<close>

lemma prepare_publish_template:
  assumes "prepare_publish v codec fe cf t0 ex rk msg options n = Inr (m, p)"
  shows "pm_Callback m \<noteq> None" "pm_RetryCount m = n" "\<not> pm_CallbackFired m" "\<not> answered m"
    "pm_FinalOutcome m = None" "pm_OriginalMessage m \<noteq> None \<Longrightarrow> cf_enableAutomaticRetries cf"
  using assms
  by (auto simp: prepare_publish_def Let_def answered_def split: if_splits sum.splits)

lemma attempt_register_inv:
  assumes i: "inv s" and idle: "pb_phase s = Idle" and lim: "tag_limit s"
    and pr: "prepare_publish v codec fe (pb_config s) t0 ex rk msg options n = Inr (m, p)"
    and n: "n \<le> max 0 (cf_maxRetryAttempts (pb_config s))"
    and org: "\<And>b. origin = Some b \<Longrightarrow> GRepublish b \<in># pb_goroutines s"
    and r: "publishTracked_register ctxErr stray (attempt m) (pm_timeout m) origin s = (r, s')"
  shows "inv s'"
  using prepare_publish_template [OF pr] n
  by (intro register_inv [OF i idle lim _ _ _ _ _ _ org r]) (auto simp: attempt_def answered_def)

lemma goroutine_inv:
  assumes i: "inv s" and t: "t \<in># pb_goroutines s" "\<not> is_republish t"
  shows "inv (run_goroutine t (take_goroutine t s))"
proof (cases t)
  case (GTimeout k)
  have "inv (take_goroutine t s)" by (rule take_goroutine_inv [OF i t(1)]) (simp add: GTimeout)
  then show ?thesis by (simp add: GTimeout handleTimeout_inv)
next
  case (GGrace a)
  have it: "inv (take_goroutine t s)" by (rule take_goroutine_inv [OF i t(1)]) (simp add: GGrace)
  have a: "a < pb_next s" "pm_Confirmed (pb_heap s a)" using taskD [OF i t(1)] GGrace by simp_all
  have na: "\<not> refused s a"
    using invD(5) [OF i] a(2) by (force simp: inv_log_def refused_def answered_def)
  have "pm_Confirmed (pb_heap (take_goroutine t s) b)"
    if "LoadByDeliveryTag (pb_pendingMessages (take_goroutine t s)) (pm_key (pb_heap s a)) = Some b" for b
  proof -
    have l: "LoadByDeliveryTag (pb_pendingMessages s) (pm_key (pb_heap s a)) = Some b"
      using that by (simp add: prim)
    have "b = a"
      using invD(10) [OF i] loaded [OF i l] a(1) na by (simp add: inv_uniq_def)
    with a(2) show ?thesis by (simp add: prim)
  qed
  then have "inv (handleMandatoryGracePeriodExpired (pm_key (pb_heap s a)) (take_goroutine t s))"
    by (intro handleMandatoryGracePeriodExpired_inv [OF it]) auto
  then show ?thesis by (simp add: GGrace prim)
next
  case (GOrphan a reason)
  have it: "inv (take_goroutine t s)" by (rule take_goroutine_inv [OF i t(1)]) (simp add: GOrphan)
  have "a < pb_next s" using taskD [OF i t(1)] GOrphan by simp
  then have "inv (settleOrphan a reason (take_goroutine t s))"
    by (intro settleOrphan_inv [OF it]) (simp add: prim)
  then show ?thesis by (simp add: GOrphan)
qed (use i t run_finish_inv retryMessage_inv retry_awake_inv in \<open>auto\<close>)

theorem step_inv:
  assumes st: "step s s'" and i: "inv s"
  shows "inv s'"
  using st
proof (cases rule: step.cases)
  case (publish t0 validateExchange codec fe ex rk msg options m p ctxErr stray r)
  show ?thesis
    by (rule attempt_register_inv [OF i publish(1,2,4) _ _ publish(5)]) auto
next
  case (republish t0 b msg validateExchange codec fe m p ctxErr stray r)
  have "pm_RetryCount (pb_heap s b) \<le> max 0 (cf_maxRetryAttempts (pb_config s))"
    using token_unique(1) [OF i republish(4), of b] inv_obj_ok [OF i, of b] by (simp add: obj_ok_retry)
  then show ?thesis
    by (rule attempt_register_inv [OF i republish(1,2,6) _ _ republish(7)]) (use republish(4) in auto)
next
  case (send_failed a origin)
  then show ?thesis using publishTracked_failed_inv [OF i] by (simp add: answered_def)
next
  case (send_ok a origin dc)
  show ?thesis unfolding send_ok(1) by (rule publishTracked_sent_inv [OF i send_ok(2)]) (use send_ok(3) in auto)
next
  case (settle a deferred reason deferredTimeout dc)
  then show ?thesis using publishTracked_settle_inv(1) [OF i] by simp
next
  case (settle_republish a b deferred reason deferredTimeout dc)
  note st = publishTracked_settle_inv [OF i settle_republish(2)]
  show ?thesis unfolding settle_republish(1) by (rule hand_over_inv [OF st(1) st(3) st(2)]) simp
next
  case (republish_failed b err)
  then show ?thesis using retry_failed_inv [OF i] by simp
next
  case (confirm_frame g tag ack)
  then show ?thesis using handleConfirmation_inv [OF i] by simp
next
  case (return_frame g mid rc rt)
  then show ?thesis using handleReturn_inv [OF \<open>inv s\<close>] by simp
next
  case (timer_fires a f t)
  then show ?thesis using timer_fires_inv [OF i] by simp
next
  case (goroutine_runs t)
  then show ?thesis using goroutine_inv [OF i] by simp
next
  case (channel_closes g why)
  then show ?thesis using upd_gen_inv [OF i, of "\<lambda>c. c\<lparr>cg_chClosed := True, cg_closes := why\<rparr>" g] by simp
next
  case (return_reader_exits g)
  then show ?thesis using upd_gen_inv [OF i, of "\<lambda>c. c\<lparr>cg_returnsDone := True\<rparr>" g] by simp
next
  case (confirm_reader_exits g shutdown)
  then show ?thesis
    using upd_gen_inv [OF failOrphans_inv [OF i], of "\<lambda>c. c\<lparr>cg_confirmsDone := True\<rparr>" g] by simp
next
  case (refresh failed r)
  then show ?thesis
    using i installConfirmGeneration_inv [OF i]
    by (auto simp: refresh_install_def split: option.splits)
next
  case (tick d)
  then show ?thesis using tick_close_inv [OF i] by simp
next
  case close_begin
  then show ?thesis using tick_close_inv [OF i] by simp
next
  case close_cancel
  then show ?thesis using Close_cancel_inv [OF i] by simp
qed

lemma init_inv: "inv (initDeliveryAssurance cf t0)"
  by (simp add: inv_def inv_defs initDeliveryAssurance_def installConfirmGenerationLocked_def Let_def
      pending_ok_new pmap.indexed_empty tokens_def origin_of_def unsettled_def zero_stats_def totals_def
      Load_new)

theorem reachable_inv: "reachable cf t0 s \<Longrightarrow> inv s"
  by (induction rule: reachable.induct) (auto simp: init_inv intro: step_inv)

end
