(* ===== verification/Delivery_Live.thy ===== *)
theory Delivery_Live
  imports Delivery_Inv
begin

text \<open>
  No message is forgotten: an unsettled one always has something that will settle it, and once
  its confirm channel is dead, something that will settle it soon.
\<close>

section \<open>The liveness invariant\<close>

definition alive :: "publisher \<Rightarrow> addr \<Rightarrow> bool" where
  "alive s a \<longleftrightarrow>
     pm_CallbackFired (pb_heap s a) \<or> pb_closed s \<or> pm_TimeoutTimer (pb_heap s a) \<noteq> None \<or>
     GTimeout (pm_key (pb_heap s a)) \<in># pb_goroutines s \<or> GGrace a \<in># pb_goroutines s \<or>
     (pm_inFlight (pb_heap s a) \<and>
       (pm_timeoutDeferred (pb_heap s a) \<or> pm_orphanDeferred (pb_heap s a))) \<or>
     (\<exists>origin d r dt dc. pb_phase s = Settling a origin d r dt dc \<and>
       (d \<and> \<not> pm_Confirmed (pb_heap s a) \<or> \<not> d \<and> dt))"

definition grace_alive :: "publisher \<Rightarrow> addr \<Rightarrow> bool" where
  "grace_alive s a \<longleftrightarrow>
     pm_CallbackFired (pb_heap s a) \<or> \<not> pm_Confirmed (pb_heap s a) \<or> pb_closed s \<or>
     pm_TimeoutTimer (pb_heap s a) \<noteq> None \<or> GGrace a \<in># pb_goroutines s \<or>
     (\<not> pm_inFlight (pb_heap s a) \<and> GTimeout (pm_key (pb_heap s a)) \<in># pb_goroutines s)"

definition orphan_ok :: "publisher \<Rightarrow> addr \<Rightarrow> bool" where
  "orphan_ok s a \<longleftrightarrow>
     \<not> cg_dead (pb_gens s (pm_generation (pb_heap s a))) \<or> pm_CallbackFired (pb_heap s a) \<or>
     pm_Confirmed (pb_heap s a) \<or> (pm_inFlight (pb_heap s a) \<and> pm_orphanDeferred (pb_heap s a)) \<or>
     (\<exists>r. GOrphan a r \<in># pb_goroutines s) \<or>
     (\<exists>origin r dt dc. pb_phase s = Settling a origin True r dt dc)"

definition lives :: "publisher \<Rightarrow> addr \<Rightarrow> bool" where
  "lives s a \<longleftrightarrow> alive s a \<and> grace_alive s a \<and> orphan_ok s a"

lemmas lives_defs = lives_def alive_def grace_alive_def orphan_ok_def

definition live :: "publisher \<Rightarrow> bool" where
  "live s \<longleftrightarrow> (\<forall>a < pb_next s. lives s a)"

lemma liveD: "live s \<Longrightarrow> a < pb_next s \<Longrightarrow> lives s a"
  by (simp add: live_def)

lemma fired_lives: "pm_CallbackFired (pb_heap s a) \<Longrightarrow> lives s a"
  by (simp add: lives_defs)

text \<open>The goroutines that matter to one message.\<close>

definition matters :: "publisher \<Rightarrow> addr \<Rightarrow> goroutine \<Rightarrow> bool" where
  "matters s a t \<longleftrightarrow>
     t = GTimeout (pm_key (pb_heap s a)) \<or> t = GGrace a \<or> (\<exists>r. t = GOrphan a r)"

text \<open>A message that a step does not touch stays alive.\<close>

lemma lives_frame:
  assumes "lives s a"
    and "pm_CallbackFired (pb_heap s a) \<Longrightarrow> pm_CallbackFired (pb_heap s' a)"
    and "\<not> pm_CallbackFired (pb_heap s a) \<Longrightarrow> pb_heap s' a = pb_heap s a"
    and "\<And>t. \<not> pm_CallbackFired (pb_heap s a) \<Longrightarrow> matters s a t \<Longrightarrow> t \<in># pb_goroutines s \<Longrightarrow>
           t \<in># pb_goroutines s'"
    and "pb_closed s \<Longrightarrow> pb_closed s'"
    and "cg_dead (pb_gens s' (pm_generation (pb_heap s a))) \<Longrightarrow>
           cg_dead (pb_gens s (pm_generation (pb_heap s a)))"
    and "\<And>origin d r dt dc. pb_phase s = Settling a origin d r dt dc \<Longrightarrow> pb_phase s' = pb_phase s"
  shows "lives s' a"
proof (cases "pm_CallbackFired (pb_heap s a)")
  case True
  then show ?thesis using assms(2) by (simp add: fired_lives)
next
  case False
  note eq = assms(3) [OF False]
  have G: "GTimeout (pm_key (pb_heap s a)) \<in># pb_goroutines s \<Longrightarrow>
      GTimeout (pm_key (pb_heap s a)) \<in># pb_goroutines s'"
    "GGrace a \<in># pb_goroutines s \<Longrightarrow> GGrace a \<in># pb_goroutines s'"
    "GOrphan a r \<in># pb_goroutines s \<Longrightarrow> GOrphan a r \<in># pb_goroutines s'" for r
    using assms(4) [OF False] by (auto simp: matters_def)
  show ?thesis
    using assms(1) G assms(5-7) False unfolding lives_defs eq by metis
qed

lemma in_take: "x \<noteq> t \<Longrightarrow> x \<in># pb_goroutines s \<Longrightarrow> x \<in># pb_goroutines (take_goroutine t s)"
  by (simp add: take_goroutine_def in_diff_count)

lemma member: "inv s \<Longrightarrow> a < pb_next s \<Longrightarrow> \<not> pm_CallbackFired (pb_heap s a) \<Longrightarrow>
   LoadByDeliveryTag (pb_pendingMessages s) (pm_key (pb_heap s a)) = Some a"
  by (simp add: inv_def inv_member_def)

text \<open>
  Steps that work on one message \<open>a\<close>: all others are untouched, and no goroutine that matters to
  them is consumed.
\<close>

definition works_on :: "addr \<Rightarrow> publisher \<Rightarrow> publisher \<Rightarrow> bool" where
  "works_on a s s' \<longleftrightarrow>
     pb_next s' = pb_next s \<and> pb_closed s' = pb_closed s \<and> pb_gens s' = pb_gens s \<and>
     pb_phase s' = pb_phase s \<and> (\<forall>b. b \<noteq> a \<longrightarrow> pb_heap s' b = pb_heap s b) \<and>
     (\<forall>t. t \<in># pb_goroutines s \<longrightarrow> t \<in># pb_goroutines s')"

lemma works_on_lives: "works_on a s s' \<Longrightarrow> lives s b \<Longrightarrow> b \<noteq> a \<Longrightarrow> lives s' b"
  by (erule lives_frame) (auto simp: works_on_def)

lemma works_on_live:
  assumes "works_on a s s'" "live s" "a < pb_next s \<Longrightarrow> lives s' a"
  shows "live s'"
proof -
  have n: "pb_next s' = pb_next s" using assms(1) by (simp add: works_on_def)
  have "lives s' b" if "b < pb_next s" for b
    using assms(3) works_on_lives [OF assms(1) liveD [OF assms(2) that]] that by (cases "b = a") auto
  then show ?thesis by (simp add: live_def n)
qed

lemma works_on_tryFinalizeMessage: "works_on a s (tryFinalizeMessage a (upd_pm a f s))"
  by (auto simp: works_on_def tryFinalizeMessage_def finalize_def Let_def prim)

lemma works_on_settleOrphan: "works_on a s (settleOrphan a reason s)"
  by (auto simp: works_on_def settleOrphan_def Let_def prim)

lemma live_same_core: "live s \<Longrightarrow> same_core s s' \<Longrightarrow> live s'"
  by (simp add: live_def lives_defs same_core_def same_frame_def)

lemma tryFinalizeMessage_lives:
  assumes i: "inv s" and a: "a < pb_next s" and l: "lives s a"
    and ack: "f (pb_heap s a) = (pb_heap s a)\<lparr>pm_Confirmed := True\<rparr> \<or>
        pm_Nacked (f (pb_heap s a)) \<or> pm_Returned (f (pb_heap s a))"
    and fired: "pm_CallbackFired (f (pb_heap s a)) = pm_CallbackFired (pb_heap s a)"
  shows "lives (tryFinalizeMessage a (upd_pm a f s)) a"
proof (cases "pm_CallbackFired (pb_heap s a)")
  case True
  then show ?thesis using fired by (intro fired_lives) (simp add: tryFinalizeMessage_def prim)
next
  case False
  show ?thesis
  proof (cases "pm_Nacked (f (pb_heap s a)) \<or> pm_Returned (f (pb_heap s a)) \<or>
      (pm_Confirmed (f (pb_heap s a)) \<and> \<not> pm_Mandatory (f (pb_heap s a)))")
    case True
    then show ?thesis using fired
      by (intro fired_lives) (auto simp: tryFinalizeMessage_def finalize_def Let_def prim)
  next
    case F: False
    then have eq: "f (pb_heap s a) = (pb_heap s a)\<lparr>pm_Confirmed := True\<rparr>" using ack by blast
    with F False show ?thesis by (simp add: tryFinalizeMessage_def Let_def prim lives_defs)
  qed
qed

lemma handleConfirmation_live:
  assumes i: "inv s" and l: "live s"
  shows "live (handleConfirmation g tag ack s)"
proof -
  have i': "inv (noteResponse s)" using i same_core_noteResponse by (rule inv_same_core)
  have l': "live (noteResponse s)" using l same_core_noteResponse by (rule live_same_core)
  show ?thesis
  proof (cases "LoadByDeliveryTag (pb_pendingMessages (noteResponse s)) (deliveryKey g tag)")
    case None
    with l' show ?thesis by (simp add: handleConfirmation_def Let_def)
  next
    case (Some a)
    note a = loaded(1) [OF i' Some]
    have "live (tryFinalizeMessage a (upd_pm a
        (\<lambda>m. if ack then m\<lparr>pm_Confirmed := True\<rparr> else m\<lparr>pm_Nacked := True\<rparr>) (noteResponse s)))"
      by (rule works_on_live [OF works_on_tryFinalizeMessage l'])
        (rule tryFinalizeMessage_lives [OF i' a liveD [OF l' a]]; simp)
    then show ?thesis using Some by (simp add: handleConfirmation_def Let_def)
  qed
qed

lemma handleReturn_live:
  assumes i: "inv s" and l: "live s"
  shows "live (handleReturn mid code txt1 s)"
proof -
  have i': "inv (noteResponse s)" using i same_core_noteResponse by (rule inv_same_core)
  have l': "live (noteResponse s)" using l same_core_noteResponse by (rule live_same_core)
  show ?thesis
  proof (cases "LoadByMessageID (pb_pendingMessages (noteResponse s)) mid")
    case None
    with l' show ?thesis by (simp add: handleReturn_def Let_def)
  next
    case (Some a)
    note a = loaded_id(1) [OF i' Some]
    have "live (tryFinalizeMessage a (upd_pm a
        (\<lambda>m. m\<lparr>pm_Returned := True, pm_ReturnReason := MessageReturned txt1 code\<rparr>) (noteResponse s)))"
      by (rule works_on_live [OF works_on_tryFinalizeMessage l'])
        (rule tryFinalizeMessage_lives [OF i' a liveD [OF l' a]]; simp)
    then show ?thesis using Some l' by (simp add: handleReturn_def Let_def)
  qed
qed

text \<open>The goroutines that run: each does the work it was queued for.\<close>

lemma take_live_other:
  assumes "lives s b" and "\<not> pm_CallbackFired (pb_heap s b) \<Longrightarrow> \<not> matters s b t"
  shows "lives (take_goroutine t s) b"
  using assms(1)
  by (rule lives_frame) (use assms(2) in_take in \<open>auto simp: take_goroutine_def [of t s] in_diff_count\<close>)

lemma handleTimeout_live:
  assumes i: "inv s" and l: "live s" and t: "GTimeout k \<in># pb_goroutines s"
  shows "live (handleTimeout k (take_goroutine (GTimeout k) s))"
proof -
  let ?s = "take_goroutine (GTimeout k) s"
  have f: "pb_heap ?s = pb_heap s" "pb_next ?s = pb_next s" "pb_closed ?s = pb_closed s"
    "pb_pendingMessages ?s = pb_pendingMessages s" by (simp_all add: take_goroutine_def)
  show ?thesis
  proof (cases "LoadByDeliveryTag (pb_pendingMessages s) k")
    case None
    have "lives ?s b" if b: "b < pb_next s" for b
      using liveD [OF l b]
      by (rule take_live_other) (use member [OF i b] None in \<open>auto simp: matters_def\<close>)
    then show ?thesis using None by (simp add: handleTimeout_def f live_def)
  next
    case (Some a)
    have a: "a < pb_next s" "pm_key (pb_heap s a) = k" using loaded [OF i Some] by auto
    have o: "lives ?s b" if b: "b < pb_next s" "b \<noteq> a" for b
      using liveD [OF l b(1)]
      by (rule take_live_other) (use member [OF i b(1)] Some b(2) in \<open>auto simp: matters_def\<close>)
    have w: "works_on a ?s (handleTimeout k ?s)"
      using Some by (auto simp: works_on_def handleTimeout_def Let_def prim)
    have la: "lives (handleTimeout k ?s) a"
    proof (cases "pm_CallbackFired (pb_heap s a) \<or> \<not> pm_inFlight (pb_heap s a)")
      case True
      then show ?thesis using Some
        by (intro fired_lives) (auto simp: handleTimeout_def Let_def prim)
    next
      case False
      then have h: "handleTimeout k ?s = upd_pm a (\<lambda>m. m\<lparr>pm_timeoutDeferred := True\<rparr>) ?s"
        using Some by (simp add: handleTimeout_def Let_def f)
      have "GGrace a \<in># pb_goroutines s \<Longrightarrow> GGrace a \<in># pb_goroutines ?s"
        "GOrphan a r \<in># pb_goroutines s \<Longrightarrow> GOrphan a r \<in># pb_goroutines ?s" for r
        by (simp_all add: in_take)
      then show ?thesis
        using False liveD [OF l a(1)] unfolding h lives_defs by (auto simp: upd_pm_def take_goroutine_def)
    qed
    have "lives (handleTimeout k ?s) b" if "b < pb_next s" for b
      using la works_on_lives [OF w o [OF that]] by (cases "b = a") auto
    moreover have "pb_next (handleTimeout k ?s) = pb_next s" using w f by (simp add: works_on_def)
    ultimately show ?thesis by (simp add: live_def)
  qed
qed

lemma grace_live:
  assumes i: "inv s" and l: "live s" and t: "GGrace a \<in># pb_goroutines s"
  shows "live (handleMandatoryGracePeriodExpired (pm_key (pb_heap s a)) (take_goroutine (GGrace a) s))"
proof -
  let ?s = "take_goroutine (GGrace a) s"
  let ?h = "handleMandatoryGracePeriodExpired (pm_key (pb_heap s a))"
  have a: "a < pb_next s" using taskD [OF i t] by simp
  have f: "pb_heap ?s = pb_heap s" "pb_next ?s = pb_next s" "pb_closed ?s = pb_closed s"
    "pb_pendingMessages ?s = pb_pendingMessages s" by (simp_all add: take_goroutine_def)
  have o: "lives ?s b" if b: "b < pb_next s" "b \<noteq> a" for b
    using liveD [OF l b(1)] by (rule take_live_other) (use b in \<open>auto simp: matters_def\<close>)
  have fires: "pm_CallbackFired (pb_heap (?h ?s) a)"
  proof (cases "pm_CallbackFired (pb_heap s a)")
    case True
    then show ?thesis
      by (simp add: handleMandatoryGracePeriodExpired_def Let_def prim split: option.splits)
  next
    case False
    have "\<not> pm_Returned (pb_heap s a)" using inv_obj_ok [OF i a] False by (simp add: obj_ok_def)
    then show ?thesis using member [OF i a False] False
      by (simp add: handleMandatoryGracePeriodExpired_def Let_def prim)
  qed
  have "\<exists>c. works_on c ?s (?h ?s) \<and> (c = a \<or> pm_CallbackFired (pb_heap (?h ?s) c))"
  proof (cases "LoadByDeliveryTag (pb_pendingMessages s) (pm_key (pb_heap s a))")
    case None
    then show ?thesis
      by (intro exI [of _ a]) (simp add: works_on_def handleMandatoryGracePeriodExpired_def f)
  next
    case (Some c)
    have "pm_Returned (pb_heap s c) \<Longrightarrow> pm_CallbackFired (pb_heap s c)"
      using inv_obj_ok [OF i loaded(1) [OF i Some]] by (auto simp: obj_ok_def)
    with Some show ?thesis
      by (intro exI [of _ c])
        (auto simp: works_on_def handleMandatoryGracePeriodExpired_def Let_def prim)
  qed
  then obtain c where w: "works_on c ?s (?h ?s)" and c: "c = a \<or> pm_CallbackFired (pb_heap (?h ?s) c)"
    by blast
  have "lives (?h ?s) b" if "b < pb_next s" for b
    using fires c fired_lives works_on_lives [OF w o [OF that]] by (cases "b = a"; cases "b = c") auto
  moreover have "pb_next (?h ?s) = pb_next s" using w f by (simp add: works_on_def)
  ultimately show "live (?h ?s)" by (simp add: live_def)
qed

lemma settleOrphan_lives:
  assumes i: "inv s" and a: "a < pb_next s" and l: "alive s a" "grace_alive s a"
  shows "lives (settleOrphan a reason s) a"
proof -
  consider "pm_CallbackFired (pb_heap s a)" | "\<not> pm_CallbackFired (pb_heap s a)" "pm_Confirmed (pb_heap s a)"
    | "\<not> pm_CallbackFired (pb_heap s a)" "\<not> answered (pb_heap s a)"
    using inv_obj_ok [OF i a] by (auto simp: obj_ok_def answered_def)
  then show ?thesis
  proof cases
    case 1
    then show ?thesis by (intro fired_lives) (simp add: settleOrphan_def Let_def)
  next
    case 2
    then show ?thesis using l by (simp add: settleOrphan_def Let_def lives_def orphan_ok_def)
  next
    case 3
    then show ?thesis
      by (auto simp: settleOrphan_def Let_def prim lives_defs answered_def)
  qed
qed

lemma settleOrphan_live:
  assumes i: "inv s" and l: "live s" and t: "GOrphan a r \<in># pb_goroutines s"
  shows "live (settleOrphan a r (take_goroutine (GOrphan a r) s))"
proof -
  let ?s = "take_goroutine (GOrphan a r) s"
  have a: "a < pb_next s" using taskD [OF i t] by simp
  have ins: "inv ?s" by (rule take_goroutine_inv [OF i t]) simp
  have o: "lives ?s b" if b: "b < pb_next s" "b \<noteq> a" for b
    using liveD [OF l b(1)] by (rule take_live_other) (use b in \<open>auto simp: matters_def\<close>)
  have "GGrace a \<in># pb_goroutines s \<Longrightarrow> GGrace a \<in># pb_goroutines ?s"
    "GTimeout k \<in># pb_goroutines s \<Longrightarrow> GTimeout k \<in># pb_goroutines ?s" for k
    by (simp_all add: in_take)
  then have "alive ?s a" "grace_alive ?s a"
    using liveD [OF l a] by (auto simp: lives_defs take_goroutine_def)
  then have la: "lives (settleOrphan a r ?s) a"
    by (intro settleOrphan_lives [OF ins]) (simp_all add: a take_goroutine_def)
  have "lives (settleOrphan a r ?s) b" if "b < pb_next s" for b
    using la works_on_lives [OF works_on_settleOrphan o [OF that]] by (cases "b = a") auto
  moreover have "pb_next (settleOrphan a r ?s) = pb_next s"
    using works_on_settleOrphan [of a ?s r] by (simp add: works_on_def take_goroutine_def)
  ultimately show ?thesis by (simp add: live_def)
qed

text \<open>The token of a settled message moves: nothing that matters to the unsettled ones.\<close>

lemma token_step_live:
  assumes l: "live s" and t: "token_of a t"
    and fr: "pb_next s' = pb_next s" "pb_closed s' = pb_closed s" "pb_gens s' = pb_gens s"
      "\<And>b. b \<noteq> a \<Longrightarrow> pb_heap s' b = pb_heap s b"
      "\<And>u. u \<noteq> t \<Longrightarrow> u \<in># pb_goroutines s \<Longrightarrow> u \<in># pb_goroutines s'"
    and ph: "pb_phase s' = pb_phase s"
    and a: "pm_CallbackFired (pb_heap s' a)"
  shows "live s'"
proof -
  have "lives s' b" if b: "b < pb_next s" for b
  proof (cases "b = a")
    case True
    then show ?thesis using a by (simp add: fired_lives)
  next
    case False
    show ?thesis
      using liveD [OF l b]
    proof (rule lives_frame)
      show "u \<in># pb_goroutines s'" if "matters s b u" "u \<in># pb_goroutines s" for u
      proof -
        have "u \<noteq> t" using that(1) t by (auto simp: matters_def)
        then show ?thesis using fr(5) that(2) by blast
      qed
    qed (use fr ph False in auto)
  qed
  then show ?thesis by (simp add: live_def fr)
qed

lemma run_finish_live:
  assumes i: "inv s" and l: "live s" and t: "GFinish a mid k cb outcome err \<in># pb_goroutines s"
  shows "live (run_finish a mid k cb outcome err (take_goroutine (GFinish a mid k cb outcome err) s))"
  by (rule token_step_live [OF l, of a "GFinish a mid k cb outcome err"])
    (use token_unique(1) [OF i t, of a] in
      \<open>auto simp: run_finish_def call_back_def prim in_diff_count split: option.splits\<close>)

lemma retryMessage_live:
  assumes i: "inv s" and l: "live s" and t: "GRetry a \<in># pb_goroutines s"
  shows "live (retryMessage a (take_goroutine (GRetry a) s))"
  by (rule token_step_live [OF l, of a "GRetry a"])
    (use token_unique(1) [OF i t, of a] in
      \<open>auto simp: retryMessage_def call_back_def Let_def prim in_diff_count split: option.splits\<close>)

lemma retry_awake_live:
  assumes i: "inv s" and l: "live s" and t: "GRetrySleep a mid k \<in># pb_goroutines s"
  shows "live (retry_awake a mid k (take_goroutine (GRetrySleep a mid k) s))"
  by (rule token_step_live [OF l, of a "GRetrySleep a mid k"])
    (use token_unique(1) [OF i t, of a] in
      \<open>auto simp: retry_awake_def prim in_diff_count split: option.splits\<close>)

lemma retry_failed_live:
  assumes i: "inv s" and l: "live s" and t: "GRepublish a \<in># pb_goroutines s"
  shows "live (retry_failed a err (take_goroutine (GRepublish a) s))"
  by (rule token_step_live [OF l, of a "GRepublish a"])
    (use token_unique(1) [OF i t, of a] in
      \<open>auto simp: retry_failed_def call_back_def Let_def prim in_diff_count split: option.splits\<close>)

lemma hand_over_live:
  assumes i: "inv s" and l: "live s" and t: "GRepublish b \<in># pb_goroutines s"
  shows "live (emit (HandedOver b a) (take_goroutine (GRepublish b) s))"
  by (rule token_step_live [OF l, of b "GRepublish b"])
    (use token_unique(1) [OF i t, of b] in \<open>auto simp: prim in_diff_count\<close>)

section \<open>Publishing\<close>

lemma register_live:
  assumes l: "live s" and idle: "pb_phase s = Idle"
    and m: "\<not> pm_CallbackFired m" "\<not> pm_Confirmed m"
  shows "live (snd (publishTracked_register ctxErr stray m timeout origin s))"
proof -
  let ?g = "pb_confirmGen s"
  let ?key = "deliveryKey ?g (cg_published (pb_gens s ?g) + 1)"
  let ?s = "snd (publishTracked_register ctxErr stray m timeout origin s)"
  have frame: "lives s' b" if "b < pb_next s" "pb_heap s' b = pb_heap s b" "pb_closed s' = pb_closed s"
      "pb_gens s' = pb_gens s" "\<And>t. t \<in># pb_goroutines s \<Longrightarrow> t \<in># pb_goroutines s'" for s' b
    using liveD [OF l that(1)] by (rule lives_frame) (use that idle in auto)
  have dead: "?s \<noteq> s \<Longrightarrow> ?s \<noteq> (if stray then go (GTimeout ?key) s else s) \<Longrightarrow> \<not> cg_dead (pb_gens s ?g)"
    by (auto simp: publishTracked_register_def Let_def split: if_splits)
  consider "?s = s" | "?s = (if stray then go (GTimeout ?key) s else s)" | "?s \<noteq> s"
      "?s \<noteq> (if stray then go (GTimeout ?key) s else s)" by blast
  then show ?thesis
  proof cases
    case 1
    then show ?thesis using l by simp
  next
    case 2
    have "lives ?s b" if "b < pb_next s" for b
      unfolding 2 by (rule frame [OF that]) (auto simp: go_def)
    moreover have "pb_next ?s = pb_next s" unfolding 2 by (simp add: go_def)
    ultimately show ?thesis by (simp add: live_def)
  next
    case 3
    then have s': "?s = note_pending (upd_stats (\<lambda>st. st\<lparr>st_TotalPublished := st_TotalPublished st + 1\<rparr>)
         (s\<lparr>pb_heap := (pb_heap s)(pb_next s := m\<lparr>pm_key := ?key,
              pm_brokerTag := cg_published (pb_gens s ?g) + 1,
              pm_generation := ?g, pm_inFlight := True,
              pm_TimeoutTimer := Some (RunTimeout ?key, pb_now s + timeout)\<rparr>),
            pb_next := Suc (pb_next s),
            pb_pendingMessages := snd (Store (pm_MessageID m) ?key (pb_next s) (pb_pendingMessages s)),
            pb_phase := Sending (pb_next s) origin\<rparr>))"
      using publishTracked_register_cases [of ctxErr stray m timeout origin s] by blast
    have n: "pb_next ?s = Suc (pb_next s)" by (simp add: s' prim)
    have "lives ?s b" if "b < pb_next s" for b
      by (rule frame [OF that]) (use that in \<open>simp_all add: s' prim\<close>)
    moreover have "lives ?s (pb_next s)"
      using dead [OF 3] m by (simp add: s' prim lives_defs)
    ultimately show ?thesis by (simp add: live_def n less_Suc_eq)
  qed
qed

lemma publishTracked_failed_live:
  assumes l: "live s" and p: "pb_phase s = Sending a origin"
  shows "live (publishTracked_failed a s)"
proof -
  have "lives (publishTracked_failed a s) b" if "b < pb_next s" for b
  proof (cases "b = a")
    case True
    then show ?thesis
      by (intro fired_lives) (simp add: publishTracked_failed_def Let_def prim)
  next
    case False
    show ?thesis
      using liveD [OF l that]
      by (rule lives_frame) (use False p in \<open>auto simp: publishTracked_failed_def Let_def prim\<close>)
  qed
  moreover have "pb_next (publishTracked_failed a s) = pb_next s"
    by (simp add: publishTracked_failed_def Let_def prim)
  ultimately show ?thesis by (simp add: live_def)
qed

lemma publishTracked_sent_live:
  assumes i: "inv s" and l: "live s" and p: "pb_phase s = Sending a origin"
  shows "live (publishTracked_sent a origin dc s)"
proof -
  let ?s = "publishTracked_sent a origin dc s"
  have dead: "cg_dead (pb_gens ?s g) = cg_dead (pb_gens s g)" for g
    by (simp add: publishTracked_sent_def Let_def prim)
  have "lives ?s b" if b: "b < pb_next s" for b
  proof (cases "b = a")
    case False
    show ?thesis
      using liveD [OF l b]
      by (rule lives_frame) (use False p dead in \<open>auto simp: publishTracked_sent_def Let_def prim\<close>)
  next
    case True
    show ?thesis
    proof (cases "pm_CallbackFired (pb_heap s a)")
      case True
      with \<open>b = a\<close> show ?thesis
        by (intro fired_lives) (simp add: publishTracked_sent_def Let_def prim)
    next
      case nf: False
      have ok: "\<not> pm_Nacked (pb_heap s a)" "\<not> pm_Returned (pb_heap s a)"
        using inv_obj_ok [OF i b] nf True by (auto simp: obj_ok_def)
      show ?thesis
        using liveD [OF l b] nf ok p dead unfolding True lives_defs
        by (auto simp: publishTracked_sent_def Let_def prim)
    qed
  qed
  moreover have "pb_next ?s = pb_next s" by (simp add: publishTracked_sent_def Let_def prim)
  ultimately show ?thesis by (simp add: live_def)
qed

lemma settleOrphan_result:
  assumes "\<not> pm_CallbackFired (pb_heap s a)" "\<not> pm_Nacked (pb_heap s a)" "\<not> pm_Returned (pb_heap s a)"
    "\<not> pm_inFlight (pb_heap s a)"
  shows "pm_Confirmed (pb_heap s a) \<Longrightarrow> settleOrphan a reason s = s"
    "\<not> pm_Confirmed (pb_heap s a) \<Longrightarrow> pm_CallbackFired (pb_heap (settleOrphan a reason s) a)"
  using assms by (simp_all add: settleOrphan_def Let_def prim)

lemma handleTimeout_result:
  assumes "LoadByDeliveryTag (pb_pendingMessages s) k = Some a" "\<not> pm_inFlight (pb_heap s a)"
  shows "pm_CallbackFired (pb_heap (handleTimeout k s) a)"
  using assms by (simp add: handleTimeout_def Let_def prim)

lemma fired_kept:
  "pm_CallbackFired (pb_heap s a) \<Longrightarrow> pm_CallbackFired (pb_heap (settleOrphan b reason s) a)"
  "pm_CallbackFired (pb_heap s a) \<Longrightarrow> pm_CallbackFired (pb_heap (handleTimeout k s) a)"
  by (auto simp: settleOrphan_def handleTimeout_def Let_def prim split: option.splits)

lemma works_on_handleTimeout:
  assumes "\<And>b. LoadByDeliveryTag (pb_pendingMessages s) k = Some b \<Longrightarrow> b = a"
  shows "works_on a s (handleTimeout k s)"
  using assms
  by (auto simp: works_on_def handleTimeout_def Let_def prim split: option.splits)

lemma publishTracked_settle_live:
  assumes i: "inv s" and l: "live s" and p: "pb_phase s = Settling a origin d reason dt dc"
  shows "live (publishTracked_settle a origin d reason dt dc s)"
proof -
  let ?m = "pb_heap s a" and ?s = "publishTracked_settle a origin d reason dt dc s"
  define s1 where "s1 = (if d then settleOrphan a reason s
    else if dt then handleTimeout (pm_key ?m) s else s)"
  note ph = phase_Settling [OF i p]
  have a: "a < pb_next s" by (rule ph(1))
  have key: "b = a" if "LoadByDeliveryTag (pb_pendingMessages s) (pm_key ?m) = Some b" for b
  proof -
    have "lcount (returned a) (pb_log s) = 0"
      using invD(7) [OF i, unfolded inv_calls_def, rule_format, of a] p a by simp
    then have "\<forall>x \<in> set (pb_log s). \<not> returned a x" by (simp add: lcount_zero_iff)
    then have "\<not> refused s a" by (auto simp: refused_def)
    then show ?thesis using invD(10) [OF i] loaded [OF i that] a by (simp add: inv_uniq_def)
  qed
  have w: "works_on a s s1"
    using works_on_settleOrphan [of a s reason] works_on_handleTimeout [OF key]
    by (simp add: s1_def works_on_def)
  have l1: "lives s1 b" if "b < pb_next s" "b \<noteq> a" for b
    using works_on_lives [OF w liveD [OF l that(1)] that(2)] .
  have a1: "pm_CallbackFired (pb_heap s1 a) \<or>
      (\<not> pm_CallbackFired ?m \<and> s1 = s \<and> (d \<longrightarrow> pm_Confirmed ?m) \<and> (\<not> d \<longrightarrow> \<not> dt))"
  proof (cases "pm_CallbackFired ?m")
    case True
    then show ?thesis by (simp add: s1_def fired_kept)
  next
    case False
    have ok: "\<not> pm_Nacked ?m" "\<not> pm_Returned ?m" using inv_obj_ok [OF i a] False by (simp_all add: obj_ok_def)
    show ?thesis
      using False settleOrphan_result [OF False ok ph(2) [OF a], of reason]
        handleTimeout_result [OF member [OF i a False] ph(2) [OF a]]
      by (cases "pm_Confirmed ?m") (simp_all add: s1_def)
  qed
  define s2 where "s2 = (case dc of None \<Rightarrow> s1
      | Some t \<Rightarrow> if t \<noteq> pm_brokerTag ?m
          then upd_gen (pm_generation ?m) (\<lambda>c. c\<lparr>cg_published := t\<rparr>)
                 (rekeyPending a (pm_generation ?m) t (pm_timeout ?m) s1)
          else s1)"
  have st: "?s = emit (Accepted a) (s2\<lparr>pb_phase := Idle\<rparr>)"
    unfolding publishTracked_settle_def Let_def s2_def s1_def ..
  have s2: "pb_next s2 = pb_next s1" "pb_closed s2 = pb_closed s1" "pb_phase s2 = pb_phase s1"
    "cg_dead (pb_gens s2 g) = cg_dead (pb_gens s1 g)" "pb_goroutines s2 = pb_goroutines s1"
    "b \<noteq> a \<Longrightarrow> pb_heap s2 b = pb_heap s1 b"
    "pb_heap s2 a = pb_heap s1 a \<or> \<not> pm_CallbackFired (pb_heap s1 a) \<and>
       pm_TimeoutTimer (pb_heap s2 a) \<noteq> None \<and> pm_generation (pb_heap s2 a) = pm_generation (pb_heap s1 a) \<and>
       pm_Confirmed (pb_heap s2 a) = pm_Confirmed (pb_heap s1 a)"
    for g b
    by (auto simp: s2_def rekeyPending_def Let_def prim split: option.splits)
  have "lives ?s b" if b: "b < pb_next s" for b
  proof (cases "b = a")
    case False
    show ?thesis
      using l1 [OF b False]
      by (rule lives_frame) (use False p w s2 in \<open>auto simp: st emit_def works_on_def\<close>)
  next
    case True
    show ?thesis
    proof (cases "pm_CallbackFired (pb_heap s1 a)")
      case True
      then have "pm_CallbackFired (pb_heap s2 a)" using s2(7) by auto
      then show ?thesis using \<open>b = a\<close> by (intro fired_lives) (simp add: st emit_def)
    next
      case False
      with a1 have s: "s1 = s" "d \<longrightarrow> pm_Confirmed ?m" "\<not> d \<longrightarrow> \<not> dt" "\<not> pm_CallbackFired ?m" by auto
      have fl: "\<not> pm_inFlight ?m" by (rule ph(2) [OF a])
      have e: "pb_heap ?s a = pb_heap s2 a" "pb_closed ?s = pb_closed s" "pb_phase ?s = Idle"
        "pb_goroutines ?s = pb_goroutines s" "cg_dead (pb_gens ?s g) = cg_dead (pb_gens s g)" for g
        using s2 s(1) by (simp_all add: st emit_def)
      have la: "alive s a" "grace_alive s a" "orphan_ok s a"
        using liveD [OF l a] by (simp_all add: lives_def)
      have or: "pm_Confirmed ?m \<or> (\<exists>r. GOrphan a r \<in># pb_goroutines s) \<or>
          \<not> cg_dead (pb_gens s (pm_generation ?m))"
        using la(3) s fl p by (auto simp: orphan_ok_def)
      consider "pb_heap s2 a = ?m" | "pm_TimeoutTimer (pb_heap s2 a) \<noteq> None"
        "pm_generation (pb_heap s2 a) = pm_generation ?m" "pm_Confirmed (pb_heap s2 a) = pm_Confirmed ?m"
        using s2(7) s(1) by auto
      then have "lives ?s a"
      proof cases
        case 1
        have "alive ?s a" using la(1) s(2-4) fl p unfolding alive_def e 1 by auto
        moreover have "grace_alive ?s a" using la(2) unfolding grace_alive_def e 1 .
        moreover have "orphan_ok ?s a" using or unfolding orphan_ok_def e 1 by blast
        ultimately show ?thesis by (simp add: lives_def)
      next
        case 2
        then show ?thesis using or unfolding lives_defs e by auto
      qed
      then show ?thesis using True by simp
    qed
  qed
  moreover have "pb_next ?s = pb_next s" using w s2(1) by (simp add: st emit_def works_on_def)
  ultimately show ?thesis by (simp add: live_def)
qed

section \<open>Timers, channels and Close\<close>

lemma timer_fires_live:
  assumes i: "inv s" and l: "live s" and a: "a < pb_next s"
    and t: "pm_TimeoutTimer (pb_heap s a) = Some (f, d)"
  shows "live (go (timer_goroutine a f) (stop_timer a s))"
proof -
  let ?s = "go (timer_goroutine a f) (stop_timer a s)"
  have G: "u \<in># pb_goroutines s \<Longrightarrow> u \<in># pb_goroutines ?s" for u by (simp add: prim)
  have "lives ?s b" if b: "b < pb_next s" for b
  proof (cases "b = a")
    case False
    show ?thesis
      using liveD [OF l b] by (rule lives_frame) (use False in \<open>auto simp: prim\<close>)
  next
    case True
    have ok: "obj_ok (pb_config s) (pb_heap s a)" using i a by (rule inv_obj_ok)
    have o: "orphan_ok ?s a" using liveD [OF l a] by (auto simp: lives_def orphan_ok_def prim)
    have "alive ?s a \<and> grace_alive ?s a"
    proof (cases f)
      case (RunTimeout k)
      then have "k = pm_key (pb_heap s a)" and
        "pm_Confirmed (pb_heap s a) \<and> \<not> pm_CallbackFired (pb_heap s a) \<longrightarrow> \<not> pm_inFlight (pb_heap s a)"
        using ok t by (auto simp: obj_ok_def)
      then show ?thesis
        by (auto simp: alive_def grace_alive_def prim timer_goroutine_def RunTimeout)
    next
      case RunGrace
      then show ?thesis by (simp add: alive_def grace_alive_def prim timer_goroutine_def)
    qed
    with o True show ?thesis by (simp add: lives_def)
  qed
  then show ?thesis by (simp add: live_def prim)
qed

text \<open>A step that changes neither messages, goroutines nor the publish in progress.\<close>

lemma quiet_live:
  assumes l: "live s"
    and fr: "pb_next s' = pb_next s" "pb_heap s' = pb_heap s" "pb_phase s' = pb_phase s"
      "\<And>t. t \<in># pb_goroutines s \<Longrightarrow> t \<in># pb_goroutines s'" "pb_closed s \<Longrightarrow> pb_closed s'"
      "\<And>a. a < pb_next s \<Longrightarrow> cg_dead (pb_gens s' (pm_generation (pb_heap s a))) \<Longrightarrow>
             cg_dead (pb_gens s (pm_generation (pb_heap s a)))"
  shows "live s'"
proof -
  have "lives s' a" if "a < pb_next s" for a
    using liveD [OF l that] by (rule lives_frame) (use fr that in auto)
  then show ?thesis by (simp add: live_def fr)
qed

lemma failOrphans_live:
  assumes i: "inv s" and l: "live s"
  shows "live (failOrphans shutdown g s)"
proof (cases shutdown)
  case True
  then show ?thesis using l by (simp add: failOrphans_def)
next
  case False
  let ?s = "failOrphans shutdown g s" and ?r = "close_reason (cg_closes (pb_gens s g))"
  let ?as = "orphans_of g (upd_gen g (\<lambda>c. c\<lparr>cg_dead := True\<rparr>) s)"
  have G: "pb_goroutines ?s = mset (map (\<lambda>a. GOrphan a ?r) ?as) + pb_goroutines s"
    using False by (simp add: failOrphans_def Let_def upd_gen_def)
  have fr: "pb_heap ?s = pb_heap s" "pb_next ?s = pb_next s" "pb_closed ?s = pb_closed s"
    "pb_phase ?s = pb_phase s" "pb_gens ?s = (pb_gens s)(g := (pb_gens s g)\<lparr>cg_dead := True\<rparr>)"
    using False by (simp_all add: failOrphans_def Let_def upd_gen_def)
  have "lives ?s a" if a: "a < pb_next s" for a
  proof (cases "pm_CallbackFired (pb_heap s a)")
    case True
    then show ?thesis by (simp add: fired_lives fr)
  next
    case nf: False
    show ?thesis
    proof (cases "pm_generation (pb_heap s a) = g")
      case True
      have "a \<in> snd ` set (Range_entries (pb_pendingMessages s))"
        using pmap.entries_indexed [of "pb_pendingMessages s" "\<lambda>a. pm_MessageID (pb_heap s a)"
            "\<lambda>a. pm_key (pb_heap s a)" a] member [OF i a nf] invD(1) [OF i]
        by (simp add: inv_index_def)
      then have "a \<in> set ?as"
        using True by (auto simp: orphans_of_def upd_gen_def)
      then have "GOrphan a ?r \<in># pb_goroutines ?s" by (simp add: G)
      then have "orphan_ok ?s a" by (auto simp: orphan_ok_def)
      moreover have "alive ?s a" "grace_alive ?s a"
        using liveD [OF l a] unfolding lives_defs fr G by auto
      ultimately show ?thesis by (simp add: lives_def)
    next
      case False
      show ?thesis
        using liveD [OF l a] by (rule lives_frame) (use False in \<open>auto simp: fr G\<close>)
    qed
  qed
  then show ?thesis by (simp add: live_def fr)
qed

lemma upd_gen_live:
  "live s \<Longrightarrow> (\<And>c. cg_dead (f c) = cg_dead c) \<Longrightarrow> live (upd_gen g f s)"
  by (erule quiet_live) (auto simp: upd_gen_def split: if_splits)

lemma Close_cancel_live:
  assumes l: "live s" and c: "pb_closed s"
  shows "live (Close_cancel s)"
proof -
  have h: "pb_heap (Close_cancel s) a = pb_heap s a \<or>
      pb_heap (Close_cancel s) a = (pb_heap s a)\<lparr>pm_TimeoutTimer := None\<rparr>" for a
    by (simp add: Close_cancel_def)
  have fr: "pb_next (Close_cancel s) = pb_next s" "pb_closed (Close_cancel s) = pb_closed s"
    "pb_gens (Close_cancel s) = pb_gens s" "pb_phase (Close_cancel s) = pb_phase s"
    "pb_goroutines (Close_cancel s) = pb_goroutines s"
    by (simp_all add: Close_cancel_def)
  have "lives (Close_cancel s) a" if "a < pb_next s" for a
    using liveD [OF l that] c h [of a] unfolding lives_defs fr by auto
  then show ?thesis by (simp add: live_def fr)
qed

section \<open>Every reachable state\<close>

lemma goroutine_live:
  assumes i: "inv s" and l: "live s" and t: "t \<in># pb_goroutines s" "\<not> is_republish t"
  shows "live (run_goroutine t (take_goroutine t s))"
proof (cases t)
  case (GGrace a)
  then show ?thesis using grace_live [OF i l, of a] t by (simp add: take_goroutine_def)
qed (use i l t handleTimeout_live settleOrphan_live run_finish_live retryMessage_live retry_awake_live
      in \<open>auto\<close>)

theorem step_live:
  assumes st: "step s s'" and i: "inv s" and l: "live s"
  shows "live s'"
  using st
proof (cases rule: step.cases)
  case (publish t0 validateExchange codec fe ex rk msg options m p ctxErr stray r)
  have "live (snd (publishTracked_register ctxErr stray (attempt m) (pm_timeout m) None s))"
    by (rule register_live [OF l publish(1)]) (simp_all add: attempt_def)
  then show ?thesis by (simp add: publish(5))
next
  case (republish t0 b msg validateExchange codec fe m p ctxErr stray r)
  have "live (snd (publishTracked_register ctxErr stray (attempt m) (pm_timeout m) (Some b) s))"
    by (rule register_live [OF l republish(1)]) (simp_all add: attempt_def)
  then show ?thesis by (simp add: republish(7))
next
  case (send_failed a origin)
  then show ?thesis using publishTracked_failed_live [OF l] by simp
next
  case (send_ok a origin dc)
  then show ?thesis using publishTracked_sent_live [OF i l] by simp
next
  case (settle a deferred reason deferredTimeout dc)
  then show ?thesis using publishTracked_settle_live [OF i l] by simp
next
  case (settle_republish a b deferred reason deferredTimeout dc)
  note st = publishTracked_settle_inv [OF i settle_republish(2)]
  show ?thesis unfolding settle_republish(1)
    by (rule hand_over_live [OF st(1) publishTracked_settle_live [OF i l settle_republish(2)] st(3)]) simp
next
  case (republish_failed b err)
  then show ?thesis using retry_failed_live [OF i l] by simp
next
  case (confirm_frame g tag ack)
  then show ?thesis using handleConfirmation_live [OF i l] by simp
next
  case (return_frame g mid rc rt)
  then show ?thesis using handleReturn_live [OF i l] by simp
next
  case (timer_fires a f t)
  then show ?thesis using timer_fires_live [OF i l] by simp
next
  case (goroutine_runs t)
  then show ?thesis using goroutine_live [OF i l] by simp
next
  case (channel_closes g why)
  then show ?thesis using upd_gen_live [OF l, of "\<lambda>c. c\<lparr>cg_chClosed := True, cg_closes := why\<rparr>" g] by simp
next
  case (return_reader_exits g)
  then show ?thesis using upd_gen_live [OF l, of "\<lambda>c. c\<lparr>cg_returnsDone := True\<rparr>" g] by simp
next
  case (confirm_reader_exits g shutdown)
  then show ?thesis
    using upd_gen_live [OF failOrphans_live [OF i l], of "\<lambda>c. c\<lparr>cg_confirmsDone := True\<rparr>" g] by simp
next
  case (refresh failed r)
  have "live (installConfirmGenerationLocked s)"
    using l by (rule quiet_live) (auto simp: installConfirmGenerationLocked_def Let_def split: if_splits)
  then show ?thesis
    using refresh l by (auto simp: refresh_install_def split: option.splits)
next
  case (tick d)
  show ?thesis unfolding tick(1) by (rule quiet_live [OF l]) auto
next
  case close_begin
  show ?thesis unfolding close_begin by (rule quiet_live [OF l]) (auto simp: Close_begin_def)
next
  case close_cancel
  then show ?thesis using Close_cancel_live [OF l] by simp
qed

theorem reachable_live: "reachable cf t0 s \<Longrightarrow> live s"
proof (induction rule: reachable.induct)
  case reach_init
  then show ?case by (simp add: live_def initDeliveryAssurance_def installConfirmGenerationLocked_def Let_def)
next
  case (reach_step s s')
  then show ?case using step_live reachable_inv by blast
qed

end
