(* ===== verification/Labelled_Runs.thy ===== *)
theory Labelled_Runs
  imports Main
begin

text \<open>
  Runs of a system whose goroutines, clock and environment move by labels. Every component with
  interleavings has a partial step function of its own and folds it over a list of labels; what
  such a fold does is proved here once and interpreted for each of them.
\<close>

locale labelled_run =
  fixes step :: "'l \<Rightarrow> 's \<Rightarrow> 's option"
    and run :: "'l list \<Rightarrow> 's \<Rightarrow> 's option"
  assumes run_Nil: "run [] s = Some s"
    and run_Cons: "run (l # ls) s = (case step l s of None \<Rightarrow> None | Some s' \<Rightarrow> run ls s')"
begin

lemma append: "run (ls @ ls') s = (case run ls s of None \<Rightarrow> None | Some s' \<Rightarrow> run ls' s')"
  by (induction ls arbitrary: s) (auto simp: run_Nil run_Cons split: option.split)

lemma continued: "run ls s = Some s' \<Longrightarrow> run (ls @ ls') s = run ls' s'"
  by (simp add: append)

text \<open>What holds of the labels of a run and its state so far.\<close>

lemma history:
  assumes "run ls s = Some s'" and "H ps s"
    and "\<And>ps l s s'. step l s = Some s' \<Longrightarrow> H ps s \<Longrightarrow> H (ps @ [l]) s'"
  shows "H (ps @ ls) s'"
  using assms(1,2)
proof (induction ls arbitrary: ps s)
  case Nil
  then show ?case by (simp add: run_Nil)
next
  case (Cons l ls)
  from Cons.prems(1) obtain s1 where 1: "step l s = Some s1" and 2: "run ls s1 = Some s'"
    by (auto simp: run_Cons split: option.splits)
  from Cons.IH [OF 2 assms(3) [OF 1 Cons.prems(2)]] show ?case by simp
qed

lemma invariant_among:
  assumes "run ls s = Some s'" and "P s" and "\<forall>l \<in> set ls. Q l"
    and "\<And>l s s'. step l s = Some s' \<Longrightarrow> Q l \<Longrightarrow> P s \<Longrightarrow> P s'"
  shows "P s'"
  using history [where H = "\<lambda>ps s. (\<forall>l \<in> set ps. Q l) \<longrightarrow> P s", OF assms(1), of "[]"] assms(2-4) by auto

lemma invariant:
  assumes "run ls s = Some s'" and "P s" and "\<And>l s s'. step l s = Some s' \<Longrightarrow> P s \<Longrightarrow> P s'"
  shows "P s'"
  using invariant_among [where P = P and Q = "\<lambda>_. True", OF assms(1,2)] assms(3) by blast

lemma unchanged:
  assumes "run ls s = Some s'" and "\<And>l s s'. step l s = Some s' \<Longrightarrow> f s' = f s"
  shows "f s' = f s"
  using invariant [where P = "\<lambda>x. f x = f s", OF assms(1)] assms(2) by simp

end

end
