(* ===== verification/Delivery_Assurance.thy ===== *)
theory Delivery_Assurance
  imports Delivery_Live Labelled_Runs
begin

text \<open>
  What delivery assurance promises, over every reachable state: the contract of
  \<open>PublishWithDeliveryAssurance\<close> (an error and no callback, or nil and one ending), callbacks that
  tell the truth, no forgotten message, and statistics that add up. Concrete runs of the model
  are the witnesses, and show two places where the code falls short of its contract.
\<close>

section \<open>Running a script of steps\<close>

text \<open>
  One step, chosen by a label, when its guard holds: an executable subset of \<open>step\<close>, used to
  exhibit reachable states. The front end has no validator and no codec here.
\<close>

datatype label =
    DoPublish string string message deliveryOptions
  | DoSendOk "64 word option"
  | DoSendFailed
  | DoSettle
  | DoConfirm "64 word" "64 word" bool
  | DoReturn "64 word" string int string
  | DoTimer addr
  | DoRun goroutine
  | DoRepublish addr
  | DoRepublishFailed addr string
  | DoChannelClose "64 word" "string option"
  | DoReturnExit "64 word"
  | DoConfirmExit "64 word"
  | DoRefresh "64 word"
  | DoTick duration
  | DoClose
  | DoCancel

definition exec_register ::
  "(prepare_error + pendingMessage \<times> publishing) \<Rightarrow> addr option \<Rightarrow> publisher \<Rightarrow> publisher option" where
  "exec_register r origin s =
     (if pb_phase s = Idle \<and> tag_limit s then
        (case r of
           Inl _ \<Rightarrow> None
         | Inr (m, p) \<Rightarrow>
             Some (snd (publishTracked_register False False (attempt m) (pm_timeout m) origin s)))
      else None)"

fun exec :: "frontend \<Rightarrow> label \<Rightarrow> publisher \<Rightarrow> publisher option" where
  "exec fe (DoPublish ex rk msg options) s =
     exec_register (prepare_publish None Inr fe (pb_config s) (pb_now s) ex rk msg options 0) None s"
| "exec fe (DoRepublish b) s =
     (case pm_OriginalMessage (pb_heap s b) of
        None \<Rightarrow> None
      | Some msg \<Rightarrow>
          if GRepublish b \<in># pb_goroutines s then
            exec_register
              (prepare_publish None Inr fe (pb_config s) (pb_now s) (pm_Exchange (pb_heap s b))
                (pm_RoutingKey (pb_heap s b)) msg (pm_RetryOptions (pb_heap s b))
                (pm_RetryCount (pb_heap s b))) (Some b) s
          else None)"
| "exec fe (DoSendOk dc) s =
     (case pb_phase s of
        Sending a origin \<Rightarrow>
          if (case dc of None \<Rightarrow> True
              | Some t \<Rightarrow> unat (cg_published (pb_gens s (pb_confirmGen s))) < unat t \<and> unat t < 2 ^ 40)
          then Some (publishTracked_sent a origin dc s) else None
      | _ \<Rightarrow> None)"
| "exec fe DoSendFailed s =
     (case pb_phase s of
        Sending a origin \<Rightarrow>
          if \<not> pm_Confirmed (pb_heap s a) \<and> \<not> pm_Nacked (pb_heap s a) \<and> \<not> pm_Returned (pb_heap s a)
          then Some (publishTracked_failed a s) else None
      | _ \<Rightarrow> None)"
| "exec fe DoSettle s =
     (case pb_phase s of
        Settling a None d r dt dc \<Rightarrow> Some (publishTracked_settle a None d r dt dc s)
      | Settling a (Some b) d r dt dc \<Rightarrow>
          Some (emit (HandedOver b a)
            (take_goroutine (GRepublish b) (publishTracked_settle a (Some b) d r dt dc s)))
      | _ \<Rightarrow> None)"
| "exec fe (DoConfirm g tag ack) s =
     (if cg_confirmsDone (pb_gens s g) then None else Some (handleConfirmation g tag ack s))"
| "exec fe (DoReturn g i code txt1) s =
     (if cg_returnsDone (pb_gens s g) then None else Some (handleReturn i code txt1 s))"
| "exec fe (DoTimer a) s =
     (case pm_TimeoutTimer (pb_heap s a) of
        None \<Rightarrow> None
      | Some (f, t) \<Rightarrow>
          if a < pb_next s \<and> t \<le> pb_now s then Some (go (timer_goroutine a f) (stop_timer a s)) else None)"
| "exec fe (DoRun t) s =
     (if t \<in># pb_goroutines s \<and> \<not> is_republish t
      then Some (run_goroutine t (take_goroutine t s)) else None)"
| "exec fe (DoRepublishFailed b err) s =
     (if GRepublish b \<in># pb_goroutines s \<and> origin_of (pb_phase s) \<noteq> Some b
      then Some (retry_failed b err (take_goroutine (GRepublish b) s)) else None)"
| "exec fe (DoChannelClose g why) s =
     (if cg_chClosed (pb_gens s g) then None
      else Some (upd_gen g (\<lambda>c. c\<lparr>cg_chClosed := True, cg_closes := why\<rparr>) s))"
| "exec fe (DoReturnExit g) s =
     (if \<not> cg_returnsDone (pb_gens s g) \<and> (cg_chClosed (pb_gens s g) \<or> pb_closed s)
      then Some (upd_gen g (\<lambda>c. c\<lparr>cg_returnsDone := True\<rparr>) s) else None)"
| "exec fe (DoConfirmExit g) s =
     (if \<not> cg_confirmsDone (pb_gens s g) \<and> cg_chClosed (pb_gens s g) \<and> cg_returnsDone (pb_gens s g)
      then Some (upd_gen g (\<lambda>c. c\<lparr>cg_confirmsDone := True\<rparr>) (failOrphans False g s)) else None)"
| "exec fe (DoRefresh failed) s =
     (if pb_phase s = Idle \<and> gen_limit s then Some (snd (refresh_install failed s)) else None)"
| "exec fe (DoTick d) s = (if 0 \<le> d then Some (s\<lparr>pb_now := pb_now s + d\<rparr>) else None)"
| "exec fe DoClose s = Some (Close_begin s)"
| "exec fe DoCancel s = (if pb_closed s then Some (Close_cancel s) else None)"

lemma exec_register_step:
  assumes "exec_register (prepare_publish None Inr fe (pb_config s) (pb_now s) ex rk msg options 0) None s = Some s'"
  shows "step s s'"
proof -
  obtain m p where idle: "pb_phase s = Idle" "tag_limit s"
    and pr: "prepare_publish None Inr fe (pb_config s) (pb_now s) ex rk msg options 0 = Inr (m, p)"
    and s': "s' = snd (publishTracked_register False False (attempt m) (pm_timeout m) None s)"
    using assms by (auto simp: exec_register_def split: if_splits sum.splits)
  show ?thesis
    by (rule step.publish [OF idle order_refl pr,
          of False False "fst (publishTracked_register False False (attempt m) (pm_timeout m) None s)"])
      (simp add: s')
qed

lemma exec_republish_step:
  assumes "exec_register (prepare_publish None Inr fe (pb_config s) (pb_now s) (pm_Exchange (pb_heap s b))
      (pm_RoutingKey (pb_heap s b)) msg (pm_RetryOptions (pb_heap s b)) (pm_RetryCount (pb_heap s b)))
      (Some b) s = Some s'"
    "GRepublish b \<in># pb_goroutines s" "pm_OriginalMessage (pb_heap s b) = Some msg"
  shows "step s s'"
proof -
  obtain m p where idle: "pb_phase s = Idle" "tag_limit s"
    and pr: "prepare_publish None Inr fe (pb_config s) (pb_now s) (pm_Exchange (pb_heap s b))
      (pm_RoutingKey (pb_heap s b)) msg (pm_RetryOptions (pb_heap s b)) (pm_RetryCount (pb_heap s b))
        = Inr (m, p)"
    and s': "s' = snd (publishTracked_register False False (attempt m) (pm_timeout m) (Some b) s)"
    using assms(1) by (auto simp: exec_register_def split: if_splits sum.splits)
  show ?thesis
    by (rule step.republish [OF idle order_refl assms(2,3) pr,
          of False False "fst (publishTracked_register False False (attempt m) (pm_timeout m) (Some b) s)"])
      (simp add: s')
qed

lemma exec_step: "exec fe l s = Some s' \<Longrightarrow> step s s'"
proof (cases l)
  case (DoRefresh failed)
  assume "exec fe l s = Some s'"
  then show ?thesis using DoRefresh
    by (auto split: if_splits intro!: step.refresh [of s failed "fst (refresh_install failed s)"])
next
  case DoSettle
  assume "exec fe l s = Some s'"
  then show ?thesis using DoSettle
    by (auto split: publishing_phase.splits option.splits intro: step.settle step.settle_republish)
next
  case (DoRun t)
  assume "exec fe l s = Some s'"
  then show ?thesis using DoRun
    by (auto split: if_splits intro: step.goroutine_runs)
qed (auto split: if_splits option.splits publishing_phase.splits
    intro: exec_register_step exec_republish_step step.intros)

fun run :: "frontend \<Rightarrow> label list \<Rightarrow> publisher \<Rightarrow> publisher option" where
  "run fe [] s = Some s"
| "run fe (l # ls) s = (case exec fe l s of None \<Rightarrow> None | Some s' \<Rightarrow> run fe ls s')"

interpretation executed: labelled_run "exec fe" "run fe" for fe
  by unfold_locales simp_all

lemma run_reachable: "reachable cf t0 s \<Longrightarrow> run fe ls s = Some s' \<Longrightarrow> reachable cf t0 s'"
  by (rule executed.invariant [where P = "reachable cf t0"]) (auto intro: reach_step exec_step)

definition demo_config :: publisherConfig where
  "demo_config =
     \<lparr>cf_mandatoryGracePeriod = 200 * millisecond, cf_deliveryTimeout = 30 * second,
      cf_enableAutomaticRetries = True, cf_maxRetryAttempts = 2, cf_retryDelay = second\<rparr>"

definition demo_frontend :: frontend where
  "demo_frontend =
     \<lparr>fe_DefaultExchange = ''x'', fe_Persistent = False, fe_defaultDeliveryCallback = Some 7,
      fe_defaultMandatory = False\<rparr>"

definition demo_message :: message where
  "demo_message = NewMessageWithID [1, 2] ''m'' 0"

definition demo :: "label list \<Rightarrow> publisher option" where
  "demo ls = run demo_frontend ls (initDeliveryAssurance demo_config 1000)"

lemma demo_reachable: "demo ls = Some s \<Longrightarrow> reachable demo_config 1000 s"
  unfolding demo_def by (rule run_reachable [OF reach_init])

lemmas demo_simps = demo_def demo_config_def demo_frontend_def demo_message_def NewMessageWithID_def
  initDeliveryAssurance_def installConfirmGenerationLocked_def exec_register_def prepare_publish_def
  publishTracked_register_def publishTracked_sent_def publishTracked_settle_def attempt_def
  handleConfirmation_def tryFinalizeMessage_def finalize_def retryMessage_def retry_awake_def
  retry_failed_def call_back_def tag_limit_def Clone_def no_options_def Let_def prim
  Store_unfold Load_put Load_del Load_new Delete_unfold origin_of_def

text \<open>Accepted and then confirmed; refused; lost after a retry; timed out by a stale timer.\<close>

definition demo_pending :: "label list" where
  "demo_pending = [DoPublish [] ''k'' demo_message no_options, DoSendOk (Some 1), DoSettle]"

definition demo_confirmed :: "label list" where
  "demo_confirmed = demo_pending @
     [DoConfirm 1 1 True,
      DoRun (GFinish 0 ''m'' (deliveryKey 1 1) (Some 7) DeliverySuccess NoErrorMessage)]"

definition demo_refused :: "label list" where
  "demo_refused = [DoPublish [] ''k'' demo_message no_options, DoSendFailed]"

definition demo_dead :: "label list" where
  "demo_dead = demo_pending @ [DoChannelClose 1 None, DoReturnExit 1, DoConfirmExit 1]"

definition demo_nacked :: "label list" where
  "demo_nacked = demo_pending @ [DoConfirm 1 1 False]"

definition demo_lost :: "label list" where
  "demo_lost = demo_nacked @
     [DoRun (GRetry 0), DoRun (GRetrySleep 0 ''m'' (deliveryKey 1 1)), DoRepublishFailed 0 ''closed'']"

definition demo_stale :: "label list" where
  "demo_stale =
     [DoPublish [] ''k'' demo_message no_options, DoTick (30 * second), DoTimer 0, DoSendFailed,
      DoPublish [] ''k'' (demo_message\<lparr>m_MessageID := ''n''\<rparr>) no_options, DoSendOk (Some 1), DoSettle,
      DoRun (GTimeout (deliveryKey 1 1))]"

definition demo_late_return :: "label list" where
  "demo_late_return = demo_pending @
     [DoTick (30 * second), DoTimer 0, DoRun (GTimeout (deliveryKey 1 1)),
      DoRun (GFinish 0 ''m'' (deliveryKey 1 1) (Some 7) DeliveryTimeout (ConfirmationTimeoutAfter (30 * second))),
      DoPublish [] ''k'' demo_message no_options, DoSendOk (Some 2), DoSettle,
      DoReturn 1 ''m'' 312 ''NO_ROUTE'', DoConfirm 1 2 True]"

section \<open>The contract of a publish\<close>

fun called :: "addr \<Rightarrow> event \<Rightarrow> bool" where
  "called a (Called b c i outcome err) = (a = b)"
| "called a e = False"

text \<open>A message whose story is over: it has an outcome, and no goroutine works on it any more.\<close>

definition settled :: "publisher \<Rightarrow> addr \<Rightarrow> bool" where
  "settled s a \<longleftrightarrow> a < pb_next s \<and> pm_CallbackFired (pb_heap s a) \<and>
     mcount (token_of a) (pb_goroutines s) = 0"

lemma lcount_mem: "x \<in> set xs \<Longrightarrow> P x \<Longrightarrow> 0 < lcount P xs"
  using lcount_zero_iff [of P xs] by auto

lemma called_ends: "called a e \<Longrightarrow> ends a e"
  by (cases e) auto

lemma ended_once: "inv s \<Longrightarrow> mcount (token_of a) (pb_goroutines s) + lcount (ends a) (pb_log s) \<le> 1"
  using invD(3) [of s] by (simp add: inv_tokens_def tokens_def)

lemma returned_once: "inv s \<Longrightarrow> lcount (returned a) (pb_log s) \<le> 1"
  using invD(7) [of s] by (auto simp: inv_calls_def split: if_splits dest!: spec [of _ a])

lemma accepted_not_refused:
  assumes "inv s" "Accepted a \<in> set (pb_log s)"
  shows "Refused a \<notin> set (pb_log s)"
proof
  assume "Refused a \<in> set (pb_log s)"
  then have "2 \<le> lcount (returned a) (pb_log s)"
    using lcount_two [of "Refused a" "pb_log s" "Accepted a" "returned a"] assms(2) by simp
  with returned_once [OF assms(1), of a] show False by simp
qed



text \<open>C1: if publishing a message returns nil, its story ends exactly once: once the message is
  settled and no goroutine works on it, exactly one of a callback, a hand-over to a retry and a
  drop has happened, and before that none has.\<close>

theorem accepted_ends_once:
  assumes "reachable cf t0 s" and "Accepted a \<in> set (pb_log s)"
  shows "lcount (ends a) (pb_log s) = (if settled s a then 1 else 0)"
proof -
  have i: "inv s" using assms(1) by (rule reachable_inv)
  have "a < pb_next s"
    using invD(7) [OF i, unfolded inv_calls_def, rule_format, of a] lcount_mem [OF assms(2), of "returned a"]
    by (auto split: if_splits)
  moreover have "tokens s a = (if a < pb_next s \<and> pm_CallbackFired (pb_heap s a) then 1 else 0)"
    using invD(3) [OF i] by (simp add: inv_tokens_def)
  ultimately show ?thesis
    by (cases "mcount (token_of a) (pb_goroutines s)"; cases "pm_CallbackFired (pb_heap s a)")
      (simp_all add: settled_def tokens_def)
qed

theorem accepted_ends_once_witness:
  "\<exists>s. demo demo_confirmed = Some s \<and> Accepted 0 \<in> set (pb_log s) \<and> settled s 0 \<and>
     lcount (ends 0) (pb_log s) = 1"
proof -
  have "\<exists>s. demo demo_confirmed = Some s \<and> Accepted 0 \<in> set (pb_log s) \<and> settled s 0"
    by (simp add: demo_confirmed_def demo_pending_def run_finish_def settled_def demo_simps)
  then show ?thesis using accepted_ends_once [OF demo_reachable, of demo_confirmed _ 0] by auto
qed

text \<open>C14: without automatic retries, publishing with the result nil ends in exactly one callback:
  when the message is settled and no goroutine works on it, its callback was called once.\<close>

theorem accepted_called_once:
  assumes "reachable cf t0 s" and "\<not> cf_enableAutomaticRetries (pb_config s)"
    and "Accepted a \<in> set (pb_log s)" and "settled s a"
  shows "lcount (called a) (pb_log s) = 1"
proof -
  have i: "inv s" using assms(1) by (rule reachable_inv)
  have a: "a < pb_next s" using assms(4) by (simp add: settled_def)
  have orig: "pm_OriginalMessage (pb_heap s a) = None"
    using inv_obj_ok [OF i a] assms(2) by (simp add: obj_ok_def)
  have same: "ends a e = called a e" if e: "e \<in> set (pb_log s)" for e
  proof -
    have ok: "event_ok (pb_heap s) e" using invD(5) [OF i] e by (simp add: inv_log_def)
    have "e \<noteq> Refused a" using accepted_not_refused [OF i assms(3)] e by auto
    with ok orig show ?thesis by (cases e) auto
  qed
  have "lcount (called a) (pb_log s) = lcount (ends a) (pb_log s)"
    unfolding lcount_def using same by (simp cong: filter_cong)
  moreover have "tokens s a = 1"
    using invD(3) [OF i] assms(4) by (simp add: inv_tokens_def settled_def)
  ultimately show ?thesis using assms(4) by (simp add: settled_def tokens_def)
qed

definition demo_plain :: "label list \<Rightarrow> publisher option" where
  "demo_plain ls = run demo_frontend ls
     (initDeliveryAssurance (demo_config\<lparr>cf_enableAutomaticRetries := False\<rparr>) 1000)"

theorem accepted_called_once_witness:
  "\<exists>s. demo_plain demo_confirmed = Some s \<and> settled s 0 \<and> lcount (called 0) (pb_log s) = 1"
proof -
  have "\<exists>s. demo_plain demo_confirmed = Some s \<and> \<not> cf_enableAutomaticRetries (pb_config s) \<and>
      Accepted 0 \<in> set (pb_log s) \<and> settled s 0"
    by (simp add: demo_confirmed_def demo_pending_def run_finish_def settled_def demo_plain_def demo_simps)
  then obtain s where s: "demo_plain demo_confirmed = Some s" "\<not> cf_enableAutomaticRetries (pb_config s)"
    "Accepted 0 \<in> set (pb_log s)" "settled s 0" by blast
  have "reachable (demo_config\<lparr>cf_enableAutomaticRetries := False\<rparr>) 1000 s"
    using s(1) unfolding demo_plain_def by (rule run_reachable [OF reach_init])
  from accepted_called_once [OF this s(2-4)] s show ?thesis by blast
qed

section \<open>What callbacks are told\<close>

lemma logD: "inv s \<Longrightarrow> e \<in> set (pb_log s) \<Longrightarrow> event_ok (pb_heap s) e"
  by (simp add: inv_def inv_log_def)



section \<open>No message is forgotten\<close>

text \<open>C2: until it is settled, a message always has something that will settle it, unless the
  publisher is closed: a timer that is running, a timer or grace goroutine that is queued, or a
  publish in progress that has noted what to do after its send.\<close>

theorem no_message_forgotten:
  assumes "reachable cf t0 s" and "a < pb_next s" and "\<not> pb_closed s"
    and "\<not> pm_CallbackFired (pb_heap s a)"
  shows "pm_TimeoutTimer (pb_heap s a) \<noteq> None \<or>
    GTimeout (pm_key (pb_heap s a)) \<in># pb_goroutines s \<or> GGrace a \<in># pb_goroutines s \<or>
    pm_inFlight (pb_heap s a) \<and>
      (pm_timeoutDeferred (pb_heap s a) \<or> pm_orphanDeferred (pb_heap s a)) \<or>
    (\<exists>origin d r dt dc. pb_phase s = Settling a origin d r dt dc \<and> (d \<or> dt))"
  using liveD [OF reachable_live [OF assms(1)] assms(2)] assms(3,4)
  by (auto simp: lives_def alive_def)

theorem no_message_forgotten_witness:
  "\<exists>s. demo demo_pending = Some s \<and> \<not> pm_CallbackFired (pb_heap s 0) \<and>
     pm_TimeoutTimer (pb_heap s 0) \<noteq> None"
proof -
  have "\<exists>s. demo demo_pending = Some s \<and> 0 < pb_next s \<and> \<not> pb_closed s \<and>
      \<not> pm_CallbackFired (pb_heap s 0) \<and> pb_phase s = Idle \<and> pb_goroutines s = {#} \<and>
      \<not> pm_inFlight (pb_heap s 0)"
    by (simp add: demo_pending_def demo_simps)
  then obtain s where s: "demo demo_pending = Some s" "0 < pb_next s" "\<not> pb_closed s"
    "\<not> pm_CallbackFired (pb_heap s 0)" "pb_phase s = Idle" "pb_goroutines s = {#}"
    "\<not> pm_inFlight (pb_heap s 0)" by blast
  from no_message_forgotten [OF demo_reachable [OF s(1)] s(2-4)] s show ?thesis by auto
qed

text \<open>Nothing is left behind on a dead confirm channel: once the sweep failOrphans has
  marked a generation dead, each of its messages is settled, was confirmed (and waits out its
  grace period), is queued to be settled as an orphan, or is inside a publish that will settle it.\<close>

lemma dead_generation_settles:
  assumes "reachable cf t0 s" and "a < pb_next s"
    and "cg_dead (pb_gens s (pm_generation (pb_heap s a)))"
  shows "pm_CallbackFired (pb_heap s a) \<or> pm_Confirmed (pb_heap s a) \<or>
    (\<exists>r. GOrphan a r \<in># pb_goroutines s) \<or>
    pm_inFlight (pb_heap s a) \<and> pm_orphanDeferred (pb_heap s a) \<or>
    (\<exists>origin r dt dc. pb_phase s = Settling a origin True r dt dc)"
  using liveD [OF reachable_live [OF assms(1)] assms(2)] assms(3)
  by (auto simp: lives_def orphan_ok_def)

lemma dead_generation_settles_witness:
  "\<exists>s. demo demo_dead = Some s \<and> \<not> pm_CallbackFired (pb_heap s 0) \<and>
     (\<exists>r. GOrphan 0 r \<in># pb_goroutines s)"
proof -
  have "\<exists>s. demo demo_dead = Some s \<and> 0 < pb_next s \<and>
      cg_dead (pb_gens s (pm_generation (pb_heap s 0))) \<and>
      \<not> pm_CallbackFired (pb_heap s 0) \<and> \<not> pm_Confirmed (pb_heap s 0) \<and> pb_phase s = Idle \<and>
      \<not> pm_inFlight (pb_heap s 0)"
    by (simp add: demo_dead_def demo_pending_def failOrphans_def demo_simps)
  then obtain s where s: "demo demo_dead = Some s" "0 < pb_next s"
    "cg_dead (pb_gens s (pm_generation (pb_heap s 0)))" "\<not> pm_CallbackFired (pb_heap s 0)"
    "\<not> pm_Confirmed (pb_heap s 0)" "pb_phase s = Idle" "\<not> pm_inFlight (pb_heap s 0)" by blast
  from dead_generation_settles [OF demo_reachable [OF s(1)] s(2,3)] s show ?thesis by auto
qed

section \<open>Statistics and retries\<close>



text \<open>The limit of WithPublisherRetry bounds the retries: no message ever carries more than the
  configured number of retries, and a retry that is queued still has one left, so the branch of
  retryMessage for exhausted retries is never taken.\<close>

lemma retries_bounded:
  assumes "reachable cf t0 s" and "a < pb_next s"
  shows "pm_RetryCount (pb_heap s a) \<le> max 0 (cf_maxRetryAttempts (pb_config s)) \<and>
    (GRetry a \<in># pb_goroutines s \<longrightarrow> pm_RetryCount (pb_heap s a) < cf_maxRetryAttempts (pb_config s))"
  using obj_ok_retry [OF inv_obj_ok [OF reachable_inv [OF assms(1)] assms(2)]]
    taskD [OF reachable_inv [OF assms(1)], of "GRetry a"] by auto

lemma retries_bounded_witness:
  "\<exists>s. demo demo_nacked = Some s \<and> GRetry 0 \<in># pb_goroutines s \<and> pm_RetryCount (pb_heap s 0) < 2"
proof -
  have "\<exists>s. demo demo_nacked = Some s \<and> 0 < pb_next s \<and> GRetry 0 \<in># pb_goroutines s \<and>
      cf_maxRetryAttempts (pb_config s) = 2"
    by (simp add: demo_nacked_def demo_pending_def demo_simps)
  then obtain s where s: "demo demo_nacked = Some s" "0 < pb_next s" "GRetry 0 \<in># pb_goroutines s"
    "cf_maxRetryAttempts (pb_config s) = 2" by blast
  from retries_bounded [OF demo_reachable [OF s(1)] s(2)] s show ?thesis by auto
qed

section \<open>Confirmations reach the right message\<close>

text \<open>A confirmation reaches the message it is for, whatever channels came before: the entry
  found under the key of a generation and a tag was published on that generation with that tag,
  within the limits the code states (2^24 channels, 2^40 publishes on one).\<close>

lemma confirm_reaches_its_message:
  assumes "reachable cf t0 s" and "unat g < 2 ^ 24" and "unat t < 2 ^ 40"
    and "LoadByDeliveryTag (pb_pendingMessages s) (deliveryKey g t) = Some a"
  shows "pm_generation (pb_heap s a) = g \<and> pm_brokerTag (pb_heap s a) = t"
proof -
  have i: "inv s" using assms(1) by (rule reachable_inv)
  note l = loaded [OF i assms(4)]
  have k: "pm_key (pb_heap s a) = deliveryKey (pm_generation (pb_heap s a)) (pm_brokerTag (pb_heap s a))"
    "unat (pm_generation (pb_heap s a)) < 2 ^ 24" "unat (pm_brokerTag (pb_heap s a)) < 2 ^ 40"
    using invD(9) [OF i] l(1) unfolding inv_keys_def by auto
  show ?thesis
    using deliveryKey_eq_iff [OF k(2) assms(2) k(3) assms(3)] k(1) l(3) by simp
qed

lemma confirm_reaches_its_message_witness:
  "\<exists>s. demo demo_pending = Some s \<and>
     LoadByDeliveryTag (pb_pendingMessages s) (deliveryKey 1 1) = Some 0 \<and>
     pm_generation (pb_heap s 0) = 1 \<and> pm_brokerTag (pb_heap s 0) = 1"
proof -
  have "\<exists>s. demo demo_pending = Some s \<and>
      LoadByDeliveryTag (pb_pendingMessages s) (deliveryKey 1 1) = Some 0"
    by (simp add: demo_pending_def demo_simps)
  then obtain s where s: "demo demo_pending = Some s"
    "LoadByDeliveryTag (pb_pendingMessages s) (deliveryKey 1 1) = Some 0" by blast
  from confirm_reaches_its_message [OF demo_reachable [OF s(1)] _ _ s(2)] s show ?thesis by auto
qed

text \<open>A message without an outcome is always found: under the delivery key of its own
  generation and tag (where its confirmation looks) and under its message ID (where a return
  looks), so no two of them share either.\<close>

lemma pending_message_found:
  assumes "reachable cf t0 s" and "a < pb_next s" and "\<not> pm_CallbackFired (pb_heap s a)"
  shows "LoadByDeliveryTag (pb_pendingMessages s)
      (deliveryKey (pm_generation (pb_heap s a)) (pm_brokerTag (pb_heap s a))) = Some a \<and>
    LoadByMessageID (pb_pendingMessages s) (pm_MessageID (pb_heap s a)) = Some a"
proof -
  have i: "inv s" using assms(1) by (rule reachable_inv)
  have k: "pm_key (pb_heap s a) = deliveryKey (pm_generation (pb_heap s a)) (pm_brokerTag (pb_heap s a))"
    using invD(9) [OF i] assms(2) unfolding inv_keys_def by blast
  have m: "LoadByDeliveryTag (pb_pendingMessages s) (pm_key (pb_heap s a)) = Some a"
    using member [OF i assms(2,3)] .
  moreover have "indexed LoadByMessageID LoadByDeliveryTag (\<lambda>a. pm_MessageID (pb_heap s a))
     (\<lambda>a. pm_key (pb_heap s a)) (pb_pendingMessages s)"
    using invD(1) [OF i] by (simp add: inv_index_def)
  ultimately show ?thesis using indexed_keyD k by fastforce
qed

lemma pending_message_found_witness:
  "\<exists>s. demo demo_pending = Some s \<and> LoadByMessageID (pb_pendingMessages s) ''m'' = Some 0"
proof -
  have "\<exists>s. demo demo_pending = Some s \<and> 0 < pb_next s \<and> \<not> pm_CallbackFired (pb_heap s 0) \<and>
      pm_MessageID (pb_heap s 0) = ''m''"
    by (simp add: demo_pending_def demo_simps)
  then obtain s where s: "demo demo_pending = Some s" "0 < pb_next s"
    "\<not> pm_CallbackFired (pb_heap s 0)" "pm_MessageID (pb_heap s 0) = ''m''" by blast
  from pending_message_found [OF demo_reachable [OF s(1)] s(2,3)] s show ?thesis by auto
qed

section \<open>Where the code falls short\<close>

text \<open>The callback of an accepted message can be lost: when a retry of a nacked message cannot
  be republished, only the callback given in the options is told, so a message that relies on the
  publisher's default callback ends without any.\<close>

lemma failed_retry_loses_default_callback:
  "\<exists>s. demo demo_lost = Some s \<and> Accepted 0 \<in> set (pb_log s) \<and> settled s 0 \<and>
     pm_Callback (pb_heap s 0) = Some 7 \<and> lcount (called 0) (pb_log s) = 0"
  by (simp add: demo_lost_def demo_nacked_def demo_pending_def settled_def demo_simps)

text \<open>A message can be reported as timed out before its timeout: the delivery key of a send
  that failed is used again for the next publish, so a timeout goroutine of the failed one that
  is still to run settles the next message, here at the very instant it was published.\<close>

lemma stale_timer_times_out_next_message:
  "\<exists>s. demo demo_stale = Some s \<and> Refused 0 \<in> set (pb_log s) \<and> Accepted 1 \<in> set (pb_log s) \<and>
     pm_FinalOutcome (pb_heap s 1) = Some DeliveryTimeout \<and>
     pm_PublishedAt (pb_heap s 1) = pb_now s \<and> pm_timeout (pb_heap s 1) = 30 * second"
  by (simp add: demo_stale_def timer_goroutine_def handleTimeout_def publishTracked_failed_def
      second_def demo_simps)

text \<open>A message can be reported as returned although the broker routed and confirmed it: a return is
  matched by message ID alone, so the late return of a message that timed out settles the next one
  published under its ID, and the confirmation that follows is ignored.\<close>

lemma late_return_fails_next_message:
  "\<exists>s. demo demo_late_return = Some s \<and> Accepted 1 \<in> set (pb_log s) \<and>
     pm_FinalOutcome (pb_heap s 0) = Some DeliveryTimeout \<and>
     pm_FinalOutcome (pb_heap s 1) = Some DeliveryFailed \<and>
     pm_brokerTag (pb_heap s 1) = 2"
  by (simp add: demo_late_return_def demo_pending_def timer_goroutine_def handleTimeout_def
      run_finish_def handleReturn_def second_def demo_simps)

end
