(* ===== verification/Client_Config.thy ===== *)
theory Client_Config
  imports Go_Base
begin

text \<open>
  The configuration of a client: the options of src/options.go, the environment of src/env.go,
  the reconnection policies of src/interfaces.go, the defaults of \<open>NewClient\<close> and the list of
  URLs the client dials (src/client.go). An option is a constructor of \<open>client_option\<close> with its
  arguments, and \<open>apply_option\<close> is the closure it stands for. What only feeds logging, metrics,
  tracing and auditing is left out.
\<close>

section \<open>Reconnection policies\<close>

text \<open>
  The multiplier is a \<open>float64\<close>; \<open>scale\<close> is \<open>time.Duration(float64(delay) * e.Multiplier)\<close> for
  the configured multiplier.
\<close>

datatype ReconnectPolicy =
    ExponentialBackoff (eb_InitialDelay: duration) (eb_MaxDelay: duration)
      (eb_scale: "duration \<Rightarrow> duration") (eb_MaxAttempts: int)
  | LinearBackoff duration int
  | FixedDelay duration int

text \<open>The loop of \<open>NextDelay\<close>, with the rounds that are left.\<close>

fun NextDelay_loop :: "(duration \<Rightarrow> duration) \<Rightarrow> duration \<Rightarrow> nat \<Rightarrow> duration \<Rightarrow> duration" where
  "NextDelay_loop scale maxDelay 0 delay = delay"
| "NextDelay_loop scale maxDelay (Suc n) delay =
     (let delay' = scale delay in
      if delay' > maxDelay then maxDelay else NextDelay_loop scale maxDelay n delay')"

fun NextDelay :: "ReconnectPolicy \<Rightarrow> int \<Rightarrow> duration" where
  "NextDelay (ExponentialBackoff initialDelay maxDelay scale _) attempt =
     NextDelay_loop scale maxDelay (nat (attempt - 1)) initialDelay"
| "NextDelay (LinearBackoff delay _) attempt = delay"
| "NextDelay (FixedDelay delay _) attempt = delay"

fun MaxAttempts :: "ReconnectPolicy \<Rightarrow> int" where
  "MaxAttempts (ExponentialBackoff _ _ _ n) = n"
| "MaxAttempts (LinearBackoff _ n) = n"
| "MaxAttempts (FixedDelay _ n) = n"

definition ReconnectPolicy_ShouldRetry :: "ReconnectPolicy \<Rightarrow> int \<Rightarrow> bool" where
  "ReconnectPolicy_ShouldRetry p attempt = (\<not> (MaxAttempts p > 0 \<and> attempt \<ge> MaxAttempts p))"

text \<open>Doubling: exact up to 2^52 nanoseconds, as a \<open>float64\<close> holds every integer up to 2^53.\<close>

definition scale2 :: "duration \<Rightarrow> duration" where "scale2 d = 2 * d"

definition DefaultReconnectPolicy :: ReconnectPolicy where
  "DefaultReconnectPolicy = ExponentialBackoff (1 * second) (30 * second) scale2 0"

definition ProductionReconnectPolicy :: ReconnectPolicy where
  "ProductionReconnectPolicy = ExponentialBackoff (5 * second) (5 * minute) scale2 10"

definition TestingReconnectPolicy :: ReconnectPolicy where
  "TestingReconnectPolicy = FixedDelay (100 * millisecond) 3"

section \<open>The configuration and its options\<close>

text \<open>\<open>cc_TLS\<close> is the pointer to the TLS configuration: present, with its \<open>InsecureSkipVerify\<close>.\<close>

record clientConfig =
  cc_URL :: string
  cc_URLs :: "string list"
  cc_Hosts :: "string list"
  cc_Username :: string
  cc_Password :: string
  cc_VHost :: string
  cc_TLS :: "bool option"
  cc_ConnectionName :: string
  cc_Heartbeat :: duration
  cc_DialTimeout :: duration
  cc_ChannelTimeout :: duration
  cc_AutoReconnect :: bool
  cc_ReconnectDelay :: duration
  cc_MaxReconnectAttempts :: int
  cc_ReconnectPolicy :: "ReconnectPolicy option"
  cc_TopologyValidation :: bool
  cc_TopologyAutoRecreation :: bool
  cc_TopologyBackgroundValidation :: bool
  cc_TopologyValidationInterval :: duration

record EnvConfig =
  ec_Username :: string
  ec_Password :: string
  ec_Hosts :: "string list"
  ec_VHost :: string
  ec_Protocol :: string
  ec_TLSEnabled :: bool
  ec_TLSInsecure :: bool
  ec_ConnectionName :: string
  ec_Heartbeat :: duration
  ec_RetryAttempts :: int
  ec_RetryDelay :: duration
  ec_DialTimeout :: duration
  ec_ChannelTimeout :: duration
  ec_AutoReconnect :: bool
  ec_ReconnectDelay :: duration
  ec_MaxReconnectAttempts :: int
  ec_TopologyValidation :: bool
  ec_TopologyAutoRecreation :: bool
  ec_TopologyBackgroundValidation :: bool
  ec_TopologyValidationInterval :: duration

text \<open>
  What the environment binding (a package of its own) read: an error, or the values. The error
  constructors follow the messages of the code; \<open>IndexOutOfRange\<close> is a panic.
\<close>

datatype topology_option =
    WithTopologyValidation
  | WithTopologyAutoRecreation
  | WithTopologyBackgroundValidation duration
  | WithTopologyValidationInterval duration
  | WithoutTopologyValidation
  | WithoutTopologyAutoRecreation
  | WithoutTopologyBackgroundValidation

datatype client_option =
    WithCredentials string string
  | WithHosts "string list"
  | WithVHost string
  | WithTLS "bool option"
  | WithInsecureTLS
  | WithConnectionName string
  | WithHeartbeat duration
  | WithDialTimeout duration
  | WithChannelTimeout duration
  | WithReconnectPolicy "ReconnectPolicy option"
  | WithMaxReconnectAttempts int
  | WithReconnectDelay duration
  | WithAutoReconnect bool
  | Topology topology_option
  | FromEnvWithPrefix "string + EnvConfig"

datatype option_error =
    AtLeastOneHost
  | HostEmpty
  | HeartbeatNegative
  | DialTimeoutNotPositive
  | ChannelTimeoutNotPositive
  | MaxReconnectAttemptsNegative
  | ReconnectDelayNegative
  | ValidationIntervalNotPositive
  | EnvironmentInvalid string
  | IndexOutOfRange

section \<open>URLs of the environment\<close>

definition add_port :: "string \<Rightarrow> string" where
  "add_port host = (if str_contains host '':'' then host else host @ '':5672'')"

definition format_url :: "string \<Rightarrow> string \<Rightarrow> string \<Rightarrow> string \<Rightarrow> string \<Rightarrow> string" where
  "format_url scheme username password host vhost =
     scheme @ ''://'' @ username @ '':'' @ password @ ''@'' @ host @ vhost"

text \<open>The path of a URL; indexing the empty virtual host panics.\<close>

fun vhost_path :: "string \<Rightarrow> string option" where
  "vhost_path [] = None"
| "vhost_path (c # cs) =
     Some (if c # cs = ''/'' then [] else if c \<noteq> CHR ''/'' then ''/'' @ c # cs else c # cs)"

definition BuildAMQPURL :: "EnvConfig \<Rightarrow> string option" where
  "BuildAMQPURL e =
     (case ec_Hosts e of
        [] \<Rightarrow> Some []
      | h # _ \<Rightarrow>
          (case vhost_path (ec_VHost e) of
             None \<Rightarrow> None
           | Some vhost \<Rightarrow>
               Some (format_url (ec_Protocol e) (ec_Username e) (ec_Password e) (add_port h) vhost)))"

definition BuildAMQPURLs :: "EnvConfig \<Rightarrow> string list option" where
  "BuildAMQPURLs e =
     (if ec_Hosts e = [] then Some []
      else
        (case vhost_path (ec_VHost e) of
           None \<Rightarrow> None
         | Some vhost \<Rightarrow>
             Some (map (\<lambda>host. format_url (ec_Protocol e) (ec_Username e) (ec_Password e)
                                 (add_port host) vhost) (ec_Hosts e))))"

definition applyEnvConfigToClient :: "clientConfig \<Rightarrow> EnvConfig \<Rightarrow> option_error + clientConfig" where
  "applyEnvConfigToClient config e =
     (case BuildAMQPURLs e of
        None \<Rightarrow> Inl IndexOutOfRange
      | Some urls \<Rightarrow>
          (let c1 = (if urls \<noteq> []
                     then config\<lparr>cc_URLs := urls, cc_URL := hd urls, cc_Hosts := ec_Hosts e\<rparr>
                     else config);
               c2 = c1\<lparr>cc_Username := ec_Username e, cc_Password := ec_Password e,
                       cc_VHost := ec_VHost e, cc_ConnectionName := ec_ConnectionName e,
                       cc_Heartbeat := ec_Heartbeat e, cc_DialTimeout := ec_DialTimeout e,
                       cc_ChannelTimeout := ec_ChannelTimeout e\<rparr>;
               c3 = (if ec_TLSEnabled e then c2\<lparr>cc_TLS := Some (ec_TLSInsecure e)\<rparr> else c2) in
           Inr (c3\<lparr>cc_AutoReconnect := ec_AutoReconnect e,
                   cc_ReconnectDelay := ec_ReconnectDelay e,
                   cc_MaxReconnectAttempts := ec_MaxReconnectAttempts e,
                   cc_ReconnectPolicy :=
                     Some (ExponentialBackoff (ec_RetryDelay e) (30 * second) scale2
                             (ec_RetryAttempts e)),
                   cc_TopologyValidation := ec_TopologyValidation e,
                   cc_TopologyAutoRecreation := ec_TopologyAutoRecreation e,
                   cc_TopologyBackgroundValidation := ec_TopologyBackgroundValidation e,
                   cc_TopologyValidationInterval := ec_TopologyValidationInterval e\<rparr>)))"

section \<open>Applying options\<close>

text \<open>Guarded assignment: the shape of every validating option.\<close>

definition reject_if :: "bool \<Rightarrow> option_error \<Rightarrow> clientConfig \<Rightarrow> option_error + clientConfig" where
  "reject_if bad e c = (if bad then Inl e else Inr c)"

fun apply_topology_option ::
  "topology_option \<Rightarrow> clientConfig \<Rightarrow> option_error + clientConfig" where
  "apply_topology_option WithTopologyValidation c = Inr (c\<lparr>cc_TopologyValidation := True\<rparr>)"
| "apply_topology_option WithTopologyAutoRecreation c = Inr (c\<lparr>cc_TopologyAutoRecreation := True\<rparr>)"
| "apply_topology_option (WithTopologyBackgroundValidation d) c =
     reject_if (d \<le> 0) ValidationIntervalNotPositive
       (c\<lparr>cc_TopologyBackgroundValidation := True, cc_TopologyValidationInterval := d\<rparr>)"
| "apply_topology_option (WithTopologyValidationInterval d) c =
     reject_if (d \<le> 0) ValidationIntervalNotPositive
       (c\<lparr>cc_TopologyBackgroundValidation := True, cc_TopologyValidationInterval := d\<rparr>)"
| "apply_topology_option WithoutTopologyValidation c =
     Inr (c\<lparr>cc_TopologyValidation := False, cc_TopologyAutoRecreation := False,
            cc_TopologyBackgroundValidation := False\<rparr>)"
| "apply_topology_option WithoutTopologyAutoRecreation c = Inr (c\<lparr>cc_TopologyAutoRecreation := False\<rparr>)"
| "apply_topology_option WithoutTopologyBackgroundValidation c =
     Inr (c\<lparr>cc_TopologyBackgroundValidation := False\<rparr>)"

fun apply_option :: "client_option \<Rightarrow> clientConfig \<Rightarrow> option_error + clientConfig" where
  "apply_option (WithCredentials username password) c =
     Inr (c\<lparr>cc_Username := username, cc_Password := password\<rparr>)"
| "apply_option (WithHosts hosts) c =
     (if hosts = [] then Inl AtLeastOneHost
      else reject_if ([] \<in> set hosts) HostEmpty (c\<lparr>cc_Hosts := map add_port hosts\<rparr>))"
| "apply_option (WithVHost vhost) c = Inr (c\<lparr>cc_VHost := vhost\<rparr>)"
| "apply_option (WithTLS tls) c = Inr (c\<lparr>cc_TLS := tls\<rparr>)"
| "apply_option WithInsecureTLS c = Inr (c\<lparr>cc_TLS := Some True\<rparr>)"
| "apply_option (WithConnectionName name) c = Inr (c\<lparr>cc_ConnectionName := name\<rparr>)"
| "apply_option (WithHeartbeat d) c = reject_if (d < 0) HeartbeatNegative (c\<lparr>cc_Heartbeat := d\<rparr>)"
| "apply_option (WithDialTimeout d) c =
     reject_if (d \<le> 0) DialTimeoutNotPositive (c\<lparr>cc_DialTimeout := d\<rparr>)"
| "apply_option (WithChannelTimeout d) c =
     reject_if (d \<le> 0) ChannelTimeoutNotPositive (c\<lparr>cc_ChannelTimeout := d\<rparr>)"
| "apply_option (WithReconnectPolicy p) c = Inr (c\<lparr>cc_ReconnectPolicy := p\<rparr>)"
| "apply_option (WithMaxReconnectAttempts n) c =
     reject_if (n < 0) MaxReconnectAttemptsNegative (c\<lparr>cc_MaxReconnectAttempts := n\<rparr>)"
| "apply_option (WithReconnectDelay d) c =
     reject_if (d < 0) ReconnectDelayNegative (c\<lparr>cc_ReconnectDelay := d\<rparr>)"
| "apply_option (WithAutoReconnect b) c = Inr (c\<lparr>cc_AutoReconnect := b\<rparr>)"
| "apply_option (Topology opt) c = apply_topology_option opt c"
| "apply_option (FromEnvWithPrefix (Inl e)) c = Inl (EnvironmentInvalid e)"
| "apply_option (FromEnvWithPrefix (Inr e)) c = applyEnvConfigToClient c e"

fun apply_options :: "client_option list \<Rightarrow> clientConfig \<Rightarrow> option_error + clientConfig" where
  "apply_options [] c = Inr c"
| "apply_options (opt # opts) c =
     (case apply_option opt c of Inl e \<Rightarrow> Inl e | Inr c' \<Rightarrow> apply_options opts c')"

definition default_clientConfig :: clientConfig where
  "default_clientConfig =
     \<lparr>cc_URL = [], cc_URLs = [], cc_Hosts = [], cc_Username = ''guest'', cc_Password = ''guest'',
      cc_VHost = ''/'', cc_TLS = None, cc_ConnectionName = ''go-rabbitmq-client'',
      cc_Heartbeat = 10 * second, cc_DialTimeout = 30 * second, cc_ChannelTimeout = 10 * second,
      cc_AutoReconnect = True, cc_ReconnectDelay = 5 * second, cc_MaxReconnectAttempts = 0,
      cc_ReconnectPolicy = None, cc_TopologyValidation = True, cc_TopologyAutoRecreation = True,
      cc_TopologyBackgroundValidation = True, cc_TopologyValidationInterval = 30 * second\<rparr>"

definition first_host :: "clientConfig \<Rightarrow> string" where
  "first_host c = (case cc_Hosts c of [] \<Rightarrow> ''localhost:5672'' | h # _ \<Rightarrow> h)"

text \<open>\<open>NewClient\<close> up to the connection: the defaults, the options and the URL.\<close>

definition NewClient_config :: "client_option list \<Rightarrow> option_error + clientConfig" where
  "NewClient_config opts =
     (case apply_options opts default_clientConfig of
        Inl e \<Rightarrow> Inl e
      | Inr c \<Rightarrow>
          Inr (if cc_URL c = []
               then c\<lparr>cc_URL := format_url (if cc_TLS c = None then ''amqp'' else ''amqps'')
                                 (cc_Username c) (cc_Password c) (first_host c) (cc_VHost c)\<rparr>
               else c))"

definition getConnectionURLs :: "clientConfig \<Rightarrow> string list" where
  "getConnectionURLs c =
     (if cc_URLs c \<noteq> [] then cc_URLs c
      else if cc_URL c \<noteq> [] then [cc_URL c]
      else [format_url ''amqp'' (cc_Username c) (cc_Password c) (first_host c) (cc_VHost c)])"

section \<open>Delays\<close>

text \<open>\<open>reconnect_delay\<close>: the wait before an attempt (src/client.go).\<close>

definition reconnect_delay :: "clientConfig \<Rightarrow> int \<Rightarrow> duration" where
  "reconnect_delay c attempt =
     (case cc_ReconnectPolicy c of None \<Rightarrow> cc_ReconnectDelay c | Some p \<Rightarrow> NextDelay p attempt)"

lemma NextDelay_loop_le: "delay \<le> maxDelay \<Longrightarrow> NextDelay_loop scale maxDelay n delay \<le> maxDelay"
  by (induction n arbitrary: delay) (auto simp: Let_def)

lemma NextDelay_loop_ge:
  assumes "\<And>d. lo \<le> d \<Longrightarrow> lo \<le> scale d" and "lo \<le> maxDelay" and "lo \<le> delay"
  shows "lo \<le> NextDelay_loop scale maxDelay n delay"
  using assms(3) by (induction n arbitrary: delay) (auto simp: Let_def assms(1,2))

lemma NextDelay_loop_scale2:
  "0 < delay \<Longrightarrow> delay \<le> maxDelay \<Longrightarrow>
   NextDelay_loop scale2 maxDelay n delay = min maxDelay (2 ^ n * delay)"
proof (induction n arbitrary: delay)
  case 0
  then show ?case by simp
next
  case (Suc n)
  have s: "scale2 delay = 2 * delay" by (simp add: scale2_def)
  show ?case
  proof (cases "2 * delay > maxDelay")
    case True
    have "2 * delay \<le> 2 ^ Suc n * delay"
      using Suc.prems(1) by (simp add: mult_le_cancel_right)
    with True show ?thesis by (simp add: s Let_def)
  next
    case False
    then have "NextDelay_loop scale2 maxDelay n (2 * delay) = min maxDelay (2 ^ n * (2 * delay))"
      using Suc.prems(1) by (intro Suc.IH) auto
    with False show ?thesis by (simp add: s Let_def ac_simps)
  qed
qed

section \<open>What the configuration promises\<close>

lemma apply_option_keeps_URLs:
  assumes "apply_option opt c = Inr c'" and "\<And>e. opt \<noteq> FromEnvWithPrefix e"
  shows "cc_URLs c' = cc_URLs c \<and> cc_URL c' = cc_URL c"
proof (cases opt)
  case (WithHosts hs)
  with assms(1) show ?thesis by (auto simp: reject_if_def split: if_splits)
next
  case (Topology topt)
  with assms(1) show ?thesis by (cases topt) (auto simp: reject_if_def split: if_splits)
qed (use assms in \<open>auto simp: reject_if_def split: if_splits\<close>)

lemma apply_options_keep_URLs:
  "apply_options opts c = Inr c' \<Longrightarrow> (\<And>e. FromEnvWithPrefix e \<notin> set opts) \<Longrightarrow>
   cc_URLs c' = cc_URLs c \<and> cc_URL c' = cc_URL c"
proof (induction opts arbitrary: c)
  case Nil
  then show ?case by simp
next
  case (Cons opt opts)
  then obtain c1 where 1: "apply_option opt c = Inr c1" and 2: "apply_options opts c1 = Inr c'"
    by (auto split: sum.splits)
  from Cons.prems(2) have n: "\<And>e. opt \<noteq> FromEnvWithPrefix e" by auto
  from Cons.IH [OF 2] Cons.prems(2) apply_option_keeps_URLs [OF 1 n] show ?case by auto
qed

lemma format_url_not_Nil [simp]: "format_url s u p h v \<noteq> []"
  by (simp add: format_url_def)

text \<open>The hosts after the first one are never dialled: a client configured with options of the
  package other than the environment's, however many hosts it was given, has one URL, the one of
  the first host.\<close>

lemma only_first_host_dialled:
  assumes "NewClient_config opts = Inr c" and "\<forall>e. FromEnvWithPrefix e \<notin> set opts"
  shows "getConnectionURLs c =
    [format_url (if cc_TLS c = None then ''amqp'' else ''amqps'') (cc_Username c) (cc_Password c)
       (first_host c) (cc_VHost c)]"
proof -
  obtain c0 where 0: "apply_options opts default_clientConfig = Inr c0"
    using assms(1) by (auto simp: NewClient_config_def split: sum.splits)
  have "cc_URLs c0 = []" and "cc_URL c0 = []"
    using apply_options_keep_URLs [OF 0] assms(2) by (simp_all add: default_clientConfig_def)
  with 0 assms(1) show ?thesis
    by (auto simp: NewClient_config_def getConnectionURLs_def first_host_def)
qed

lemma only_first_host_dialled_witness:
  "\<exists>c. NewClient_config [WithHosts [''a'', ''b:1'', ''c'']] = Inr c \<and>
     cc_Hosts c = [''a:5672'', ''b:1'', ''c:5672''] \<and>
     getConnectionURLs c = [''amqp://guest:guest@a:5672/'']"
proof -
  let ?opts = "[WithHosts [''a'', ''b:1'', ''c'']]"
  have 1: "NewClient_config ?opts = Inr (default_clientConfig
      \<lparr>cc_Hosts := [''a:5672'', ''b:1'', ''c:5672''], cc_URL := ''amqp://guest:guest@a:5672/''\<rparr>)"
    by (simp add: NewClient_config_def default_clientConfig_def reject_if_def add_port_def
        format_url_def first_host_def)
  from only_first_host_dialled [OF 1] show ?thesis unfolding 1
    by (simp add: default_clientConfig_def format_url_def first_host_def)
qed

text \<open>The environment gives every host a URL: a client configured by the environment alone
  dials all of its hosts, in order, each with its port, unless the virtual host is empty, which
  panics.\<close>

lemma env_hosts_all_dialled:
  assumes "ec_Hosts e \<noteq> []"
  shows "case NewClient_config [FromEnvWithPrefix (Inr e)] of
      Inl err \<Rightarrow> err = IndexOutOfRange \<and> ec_VHost e = []
    | Inr c \<Rightarrow> (\<exists>path. vhost_path (ec_VHost e) = Some path \<and>
        getConnectionURLs c = map (\<lambda>h. format_url (ec_Protocol e) (ec_Username e) (ec_Password e)
          (add_port h) path) (ec_Hosts e))"
proof (cases "ec_VHost e")
  case Nil
  with assms show ?thesis
    by (simp add: NewClient_config_def applyEnvConfigToClient_def BuildAMQPURLs_def)
next
  case (Cons v vs)
  then obtain path where p: "vhost_path (ec_VHost e) = Some path" by simp
  from assms show ?thesis
    by (cases "ec_Hosts e")
      (simp_all add: NewClient_config_def applyEnvConfigToClient_def BuildAMQPURLs_def p
        getConnectionURLs_def Let_def)
qed

lemma env_hosts_all_dialled_witness:
  "\<exists>e. ec_Hosts e = [''a'', ''b:1''] \<and>
     (\<exists>c. NewClient_config [FromEnvWithPrefix (Inr e)] = Inr c \<and>
        getConnectionURLs c = [''amqp://u:p@a:5672/v'', ''amqp://u:p@b:1/v''])"
proof -
  define e :: EnvConfig where
    "e = \<lparr>ec_Username = ''u'', ec_Password = ''p'', ec_Hosts = [''a'', ''b:1''], ec_VHost = ''v'',
      ec_Protocol = ''amqp'', ec_TLSEnabled = False, ec_TLSInsecure = False,
      ec_ConnectionName = ''n'', ec_Heartbeat = 0, ec_RetryAttempts = 5, ec_RetryDelay = second,
      ec_DialTimeout = second, ec_ChannelTimeout = second, ec_AutoReconnect = True,
      ec_ReconnectDelay = second, ec_MaxReconnectAttempts = 0, ec_TopologyValidation = True,
      ec_TopologyAutoRecreation = True, ec_TopologyBackgroundValidation = True,
      ec_TopologyValidationInterval = second\<rparr>"
  have h: "ec_Hosts e \<noteq> []" by (simp add: e_def)
  from env_hosts_all_dialled [OF h] show ?thesis
    by (intro exI [of _ e]) (auto simp: e_def add_port_def format_url_def split: sum.splits)
qed

text \<open>The waits between reconnection attempts double and are capped: with a doubling policy
  whose first delay is positive and at most the maximum (which is at most 2^52 nanoseconds, 52
  days, for the floating-point product to be exact), attempt n waits the first delay times
  2^(n-1), or the maximum.\<close>

lemma backoff_doubles_up_to_cap:
  assumes "0 < initial" and "initial \<le> cap" and "cap \<le> 2 ^ 52" and "1 \<le> attempt"
  shows "NextDelay (ExponentialBackoff initial cap scale2 n) attempt =
    min cap (2 ^ nat (attempt - 1) * initial)"
  using NextDelay_loop_scale2 [OF assms(1,2)] by simp

lemma backoff_doubles_up_to_cap_witness:
  "NextDelay DefaultReconnectPolicy 4 = 8 * second \<and> NextDelay DefaultReconnectPolicy 9 = 30 * second"
  using backoff_doubles_up_to_cap [of second "30 * second" 4 0]
    backoff_doubles_up_to_cap [of second "30 * second" 9 0]
  by (simp add: DefaultReconnectPolicy_def second_def)

end
