(* ===== verification/Client_State.thy ===== *)
theory Client_State
  imports Client_Config
begin

text \<open>
  The connection state of a client (src/client.go): \<open>ClientState\<close> with the watchers that keep it,
  \<open>connect\<close>, the connection monitor with its reconnect loop, and \<open>Close\<close>. Connections are
  numbered in the order they are dialled. The monitor is a goroutine with a program counter;
  its step, the watchers, the broker and \<open>Close\<close> interleave in every order, and \<open>connMu\<close> is
  kept because \<open>Close\<close> waits while it holds it.
\<close>

section \<open>State\<close>

datatype last_error = NoLastError | CloseReason string | ConnectFailed nat string

record ClientState =
  cs_Connected :: bool
  cs_Reconnecting :: bool
  cs_ConnectedAt :: instant
  cs_LastDisconnectAt :: instant
  cs_Reconnects :: "64 word"
  cs_Blocked :: bool
  cs_BlockedReason :: string
  cs_BlockedAt :: instant
  cs_UnblockedAt :: instant
  cs_GaveUp :: bool
  cs_GaveUpAt :: instant
  cs_LastError :: last_error

text \<open>Where the monitor is; the numbers are the value of \<open>attempt\<close>, and the time the wait ends.\<close>

datatype monitor_pc =
    MonSelect
  | MonCheck
  | MonLoop int
  | MonDelay int instant
  | MonLock int
  | MonDial int
  | MonCount int
  | MonLeave
  | MonSleep
  | MonExited

datatype closer_pc = NotClosing | ClosingConn | CloseWaiting | CloseReturned

datatype lock_holder = Free | HeldByMonitor | HeldByClose

datatype blocking = Blocking (bl_Active: bool) (bl_Reason: string)

record client =
  cl_config :: clientConfig
  cl_conn :: nat
  cl_next :: nat
  cl_isClosed :: "nat \<Rightarrow> bool"
  cl_closeErr :: "nat \<Rightarrow> string option"
  cl_watching :: "nat \<Rightarrow> bool"
  cl_notices :: "nat \<Rightarrow> blocking list"
  cl_closed :: bool
  cl_closeCh :: bool
  cl_connMu :: lock_holder
  cl_reconnecting :: bool
  cl_state :: ClientState
  cl_stateConn :: nat
  cl_monitor :: monitor_pc
  cl_closer :: closer_pc
  cl_now :: instant

definition upd_state :: "(ClientState \<Rightarrow> ClientState) \<Rightarrow> client \<Rightarrow> client" where
  "upd_state f c = c\<lparr>cl_state := f (cl_state c)\<rparr>"

section \<open>The watchers\<close>

definition markConnected :: "nat \<Rightarrow> client \<Rightarrow> client" where
  "markConnected conn c =
     (upd_state (\<lambda>st. st\<lparr>cs_Connected := True, cs_ConnectedAt := cl_now c, cs_Blocked := False,
                         cs_GaveUp := False, cs_GaveUpAt := 0\<rparr>) c)
     \<lparr>cl_stateConn := conn, cl_watching := (cl_watching c)(conn := True)\<rparr>"

definition on_blocked :: "nat \<Rightarrow> blocking \<Rightarrow> client \<Rightarrow> client" where
  "on_blocked conn b c =
     (if cl_stateConn c = conn then
        upd_state (\<lambda>st. if bl_Active b
           then st\<lparr>cs_Blocked := True, cs_BlockedReason := bl_Reason b, cs_BlockedAt := cl_now c\<rparr>
           else st\<lparr>cs_Blocked := False, cs_UnblockedAt := cl_now c\<rparr>) c
      else c)"

definition on_close :: "nat \<Rightarrow> client \<Rightarrow> client" where
  "on_close conn c =
     (let c' = c\<lparr>cl_watching := (cl_watching c)(conn := False)\<rparr> in
      if cl_stateConn c \<noteq> conn then c'
      else
        upd_state (\<lambda>st.
          (let st' = st\<lparr>cs_Connected := False, cs_Blocked := False, cs_LastDisconnectAt := cl_now c\<rparr>
           in case cl_closeErr c conn of None \<Rightarrow> st' | Some e \<Rightarrow> st'\<lparr>cs_LastError := CloseReason e\<rparr>)) c')"

definition recordConnectError :: "last_error \<Rightarrow> client \<Rightarrow> client" where
  "recordConnectError err = upd_state (\<lambda>st. st\<lparr>cs_LastError := err\<rparr>)"

definition setReconnecting :: "bool \<Rightarrow> client \<Rightarrow> client" where
  "setReconnecting v c = upd_state (\<lambda>st. st\<lparr>cs_Reconnecting := v\<rparr>) (c\<lparr>cl_reconnecting := v\<rparr>)"

section \<open>Connecting\<close>

text \<open>
  The loop over the URLs: \<open>dial\<close> is the broker's answer for each, an error or a connection; the
  result is the last error when none answered.
\<close>

fun dial_first :: "(string \<Rightarrow> string option) \<Rightarrow> string list \<Rightarrow> string \<Rightarrow> string option" where
  "dial_first dial [] lastErr = Some lastErr"
| "dial_first dial (url # urls) lastErr =
     (case dial url of None \<Rightarrow> None | Some err \<Rightarrow> dial_first dial urls err)"

definition connect :: "(string \<Rightarrow> string option) \<Rightarrow> client \<Rightarrow> last_error option \<times> client" where
  "connect dial c =
     (let urls = getConnectionURLs (cl_config c) in
      case dial_first dial urls [] of
        None \<Rightarrow>
          (let conn = cl_next c in
           (None, markConnected conn
              (c\<lparr>cl_conn := conn, cl_next := Suc conn,
                 cl_isClosed := (cl_isClosed c)(conn := False),
                 cl_closeErr := (cl_closeErr c)(conn := None),
                 cl_notices := (cl_notices c)(conn := [])\<rparr>)))
      | Some lastErr \<Rightarrow>
          (let err = ConnectFailed (length urls) lastErr in
           (Some err, recordConnectError err c)))"

section \<open>The connection monitor\<close>

text \<open>Giving up: the state says so from the first time on.\<close>

definition give_up :: "client \<Rightarrow> client" where
  "give_up c =
     upd_state (\<lambda>st. if cs_GaveUp st then st
                      else st\<lparr>cs_GaveUp := True, cs_GaveUpAt := cl_now c\<rparr>) c"

text \<open>
  One step of the monitor. \<open>elapsed\<close> matters during the wait, once its time is over: a \<open>select\<close>
  with both cases ready may take either, and \<open>elapsed\<close> says that it takes the timer.
  \<open>None\<close> means that the goroutine is blocked or has exited.
\<close>

definition monitor_step :: "bool \<Rightarrow> (string \<Rightarrow> string option) \<Rightarrow> client \<Rightarrow> client option" where
  "monitor_step elapsed dial c =
     (let at_pc = (\<lambda>pc c'. Some (c'\<lparr>cl_monitor := pc\<rparr>));
          limit = cc_MaxReconnectAttempts (cl_config c) in
      case cl_monitor c of
        MonSelect \<Rightarrow> at_pc (if cl_closeCh c then MonExited else MonCheck) c
      | MonCheck \<Rightarrow>
          if \<not> cl_isClosed c (cl_conn c) then at_pc MonSleep c
          else if cl_reconnecting c \<or> cl_closed c then at_pc MonSleep c
          else at_pc (MonLoop 0) (setReconnecting True c)
      | MonLoop attempt \<Rightarrow>
          if cl_closed c then at_pc MonLeave c
          else if limit > 0 \<and> attempt \<ge> limit then at_pc MonLeave (give_up c)
          else at_pc (MonDelay (attempt + 1)
                        (cl_now c + reconnect_delay (cl_config c) (attempt + 1))) c
      | MonDelay attempt due \<Rightarrow>
          if elapsed \<and> due \<le> cl_now c then at_pc (MonLock attempt) c
          else if cl_closeCh c then at_pc MonLeave c
          else None
      | MonLock attempt \<Rightarrow>
          if cl_connMu c = Free then at_pc (MonDial attempt) (c\<lparr>cl_connMu := HeldByMonitor\<rparr>)
          else None
      | MonDial attempt \<Rightarrow>
          (case connect dial c of
             (Some err, c') \<Rightarrow> at_pc (MonLoop attempt) (c'\<lparr>cl_connMu := Free\<rparr>)
           | (None, c') \<Rightarrow> at_pc (MonCount attempt) (c'\<lparr>cl_connMu := Free\<rparr>))
      | MonCount attempt \<Rightarrow>
          at_pc MonLeave (upd_state (\<lambda>st. st\<lparr>cs_Reconnects := cs_Reconnects st + 1\<rparr>) c)
      | MonLeave \<Rightarrow> at_pc MonSleep (setReconnecting False c)
      | MonSleep \<Rightarrow> at_pc MonSelect c
      | MonExited \<Rightarrow> None)"

section \<open>Close\<close>

text \<open>
  \<open>Close\<close> takes \<open>connMu\<close>, announces itself, closes the connection, and waits for the monitor
  before it releases the lock. A second \<open>Close\<close> finds \<open>closed\<close> and changes nothing.
\<close>

definition Client_Close_step :: "client \<Rightarrow> client option" where
  "Client_Close_step c =
     (case cl_closer c of
        NotClosing \<Rightarrow>
          if cl_connMu c = Free \<and> \<not> cl_closed c
          then Some (c\<lparr>cl_connMu := HeldByClose, cl_closed := True, cl_closeCh := True,
                       cl_closer := ClosingConn\<rparr>)
          else None
      | ClosingConn \<Rightarrow>
          Some (c\<lparr>cl_isClosed := (cl_isClosed c)(cl_conn c := True), cl_closer := CloseWaiting\<rparr>)
      | CloseWaiting \<Rightarrow>
          if cl_monitor c = MonExited then Some (c\<lparr>cl_connMu := Free, cl_closer := CloseReturned\<rparr>)
          else None
      | CloseReturned \<Rightarrow> None)"

section \<open>Channels\<close>

datatype channel_error = ClientClosed | ConnectionNotAvailable | ConnectionBusy | ChannelFailed string

text \<open>Run under the read lock of \<open>connMu\<close>. \<open>open_channel\<close> is the connection's \<open>Channel()\<close>: a channel or its error.\<close>

definition getChannel :: "(nat \<Rightarrow> string + 'ch) \<Rightarrow> client \<Rightarrow> channel_error + 'ch" where
  "getChannel open_channel c =
     (if cl_closed c then Inl ClientClosed
      else if cl_isClosed c (cl_conn c) then Inl ConnectionNotAvailable
      else case open_channel (cl_conn c) of Inl e \<Rightarrow> Inl (ChannelFailed e) | Inr ch \<Rightarrow> Inr ch)"

definition tryGetChannel :: "(nat \<Rightarrow> string + 'ch) \<Rightarrow> client \<Rightarrow> channel_error + 'ch" where
  "tryGetChannel open_channel c =
     (if cl_connMu c \<noteq> Free then Inl ConnectionBusy else getChannel open_channel c)"

section \<open>Steps\<close>

text \<open>\<open>NewClient\<close>: the first connection, with the monitor when reconnecting is enabled.\<close>

definition initial_client :: "clientConfig \<Rightarrow> instant \<Rightarrow> client" where
  "initial_client cfg t =
     markConnected 1
       \<lparr>cl_config = cfg, cl_conn = 1, cl_next = 2, cl_isClosed = (\<lambda>_. False),
        cl_closeErr = (\<lambda>_. None), cl_watching = (\<lambda>_. False), cl_notices = (\<lambda>_. []),
        cl_closed = False, cl_closeCh = False, cl_connMu = Free, cl_reconnecting = False,
        cl_state =
          \<lparr>cs_Connected = False, cs_Reconnecting = False, cs_ConnectedAt = 0,
           cs_LastDisconnectAt = 0, cs_Reconnects = 0, cs_Blocked = False, cs_BlockedReason = [],
           cs_BlockedAt = 0, cs_UnblockedAt = 0, cs_GaveUp = False, cs_GaveUpAt = 0,
           cs_LastError = NoLastError\<rparr>,
        cl_stateConn = 0, cl_monitor = (if cc_AutoReconnect cfg then MonSelect else MonExited),
        cl_closer = NotClosing, cl_now = t\<rparr>"

inductive cstep :: "client \<Rightarrow> client \<Rightarrow> bool" where
  monitor: "monitor_step elapsed dial c = Some c' \<Longrightarrow> cstep c c'"
| close_call: "Client_Close_step c = Some c' \<Longrightarrow> cstep c c'"
| lost: "0 < k \<Longrightarrow> k < cl_next c \<Longrightarrow> \<not> cl_isClosed c k \<Longrightarrow>
    cstep c (c\<lparr>cl_isClosed := (cl_isClosed c)(k := True),
              cl_closeErr := (cl_closeErr c)(k := reason)\<rparr>)"
| close_watcher: "cl_watching c k \<Longrightarrow> cl_isClosed c k \<Longrightarrow> cstep c (on_close k c)"
| broker_blocks: "0 < k \<Longrightarrow> k < cl_next c \<Longrightarrow> \<not> cl_isClosed c k \<Longrightarrow>
    cstep c (c\<lparr>cl_notices := (cl_notices c)(k := cl_notices c k @ [b])\<rparr>)"
| blocked_watcher: "cl_notices c k = b # bs \<Longrightarrow>
    cstep c (on_blocked k b (c\<lparr>cl_notices := (cl_notices c)(k := bs)\<rparr>))"
| time_passes: "cl_now c \<le> t \<Longrightarrow> cstep c (c\<lparr>cl_now := t\<rparr>)"

inductive creachable :: "clientConfig \<Rightarrow> client \<Rightarrow> bool" for cfg where
  start: "0 < t \<Longrightarrow> creachable cfg (initial_client cfg t)"
| more: "creachable cfg c \<Longrightarrow> cstep c c' \<Longrightarrow> creachable cfg c'"

section \<open>The invariant\<close>

fun in_loop :: "monitor_pc \<Rightarrow> bool" where
  "in_loop (MonLoop a) = True"
| "in_loop (MonDelay a due) = True"
| "in_loop (MonLock a) = True"
| "in_loop (MonDial a) = True"
| "in_loop _ = False"

fun dialling :: "monitor_pc \<Rightarrow> bool" where
  "dialling (MonDial a) = True"
| "dialling _ = False"

fun counting :: "monitor_pc \<Rightarrow> bool" where
  "counting (MonCount a) = True"
| "counting _ = False"

definition reconnecting_pc :: "monitor_pc \<Rightarrow> bool" where
  "reconnecting_pc pc \<longleftrightarrow> in_loop pc \<or> pc = MonLeave \<or> counting pc"

text \<open>The attempts made so far are within a positive limit.\<close>

fun attempts_ok :: "int \<Rightarrow> monitor_pc \<Rightarrow> bool" where
  "attempts_ok limit (MonLoop a) = (0 \<le> a \<and> (0 < limit \<longrightarrow> a \<le> limit))"
| "attempts_ok limit (MonDelay a due) = (0 < a \<and> (0 < limit \<longrightarrow> a \<le> limit))"
| "attempts_ok limit (MonLock a) = (0 < a \<and> (0 < limit \<longrightarrow> a \<le> limit))"
| "attempts_ok limit (MonDial a) = (0 < a \<and> (0 < limit \<longrightarrow> a \<le> limit))"
| "attempts_ok limit (MonCount a) = (0 < a \<and> (0 < limit \<longrightarrow> a \<le> limit))"
| "attempts_ok limit _ = True"

definition cinv_conn :: "client \<Rightarrow> bool" where
  "cinv_conn c \<longleftrightarrow>
     0 < cl_conn c \<and> cl_next c = Suc (cl_conn c) \<and> cl_stateConn c = cl_conn c \<and>
     cs_Connected (cl_state c) = cl_watching c (cl_conn c) \<and>
     (\<forall>k. 0 < k \<and> k \<le> cl_conn c \<and> \<not> cl_watching c k \<longrightarrow> cl_isClosed c k) \<and>
     (\<forall>k. cl_watching c k \<longrightarrow> 0 < k \<and> k \<le> cl_conn c)"

definition cinv_loop :: "client \<Rightarrow> bool" where
  "cinv_loop c \<longleftrightarrow>
     (in_loop (cl_monitor c) \<longrightarrow> cl_isClosed c (cl_conn c)) \<and>
     (cs_GaveUp (cl_state c) \<longrightarrow>
        cl_isClosed c (cl_conn c) \<and> 0 < cc_MaxReconnectAttempts (cl_config c)) \<and>
     cl_reconnecting c = reconnecting_pc (cl_monitor c) \<and>
     cs_Reconnecting (cl_state c) = reconnecting_pc (cl_monitor c)"

definition cinv_lock :: "client \<Rightarrow> bool" where
  "cinv_lock c \<longleftrightarrow>
     (cl_connMu c = HeldByMonitor \<longleftrightarrow> dialling (cl_monitor c)) \<and>
     (cl_connMu c = HeldByClose \<longleftrightarrow> cl_closer c = ClosingConn \<or> cl_closer c = CloseWaiting) \<and>
     cl_closeCh c = cl_closed c \<and> cl_closed c = (cl_closer c \<noteq> NotClosing) \<and>
     (cl_closer c = CloseReturned \<longrightarrow> cl_monitor c = MonExited)"

definition cinv_count :: "client \<Rightarrow> bool" where
  "cinv_count c \<longleftrightarrow>
     cs_Reconnects (cl_state c) + (if counting (cl_monitor c) then 1 else 0) =
     of_nat (cl_next c - 2)"

definition cinv_attempts :: "client \<Rightarrow> bool" where
  "cinv_attempts c \<longleftrightarrow> attempts_ok (cc_MaxReconnectAttempts (cl_config c)) (cl_monitor c)"

definition cinv :: "client \<Rightarrow> bool" where
  "cinv c \<longleftrightarrow> cinv_conn c \<and> cinv_loop c \<and> cinv_lock c \<and> cinv_count c \<and> cinv_attempts c"

lemmas cinv_defs = cinv_conn_def cinv_loop_def cinv_lock_def cinv_count_def cinv_attempts_def
lemmas client_defs = upd_state_def markConnected_def on_blocked_def on_close_def
  recordConnectError_def setReconnecting_def give_up_def
lemma cinv_initial: "cinv (initial_client cfg t)"
  by (simp add: cinv_def cinv_defs initial_client_def client_defs reconnecting_pc_def)

definition with_connection :: "client \<Rightarrow> client" where
  "with_connection c = markConnected (cl_next c)
     (c\<lparr>cl_conn := cl_next c, cl_next := Suc (cl_next c),
        cl_isClosed := (cl_isClosed c)(cl_next c := False),
        cl_closeErr := (cl_closeErr c)(cl_next c := None),
        cl_notices := (cl_notices c)(cl_next c := [])\<rparr>)"

lemma connect_cases:
  "connect dial c = (None, with_connection c) \<or>
   (\<exists>e. connect dial c = (Some e, recordConnectError e c))"
proof (cases "dial_first dial (getConnectionURLs (cl_config c)) []")
  case None
  then show ?thesis by (simp add: connect_def with_connection_def Let_def)
next
  case (Some e)
  then show ?thesis by (simp add: connect_def Let_def)
qed

lemma cinv_dial:
  assumes "cinv c" and "cl_monitor c = MonDial a" and "monitor_step elapsed dial c = Some c'"
  shows "cinv c'"
  using connect_cases [of dial c]
proof
  assume *: "connect dial c = (None, with_connection c)"
  have c': "c' = (with_connection c)\<lparr>cl_connMu := Free, cl_monitor := MonCount a\<rparr>"
    using assms(3) by (simp add: monitor_step_def assms(2) *)
  have "cinv_conn c" "cinv_loop c" "cinv_lock c" "cinv_count c" "cinv_attempts c"
    using assms(1) by (simp_all add: cinv_def)
  note c = this [unfolded cinv_defs assms(2)]
  have "cinv_conn c'" using c(1) unfolding c' cinv_conn_def
    by (auto simp: with_connection_def client_defs le_Suc_eq)
  moreover have "cinv_loop c'" "cinv_lock c'" "cinv_count c'" "cinv_attempts c'"
    using c by (auto simp: c' with_connection_def client_defs reconnecting_pc_def cinv_defs)
  ultimately show ?thesis by (simp add: cinv_def)
next
  assume "\<exists>e. connect dial c = (Some e, recordConnectError e c)"
  then obtain e where *: "connect dial c = (Some e, recordConnectError e c)" by blast
  have c': "c' = (recordConnectError e c)\<lparr>cl_connMu := Free, cl_monitor := MonLoop a\<rparr>"
    using assms(3) by (simp add: monitor_step_def assms(2) *)
  show ?thesis
    using assms(1) by (auto simp: c' cinv_def cinv_defs assms(2) client_defs reconnecting_pc_def)
qed

lemma cinv_monitor:
  assumes "cinv c" and "monitor_step elapsed dial c = Some c'"
  shows "cinv c'"
proof (cases "cl_monitor c")
  case (MonDial a)
  then show ?thesis using assms cinv_dial by blast
next
  case (MonLoop a)
  have "c' = c\<lparr>cl_monitor := MonLeave\<rparr> \<or>
     c' = (give_up c)\<lparr>cl_monitor := MonLeave\<rparr> \<and> 0 < cc_MaxReconnectAttempts (cl_config c) \<or>
     (\<exists>due. c' = c\<lparr>cl_monitor := MonDelay (a + 1) due\<rparr>) \<and>
       (0 < cc_MaxReconnectAttempts (cl_config c) \<longrightarrow> a + 1 \<le> cc_MaxReconnectAttempts (cl_config c))"
    using assms(2) by (auto simp: monitor_step_def MonLoop Let_def split: if_splits)
  then show ?thesis
    using assms(1)
    by (elim disjE conjE exE)
      (simp_all add: cinv_def cinv_defs MonLoop client_defs reconnecting_pc_def)
next
  case MonSelect
  have "c' = c\<lparr>cl_monitor := if cl_closeCh c then MonExited else MonCheck\<rparr>"
    using assms(2) by (simp add: monitor_step_def MonSelect)
  then show ?thesis
    using assms(1) by (simp add: cinv_def cinv_defs MonSelect reconnecting_pc_def)
next
  case MonCheck
  have "c' = c\<lparr>cl_monitor := MonSleep\<rparr> \<or>
    c' = (setReconnecting True c)\<lparr>cl_monitor := MonLoop 0\<rparr> \<and> cl_isClosed c (cl_conn c)"
    using assms(2) by (simp add: monitor_step_def MonCheck split: if_splits)
  then show ?thesis using assms(1)
    by (elim disjE) (simp_all add: cinv_def cinv_defs MonCheck client_defs reconnecting_pc_def)
next
  case (MonDelay a due)
  have "c' = c\<lparr>cl_monitor := MonLock a\<rparr> \<or> c' = c\<lparr>cl_monitor := MonLeave\<rparr>"
    using assms(2) by (simp add: monitor_step_def MonDelay split: if_splits)
  then show ?thesis using assms(1)
    by (elim disjE) (simp_all add: cinv_def cinv_defs MonDelay reconnecting_pc_def)
next
  case (MonLock a)
  have "c' = c\<lparr>cl_connMu := HeldByMonitor, cl_monitor := MonDial a\<rparr> \<and> cl_connMu c = Free"
    using assms(2) by (simp add: monitor_step_def MonLock split: if_splits)
  then show ?thesis using assms(1)
    by (auto simp: cinv_def cinv_defs MonLock reconnecting_pc_def)
next
  case (MonCount a)
  have "c' = (upd_state (\<lambda>st. st\<lparr>cs_Reconnects := cs_Reconnects st + 1\<rparr>) c)\<lparr>cl_monitor := MonLeave\<rparr>"
    using assms(2) by (simp add: monitor_step_def MonCount)
  then show ?thesis using assms(1)
    by (simp add: cinv_def cinv_defs MonCount client_defs reconnecting_pc_def)
next
  case MonLeave
  have "c' = (setReconnecting False c)\<lparr>cl_monitor := MonSleep\<rparr>"
    using assms(2) by (simp add: monitor_step_def MonLeave)
  then show ?thesis using assms(1)
    by (simp add: cinv_def cinv_defs MonLeave client_defs reconnecting_pc_def)
next
  case MonSleep
  have "c' = c\<lparr>cl_monitor := MonSelect\<rparr>"
    using assms(2) by (simp add: monitor_step_def MonSleep)
  then show ?thesis using assms(1)
    by (simp add: cinv_def cinv_defs MonSleep reconnecting_pc_def)
next
  case MonExited
  then show ?thesis using assms(2) by (simp add: monitor_step_def)
qed

lemma cinv_close:
  assumes "cinv c" and "Client_Close_step c = Some c'"
  shows "cinv c'"
proof (cases "cl_closer c")
  case NotClosing
  have "c' = c\<lparr>cl_connMu := HeldByClose, cl_closed := True, cl_closeCh := True,
              cl_closer := ClosingConn\<rparr> \<and> cl_connMu c = Free"
    using assms(2) by (simp add: Client_Close_step_def NotClosing split: if_splits)
  then show ?thesis using assms(1) by (auto simp: cinv_def cinv_defs NotClosing)
next
  case ClosingConn
  have "c' = c\<lparr>cl_isClosed := (cl_isClosed c)(cl_conn c := True), cl_closer := CloseWaiting\<rparr>"
    using assms(2) by (simp add: Client_Close_step_def ClosingConn)
  then show ?thesis using assms(1) by (auto simp: cinv_def cinv_defs ClosingConn)
next
  case CloseWaiting
  have "c' = c\<lparr>cl_connMu := Free, cl_closer := CloseReturned\<rparr> \<and> cl_monitor c = MonExited"
    using assms(2) by (simp add: Client_Close_step_def CloseWaiting split: if_splits)
  then show ?thesis using assms(1) by (simp add: cinv_def cinv_defs CloseWaiting)
next
  case CloseReturned
  then show ?thesis using assms(2) by (simp add: Client_Close_step_def)
qed

lemma on_close_simps [simp]:
  "cl_conn (on_close k c) = cl_conn c"
  "cl_next (on_close k c) = cl_next c"
  "cl_isClosed (on_close k c) = cl_isClosed c"
  "cl_connMu (on_close k c) = cl_connMu c"
  "cl_closeCh (on_close k c) = cl_closeCh c"
  "cl_closed (on_close k c) = cl_closed c"
  "cl_closer (on_close k c) = cl_closer c"
  "cl_monitor (on_close k c) = cl_monitor c"
  "cl_reconnecting (on_close k c) = cl_reconnecting c"
  "cl_config (on_close k c) = cl_config c"
  "cl_stateConn (on_close k c) = cl_stateConn c"
  "cl_watching (on_close k c) = (cl_watching c)(k := False)"
  "cs_Connected (cl_state (on_close k c)) =
     (if cl_stateConn c = k then False else cs_Connected (cl_state c))"
  "cs_Reconnecting (cl_state (on_close k c)) = cs_Reconnecting (cl_state c)"
  "cs_GaveUp (cl_state (on_close k c)) = cs_GaveUp (cl_state c)"
  "cs_Reconnects (cl_state (on_close k c)) = cs_Reconnects (cl_state c)"
  by (simp_all add: on_close_def upd_state_def Let_def split: option.split)

lemma on_blocked_simps [simp]:
  "cl_conn (on_blocked k b c) = cl_conn c"
  "cl_next (on_blocked k b c) = cl_next c"
  "cl_isClosed (on_blocked k b c) = cl_isClosed c"
  "cl_connMu (on_blocked k b c) = cl_connMu c"
  "cl_closeCh (on_blocked k b c) = cl_closeCh c"
  "cl_closed (on_blocked k b c) = cl_closed c"
  "cl_closer (on_blocked k b c) = cl_closer c"
  "cl_monitor (on_blocked k b c) = cl_monitor c"
  "cl_reconnecting (on_blocked k b c) = cl_reconnecting c"
  "cl_config (on_blocked k b c) = cl_config c"
  "cl_stateConn (on_blocked k b c) = cl_stateConn c"
  "cl_watching (on_blocked k b c) = cl_watching c"
  "cs_Connected (cl_state (on_blocked k b c)) = cs_Connected (cl_state c)"
  "cs_Reconnecting (cl_state (on_blocked k b c)) = cs_Reconnecting (cl_state c)"
  "cs_GaveUp (cl_state (on_blocked k b c)) = cs_GaveUp (cl_state c)"
  "cs_Reconnects (cl_state (on_blocked k b c)) = cs_Reconnects (cl_state c)"
  by (simp_all add: on_blocked_def upd_state_def)

lemma cinv_on_close:
  assumes "cinv c" and "cl_isClosed c k"
  shows "cinv (on_close k c)"
  using assms by (auto simp: cinv_def cinv_defs)

lemma cinv_on_blocked: "cinv c \<Longrightarrow> cinv (on_blocked k b (c\<lparr>cl_notices := ns\<rparr>))"
  by (simp add: cinv_def cinv_defs)

lemma cinv_step: "cstep c c' \<Longrightarrow> cinv c \<Longrightarrow> cinv c'"
proof (induction rule: cstep.induct)
  case (monitor elapsed dial c c')
  then show ?case using cinv_monitor by blast
next
  case (close_call c c')
  then show ?case using cinv_close by blast
next
  case (lost k c reason)
  then show ?case by (auto simp: cinv_def cinv_defs)
next
  case (close_watcher c k)
  then show ?case using cinv_on_close by blast
next
  case (broker_blocks k c b)
  then show ?case by (simp add: cinv_def cinv_defs)
next
  case (blocked_watcher c k b bs)
  then show ?case using cinv_on_blocked by blast
next
  case (time_passes c t)
  then show ?case by (simp add: cinv_def cinv_defs)
qed

lemma creachable_cinv: "creachable cfg c \<Longrightarrow> cinv c"
  by (induction rule: creachable.induct) (auto intro: cinv_initial cinv_step)

section \<open>What the client promises\<close>

lemma cinvD:
  assumes "creachable cfg c"
  shows "cinv_conn c" "cinv_loop c" "cinv_lock c" "cinv_count c" "cinv_attempts c"
  using creachable_cinv [OF assms] by (simp_all add: cinv_def)

lemma creachable_monitor:
  "creachable cfg c \<Longrightarrow> monitor_step elapsed dial c = Some c' \<Longrightarrow> creachable cfg c'"
  by (blast intro: creachable.more cstep.monitor)

lemma creachable_close: "creachable cfg c \<Longrightarrow> Client_Close_step c = Some c' \<Longrightarrow> creachable cfg c'"
  by (blast intro: creachable.more cstep.close_call)

lemma creachable_lost:
  "creachable cfg c \<Longrightarrow> 0 < k \<Longrightarrow> k < cl_next c \<Longrightarrow> \<not> cl_isClosed c k \<Longrightarrow>
   creachable cfg (c\<lparr>cl_isClosed := (cl_isClosed c)(k := True),
     cl_closeErr := (cl_closeErr c)(k := reason)\<rparr>)"
  by (blast intro: creachable.more cstep.lost)

text \<open>The state after the first connection is lost.\<close>

definition lost_client :: "clientConfig \<Rightarrow> client" where
  "lost_client cfg =
     (let c = initial_client cfg 1 in
      c\<lparr>cl_isClosed := (cl_isClosed c)(1 := True),
        cl_closeErr := (cl_closeErr c)(1 := Some ''EOF'')\<rparr>)"

lemma lost_client_simps [simp]:
  "cl_config (lost_client cfg) = cfg" "cl_conn (lost_client cfg) = 1"
  "cl_next (lost_client cfg) = 2"
  "cl_isClosed (lost_client cfg) = (\<lambda>_. False)(1 := True)" "cl_closed (lost_client cfg) = False"
  "cl_closeCh (lost_client cfg) = False" "cl_connMu (lost_client cfg) = Free"
  "cl_reconnecting (lost_client cfg) = False" "cl_closer (lost_client cfg) = NotClosing"
  "cl_monitor (lost_client cfg) = (if cc_AutoReconnect cfg then MonSelect else MonExited)"
  "cs_Connected (cl_state (lost_client cfg)) = True"
  by (auto simp: lost_client_def initial_client_def markConnected_def upd_state_def Let_def)

lemma lost_client_reachable: "creachable cfg (lost_client cfg)"
  unfolding lost_client_def Let_def
  by (rule creachable_lost [OF creachable.start])
    (simp_all add: initial_client_def markConnected_def upd_state_def)

text \<open>C15: the snapshot that Client.State returns can be trusted: not connected means that the
  current connection is closed; connected means that it is open or that its close watcher is
  about to say otherwise; having given up means that the connection is closed and that a limit was
  configured; and reconnecting is true exactly while the reconnect loop runs.\<close>

theorem client_state_truthful:
  assumes "creachable cfg c"
  shows "(\<not> cs_Connected (cl_state c) \<longrightarrow> cl_isClosed c (cl_conn c)) \<and>
    (cs_Connected (cl_state c) \<longrightarrow> \<not> cl_isClosed c (cl_conn c) \<or>
       cl_watching c (cl_conn c) \<and> cstep c (on_close (cl_conn c) c) \<and>
       \<not> cs_Connected (cl_state (on_close (cl_conn c) c))) \<and>
    (cs_GaveUp (cl_state c) \<longrightarrow>
       cl_isClosed c (cl_conn c) \<and> 0 < cc_MaxReconnectAttempts (cl_config c)) \<and>
    cs_Reconnecting (cl_state c) = reconnecting_pc (cl_monitor c)"
  using cinvD(1,2) [OF assms] by (auto simp: cinv_conn_def cinv_loop_def intro: cstep.close_watcher)

theorem client_state_truthful_witness:
  "\<exists>c. creachable default_clientConfig c \<and> cl_isClosed c (cl_conn c) \<and>
     \<not> cs_Connected (cl_state (on_close (cl_conn c) c))"
  using client_state_truthful [OF lost_client_reachable [of default_clientConfig]]
  by (intro exI [of _ "lost_client default_clientConfig"]) (simp add: lost_client_reachable)

text \<open>C16: a configured limit bounds the attempts of a reconnect loop, and the counter of
  reconnections is exact: it is the number of connections made after the first, less the one that
  has just been made and is being counted.\<close>

theorem reconnect_bounded_and_counted:
  assumes "creachable cfg c"
  shows "(\<forall>a. cl_monitor c = MonDial a \<and> 0 < cc_MaxReconnectAttempts (cl_config c) \<longrightarrow>
      1 \<le> a \<and> a \<le> cc_MaxReconnectAttempts (cl_config c)) \<and>
    cs_Reconnects (cl_state c) + (if counting (cl_monitor c) then 1 else 0) =
      of_nat (cl_next c - 2)"
  using cinvD(4,5) [OF assms] by (auto simp: cinv_count_def cinv_attempts_def)

theorem reconnect_bounded_and_counted_witness:
  "\<exists>c. creachable default_clientConfig c \<and> cs_Reconnects (cl_state c) = 0 \<and> cl_next c = 2"
proof -
  let ?c = "lost_client default_clientConfig"
  have r: "creachable default_clientConfig ?c" by (rule lost_client_reachable)
  have m: "cl_monitor ?c = MonSelect" by (simp add: default_clientConfig_def)
  from reconnect_bounded_and_counted [OF r] have "cs_Reconnects (cl_state ?c) = 0"
    by (simp only: m) simp
  with r show ?thesis by (intro exI [of _ ?c]) simp
qed

section \<open>Closing while reconnecting\<close>

text \<open>The monitor waits for the lock that the waiting \<open>Close\<close> holds.\<close>

definition deadlocked :: "client \<Rightarrow> bool" where
  "deadlocked c \<longleftrightarrow>
     cl_closer c = CloseWaiting \<and> cl_connMu c = HeldByClose \<and> (\<exists>a. cl_monitor c = MonLock a)"

lemma deadlocked_step: "cstep c c' \<Longrightarrow> deadlocked c \<Longrightarrow> deadlocked c'"
  by (induction rule: cstep.induct)
    (auto simp: deadlocked_def monitor_step_def Client_Close_step_def)

lemma deadlocked_forever: "cstep\<^sup>*\<^sup>* c c' \<Longrightarrow> deadlocked c \<Longrightarrow> deadlocked c'"
  by (induction rule: rtranclp_induct) (auto intro: deadlocked_step)

text \<open>
  The demonstration: the connection is lost, the monitor waits for the delay of its first attempt
  and goes on to the lock, and \<open>Close\<close> has taken it in the meantime.
\<close>

lemma lost_client_deadlocks:
  assumes "cc_AutoReconnect cfg"
  shows "\<exists>c. creachable cfg c \<and> deadlocked c"
proof -
  define c0 where "c0 = lost_client cfg"
  define c1 where "c1 = c0\<lparr>cl_monitor := MonCheck\<rparr>"
  define c2 where "c2 = (setReconnecting True c1)\<lparr>cl_monitor := MonLoop 0\<rparr>"
  define due where "due = cl_now c2 + reconnect_delay cfg 1"
  define c3 where "c3 = c2\<lparr>cl_monitor := MonDelay 1 due\<rparr>"
  define c3' where "c3' = c3\<lparr>cl_now := max (cl_now c3) due\<rparr>"
  define c4 where "c4 = c3'\<lparr>cl_monitor := MonLock 1\<rparr>"
  define c5 where "c5 = c4\<lparr>cl_connMu := HeldByClose, cl_closed := True, cl_closeCh := True,
    cl_closer := ClosingConn\<rparr>"
  define c6 where "c6 = c5\<lparr>cl_isClosed := (cl_isClosed c5)(cl_conn c5 := True),
    cl_closer := CloseWaiting\<rparr>"
  note cs = c6_def c5_def c4_def c3'_def c3_def due_def c2_def c1_def c0_def setReconnecting_def upd_state_def
  have "creachable cfg c0" unfolding c0_def by (rule lost_client_reachable)
  then have "creachable cfg c1" by (rule creachable_monitor [of _ _ True "\<lambda>_. None"])
      (simp add: monitor_step_def cs assms)
  then have "creachable cfg c2" by (rule creachable_monitor [of _ _ True "\<lambda>_. None"])
      (simp add: monitor_step_def cs assms)
  then have "creachable cfg c3" by (rule creachable_monitor [of _ _ True "\<lambda>_. None"])
      (auto simp: monitor_step_def cs assms Let_def)
  then have "creachable cfg c3'" unfolding c3'_def
    by (rule creachable.more [OF _ cstep.time_passes]) simp
  then have "creachable cfg c4" by (rule creachable_monitor [of _ _ True "\<lambda>_. None"])
      (simp add: monitor_step_def cs assms)
  then have "creachable cfg c5" by (rule creachable_close) (simp add: Client_Close_step_def cs)
  then have "creachable cfg c6" by (rule creachable_close) (simp add: Client_Close_step_def cs)
  moreover have "deadlocked c6" by (simp add: deadlocked_def cs)
  ultimately show ?thesis by blast
qed

text \<open>C11: Close may never return: when it is called while the monitor is past the delay of a
  reconnection attempt, it holds the connection lock and waits for the monitor, which waits for
  the lock; no sequence of steps lets either continue.\<close>

theorem close_may_never_return:
  assumes "cc_AutoReconnect cfg"
  shows "\<exists>c. creachable cfg c \<and> cl_closer c = CloseWaiting \<and>
    (\<forall>c'. cstep\<^sup>*\<^sup>* c c' \<longrightarrow> cl_closer c' = CloseWaiting \<and> cl_monitor c' \<noteq> MonExited)"
proof -
  from lost_client_deadlocks [OF assms] obtain c where "creachable cfg c" "deadlocked c" by blast
  then show ?thesis
    by (intro exI [of _ c]) (fastforce simp: deadlocked_def dest: deadlocked_forever)
qed

theorem close_may_never_return_witness:
  "\<exists>c. creachable default_clientConfig c \<and> cl_closer c = CloseWaiting"
  using close_may_never_return [of default_clientConfig] by (auto simp: default_clientConfig_def)

text \<open>Several steps of the monitor, with the outcome of each wait and dial.\<close>

fun monitor_steps :: "(bool \<times> (string \<Rightarrow> string option)) list \<Rightarrow> client \<Rightarrow> client option" where
  "monitor_steps [] c = Some c"
| "monitor_steps ((elapsed, dial) # es) c =
     (case monitor_step elapsed dial c of None \<Rightarrow> None | Some c' \<Rightarrow> monitor_steps es c')"

text \<open>The steps the monitor still makes after \<open>Close\<close> has announced itself.\<close>

fun steps_to_exit :: "monitor_pc \<Rightarrow> nat option" where
  "steps_to_exit MonSelect = Some 1"
| "steps_to_exit MonSleep = Some 2"
| "steps_to_exit MonLeave = Some 3"
| "steps_to_exit MonCheck = Some 3"
| "steps_to_exit (MonLoop a) = Some 4"
| "steps_to_exit (MonCount a) = Some 4"
| "steps_to_exit MonExited = Some 0"
| "steps_to_exit _ = None"

lemma closing_monitor_step:
  assumes "cl_closer c = CloseWaiting" and "cl_closed c" and "cl_closeCh c"
    and "steps_to_exit (cl_monitor c) = Some (Suc n)"
  shows "\<exists>c'. monitor_step elapsed dial c = Some c' \<and> steps_to_exit (cl_monitor c') = Some n \<and>
    cl_closer c' = CloseWaiting \<and> cl_closed c' \<and> cl_closeCh c'"
  using assms by (cases "cl_monitor c") (auto simp: monitor_step_def client_defs)

lemma closing_monitor_steps:
  "cl_closer c = CloseWaiting \<Longrightarrow> cl_closed c \<Longrightarrow> cl_closeCh c \<Longrightarrow>
   steps_to_exit (cl_monitor c) = Some (length es) \<Longrightarrow>
   \<exists>c'. monitor_steps es c = Some c' \<and> cl_monitor c' = MonExited \<and> cl_closer c' = CloseWaiting"
proof (induction es arbitrary: c)
  case Nil
  then show ?case by (cases "cl_monitor c") auto
next
  case (Cons e es)
  obtain elapsed dial where e: "e = (elapsed, dial)" by (cases e)
  from closing_monitor_step [OF Cons.prems(1-3), of "length es" elapsed dial] Cons.prems(4)
  obtain c' where 1: "monitor_step elapsed dial c = Some c'"
    and 2: "steps_to_exit (cl_monitor c') = Some (length es)" "cl_closer c' = CloseWaiting"
      "cl_closed c'" "cl_closeCh c'"
    by auto
  from Cons.IH [OF 2(2,3,4,1)] show ?case by (simp add: e 1)
qed



end
