(* ===== verification/Health.thy ===== *)
theory Health
  imports Delivery_Model Client_State
begin

text \<open>
  Health verdicts: the levels and the restart-storm guard of src/health.go, and the snapshot,
  the confirm keeper and the assessment of a publisher (src/publisher_health.go). The reason of
  a verdict is a constructor with the values the code formats, unrounded. The two assessments,
  here and in Consumer_Health, share one interface.
\<close>

section \<open>Levels\<close>

datatype HealthLevel = HealthOK | HealthDegraded | HealthStalled

fun level_number :: "HealthLevel \<Rightarrow> nat" where
  "level_number HealthOK = 0"
| "level_number HealthDegraded = 1"
| "level_number HealthStalled = 2"

instantiation HealthLevel :: linorder
begin

definition less_eq_HealthLevel :: "HealthLevel \<Rightarrow> HealthLevel \<Rightarrow> bool" where
  "less_eq_HealthLevel a b \<longleftrightarrow> level_number a \<le> level_number b"

definition less_HealthLevel :: "HealthLevel \<Rightarrow> HealthLevel \<Rightarrow> bool" where
  "less_HealthLevel a b \<longleftrightarrow> level_number a < level_number b"

instance
proof
  fix a b :: HealthLevel
  assume "a \<le> b" and "b \<le> a"
  then show "a = b" by (cases a; cases b) (simp_all add: less_eq_HealthLevel_def)
qed (auto simp: less_eq_HealthLevel_def less_HealthLevel_def)

end

fun HealthLevel_String :: "HealthLevel \<Rightarrow> string" where
  "HealthLevel_String HealthOK = ''ok''"
| "HealthLevel_String HealthDegraded = ''degraded''"
| "HealthLevel_String HealthStalled = ''stalled''"

section \<open>The restart-storm guard\<close>

definition defaultMinConnectionAge :: duration where
  "defaultMinConnectionAge = 2 * minute"

datatype guard =
    ClientNotConnected
  | ClientReconnecting
  | ConnectionBlocked string
  | ConnectionTooYoung duration duration

text \<open>\<open>None\<close> for a trusted connection, otherwise the first guard that failed.\<close>

definition connectionTrusted :: "ClientState \<Rightarrow> duration \<Rightarrow> instant \<Rightarrow> guard option" where
  "connectionTrusted cs minAge now =
     (if \<not> cs_Connected cs then Some ClientNotConnected
      else if cs_Reconnecting cs then Some ClientReconnecting
      else if cs_Blocked cs then Some (ConnectionBlocked (cs_BlockedReason cs))
      else if time_sub now (cs_ConnectedAt cs) < minAge
      then Some (ConnectionTooYoung (time_sub now (cs_ConnectedAt cs)) minAge)
      else None)"

fun latestOf_loop :: "instant \<Rightarrow> instant list \<Rightarrow> instant" where
  "latestOf_loop latest [] = latest"
| "latestOf_loop latest (t # ts) = latestOf_loop (if t > latest then t else latest) ts"

definition latestOf :: "instant list \<Rightarrow> instant" where
  "latestOf ts = latestOf_loop 0 ts"

text \<open>When the client gave up, and on which error.\<close>

datatype given_up = ReconnectsExhausted duration last_error

definition gaveUpVerdict :: "ClientState \<Rightarrow> instant \<Rightarrow> (HealthLevel \<times> given_up) option" where
  "gaveUpVerdict cs now =
     (if \<not> cs_GaveUp cs then None
      else Some (HealthDegraded,
        ReconnectsExhausted (time_sub now (cs_GaveUpAt cs)) (cs_LastError cs)))"

lemma latestOf_loop_Max: "latestOf_loop t ts = Max (set (t # ts))"
proof (induction ts arbitrary: t)
  case Nil
  then show ?case by simp
next
  case (Cons a ts)
  have "Max (set (t # a # ts)) = Max (set ((if a > t then a else t) # ts))"
    by (cases "ts = []") (auto simp: max_def intro: Max_eqI)
  with Cons show ?case by simp
qed

lemma latestOf_ge: "t \<in> set ts \<Longrightarrow> t \<le> latestOf ts"
  by (simp add: latestOf_def latestOf_loop_Max)

lemma latestOf_le: "latestOf ts \<le> x \<longleftrightarrow> 0 \<le> x \<and> (\<forall>t \<in> set ts. t \<le> x)"
  by (simp add: latestOf_def latestOf_loop_Max)

section \<open>The interface of an assessment\<close>

text \<open>
  What both assessments promise their callers: a stall is only declared against a trusted
  connection, never after giving up, and after the condition has been held for the policy's time,
  measured by a clock that restarts with the connection.
\<close>

locale health_assessment =
  fixes assess :: "'h \<Rightarrow> ClientState \<Rightarrow> 'p \<Rightarrow> instant \<Rightarrow> HealthLevel"
    and min_age :: "'p \<Rightarrow> duration"
  assumes stalled_trusted:
      "assess h cs pol now = HealthStalled \<Longrightarrow> connectionTrusted cs (min_age pol) now = None"
    and stalled_not_given_up: "assess h cs pol now = HealthStalled \<Longrightarrow> \<not> cs_GaveUp cs"
begin

lemma outage_not_stalled:
  assumes "\<not> cs_Connected cs \<or> cs_Reconnecting cs \<or> cs_Blocked cs \<or> cs_GaveUp cs"
  shows "assess h cs pol now < HealthStalled"
proof -
  have "assess h cs pol now \<noteq> HealthStalled"
    using assms stalled_trusted [of h cs pol now] stalled_not_given_up [of h cs pol now]
    by (auto simp: connectionTrusted_def split: if_splits)
  then show ?thesis by (cases "assess h cs pol now") (simp_all add: less_HealthLevel_def)
qed

end

locale held_assessment = health_assessment assess min_age
  for assess :: "'h \<Rightarrow> ClientState \<Rightarrow> 'p \<Rightarrow> instant \<Rightarrow> HealthLevel"
    and min_age :: "'p \<Rightarrow> duration" +
  fixes since :: "'h \<Rightarrow> ClientState \<Rightarrow> instant"
    and hold :: "'h \<Rightarrow> 'p \<Rightarrow> duration"
  assumes stalled_held:
      "assess h cs pol now = HealthStalled \<Longrightarrow> hold h pol \<le> time_sub now (since h cs)"
    and since_connection: "cs_ConnectedAt cs \<le> since h cs"
begin

lemma young_connection_held:
  assumes "time_sub now (cs_ConnectedAt cs) < hold h pol"
  shows "assess h cs pol now < HealthStalled"
proof -
  have "assess h cs pol now \<noteq> HealthStalled"
  proof
    assume "assess h cs pol now = HealthStalled"
    then have "hold h pol \<le> time_sub now (since h cs)" by (rule stalled_held)
    also have "\<dots> \<le> time_sub now (cs_ConnectedAt cs)"
      by (rule time_sub_antimono [OF since_connection])
    finally show False using assms by simp
  qed
  then show ?thesis by (cases "assess h cs pol now") (simp_all add: less_HealthLevel_def)
qed

end

section \<open>The snapshot of a publisher\<close>

record DeliveryHealth =
  dh_Enabled :: bool
  dh_GenerationAlive :: bool
  dh_ReadersRunning :: bool
  dh_Generation :: "64 word"
  dh_GenerationSince :: instant
  dh_StartedAt :: instant
  dh_Pending :: int
  dh_OldestPendingAge :: duration
  dh_ConfirmTimeout :: duration
  dh_LastPublishAt :: instant
  dh_LastConfirmAt :: instant
  dh_FailuresSinceConfirm :: int
  dh_TotalConfirmed :: int
  dh_TotalTimedOut :: int
  dh_TotalOrphaned :: int
  dh_TotalReturned :: int
  dh_TotalNacked :: int
  dh_LastError :: errorMessage
  dh_LastErrorAt :: instant

text \<open>The pass over the pending messages: claimed ones have their outcome and do not count.\<close>

fun pending_pass ::
  "(addr \<Rightarrow> pendingMessage) \<Rightarrow> instant \<Rightarrow> addr list \<Rightarrow> duration \<times> duration \<Rightarrow> duration \<times> duration"
  where
  "pending_pass heap now [] acc = acc"
| "pending_pass heap now (a # as) (oldest, longest) =
     (let m = heap a in
      if pm_CallbackFired m then pending_pass heap now as (oldest, longest)
      else
        (let age = time_sub now (pm_PublishedAt m) in
         pending_pass heap now as
           (if age > oldest then age else oldest,
            if pm_timeout m > longest then pm_timeout m else longest)))"

definition DeliveryHealth_of :: "publisher \<Rightarrow> DeliveryHealth" where
  "DeliveryHealth_of s =
     (let g = pb_confirmGen s; gen = pb_gens s g; st = pb_stats s;
          (oldest, longest) =
            pending_pass (pb_heap s) (pb_now s) (map snd (Range_entries (pb_pendingMessages s)))
              (0, cf_deliveryTimeout (pb_config s)) in
      \<lparr>dh_Enabled = True,
       dh_GenerationAlive = (\<not> cg_dead gen \<and> \<not> cg_chClosed gen),
       dh_ReadersRunning = (\<not> cg_confirmsDone gen \<and> \<not> cg_returnsDone gen),
       dh_Generation = g, dh_GenerationSince = cg_since gen, dh_StartedAt = pb_startedAt s,
       dh_Pending = int (Count (pb_pendingMessages s)),
       dh_OldestPendingAge = oldest, dh_ConfirmTimeout = longest,
       dh_LastPublishAt = atOffset s (pb_lastPublishOff s),
       dh_LastConfirmAt = atOffset s (pb_lastResponseOff s),
       dh_FailuresSinceConfirm = pb_failuresSinceResponse s,
       dh_TotalConfirmed = st_TotalConfirmed st, dh_TotalTimedOut = st_TotalTimedOut st,
       dh_TotalOrphaned = st_TotalOrphaned st, dh_TotalReturned = st_TotalReturned st,
       dh_TotalNacked = st_TotalNacked st, dh_LastError = pb_lastErr s,
       dh_LastErrorAt = pb_lastErrAt s\<rparr>)"

section \<open>The assessment of a publisher\<close>

record DeliveryPolicy =
  dp_StallAfter :: duration
  dp_MinConnectionAge :: duration
  dp_MinFailures :: int

definition withDefaults :: "DeliveryPolicy \<Rightarrow> duration \<Rightarrow> DeliveryPolicy" where
  "withDefaults pol confirmTimeout =
     \<lparr>dp_StallAfter = (if dp_StallAfter pol \<le> 0 then max (wrap64 (3 * confirmTimeout)) (5 * minute)
                      else dp_StallAfter pol),
      dp_MinConnectionAge = (if dp_MinConnectionAge pol \<le> 0 then defaultMinConnectionAge
                             else dp_MinConnectionAge pol),
      dp_MinFailures = (if dp_MinFailures pol \<le> 0 then 3 else dp_MinFailures pol)\<rparr>"

definition pendingSlack :: duration where "pendingSlack = 5 * second"

datatype delivery_reason =
    GaveUpReason given_up
  | NotEnabled
  | LooksStalled duration int guard
  | NoBrokerResponse duration duration int int "64 word" bool
  | GenerationNotAlive "64 word"
  | ReadersNotRunning "64 word"
  | PendingTooOld duration duration
  | FailuresMoved int int int
  | DeliveryFine int int "duration option"

text \<open>\<open>ageString\<close>: \<open>None\<close> stands for \<open>never\<close>.\<close>

definition ageString :: "instant \<Rightarrow> instant \<Rightarrow> duration option" where
  "ageString t now = (if is_zero_time t then None else Some (time_sub now t))"

definition silence_start :: "DeliveryHealth \<Rightarrow> ClientState \<Rightarrow> instant" where
  "silence_start h cs =
     latestOf [dh_LastConfirmAt h, dh_GenerationSince h, dh_StartedAt h, cs_ConnectedAt cs,
               cs_UnblockedAt cs]"

definition stall_candidate ::
  "DeliveryHealth \<Rightarrow> ClientState \<Rightarrow> DeliveryPolicy \<Rightarrow> instant \<Rightarrow> bool" where
  "stall_candidate h cs pol now =
     (let ref = silence_start h cs;
          silentFor = time_sub now ref;
          failing = (dh_FailuresSinceConfirm h \<ge> dp_MinFailures pol);
          publishing = (dh_LastPublishAt h > ref \<and>
                        time_sub now (dh_LastPublishAt h) < dp_StallAfter pol) in
      failing \<and> publishing \<and> silentFor \<ge> dp_StallAfter pol)"

definition Assess ::
  "DeliveryHealth \<Rightarrow> DeliveryHealth \<Rightarrow> ClientState \<Rightarrow> DeliveryPolicy \<Rightarrow> instant \<Rightarrow>
   HealthLevel \<times> delivery_reason" where
  "Assess h prev cs pol0 now =
     (let pol = withDefaults pol0 (dh_ConfirmTimeout h) in
      case gaveUpVerdict cs now of
        Some (lvl, reason) \<Rightarrow> (lvl, GaveUpReason reason)
      | None \<Rightarrow>
          if \<not> dh_Enabled h then (HealthOK, NotEnabled)
          else if stall_candidate h cs pol now then
            (let silentFor = time_sub now (silence_start h cs) in
             case connectionTrusted cs (dp_MinConnectionAge pol) now of
               Some why \<Rightarrow>
                 (HealthDegraded, LooksStalled silentFor (dh_FailuresSinceConfirm h) why)
             | None \<Rightarrow>
                 (HealthStalled,
                  NoBrokerResponse silentFor (time_sub now (dh_LastPublishAt h))
                    (dh_FailuresSinceConfirm h) (dh_TotalConfirmed h) (dh_Generation h)
                    (dh_ReadersRunning h)))
          else
            (let failuresMoved = (dh_TotalTimedOut h + dh_TotalOrphaned h) -
                                 (dh_TotalTimedOut prev + dh_TotalOrphaned prev);
                 responses =
                   (dh_TotalConfirmed h + dh_TotalReturned h + dh_TotalNacked h) -
                   (dh_TotalConfirmed prev + dh_TotalReturned prev + dh_TotalNacked prev) in
             if \<not> dh_GenerationAlive h then (HealthDegraded, GenerationNotAlive (dh_Generation h))
             else if \<not> dh_ReadersRunning h then
               (HealthDegraded, ReadersNotRunning (dh_Generation h))
             else if dh_OldestPendingAge h > wrap64 (dh_ConfirmTimeout h + pendingSlack) then
               (HealthDegraded, PendingTooOld (dh_OldestPendingAge h) (dh_ConfirmTimeout h))
             else if dh_Enabled prev \<and> failuresMoved > 0 then
               (HealthDegraded, FailuresMoved failuresMoved responses (dh_FailuresSinceConfirm h))
             else
               (HealthOK, DeliveryFine (dh_Pending h) (dh_TotalConfirmed h)
                  (ageString (dh_LastConfirmAt h) now))))"

section \<open>The confirm keeper\<close>

definition keeperMinBackoff :: duration where "keeperMinBackoff = 250 * millisecond"
definition keeperMaxBackoff :: duration where "keeperMaxBackoff = 30 * second"
definition keeperPollOffline :: duration where "keeperPollOffline = second"

text \<open>
  One round of the loop that replaces a dead channel: what it does next. The refresh is tried
  only when the client is connected; \<open>refreshed\<close> is its result, and \<open>closed_after\<close> whether the
  publisher was closed when a failed refresh returned.
\<close>

datatype keeper_action =
    KeeperDone
  | KeeperReturn
  | KeeperSleep duration duration "refresh_error option"

definition keeper_round ::
  "publisher \<Rightarrow> 64 word \<Rightarrow> ClientState \<Rightarrow> refresh_error option \<Rightarrow> bool \<Rightarrow> duration \<Rightarrow>
   keeper_action" where
  "keeper_round s gen cs refreshed closed_after backoff =
     (if pb_confirmGen s \<noteq> gen then KeeperDone
      else if pb_closed s then KeeperReturn
      else if \<not> cs_Connected cs \<or> cs_Reconnecting cs
      then KeeperSleep keeperPollOffline backoff None
      else
        (case refreshed of
           None \<Rightarrow> KeeperDone
         | Some err \<Rightarrow>
             if closed_after then KeeperReturn
             else if err = RefreshBusy then KeeperSleep keeperMinBackoff backoff None
             else KeeperSleep backoff (min (2 * backoff) keeperMaxBackoff) (Some err)))"

text \<open>The waits between refreshes that fail one after the other.\<close>

fun keeper_waits ::
  "publisher \<Rightarrow> 64 word \<Rightarrow> ClientState \<Rightarrow> refresh_error list \<Rightarrow> duration \<Rightarrow> duration list" where
  "keeper_waits s gen cs [] backoff = []"
| "keeper_waits s gen cs (err # errs) backoff =
     (case keeper_round s gen cs (Some err) False backoff of
        KeeperSleep d backoff' _ \<Rightarrow> d # keeper_waits s gen cs errs backoff'
      | _ \<Rightarrow> [])"

section \<open>What the assessment promises\<close>

definition delivery_level :: "DeliveryHealth \<times> DeliveryHealth \<Rightarrow> ClientState \<Rightarrow> DeliveryPolicy \<Rightarrow> instant \<Rightarrow> HealthLevel" where
  "delivery_level hs cs pol now = fst (Assess (fst hs) (snd hs) cs pol now)"

definition delivery_hold :: "DeliveryHealth \<times> DeliveryHealth \<Rightarrow> DeliveryPolicy \<Rightarrow> duration" where
  "delivery_hold hs pol = dp_StallAfter (withDefaults pol (dh_ConfirmTimeout (fst hs)))"

definition delivery_min_age :: "DeliveryPolicy \<Rightarrow> duration" where
  "delivery_min_age pol = dp_MinConnectionAge (withDefaults pol 0)"

lemma delivery_level_stalled_iff:
  "delivery_level (h, prev) cs pol now = HealthStalled \<longleftrightarrow>
   \<not> cs_GaveUp cs \<and> dh_Enabled h \<and>
   stall_candidate h cs (withDefaults pol (dh_ConfirmTimeout h)) now \<and>
   connectionTrusted cs (delivery_min_age pol) now = None"
  by (auto simp: delivery_level_def Assess_def gaveUpVerdict_def delivery_min_age_def
      withDefaults_def Let_def split: option.splits)

interpretation delivery: held_assessment delivery_level delivery_min_age
  "\<lambda>hs cs. silence_start (fst hs) cs" delivery_hold
proof
  fix hs :: "DeliveryHealth \<times> DeliveryHealth" and cs pol now
  obtain h prev where hs: "hs = (h, prev)" by (cases hs)
  assume "delivery_level hs cs pol now = HealthStalled"
  then have s: "\<not> cs_GaveUp cs \<and> stall_candidate h cs (withDefaults pol (dh_ConfirmTimeout h)) now \<and>
      connectionTrusted cs (delivery_min_age pol) now = None"
    by (simp only: hs delivery_level_stalled_iff) blast
  show "connectionTrusted cs (delivery_min_age pol) now = None" using s by blast
  show "\<not> cs_GaveUp cs" using s by blast
  show "delivery_hold hs pol \<le> time_sub now (silence_start (fst hs) cs)"
    using s by (simp add: hs delivery_hold_def stall_candidate_def Let_def)
next
  fix hs :: "DeliveryHealth \<times> DeliveryHealth" and cs
  show "cs_ConnectedAt cs \<le> silence_start (fst hs) cs"
    by (simp add: silence_start_def latestOf_ge)
qed


lemma max1_not_0 [simp]: "max 1 (x :: int) \<noteq> 0"
  by (simp add: max_def)

lemma latest_response:
  "dh_LastConfirmAt (DeliveryHealth_of (noteResponse s)) =
   pb_startedAt s + max 1 (time_sub (pb_now s) (pb_startedAt s))"
  by (simp add: DeliveryHealth_of_def noteResponse_def sinceStart_def atOffset_def Let_def
      split: prod.split)

lemma silence_start_ge: "dh_LastConfirmAt h \<le> silence_start h cs"
  by (simp add: silence_start_def latestOf_ge)

lemma core_fields:
  "pb_startedAt (finalize a out e s) = pb_startedAt s"
  "pb_lastResponseOff (finalize a out e s) = pb_lastResponseOff s"
  "pb_startedAt (tryFinalizeMessage a s) = pb_startedAt s"
  "pb_lastResponseOff (tryFinalizeMessage a s) = pb_lastResponseOff s"
  by (simp_all add: tryFinalizeMessage_def finalize_def stop_timer_def arm_timer_def claim_def
      upd_pm_def upd_stats_def go_def finishAsync_def Let_def)

lemma last_response_after_confirm:
  "dh_LastConfirmAt (DeliveryHealth_of (handleConfirmation g tag ack s)) =
   pb_startedAt s + max 1 (time_sub (pb_now s) (pb_startedAt s))"
  by (simp add: DeliveryHealth_of_def handleConfirmation_def noteResponse_def sinceStart_def
      atOffset_def core_fields upd_pm_def Let_def split: prod.split option.split)

text \<open>A broker that answers keeps the publisher from being declared stalled: after a confirm
  frame is handled, whatever its tag and whether an ack or a nack, no assessment of the snapshot
  within the policy's time says stalled.\<close>

lemma answered_publisher_not_stalled:
  assumes "pb_startedAt s \<le> pb_now s" and "pb_now s - pb_startedAt s \<le> max_int64"
    and "now < pb_now s + dp_StallAfter (withDefaults pol (dh_ConfirmTimeout h))"
    and "0 < dp_StallAfter pol" and "dp_StallAfter pol \<le> max_int64"
    and "h = DeliveryHealth_of (handleConfirmation g tag ack s)"
  shows "fst (Assess h prev cs pol now) < HealthStalled"
proof -
  have p: "dp_StallAfter (withDefaults pol (dh_ConfirmTimeout h)) = dp_StallAfter pol"
    using assms(4) by (simp add: withDefaults_def)
  have "pb_now s \<le> dh_LastConfirmAt h"
    using assms(1,2) by (simp add: assms(6) last_response_after_confirm time_sub_def min_int64_def)
  also have "\<dots> \<le> silence_start h cs" by (rule silence_start_ge)
  finally have "now < silence_start h cs + dp_StallAfter pol" using assms(3) by (simp add: p)
  then have "time_sub now (silence_start h cs) < dp_StallAfter pol"
    using assms(4,5) by (simp add: time_sub_less min_int64_def)
  then have "\<not> stall_candidate h cs (withDefaults pol (dh_ConfirmTimeout h)) now"
    by (simp add: stall_candidate_def p Let_def)
  then have "delivery_level (h, prev) cs pol now \<noteq> HealthStalled"
    by (simp add: delivery_level_stalled_iff)
  then show ?thesis
    by (cases "fst (Assess h prev cs pol now)")
      (simp_all add: delivery_level_def less_HealthLevel_def)
qed

lemma keeper_waits_loop:
  assumes "pb_confirmGen s = gen" "\<not> pb_closed s" "cs_Connected cs" "\<not> cs_Reconnecting cs"
    and "RefreshBusy \<notin> set errs" and "0 < backoff" and "backoff \<le> keeperMaxBackoff"
  shows "keeper_waits s gen cs errs backoff =
    map (\<lambda>i. min keeperMaxBackoff (2 ^ i * backoff)) [0..<length errs]"
  using assms(5-7)
proof (induction errs arbitrary: backoff)
  case Nil
  then show ?case by simp
next
  case (Cons err errs)
  have r: "keeper_round s gen cs (Some err) False backoff =
      KeeperSleep backoff (min (2 * backoff) keeperMaxBackoff) (Some err)"
    using assms(1-4) Cons.prems(1) by (auto simp: keeper_round_def)
  have "keeper_waits s gen cs errs (min (2 * backoff) keeperMaxBackoff) =
      map (\<lambda>i. min keeperMaxBackoff (2 ^ i * min (2 * backoff) keeperMaxBackoff)) [0..<length errs]"
    using Cons.prems by (intro Cons.IH) (auto simp: keeperMaxBackoff_def second_def)
  also have "\<dots> = map (\<lambda>i. min keeperMaxBackoff (2 ^ Suc i * backoff)) [0..<length errs]"
  proof (rule map_cong [OF refl])
    fix i
    have "keeperMaxBackoff \<le> 2 ^ i * keeperMaxBackoff"
      by (simp add: keeperMaxBackoff_def second_def)
    moreover have "keeperMaxBackoff \<le> 2 ^ i * (2 * backoff)" if "keeperMaxBackoff \<le> 2 * backoff"
      using that Cons.prems(2) by (smt (verit) mult_le_cancel_right1 one_le_power)
    ultimately show "min keeperMaxBackoff (2 ^ i * min (2 * backoff) keeperMaxBackoff) =
        min keeperMaxBackoff (2 ^ Suc i * backoff)"
      by (auto simp: min_def ac_simps)
  qed
  finally show ?case using Cons.prems
    by (simp add: r upt_conv_Cons map_Suc_upt [symmetric] del: upt_Suc power_Suc)
qed

text \<open>The confirm keeper backs off like the reconnect policy of its constants: refreshes that
  fail one after the other wait 250 ms, 500 ms and so on, doubling up to 30 s.\<close>

lemma keeper_backs_off_exponentially:
  assumes "pb_confirmGen s = gen" and "\<not> pb_closed s" and "cs_Connected cs"
    and "\<not> cs_Reconnecting cs" and "RefreshBusy \<notin> set errs"
  shows "keeper_waits s gen cs errs keeperMinBackoff =
    map (\<lambda>i. NextDelay (ExponentialBackoff keeperMinBackoff keeperMaxBackoff scale2 0) (int i + 1))
      [0..<length errs]"
proof -
  have "0 < keeperMinBackoff" and "keeperMinBackoff \<le> keeperMaxBackoff"
    by (simp_all add: keeperMinBackoff_def keeperMaxBackoff_def second_def millisecond_def)
  then show ?thesis
    using keeper_waits_loop [OF assms, of keeperMinBackoff]
      NextDelay_loop_scale2 [of keeperMinBackoff keeperMaxBackoff]
    by simp
qed

section \<open>Witnesses\<close>

definition demo_publisher :: publisher where
  "demo_publisher =
     initDeliveryAssurance
       \<lparr>cf_mandatoryGracePeriod = second, cf_deliveryTimeout = 30 * second,
        cf_enableAutomaticRetries = False, cf_maxRetryAttempts = 0, cf_retryDelay = 0\<rparr> 1000"

definition demo_policy :: DeliveryPolicy where
  "demo_policy = \<lparr>dp_StallAfter = 5 * minute, dp_MinConnectionAge = 0, dp_MinFailures = 0\<rparr>"

definition up_client :: ClientState where
  "up_client =
     \<lparr>cs_Connected = True, cs_Reconnecting = False, cs_ConnectedAt = 10, cs_LastDisconnectAt = 0,
      cs_Reconnects = 0, cs_Blocked = False, cs_BlockedReason = [], cs_BlockedAt = 0,
      cs_UnblockedAt = 0, cs_GaveUp = False, cs_GaveUpAt = 0, cs_LastError = NoLastError\<rparr>"

lemma demo_publisher_simps [simp]:
  "pb_startedAt demo_publisher = 1000" "pb_now demo_publisher = 1000"
  "pb_confirmGen demo_publisher = 1" "\<not> pb_closed demo_publisher"
  by (simp_all add: demo_publisher_def initDeliveryAssurance_def installConfirmGenerationLocked_def)

lemma answered_publisher_not_stalled_witness:
  "\<forall>prev. fst (Assess (DeliveryHealth_of (handleConfirmation 1 1 True demo_publisher)) prev
     up_client demo_policy (1000 + minute)) < HealthStalled"
  by (intro allI, rule answered_publisher_not_stalled [where s = demo_publisher, OF _ _ _ _ _ refl])
    (simp_all add: demo_policy_def withDefaults_def minute_def second_def max_int64_def)

lemma keeper_backs_off_exponentially_witness:
  "keeper_waits demo_publisher 1 up_client [RefreshGetChannel ''no'', RefreshConfirmMode ''no'']
     keeperMinBackoff = [250 * millisecond, 500 * millisecond]"
  using keeper_backs_off_exponentially [of demo_publisher 1 up_client
      "[RefreshGetChannel ''no'', RefreshConfirmMode ''no'']"]
  by (simp add: up_client_def keeperMinBackoff_def keeperMaxBackoff_def millisecond_def second_def
      scale2_def)

end
