(* ===== verification/Consumer_Health.thy ===== *)
theory Consumer_Health
  imports Health
begin

text \<open>
  The health of a consumer (src/consumer_health.go): the subscriptions it tracks, the snapshot
  and its assessment. Channels are numbered; every operation runs under the mutex and reads the
  clock once, which is its argument \<open>now\<close> (never the zero time). The history of a consumer is
  the list of its operations, and \<open>spec_replay\<close> says what the history means.
\<close>

section \<open>Subscriptions\<close>

definition consumerResubscribeFailureLimit :: int where
  "consumerResubscribeFailureLimit = 5"

record subscriptionState =
  ss_ch :: "nat option"
  ss_active :: bool
  ss_cancelled :: bool
  ss_failures :: int
  ss_errCode :: int
  ss_errAt :: instant

record consumerHealth =
  co_queue :: string
  co_begun :: bool
  co_stopped :: bool
  co_subs :: "(int, subscriptionState) go_map"
  co_lastErr :: string
  co_lastErrT :: instant
  co_since :: instant
  co_subAt :: instant
  co_lastDelivery :: instant
  co_lastAck :: instant
  co_inFlight :: int

definition zero_health :: consumerHealth where
  "zero_health =
     \<lparr>co_queue = [], co_begun = False, co_stopped = False, co_subs = [], co_lastErr = [],
      co_lastErrT = 0, co_since = 0, co_subAt = 0, co_lastDelivery = 0, co_lastAck = 0,
      co_inFlight = 0\<rparr>"

definition zero_sub :: subscriptionState where
  "zero_sub =
     \<lparr>ss_ch = None, ss_active = False, ss_cancelled = False, ss_failures = 0, ss_errCode = 0,
      ss_errAt = 0\<rparr>"

text \<open>\<open>sub\<close> finds or creates a subscription; every use of it updates what it found.\<close>

definition sub :: "consumerHealth \<Rightarrow> int \<Rightarrow> subscriptionState" where
  "sub h i = (case go_get (co_subs h) i of None \<Rightarrow> zero_sub | Some s \<Rightarrow> s)"

definition with_sub ::
  "int \<Rightarrow> (subscriptionState \<Rightarrow> subscriptionState) \<Rightarrow> consumerHealth \<Rightarrow> consumerHealth" where
  "with_sub i f h = h\<lparr>co_subs := go_put i (f (sub h i)) (co_subs h)\<rparr>"

definition anyActiveLocked :: "consumerHealth \<Rightarrow> bool" where
  "anyActiveLocked h = list_ex (\<lambda>(_, s). ss_active s) (co_subs h)"

definition refreshSinceLocked :: "instant \<Rightarrow> consumerHealth \<Rightarrow> consumerHealth" where
  "refreshSinceLocked now h =
     (if anyActiveLocked h then h\<lparr>co_since := 0\<rparr>
      else if is_zero_time (co_since h) then h\<lparr>co_since := now\<rparr>
      else h)"

section \<open>Operations\<close>

definition begin_consume :: "string \<Rightarrow> instant \<Rightarrow> consumerHealth \<Rightarrow> consumerHealth" where
  "begin_consume queue now h =
     h\<lparr>co_queue := queue, co_begun := True, co_stopped := False, co_subs := [], co_subAt := 0,
       co_since := now\<rparr>"

definition end_consume :: "bool \<Rightarrow> instant \<Rightarrow> consumerHealth \<Rightarrow> consumerHealth" where
  "end_consume clean now h =
     refreshSinceLocked now
       (h\<lparr>co_stopped := clean,
          co_subs := map (\<lambda>(i, s). (i, s\<lparr>ss_active := False\<rparr>)) (co_subs h)\<rparr>)"

definition subscribed :: "int \<Rightarrow> nat \<Rightarrow> instant \<Rightarrow> consumerHealth \<Rightarrow> consumerHealth" where
  "subscribed i ch now h =
     (let h1 = with_sub i (\<lambda>s. s\<lparr>ss_ch := Some ch, ss_active := True, ss_cancelled := False,
                                  ss_failures := 0, ss_errCode := 0, ss_errAt := 0\<rparr>) h;
          h2 = (if is_zero_time (co_subAt h1) then h1\<lparr>co_subAt := now\<rparr> else h1) in
      refreshSinceLocked now h2)"

definition closed :: "int \<Rightarrow> instant \<Rightarrow> consumerHealth \<Rightarrow> consumerHealth" where
  "closed i now h =
     refreshSinceLocked now
       ((with_sub i (\<lambda>s. s\<lparr>ss_active := False\<rparr>) h)\<lparr>co_subAt := 0\<rparr>)"

definition cancelledByBroker :: "int \<Rightarrow> nat \<Rightarrow> instant \<Rightarrow> consumerHealth \<Rightarrow> consumerHealth" where
  "cancelledByBroker i ch now h =
     (if ss_ch (sub h i) \<noteq> Some ch then with_sub i (\<lambda>s. s) h
      else
        refreshSinceLocked now
          ((with_sub i (\<lambda>s. s\<lparr>ss_active := False, ss_cancelled := True\<rparr>) h)\<lparr>co_subAt := 0\<rparr>))"

text \<open>The error is its text and the AMQP reply code it carries, 0 for none (\<open>amqpReplyCode\<close>).\<close>

definition failed :: "int \<Rightarrow> string \<times> int \<Rightarrow> instant \<Rightarrow> consumerHealth \<Rightarrow> consumerHealth" where
  "failed i err now h =
     refreshSinceLocked now
       ((with_sub i (\<lambda>s. s\<lparr>ss_active := False, ss_failures := ss_failures s + 1,
                            ss_errCode := snd err, ss_errAt := now\<rparr>) h)
        \<lparr>co_lastErr := fst err, co_lastErrT := now\<rparr>)"

definition delivered :: "bool \<Rightarrow> instant \<Rightarrow> consumerHealth \<Rightarrow> consumerHealth" where
  "delivered autoAck now h =
     (let h' = h\<lparr>co_lastDelivery := now\<rparr> in if autoAck then h'\<lparr>co_lastAck := now\<rparr> else h')"

definition acked :: "instant \<Rightarrow> consumerHealth \<Rightarrow> consumerHealth" where
  "acked now h = h\<lparr>co_lastAck := now\<rparr>"

section \<open>The snapshot\<close>

record ConsumerHealth =
  cx_Queue :: string
  cx_Consuming :: bool
  cx_ChannelOpen :: bool
  cx_ConnectionOpen :: bool
  cx_CancelledByBroker :: bool
  cx_Stopped :: bool
  cx_SubscribedAt :: instant
  cx_NotConsumingSince :: instant
  cx_LastDeliveryAt :: instant
  cx_LastAckAt :: instant
  cx_InFlight :: int
  cx_ResubscribeFailures :: int
  cx_FailingSubscriptions :: int
  cx_ActiveSubscriptions :: int
  cx_LastError :: string
  cx_LastErrorAt :: instant
  cx_LastSubscribeErrorCode :: int

text \<open>One round of the loop over the subscriptions, and the loop.\<close>

definition note_sub ::
  "(nat \<Rightarrow> bool) \<Rightarrow> subscriptionState \<Rightarrow> instant \<times> ConsumerHealth \<Rightarrow> instant \<times> ConsumerHealth" where
  "note_sub isClosed s acc =
     (let (codeAt, out) = acc;
          (codeAt1, out1) =
            (if \<not> is_zero_time (ss_errAt s) \<and> \<not> ss_errAt s < codeAt
             then (ss_errAt s, out\<lparr>cx_LastSubscribeErrorCode := ss_errCode s\<rparr>)
             else (codeAt, out));
          out2 = (if ss_failures s > cx_ResubscribeFailures out1
                  then out1\<lparr>cx_ResubscribeFailures := ss_failures s\<rparr> else out1);
          out3 = (if ss_failures s \<ge> consumerResubscribeFailureLimit
                  then out2\<lparr>cx_FailingSubscriptions := cx_FailingSubscriptions out2 + 1\<rparr>
                  else out2);
          out4 = (if ss_active s
                  then (let o1 = out3\<lparr>cx_Consuming := True,
                                      cx_ActiveSubscriptions := cx_ActiveSubscriptions out3 + 1\<rparr>
                        in case ss_ch s of
                             None \<Rightarrow> o1
                           | Some ch \<Rightarrow> if isClosed ch then o1 else o1\<lparr>cx_ChannelOpen := True\<rparr>)
                  else out3);
          out5 = (if ss_cancelled s then out4\<lparr>cx_CancelledByBroker := True\<rparr> else out4) in
      (codeAt1, out5))"

fun note_subs ::
  "(nat \<Rightarrow> bool) \<Rightarrow> (int, subscriptionState) go_map \<Rightarrow> instant \<times> ConsumerHealth \<Rightarrow>
   instant \<times> ConsumerHealth" where
  "note_subs isClosed [] acc = acc"
| "note_subs isClosed ((_, s) # subs) acc = note_subs isClosed subs (note_sub isClosed s acc)"

definition Consumer_Health_of :: "(nat \<Rightarrow> bool) \<Rightarrow> bool \<Rightarrow> consumerHealth \<Rightarrow> ConsumerHealth" where
  "Consumer_Health_of isClosed connected h =
     snd (note_subs isClosed (co_subs h)
       (0,
        \<lparr>cx_Queue = co_queue h, cx_Consuming = False, cx_ChannelOpen = False,
         cx_ConnectionOpen = connected, cx_CancelledByBroker = False, cx_Stopped = co_stopped h,
         cx_SubscribedAt = co_subAt h, cx_NotConsumingSince = co_since h,
         cx_LastDeliveryAt = co_lastDelivery h, cx_LastAckAt = co_lastAck h,
         cx_InFlight = co_inFlight h, cx_ResubscribeFailures = 0, cx_FailingSubscriptions = 0,
         cx_ActiveSubscriptions = 0, cx_LastError = co_lastErr h, cx_LastErrorAt = co_lastErrT h,
         cx_LastSubscribeErrorCode = 0\<rparr>))"

section \<open>The assessment\<close>

definition amqpAccessRefused :: int where "amqpAccessRefused = 403"
definition amqpNotFound :: int where "amqpNotFound = 404"
definition amqpPreconditionFailed :: int where "amqpPreconditionFailed = 406"

definition subscribeRefusal :: "int \<Rightarrow> string" where
  "subscribeRefusal code =
     (if code = amqpNotFound then ''queue not found''
      else if code = amqpAccessRefused then ''access refused''
      else if code = amqpPreconditionFailed then ''precondition failed''
      else [])"

record ConsumerPolicy =
  kp_StallAfter :: duration
  kp_MinConnectionAge :: duration

definition consumer_withDefaults :: "ConsumerPolicy \<Rightarrow> ConsumerPolicy" where
  "consumer_withDefaults pol =
     \<lparr>kp_StallAfter = (if kp_StallAfter pol \<le> 0 then 5 * minute else kp_StallAfter pol),
      kp_MinConnectionAge = (if kp_MinConnectionAge pol \<le> 0 then defaultMinConnectionAge
                             else kp_MinConnectionAge pol)\<rparr>"

datatype consumer_reason =
    ConsumerGaveUp given_up
  | ConsumerStopped string
  | ConsumerNotStarted
  | PartiallyBroken ConsumerHealth
  | ConsumerFine string int "duration option" "duration option"
  | SubscriptionRefused string int
  | GuardFailed guard
  | CannotConsumeYet duration duration
  | CannotConsume duration

definition Consumer_Assess ::
  "ConsumerHealth \<Rightarrow> ClientState \<Rightarrow> ConsumerPolicy \<Rightarrow> instant \<Rightarrow> HealthLevel \<times> consumer_reason" where
  "Consumer_Assess h cs pol0 now =
     (let pol = consumer_withDefaults pol0 in
      case gaveUpVerdict cs now of
        Some (lvl, reason) \<Rightarrow> (lvl, ConsumerGaveUp reason)
      | None \<Rightarrow>
          if cx_Stopped h then (HealthDegraded, ConsumerStopped (cx_Queue h))
          else if is_zero_time (cx_NotConsumingSince h) \<and> \<not> cx_Consuming h
          then (HealthDegraded, ConsumerNotStarted)
          else if cx_Consuming h then
            (if cx_CancelledByBroker h \<or> cx_FailingSubscriptions h > 0
             then (HealthDegraded, PartiallyBroken h)
             else (HealthOK, ConsumerFine (cx_Queue h) (cx_InFlight h)
                     (ageString (cx_LastDeliveryAt h) now) (ageString (cx_LastAckAt h) now)))
          else if subscribeRefusal (cx_LastSubscribeErrorCode h) \<noteq> []
          then (HealthDegraded, SubscriptionRefused
                 (subscribeRefusal (cx_LastSubscribeErrorCode h)) (cx_LastSubscribeErrorCode h))
          else
            (let held = time_sub now (latestOf [cx_NotConsumingSince h, cs_ConnectedAt cs]) in
             case connectionTrusted cs (kp_MinConnectionAge pol) now of
               Some why \<Rightarrow> (HealthDegraded, GuardFailed why)
             | None \<Rightarrow>
                 if held < kp_StallAfter pol
                 then (HealthDegraded, CannotConsumeYet held (kp_StallAfter pol))
                 else (HealthStalled, CannotConsume held)))"

section \<open>The loop over the subscriptions\<close>

definition actives :: "(int, subscriptionState) go_map \<Rightarrow> nat" where
  "actives subs = lcount (\<lambda>(_, s). ss_active s) subs"

lemma note_sub_simps [simp]:
  "cx_Consuming (snd (note_sub c s acc)) = (ss_active s \<or> cx_Consuming (snd acc))"
  "cx_ActiveSubscriptions (snd (note_sub c s acc)) =
     cx_ActiveSubscriptions (snd acc) + (if ss_active s then 1 else 0)"
  "cx_CancelledByBroker (snd (note_sub c s acc)) = (ss_cancelled s \<or> cx_CancelledByBroker (snd acc))"
  "cx_FailingSubscriptions (snd (note_sub c s acc)) = cx_FailingSubscriptions (snd acc) +
     (if ss_failures s \<ge> consumerResubscribeFailureLimit then 1 else 0)"
  "cx_NotConsumingSince (snd (note_sub c s acc)) = cx_NotConsumingSince (snd acc)"
  "cx_Stopped (snd (note_sub c s acc)) = cx_Stopped (snd acc)"
  by (auto simp: note_sub_def Let_def split: option.split prod.split)

lemma note_subs_simps [simp]:
  "cx_Consuming (snd (note_subs c subs acc)) =
     ((\<exists>x \<in> set subs. ss_active (snd x)) \<or> cx_Consuming (snd acc))"
  "cx_ActiveSubscriptions (snd (note_subs c subs acc)) =
     cx_ActiveSubscriptions (snd acc) + int (actives subs)"
  "cx_NotConsumingSince (snd (note_subs c subs acc)) = cx_NotConsumingSince (snd acc)"
  "cx_Stopped (snd (note_subs c subs acc)) = cx_Stopped (snd acc)"
  by (induction c subs acc rule: note_subs.induct) (auto simp: actives_def)

section \<open>Histories\<close>

datatype health_op =
    Begin string
  | End bool
  | Subscribed int nat
  | Closed int
  | CancelledByBroker int nat
  | Failed int "string \<times> int"
  | Delivered bool
  | Acked

fun apply_op :: "instant \<times> health_op \<Rightarrow> consumerHealth \<Rightarrow> consumerHealth" where
  "apply_op (now, Begin queue) h = begin_consume queue now h"
| "apply_op (now, End clean) h = end_consume clean now h"
| "apply_op (now, Subscribed i ch) h = subscribed i ch now h"
| "apply_op (now, Closed i) h = closed i now h"
| "apply_op (now, CancelledByBroker i ch) h = cancelledByBroker i ch now h"
| "apply_op (now, Failed i err) h = failed i err now h"
| "apply_op (now, Delivered autoAck) h = delivered autoAck now h"
| "apply_op (now, Acked) h = acked now h"

text \<open>The latest operation is the head of a history.\<close>

fun replay :: "(instant \<times> health_op) list \<Rightarrow> consumerHealth" where
  "replay [] = zero_health"
| "replay (e # es) = apply_op e (replay es)"

text \<open>
  The specification: the channel each subscription was last made on, the set of live
  subscriptions, and the time since when there is none.
\<close>

record spec_health =
  sp_channel :: "int \<Rightarrow> nat option"
  sp_live :: "int set"
  sp_since :: "instant option"

definition spec_lose :: "instant \<Rightarrow> int set \<Rightarrow> spec_health \<Rightarrow> spec_health" where
  "spec_lose now lost sp =
     (let live = sp_live sp - lost in
      sp\<lparr>sp_live := live,
         sp_since := (if live \<noteq> {} then None
                      else case sp_since sp of None \<Rightarrow> Some now | Some t \<Rightarrow> Some t)\<rparr>)"

fun spec_op :: "instant \<times> health_op \<Rightarrow> spec_health \<Rightarrow> spec_health" where
  "spec_op (now, Begin queue) sp =
     \<lparr>sp_channel = (\<lambda>_. None), sp_live = {}, sp_since = Some now\<rparr>"
| "spec_op (now, End clean) sp = spec_lose now UNIV sp"
| "spec_op (now, Subscribed i ch) sp =
     sp\<lparr>sp_channel := (sp_channel sp)(i := Some ch), sp_live := insert i (sp_live sp),
        sp_since := None\<rparr>"
| "spec_op (now, Closed i) sp = spec_lose now {i} sp"
| "spec_op (now, CancelledByBroker i ch) sp =
     (if sp_channel sp i = Some ch then spec_lose now {i} sp else sp)"
| "spec_op (now, Failed i err) sp = spec_lose now {i} sp"
| "spec_op (now, Delivered autoAck) sp = sp"
| "spec_op (now, Acked) sp = sp"

definition live_subs :: "consumerHealth \<Rightarrow> int set" where
  "live_subs h = {i. ss_active (sub h i)}"

definition abs_health :: "consumerHealth \<Rightarrow> spec_health" where
  "abs_health h =
     \<lparr>sp_channel = (\<lambda>i. ss_ch (sub h i)), sp_live = live_subs h,
      sp_since = (if co_since h = 0 then None else Some (co_since h))\<rparr>"

definition health_ok :: "consumerHealth \<Rightarrow> bool" where
  "health_ok h \<longleftrightarrow> go_map_ok (co_subs h) \<and> (live_subs h \<noteq> {} \<longrightarrow> co_since h = 0)"

lemma sub_with_sub [simp]:
  "sub (with_sub i f h) j = (if j = i then f (sub h i) else sub h j)"
  by (simp add: sub_def with_sub_def)

lemma sub_more [simp]:
  "sub (h\<lparr>co_subAt := t\<rparr>) j = sub h j" "sub (h\<lparr>co_since := t\<rparr>) j = sub h j"
  "sub (h\<lparr>co_lastErr := e\<rparr>) j = sub h j" "sub (h\<lparr>co_lastErrT := t\<rparr>) j = sub h j"
  "sub (h\<lparr>co_lastDelivery := t\<rparr>) j = sub h j" "sub (h\<lparr>co_lastAck := t\<rparr>) j = sub h j"
  by (simp_all add: sub_def)

lemma active_iff:
  assumes "go_map_ok (co_subs h)"
  shows "anyActiveLocked h \<longleftrightarrow> live_subs h \<noteq> {}"
proof -
  have "(\<exists>x \<in> set (co_subs h). ss_active (snd x)) \<longleftrightarrow> (\<exists>i s. go_get (co_subs h) i = Some s \<and> ss_active s)"
    using go_get_iff [OF assms] by force
  also have "\<dots> \<longleftrightarrow> (\<exists>i. ss_active (sub h i))"
    by (auto simp: sub_def zero_sub_def split: option.split)
  finally show ?thesis
    by (auto simp: anyActiveLocked_def live_subs_def list_ex_iff case_prod_unfold)
qed

text \<open>The reference meaning of a history.\<close>

fun spec_replay :: "(instant \<times> health_op) list \<Rightarrow> spec_health" where
  "spec_replay [] = \<lparr>sp_channel = (\<lambda>_. None), sp_live = {}, sp_since = None\<rparr>"
| "spec_replay (e # es) = spec_op e (spec_replay es)"

lemma refresh_keeps [simp]:
  "co_subs (refreshSinceLocked now h) = co_subs h" "sub (refreshSinceLocked now h) j = sub h j"
  "live_subs (refreshSinceLocked now h) = live_subs h"
  by (simp_all add: refreshSinceLocked_def live_subs_def sub_def)

lemma refresh_since:
  assumes "go_map_ok (co_subs h)"
  shows "co_since (refreshSinceLocked now h) =
    (if live_subs h \<noteq> {} then 0 else if co_since h = 0 then now else co_since h)"
  using active_iff [OF assms] by (simp add: refreshSinceLocked_def is_zero_time_def)

lemma with_sub_ok [simp]: "go_map_ok (co_subs h) \<Longrightarrow> go_map_ok (co_subs (with_sub i f h))"
  by (simp add: with_sub_def)

lemma with_sub_since [simp]: "co_since (with_sub i f h) = co_since h"
  by (simp add: with_sub_def)

lemma sub_inactivated:
  "sub (h\<lparr>co_stopped := c, co_subs := map (\<lambda>(i, s). (i, s\<lparr>ss_active := False\<rparr>)) (co_subs h)\<rparr>) j =
   (sub h j)\<lparr>ss_active := False\<rparr>"
proof -
  have "map_of (map (\<lambda>(i, s). (i, s\<lparr>ss_active := False\<rparr>)) m) j =
      map_option (\<lambda>s. s\<lparr>ss_active := False\<rparr>) (map_of m j)" for m :: "(int, subscriptionState) go_map"
    by (induction m) auto
  then show ?thesis by (simp add: sub_def zero_sub_def split: option.split)
qed

lemma go_map_ok_map [simp]:
  "go_map_ok (map (\<lambda>(i, s). (i, f s)) m) = go_map_ok m"
  by (simp add: go_map_ok_def comp_def case_prod_unfold)

text \<open>Every operation ends in a refresh of what it did to the subscriptions.\<close>

lemma refresh_abs:
  assumes "go_map_ok (co_subs h)" and "now \<noteq> 0"
    and "\<And>j. ss_ch (sub h j) = ss_ch (sub g j)"
    and "live_subs h = live_subs g - lost" and "co_since h = co_since g"
  shows "abs_health (refreshSinceLocked now h) = spec_lose now lost (abs_health g)"
  using assms(2-) by (simp add: abs_health_def spec_lose_def refresh_since [OF assms(1)] Let_def)

lemma refresh_health_ok: "go_map_ok (co_subs h) \<Longrightarrow> health_ok (refreshSinceLocked now h)"
  by (simp add: health_ok_def refresh_since)

lemma apply_op_refines:
  assumes "health_ok h" and "now \<noteq> 0"
  shows "health_ok (apply_op (now, op) h) \<and>
    abs_health (apply_op (now, op) h) = spec_op (now, op) (abs_health h)"
proof (cases op)
  case (Begin queue)
  then show ?thesis using assms(2)
    by (simp add: begin_consume_def health_ok_def abs_health_def live_subs_def sub_def zero_sub_def)
next
  case (End clean)
  let ?h = "h\<lparr>co_stopped := clean,
    co_subs := map (\<lambda>(i, s). (i, s\<lparr>ss_active := False\<rparr>)) (co_subs h)\<rparr>"
  have ok: "go_map_ok (co_subs ?h)" using assms(1) by (simp add: health_ok_def)
  have "abs_health (refreshSinceLocked now ?h) = spec_lose now UNIV (abs_health h)"
    using ok assms(2) by (rule refresh_abs) (simp_all add: sub_inactivated live_subs_def)
  with refresh_health_ok [OF ok] show ?thesis by (simp add: End end_consume_def)
next
  case (Subscribed i ch)
  let ?h = "with_sub i (\<lambda>s. s\<lparr>ss_ch := Some ch, ss_active := True, ss_cancelled := False,
    ss_failures := 0, ss_errCode := 0, ss_errAt := 0\<rparr>) h"
  let ?h2 = "if is_zero_time (co_subAt ?h) then ?h\<lparr>co_subAt := now\<rparr> else ?h"
  have ok: "go_map_ok (co_subs ?h2)" using assms(1) by (simp add: health_ok_def)
  have live: "live_subs ?h2 = insert i (live_subs h)"
    by (auto simp: live_subs_def)
  have "abs_health (refreshSinceLocked now ?h2) = spec_op (now, op) (abs_health h)"
    using live by (auto simp: abs_health_def refresh_since [OF ok] Subscribed fun_eq_iff)
  with refresh_health_ok [OF ok] show ?thesis by (simp add: Subscribed subscribed_def Let_def)
next
  case (Closed i)
  let ?h = "(with_sub i (\<lambda>s. s\<lparr>ss_active := False\<rparr>) h)\<lparr>co_subAt := 0\<rparr>"
  have ok: "go_map_ok (co_subs ?h)" using assms(1) by (simp add: health_ok_def)
  have "abs_health (refreshSinceLocked now ?h) = spec_lose now {i} (abs_health h)"
    using ok assms(2) by (rule refresh_abs) (auto simp: live_subs_def)
  with refresh_health_ok [OF ok] show ?thesis by (simp add: Closed closed_def)
next
  case (CancelledByBroker i ch)
  let ?h = "(with_sub i (\<lambda>s. s\<lparr>ss_active := False, ss_cancelled := True\<rparr>) h)\<lparr>co_subAt := 0\<rparr>"
  have ok: "go_map_ok (co_subs ?h)" using assms(1) by (simp add: health_ok_def)
  have "abs_health (refreshSinceLocked now ?h) = spec_lose now {i} (abs_health h)"
    using ok assms(2) by (rule refresh_abs) (auto simp: live_subs_def)
  moreover have "health_ok (with_sub i (\<lambda>s. s) h)" and "abs_health (with_sub i (\<lambda>s. s) h) = abs_health h"
    using assms(1) by (auto simp: health_ok_def abs_health_def live_subs_def)
  ultimately show ?thesis using refresh_health_ok [OF ok]
    by (auto simp: CancelledByBroker cancelledByBroker_def abs_health_def)
next
  case (Failed i err)
  let ?h = "(with_sub i (\<lambda>s. s\<lparr>ss_active := False, ss_failures := ss_failures s + 1,
    ss_errCode := snd err, ss_errAt := now\<rparr>) h)\<lparr>co_lastErr := fst err, co_lastErrT := now\<rparr>"
  have ok: "go_map_ok (co_subs ?h)" using assms(1) by (simp add: health_ok_def)
  have "abs_health (refreshSinceLocked now ?h) = spec_lose now {i} (abs_health h)"
    using ok assms(2) by (rule refresh_abs) (auto simp: live_subs_def)
  with refresh_health_ok [OF ok] show ?thesis by (simp add: Failed failed_def)
next
  case (Delivered autoAck)
  then show ?thesis using assms(1)
    by (simp add: delivered_def health_ok_def abs_health_def live_subs_def Let_def)
next
  case Acked
  then show ?thesis using assms(1)
    by (simp add: acked_def health_ok_def abs_health_def live_subs_def)
qed

lemma replay_refines:
  "(\<forall>e \<in> set es. fst e \<noteq> 0) \<Longrightarrow>
   health_ok (replay es) \<and> abs_health (replay es) = spec_replay es"
proof (induction es)
  case Nil
  then show ?case
    by (simp add: health_ok_def abs_health_def zero_health_def live_subs_def sub_def zero_sub_def)
next
  case (Cons e es)
  obtain now op where e: "e = (now, op)" by (cases e)
  with Cons apply_op_refines [of "replay es" now op] show ?case by simp
qed

lemma consuming_iff:
  assumes "go_map_ok (co_subs h)"
  shows "cx_Consuming (Consumer_Health_of c b h) \<longleftrightarrow> live_subs h \<noteq> {}"
  using active_iff [OF assms]
  by (auto simp: Consumer_Health_of_def anyActiveLocked_def list_ex_iff case_prod_unfold)

section \<open>What the health of a consumer promises\<close>

definition consumer_level :: "ConsumerHealth \<Rightarrow> ClientState \<Rightarrow> ConsumerPolicy \<Rightarrow> instant \<Rightarrow> HealthLevel" where
  "consumer_level h cs pol now = fst (Consumer_Assess h cs pol now)"

definition consumer_hold :: "ConsumerHealth \<Rightarrow> ConsumerPolicy \<Rightarrow> duration" where
  "consumer_hold h pol = kp_StallAfter (consumer_withDefaults pol)"

definition consumer_min_age :: "ConsumerPolicy \<Rightarrow> duration" where
  "consumer_min_age pol = kp_MinConnectionAge (consumer_withDefaults pol)"

definition consumer_since :: "ConsumerHealth \<Rightarrow> ClientState \<Rightarrow> instant" where
  "consumer_since h cs = latestOf [cx_NotConsumingSince h, cs_ConnectedAt cs]"

lemma consumer_level_stalled_iff:
  "consumer_level h cs pol now = HealthStalled \<longleftrightarrow>
   \<not> cs_GaveUp cs \<and> \<not> cx_Stopped h \<and> cx_NotConsumingSince h \<noteq> 0 \<and> \<not> cx_Consuming h \<and>
   subscribeRefusal (cx_LastSubscribeErrorCode h) = [] \<and>
   connectionTrusted cs (consumer_min_age pol) now = None \<and>
   consumer_hold h pol \<le> time_sub now (consumer_since h cs)"
  by (auto simp: consumer_level_def Consumer_Assess_def gaveUpVerdict_def consumer_min_age_def
      consumer_hold_def consumer_since_def is_zero_time_def Let_def split: option.splits)

interpretation consumer: held_assessment consumer_level consumer_min_age consumer_since consumer_hold
proof
  fix h cs pol now
  assume "consumer_level h cs pol now = HealthStalled"
  note s = this [unfolded consumer_level_stalled_iff]
  show "connectionTrusted cs (consumer_min_age pol) now = None" using s by blast
  show "\<not> cs_GaveUp cs" using s by blast
  show "consumer_hold h pol \<le> time_sub now (consumer_since h cs)" using s by blast
next
  fix h cs
  show "cs_ConnectedAt cs \<le> consumer_since h cs" by (simp add: consumer_since_def latestOf_ge)
qed

text \<open>C18: a restart is never asked for during an outage: while the client is disconnected,
  reconnecting, blocked by the broker or has given up, neither the assessment of a publisher nor
  that of a consumer says stalled, whatever their snapshots hold.\<close>

theorem outage_never_stalls:
  assumes "\<not> cs_Connected cs \<or> cs_Reconnecting cs \<or> cs_Blocked cs \<or> cs_GaveUp cs"
  shows "fst (Assess h prev cs pol now) < HealthStalled \<and>
    fst (Consumer_Assess ch cs cpol now) < HealthStalled"
  using delivery.outage_not_stalled [OF assms, of "(h, prev)" pol now]
    consumer.outage_not_stalled [OF assms, of ch cpol now]
  by (simp add: delivery_level_def consumer_level_def)

theorem outage_never_stalls_witness:
  "\<forall>h prev pol now ch cpol.
     fst (Assess h prev (up_client\<lparr>cs_Connected := False\<rparr>) pol now) < HealthStalled \<and>
     fst (Consumer_Assess ch (up_client\<lparr>cs_Connected := False\<rparr>) cpol now) < HealthStalled"
  by (intro allI outage_never_stalls) simp

text \<open>A fresh connection gets its full time: until the policy's time has passed since the client
  connected, neither assessment says stalled.\<close>

lemma fresh_connection_not_stalled:
  assumes "time_sub now (cs_ConnectedAt cs) < dp_StallAfter (withDefaults pol (dh_ConfirmTimeout h))"
    and "time_sub now (cs_ConnectedAt cs) < kp_StallAfter (consumer_withDefaults cpol)"
  shows "fst (Assess h prev cs pol now) < HealthStalled \<and>
    fst (Consumer_Assess ch cs cpol now) < HealthStalled"
  using delivery.young_connection_held [of now cs "(h, prev)" pol]
    consumer.young_connection_held [of now cs ch cpol] assms
  by (simp add: delivery_level_def consumer_level_def delivery_hold_def consumer_hold_def)

lemma fresh_connection_not_stalled_witness:
  "\<forall>h prev ch.
     fst (Assess h prev up_client demo_policy (10 + minute)) < HealthStalled \<and>
     fst (Consumer_Assess ch up_client \<lparr>kp_StallAfter = 0, kp_MinConnectionAge = 0\<rparr>
       (10 + minute)) < HealthStalled"
  by (intro allI fresh_connection_not_stalled)
    (simp_all add: up_client_def demo_policy_def withDefaults_def consumer_withDefaults_def
      time_sub_def min_int64_def max_int64_def minute_def second_def)

text \<open>C8: the bookkeeping of a consumer means what it says: after any history of its operations the
  live subscriptions, the channel of each and the time since when there is none are those of the
  specification, and the snapshot reports exactly them.\<close>

theorem consumer_health_refines:
  assumes "\<forall>e \<in> set es. fst e \<noteq> 0"
  shows "abs_health (replay es) = spec_replay es \<and>
    cx_Consuming (Consumer_Health_of isClosed connected (replay es)) =
      (sp_live (spec_replay es) \<noteq> {}) \<and>
    cx_NotConsumingSince (Consumer_Health_of isClosed connected (replay es)) =
      (case sp_since (spec_replay es) of None \<Rightarrow> 0 | Some t \<Rightarrow> t)"
proof -
  have r: "health_ok (replay es)" "abs_health (replay es) = spec_replay es"
    using replay_refines [OF assms] by blast+
  have "sp_live (spec_replay es) = live_subs (replay es)"
    "sp_since (spec_replay es) = (if co_since (replay es) = 0 then None else Some (co_since (replay es)))"
    by (simp_all add: r(2) [symmetric] abs_health_def)
  with r show ?thesis
    by (simp add: consuming_iff health_ok_def) (simp add: Consumer_Health_of_def)
qed

definition demo_history :: "(instant \<times> health_op) list" where
  "demo_history =
     [(9, Closed 1), (8, CancelledByBroker 2 7), (7, Subscribed 2 6), (5, Failed 2 (''x'', 404)),
      (4, Subscribed 1 5), (3, Begin ''q'')]"

theorem consumer_health_refines_witness:
  "sp_live (spec_replay demo_history) = {2} \<and>
   cx_Consuming (Consumer_Health_of (\<lambda>_. False) True (replay demo_history)) \<and>
   cx_NotConsumingSince (Consumer_Health_of (\<lambda>_. False) True (replay demo_history)) = 0"
proof -
  have "\<forall>e \<in> set demo_history. fst e \<noteq> 0" by (simp add: demo_history_def)
  note r = consumer_health_refines [OF this, of "\<lambda>_. False" True]
  have "sp_live (spec_replay demo_history) = {2} \<and> sp_since (spec_replay demo_history) = None"
    by (auto simp: demo_history_def spec_lose_def Let_def)
  with r show ?thesis by simp
qed

text \<open>When a consumer is declared stalled, and when it is not: exactly when it has begun, was not
  stopped, has no live subscription, was not refused by the broker with 403, 404 or 406, is on a
  trusted connection of a client that has not given up, and all that has lasted for the policy's
  time on this connection.\<close>

lemma consumer_stalled_iff:
  "fst (Consumer_Assess h cs pol now) = HealthStalled \<longleftrightarrow>
   (let p = consumer_withDefaults pol in
    \<not> cx_Stopped h \<and> \<not> cx_Consuming h \<and> cx_NotConsumingSince h \<noteq> 0 \<and>
    cx_LastSubscribeErrorCode h \<notin> {403, 404, 406} \<and>
    cs_Connected cs \<and> \<not> cs_Reconnecting cs \<and> \<not> cs_Blocked cs \<and> \<not> cs_GaveUp cs \<and>
    kp_MinConnectionAge p \<le> time_sub now (cs_ConnectedAt cs) \<and>
    kp_StallAfter p \<le> time_sub now (latestOf [cx_NotConsumingSince h, cs_ConnectedAt cs]))"
  using consumer_level_stalled_iff [of h cs pol now]
  by (auto simp: consumer_level_def connectionTrusted_def consumer_min_age_def consumer_hold_def
      consumer_since_def subscribeRefusal_def amqpNotFound_def amqpAccessRefused_def
      amqpPreconditionFailed_def Let_def split: if_splits)

end
