(* ===== verification/Codec.thy ===== *)
theory Codec
  imports Amqp_Types
begin

text \<open>
  Compression and encryption of message bodies: the pluggable interfaces, the implementations of
  src/compression and src/encryption, the publisher's side (\<open>applyCompression\<close>,
  \<open>applyEncryption\<close> of src/publisher.go) and the consumer's (\<open>applyDecryption\<close>,
  \<open>applyDecompression\<close> of src/consumer.go, in the order of \<open>Consume\<close> and of \<open>ConsumeBatch\<close>).
  The formats themselves (gzip and zlib streams, AES-GCM) are not modelled: their writers and
  readers are arguments, with the round trip as a hypothesis where a result needs it.
\<close>

section \<open>Interfaces\<close>

record MessageCompressor =
  mc_Compress :: "bytes \<Rightarrow> string + bytes"
  mc_Decompress :: "bytes \<Rightarrow> string + bytes"
  mc_Algorithm :: string
  mc_Threshold :: int

record MessageEncryptor =
  me_Encrypt :: "bytes \<Rightarrow> string + bytes"
  me_Decrypt :: "bytes \<Rightarrow> string + bytes"
  me_Algorithm :: string

text \<open>Wrap the error of a step, as \<open>fmt.Errorf\<close> with a prefix does.\<close>

definition wrap_error :: "string \<Rightarrow> string + 'a \<Rightarrow> string + 'a" where
  "wrap_error prefix r = (case r of Inl e \<Rightarrow> Inl (prefix @ e) | Inr x \<Rightarrow> Inr x)"

section \<open>The compressors\<close>

definition BestSpeed :: int where "BestSpeed = 1"
definition BestCompression :: int where "BestCompression = 9"
definition DefaultLevel :: int where "DefaultLevel = - 1"

text \<open>The normalisation in \<open>NewGzip\<close> and \<open>NewZlib\<close>.\<close>

definition norm_threshold :: "int \<Rightarrow> int" where
  "norm_threshold threshold = (if threshold \<le> 0 then 1024 else threshold)"

definition norm_level :: "int \<Rightarrow> int" where
  "norm_level level = (if level < BestSpeed \<or> level > BestCompression then DefaultLevel else level)"

definition Gzip_Compress ::
  "(int \<Rightarrow> bytes \<Rightarrow> string + bytes) \<Rightarrow> int \<Rightarrow> int \<Rightarrow> bytes \<Rightarrow> string + bytes" where
  "Gzip_Compress gzip threshold level data =
     (if int (length data) < threshold then Inr data
      else
        (case gzip level data of
           Inl e \<Rightarrow> Inl (''failed to write compressed data: '' @ e)
         | Inr compressed \<Rightarrow> Inr (if length compressed < length data then compressed else data)))"

definition Gzip_Decompress :: "(bytes \<Rightarrow> string + bytes) \<Rightarrow> bytes \<Rightarrow> string + bytes" where
  "Gzip_Decompress gunzip data = wrap_error ''data does not appear to be valid gzip: '' (gunzip data)"

definition NewGzip ::
  "(int \<Rightarrow> bytes \<Rightarrow> string + bytes) \<Rightarrow> (bytes \<Rightarrow> string + bytes) \<Rightarrow> int \<Rightarrow> int \<Rightarrow> MessageCompressor"
  where
  "NewGzip gzip gunzip threshold level =
     \<lparr>mc_Compress = Gzip_Compress gzip (norm_threshold threshold) (norm_level level),
      mc_Decompress = Gzip_Decompress gunzip, mc_Algorithm = ''gzip'',
      mc_Threshold = norm_threshold threshold\<rparr>"

definition Zlib_Compress ::
  "(int \<Rightarrow> bytes \<Rightarrow> string + bytes) \<Rightarrow> int \<Rightarrow> int \<Rightarrow> bytes \<Rightarrow> string + bytes" where
  "Zlib_Compress zlib threshold level data =
     (if int (length data) < threshold then Inr data
      else
        (case zlib level data of
           Inl e \<Rightarrow> Inl (''failed to write compressed data: '' @ e)
         | Inr compressed \<Rightarrow> Inr (if length compressed < length data then compressed else data)))"

definition Zlib_Decompress :: "(bytes \<Rightarrow> string + bytes) \<Rightarrow> bytes \<Rightarrow> string + bytes" where
  "Zlib_Decompress unzlib data = wrap_error ''data does not appear to be valid zlib: '' (unzlib data)"

definition NewZlib ::
  "(int \<Rightarrow> bytes \<Rightarrow> string + bytes) \<Rightarrow> (bytes \<Rightarrow> string + bytes) \<Rightarrow> int \<Rightarrow> int \<Rightarrow> MessageCompressor"
  where
  "NewZlib zlib unzlib threshold level =
     \<lparr>mc_Compress = Zlib_Compress zlib (norm_threshold threshold) (norm_level level),
      mc_Decompress = Zlib_Decompress unzlib, mc_Algorithm = ''zlib'',
      mc_Threshold = norm_threshold threshold\<rparr>"

definition Nop_Compress :: "bytes \<Rightarrow> string + bytes" where "Nop_Compress data = Inr data"
definition Nop_Decompress :: "bytes \<Rightarrow> string + bytes" where "Nop_Decompress data = Inr data"

definition NewNop :: MessageCompressor where
  "NewNop = \<lparr>mc_Compress = Nop_Compress, mc_Decompress = Nop_Decompress, mc_Algorithm = ''none'',
             mc_Threshold = 0\<rparr>"

section \<open>The encryptors\<close>

text \<open>
  AES-GCM with the key built in: \<open>seal nonce data\<close> and \<open>open nonce ciphertext\<close>, and the nonce
  size. \<open>random\<close> is the nonce read, or the error of the random source.
\<close>

record AESGCM =
  gcm_Seal :: "bytes \<Rightarrow> bytes \<Rightarrow> bytes"
  gcm_Open :: "bytes \<Rightarrow> bytes \<Rightarrow> string + bytes"
  gcm_NonceSize :: nat

definition NewAESGCM :: "(bytes \<Rightarrow> AESGCM) \<Rightarrow> bytes \<Rightarrow> string + AESGCM" where
  "NewAESGCM cipher key =
     (if length key \<noteq> 32 then Inl (''AES-GCM requires 32-byte key, got '' @ show_int (int (length key)) @ '' bytes'')
      else Inr (cipher key))"

definition AESGCM_Encrypt :: "AESGCM \<Rightarrow> string + bytes \<Rightarrow> bytes \<Rightarrow> string + bytes" where
  "AESGCM_Encrypt g random data =
     (case random of
        Inl e \<Rightarrow> Inl (''failed to generate nonce: '' @ e)
      | Inr nonce \<Rightarrow> Inr (nonce @ gcm_Seal g nonce data))"

definition AESGCM_Decrypt :: "AESGCM \<Rightarrow> bytes \<Rightarrow> string + bytes" where
  "AESGCM_Decrypt g data =
     (if length data < gcm_NonceSize g then Inl ''ciphertext too short''
      else wrap_error ''decryption failed: ''
             (gcm_Open g (take (gcm_NonceSize g) data) (drop (gcm_NonceSize g) data)))"

definition AESGCM_Algorithm :: string where "AESGCM_Algorithm = ''AES-256-GCM''"

definition NoEncryption_Encrypt :: "bytes \<Rightarrow> string + bytes" where "NoEncryption_Encrypt data = Inr data"
definition NoEncryption_Decrypt :: "bytes \<Rightarrow> string + bytes" where "NoEncryption_Decrypt data = Inr data"

definition NewNoEncryption :: MessageEncryptor where
  "NewNoEncryption =
     \<lparr>me_Encrypt = NoEncryption_Encrypt, me_Decrypt = NoEncryption_Decrypt, me_Algorithm = ''none''\<rparr>"

section \<open>The publisher's side\<close>

text \<open>The tail shared by both: clone, replace the body and add the header.\<close>

definition with_codec_header :: "string \<Rightarrow> string \<Rightarrow> bytes \<Rightarrow> message \<Rightarrow> message" where
  "with_codec_header header alg body m =
     (Clone m)\<lparr>m_Body := body, m_Headers := go_put header (VStr alg) (m_Headers (Clone m))\<rparr>"

definition applyCompression :: "int \<Rightarrow> MessageCompressor \<Rightarrow> message \<Rightarrow> string + message" where
  "applyCompression threshold c m =
     (if int (length (m_Body m)) < threshold then Inr m
      else
        (case mc_Compress c (m_Body m) of
           Inl e \<Rightarrow> Inl (''compression failed: '' @ e)
         | Inr compressed \<Rightarrow> Inr (with_codec_header ''x-compression'' (mc_Algorithm c) compressed m)))"

definition applyEncryption :: "MessageEncryptor \<Rightarrow> message \<Rightarrow> string + message" where
  "applyEncryption c m =
     (case me_Encrypt c (m_Body m) of
        Inl e \<Rightarrow> Inl (''encryption failed: '' @ e)
      | Inr encrypted \<Rightarrow> Inr (with_codec_header ''x-encryption'' (me_Algorithm c) encrypted m))"

text \<open>The steps of a publish between the defaults and the conversion to the wire.\<close>

definition publisher_codec ::
  "int \<Rightarrow> MessageCompressor option \<Rightarrow> MessageEncryptor option \<Rightarrow> message \<Rightarrow> string + message" where
  "publisher_codec threshold compressor encryptor m =
     (case (case compressor of None \<Rightarrow> Inr m
              | Some c \<Rightarrow> wrap_error ''failed to compress message: '' (applyCompression threshold c m)) of
        Inl e \<Rightarrow> Inl e
      | Inr m1 \<Rightarrow>
          (case encryptor of None \<Rightarrow> Inr m1
             | Some c \<Rightarrow> wrap_error ''failed to encrypt message: '' (applyEncryption c m1)))"

section \<open>The consumer's side\<close>

definition applyDecryption :: "MessageEncryptor \<Rightarrow> delivery \<Rightarrow> string + delivery" where
  "applyDecryption c d =
     (case go_get (pub_Headers d) ''x-encryption'' of
        None \<Rightarrow> Inr d
      | Some alg \<Rightarrow>
          if alg \<noteq> VStr (me_Algorithm c) then Inl ''encryption algorithm mismatch''
          else
            (case me_Decrypt c (pub_Body d) of
               Inl e \<Rightarrow> Inl (''decryption failed: '' @ e)
             | Inr decrypted \<Rightarrow>
                 Inr (d\<lparr>pub_Body := decrypted,
                        pub_Headers := go_delete ''x-encryption'' (pub_Headers d)\<rparr>)))"

definition applyDecompression :: "MessageCompressor \<Rightarrow> delivery \<Rightarrow> string + delivery" where
  "applyDecompression c d =
     (case go_get (pub_Headers d) ''x-compression'' of
        None \<Rightarrow> Inr d
      | Some alg \<Rightarrow>
          if alg \<noteq> VStr (mc_Algorithm c) then Inl ''compression algorithm mismatch''
          else
            (case mc_Decompress c (pub_Body d) of
               Inl e \<Rightarrow> Inl (''decompression failed: '' @ e)
             | Inr decompressed \<Rightarrow>
                 Inr (d\<lparr>pub_Body := decompressed,
                        pub_Headers := go_delete ''x-compression'' (pub_Headers d)\<rparr>)))"

text \<open>
  One message (\<open>processMessage\<close>): decrypt, then decompress. The delivery is updated by every
  step that succeeds, also when the next one fails.
\<close>

definition decode_message ::
  "MessageEncryptor option \<Rightarrow> MessageCompressor option \<Rightarrow> delivery \<Rightarrow> string option \<times> delivery" where
  "decode_message encryptor compressor d =
     (case (case encryptor of None \<Rightarrow> Inr d | Some c \<Rightarrow> applyDecryption c d) of
        Inl e \<Rightarrow> (Some (''decryption failed: '' @ e), d)
      | Inr d1 \<Rightarrow>
          (case (case compressor of None \<Rightarrow> Inr d1 | Some c \<Rightarrow> applyDecompression c d1) of
             Inl e \<Rightarrow> (Some (''decompression failed: '' @ e), d1)
           | Inr d2 \<Rightarrow> (None, d2)))"

text \<open>A message of a batch (\<open>ConsumeBatch\<close>): decompress, then decrypt.\<close>

definition decode_batch_message ::
  "MessageEncryptor option \<Rightarrow> MessageCompressor option \<Rightarrow> delivery \<Rightarrow> string option \<times> delivery" where
  "decode_batch_message encryptor compressor d =
     (case (case compressor of None \<Rightarrow> Inr d | Some c \<Rightarrow> applyDecompression c d) of
        Inl e \<Rightarrow> (Some e, d)
      | Inr d1 \<Rightarrow>
          (case (case encryptor of None \<Rightarrow> Inr d1 | Some c \<Rightarrow> applyDecryption c d1) of
             Inl e \<Rightarrow> (Some e, d1)
           | Inr d2 \<Rightarrow> (None, d2)))"

section \<open>Codecs that lose nothing\<close>

locale message_codec =
  fixes encode :: "bytes \<Rightarrow> string + bytes"
    and decode :: "bytes \<Rightarrow> string + bytes"
  assumes lossless: "encode b = Inr c \<Longrightarrow> decode c = Inr b"
begin

lemma encode_inj: "encode b = Inr c \<Longrightarrow> encode b' = Inr c \<Longrightarrow> b = b'"
  using lossless [of b c] lossless [of b' c] by simp

end

interpretation nop_compressor: message_codec Nop_Compress Nop_Decompress
  by unfold_locales (simp add: Nop_Compress_def Nop_Decompress_def)

interpretation no_encryption: message_codec NoEncryption_Encrypt NoEncryption_Decrypt
  by unfold_locales (simp add: NoEncryption_Encrypt_def NoEncryption_Decrypt_def)

text \<open>AES-GCM is one when the cipher opens what it sealed and the nonce has the cipher's size.\<close>

lemma AESGCM_codec:
  assumes "\<And>nonce data. length nonce = gcm_NonceSize g \<Longrightarrow>
      gcm_Open g nonce (gcm_Seal g nonce data) = Inr data"
    and "\<And>nonce. random = Inr nonce \<Longrightarrow> length nonce = gcm_NonceSize g"
  shows "message_codec (AESGCM_Encrypt g random) (AESGCM_Decrypt g)"
proof
  fix b c
  assume "AESGCM_Encrypt g random b = Inr c"
  then obtain nonce where n: "random = Inr nonce" and c: "c = nonce @ gcm_Seal g nonce b"
    by (auto simp: AESGCM_Encrypt_def split: sum.splits)
  from n assms(2) have l: "length nonce = gcm_NonceSize g" by simp
  show "AESGCM_Decrypt g c = Inr b"
    using assms(1) [OF l, of b] by (simp add: AESGCM_Decrypt_def c l wrap_error_def flip: l)
qed

text \<open>What compresses is read back; what the threshold or the size check leaves alone is not a stream.\<close>

lemma Gzip_lossless:
  assumes "\<And>d c. gzip level d = Inr c \<Longrightarrow> gunzip c = Inr d"
    and "Gzip_Compress gzip threshold level b = Inr c" and "c \<noteq> b"
  shows "Gzip_Decompress gunzip c = Inr b"
  using assms
  by (auto simp: Gzip_Compress_def Gzip_Decompress_def wrap_error_def split: if_splits sum.splits)

lemma go_delete_put: "go_get m k = None \<Longrightarrow> go_delete k (go_put k v m) = m"
proof (induction m)
  case (Cons x m)
  obtain a b where x: "x = (a, b)" by (cases x)
  with Cons have "a \<noteq> k" "go_get m k = None" by (auto split: if_splits)
  with Cons.IH show ?case by (simp add: x AList.delete_eq)
qed (simp add: AList.delete_eq)

lemma with_codec_header_simps [simp]:
  "m_Body (with_codec_header h alg body m) = body"
  "go_map_ok (m_Headers m) \<Longrightarrow>
   m_Headers (with_codec_header h alg body m) = go_put h (VStr alg) (m_Headers m)"
  by (simp_all add: with_codec_header_def Clone_id)

lemma applyDecryption_back:
  assumes "applyEncryption E m = Inr m'" and "message_codec (me_Encrypt E) (me_Decrypt E)"
    and "go_map_ok (m_Headers m)" and "go_get (m_Headers m) ''x-encryption'' = None"
    and "pub_Body d = m_Body m'" and "pub_Headers d = m_Headers m'"
  shows "applyDecryption E d = Inr (d\<lparr>pub_Body := m_Body m, pub_Headers := m_Headers m\<rparr>)"
proof -
  obtain c where c: "me_Encrypt E (m_Body m) = Inr c"
    and m': "m' = with_codec_header ''x-encryption'' (me_Algorithm E) c m"
    using assms(1) by (auto simp: applyEncryption_def split: sum.splits)
  from message_codec.lossless [OF assms(2) c] show ?thesis
    using assms(3-6) by (simp add: applyDecryption_def m' go_delete_put)
qed

lemma applyDecompression_back:
  assumes "applyCompression threshold C m = Inr m'"
    and "\<And>c. mc_Compress C (m_Body m) = Inr c \<Longrightarrow> mc_Decompress C c = Inr (m_Body m)"
    and "go_map_ok (m_Headers m)" and "go_get (m_Headers m) ''x-compression'' = None"
    and "pub_Body d = m_Body m'" and "pub_Headers d = m_Headers m'"
  shows "applyDecompression C d = Inr (d\<lparr>pub_Body := m_Body m, pub_Headers := m_Headers m\<rparr>)"
proof (cases "int (length (m_Body m)) < threshold")
  case True
  with assms(1) have "m' = m" by (simp add: applyCompression_def)
  with assms(4-6) show ?thesis by (simp add: applyDecompression_def)
next
  case False
  then obtain c where c: "mc_Compress C (m_Body m) = Inr c"
    and m': "m' = with_codec_header ''x-compression'' (mc_Algorithm C) c m"
    using assms(1) by (auto simp: applyCompression_def split: sum.splits)
  from assms(2) [OF c] show ?thesis
    using assms(3-6) by (simp add: applyDecompression_def m' go_delete_put)
qed

lemma applyCompression_headers:
  assumes "applyCompression threshold C m = Inr m'" and "go_map_ok (m_Headers m)"
  shows "go_map_ok (m_Headers m')" and
    "k \<noteq> ''x-compression'' \<Longrightarrow> go_get (m_Headers m') k = go_get (m_Headers m) k"
  using assms by (auto simp: applyCompression_def split: sum.splits if_splits)

section \<open>What the codecs promise\<close>


text \<open>A small message of a compressing publisher cannot be read: when the body is below the
  compressor's own threshold but not below the publisher's (which is 0 unless set), it is sent
  unchanged with the compression header, and the consumer fails to decompress it.\<close>

lemma small_compressed_message_unreadable:
  assumes "int (length (m_Body m)) < norm_threshold t" and "threshold \<le> int (length (m_Body m))"
    and "gunzip (m_Body m) = Inl e" and "go_map_ok (m_Headers m)"
  shows "\<exists>m'. publisher_codec threshold (Some (NewGzip gzip gunzip t level)) None m = Inr m' \<and>
    m_Body m' = m_Body m \<and>
    (\<forall>d. pub_Body d = m_Body m' \<and> pub_Headers d = m_Headers m' \<longrightarrow>
       fst (decode_message None (Some (NewGzip gzip gunzip t level)) d) \<noteq> None)"
  using assms
  by (simp add: publisher_codec_def applyCompression_def NewGzip_def Gzip_Compress_def wrap_error_def
      decode_message_def applyDecompression_def Gzip_Decompress_def)

text \<open>A batch consumer undoes the codecs in the wrong order: a message that was compressed and
  encrypted, which Consume reads, is rejected by ConsumeBatch, which decompresses the
  ciphertext.\<close>

lemma batch_cannot_read_encrypted_compressed:
  assumes "publisher_codec threshold (Some C) (Some E) m = Inr m'"
    and "threshold \<le> int (length (m_Body m))" and "go_map_ok (m_Headers m)"
    and "mc_Decompress C (m_Body m') = Inl e"
    and "pub_Body d = m_Body m'" and "pub_Headers d = m_Headers m'"
  shows "fst (decode_batch_message (Some E) (Some C) d) \<noteq> None"
  using assms
  by (auto simp: publisher_codec_def applyCompression_def applyEncryption_def wrap_error_def
      decode_batch_message_def applyDecompression_def split: sum.splits)

section \<open>Witnesses\<close>

text \<open>A stream format for the witnesses: one body has a short form, the others a marker byte.\<close>

definition demo_body :: bytes where "demo_body = [7, 7, 7]"

definition demo_gzip :: "int \<Rightarrow> bytes \<Rightarrow> string + bytes" where
  "demo_gzip level d = Inr (if d = demo_body then [31] else 8 # d)"

definition demo_gunzip :: "bytes \<Rightarrow> string + bytes" where
  "demo_gunzip c = (if c = [31] then Inr demo_body else if c \<noteq> [] \<and> hd c = 8 then Inr (tl c)
                    else Inl ''invalid header'')"

definition demo_gcm :: AESGCM where
  "demo_gcm = \<lparr>gcm_Seal = (\<lambda>nonce d. d @ nonce), gcm_Open = (\<lambda>nonce c. Inr (take (length c - 1) c)),
              gcm_NonceSize = 1\<rparr>"

definition demo_encryptor :: MessageEncryptor where
  "demo_encryptor = \<lparr>me_Encrypt = AESGCM_Encrypt demo_gcm (Inr [42]), me_Decrypt = AESGCM_Decrypt demo_gcm,
                    me_Algorithm = AESGCM_Algorithm\<rparr>"

definition demo_delivery :: "message \<Rightarrow> delivery" where
  "demo_delivery m = publishing.extend (ToAMQPPublishing m)
     \<lparr>dl_MessageCount = 0, dl_DeliveryTag = 1, dl_Redelivered = False, dl_Exchange = [],
      dl_RoutingKey = ''k''\<rparr>"

lemma demo_delivery_simps [simp]:
  "pub_Body (demo_delivery m) = m_Body m" "pub_Headers (demo_delivery m) = m_Headers m"
  by (simp_all add: demo_delivery_def publishing.defs ToAMQPPublishing_def)

definition demo_message :: "bytes \<Rightarrow> message" where
  "demo_message body = NewMessageWithID body ''id'' 0"

lemma demo_message_simps [simp]:
  "m_Body (demo_message b) = b" "m_Headers (demo_message b) = []"
  by (simp_all add: demo_message_def NewMessageWithID_def)

lemma demo_codec: "message_codec (me_Encrypt demo_encryptor) (me_Decrypt demo_encryptor)"
  unfolding demo_encryptor_def MessageEncryptor.simps
  by (rule AESGCM_codec) (auto simp: demo_gcm_def)

lemma demo_published:
  "\<exists>m'. publisher_codec 0 (Some (NewGzip demo_gzip demo_gunzip 2 6)) (Some demo_encryptor)
      (demo_message demo_body) = Inr m' \<and> m_Body m' = [42, 31, 42]"
  by (simp add: publisher_codec_def applyCompression_def applyEncryption_def wrap_error_def
      NewGzip_def Gzip_Compress_def demo_gzip_def norm_threshold_def demo_encryptor_def
      AESGCM_Encrypt_def demo_gcm_def demo_body_def)


lemma small_compressed_message_unreadable_witness:
  "\<exists>m'. publisher_codec 0 (Some (NewGzip demo_gzip demo_gunzip 1024 6)) None (demo_message [1, 2]) =
      Inr m' \<and>
    fst (decode_message None (Some (NewGzip demo_gzip demo_gunzip 1024 6)) (demo_delivery m')) \<noteq> None"
proof -
  have "int (length (m_Body (demo_message [1, 2]))) < norm_threshold 1024"
    and "0 \<le> int (length (m_Body (demo_message [1, 2])))"
    and "demo_gunzip (m_Body (demo_message [1, 2])) = Inl ''invalid header''"
    and "go_map_ok (m_Headers (demo_message [1, 2]))"
    by (simp_all add: norm_threshold_def demo_gunzip_def)
  from small_compressed_message_unreadable [where gunzip = demo_gunzip and gzip = demo_gzip
      and level = 6, OF this] show ?thesis by auto
qed

lemma batch_cannot_read_encrypted_compressed_witness:
  "\<exists>m'. publisher_codec 0 (Some (NewGzip demo_gzip demo_gunzip 2 6)) (Some demo_encryptor)
      (demo_message demo_body) = Inr m' \<and>
    fst (decode_batch_message (Some demo_encryptor) (Some (NewGzip demo_gzip demo_gunzip 2 6))
      (demo_delivery m')) \<noteq> None"
proof -
  let ?C = "NewGzip demo_gzip demo_gunzip 2 6" and ?m = "demo_message demo_body"
  obtain m' where m': "publisher_codec 0 (Some ?C) (Some demo_encryptor) ?m = Inr m'"
    and b: "m_Body m' = [42, 31, 42]"
    using demo_published by blast
  have d: "mc_Decompress ?C (m_Body m') =
      Inl (''data does not appear to be valid gzip: '' @ ''invalid header'')"
    by (simp add: NewGzip_def Gzip_Decompress_def wrap_error_def demo_gunzip_def b)
  have "fst (decode_batch_message (Some demo_encryptor) (Some ?C) (demo_delivery m')) \<noteq> None"
    by (rule batch_cannot_read_encrypted_compressed [OF m' _ _ d]) simp_all
  with m' show ?thesis by blast
qed

end
