(* ===== verification/Retry_Policy.thy ===== *)
theory Retry_Policy
  imports Client_Config Amqp_Types
begin

text \<open>
  When an operation is tried again and after how long: the retry policies and the error
  classifiers of src/interfaces.go and src/publisher.go, and the redelivery backoff of
  src/backoff.go. An \<open>error\<close> is its text, except that \<open>RejectError\<close> is told apart.
\<close>

section \<open>Errors\<close>

datatype go_error =
    PlainError string
  | RejectError bool "string option"

definition bool_text :: "bool \<Rightarrow> string" where
  "bool_text b = (if b then ''true'' else ''false'')"

fun Error_text :: "go_error \<Rightarrow> string" where
  "Error_text (PlainError s) = s"
| "Error_text (RejectError requeue None) = ''message rejected (requeue='' @ bool_text requeue @ '')''"
| "Error_text (RejectError requeue (Some cause)) = cause"

definition contains_any :: "string \<Rightarrow> string list \<Rightarrow> bool" where
  "contains_any s ps = list_ex (str_contains s) ps"

definition connection_error_texts :: "string list" where
  "connection_error_texts =
     [''connection refused'', ''connection reset'', ''connection closed'', ''connection lost'',
      ''connection timeout'', ''connection failed'', ''network is unreachable'',
      ''host is unreachable'', ''no route to host'',
      ''no such host'', ''name resolution failed'', ''dns lookup failed'',
      ''broken pipe'', ''connection aborted'', ''socket closed'', ''socket shutdown'',
      ''tls handshake'', ''ssl handshake'', ''certificate'', ''x509'',
      ''connection blocked'', ''connection.close'', ''heartbeat timeout'', ''unexpected frame'',
      ''protocol error'',
      ''i/o timeout'', ''timeout'', ''deadline exceeded'', ''EOF'']"

definition IsConnectionError :: "go_error option \<Rightarrow> bool" where
  "IsConnectionError err =
     (case err of None \<Rightarrow> False | Some e \<Rightarrow> contains_any (Error_text e) connection_error_texts)"

definition permanent_error_texts :: "string list" where
  "permanent_error_texts =
     [''access refused'', ''authentication failed'', ''invalid credentials'',
      ''access denied'', ''permission denied'', ''not allowed'',
      ''not found'', ''does not exist'', ''precondition failed'',
      ''message too large'', ''frame too large'', ''content too large'']"

fun IsRetryableError :: "go_error \<Rightarrow> bool" where
  "IsRetryableError (RejectError requeue cause) = requeue"
| "IsRetryableError (PlainError s) =
     (if contains_any s permanent_error_texts then False
      else if IsConnectionError (Some (PlainError s)) then True
      else True)"

text \<open>\<open>amqp.ErrClosed\<close> is recognised by its text, which contains the first of these.\<close>

definition isChannelError :: "go_error option \<Rightarrow> bool" where
  "isChannelError err =
     (case err of None \<Rightarrow> False
      | Some e \<Rightarrow> contains_any (Error_text e)
          [''channel/connection is not open'', ''channel already closed'', ''connection closed''])"

section \<open>Retry policies of operations\<close>

text \<open>\<open>pow\<close> is \<open>float64(InitialDelay) * math.Pow(Multiplier, attempt)\<close> for the defaulted fields.\<close>

datatype RetryPolicy =
    NoRetry
  | ExponentialBackoffPolicy duration duration int "duration \<Rightarrow> int \<Rightarrow> duration"

fun RetryPolicy_ShouldRetry :: "RetryPolicy \<Rightarrow> int \<Rightarrow> bool" where
  "RetryPolicy_ShouldRetry NoRetry attempt = False"
| "RetryPolicy_ShouldRetry (ExponentialBackoffPolicy i m maxAttempts pow) attempt =
     (\<not> (maxAttempts > 0 \<and> attempt \<ge> maxAttempts))"

fun RetryPolicy_NextDelay :: "RetryPolicy \<Rightarrow> int \<Rightarrow> duration" where
  "RetryPolicy_NextDelay NoRetry attempt = 0"
| "RetryPolicy_NextDelay (ExponentialBackoffPolicy initialDelay maxDelay maxAttempts pow) attempt =
     (let initial = (if initialDelay = 0 then second else initialDelay);
          delay = pow initial attempt in
      if maxDelay > 0 \<and> delay > maxDelay then maxDelay else delay)"

section \<open>Redelivery backoff\<close>

definition backoffBase :: duration where "backoffBase = 1 * second"
definition backoffMax :: duration where "backoffMax = 30 * second"

text \<open>The loop, with the rounds that are left.\<close>

fun backoff_loop :: "nat \<Rightarrow> duration \<Rightarrow> duration" where
  "backoff_loop 0 d = d"
| "backoff_loop (Suc n) d = (let d' = d * 2 in if d' \<ge> backoffMax then backoffMax else backoff_loop n d')"

definition BackoffForDeliveryCount :: "int \<Rightarrow> duration" where
  "BackoffForDeliveryCount count0 =
     (let count = (if count0 < 1 then 1 else count0) in backoff_loop (nat (count - 1)) backoffBase)"

definition header_int :: "hval \<Rightarrow> int option" where
  "header_int v = (case v of VInt n \<Rightarrow> Some n | VInt32 n \<Rightarrow> Some n | VInt64 n \<Rightarrow> Some n | _ \<Rightarrow> None)"

text \<open>\<open>None\<close> is the nil delivery; a nil table has no entries.\<close>

definition DeliveryCount :: "table option \<Rightarrow> int" where
  "DeliveryCount headers =
     (case headers of None \<Rightarrow> 0
      | Some hs \<Rightarrow>
          (case go_get hs ''x-delivery-count'' of None \<Rightarrow> 0
           | Some v \<Rightarrow> (case header_int v of None \<Rightarrow> 0 | Some n \<Rightarrow> n)))"

text \<open>The error returned, with the longest time waited before it (a done context cuts it short).\<close>

definition RequeueWithBackoff :: "table option \<Rightarrow> go_error option \<Rightarrow> duration \<times> go_error" where
  "RequeueWithBackoff headers cause =
     (max 0 (BackoffForDeliveryCount (DeliveryCount headers)),
      RejectError True (Some (case cause of None \<Rightarrow> ''retryable delivery requeue''
                              | Some e \<Rightarrow> Error_text e)))"

section \<open>What the backoff promises\<close>

lemma backoff_loop_eq:
  "0 < d \<Longrightarrow> d \<le> backoffMax \<Longrightarrow> backoff_loop n d = min backoffMax (2 ^ n * d)"
proof (induction n arbitrary: d)
  case 0
  then show ?case by simp
next
  case (Suc n)
  show ?case
  proof (cases "d * 2 \<ge> backoffMax")
    case True
    have "d * 2 \<le> 2 ^ Suc n * d" using Suc.prems(1) by (simp add: mult_le_cancel_right)
    with True have "backoffMax \<le> 2 ^ Suc n * d" by (rule order.trans)
    then have "min backoffMax (2 ^ Suc n * d) = backoffMax" by (rule min_absorb1)
    with True show ?thesis by (simp del: power_Suc)
  next
    case False
    with Suc.IH [of "d * 2"] Suc.prems(1) show ?thesis by (simp add: Let_def ac_simps)
  qed
qed

text \<open>The redelivery backoff is the schedule of its comment: base times 2^(count-1), at least the
  base and at most the maximum, with every count below 1 treated as 1.\<close>

lemma backoff_schedule:
  "BackoffForDeliveryCount n = min (30 * second) (2 ^ nat (n - 1) * second) \<and>
   second \<le> BackoffForDeliveryCount n \<and> BackoffForDeliveryCount n \<le> 30 * second"
proof -
  have "0 < backoffBase" "backoffBase \<le> backoffMax"
    by (simp_all add: backoffBase_def backoffMax_def second_def)
  note e = backoff_loop_eq [OF this]
  have "BackoffForDeliveryCount n = min (30 * second) (2 ^ nat (n - 1) * second)"
    by (simp add: BackoffForDeliveryCount_def e Let_def) (simp add: backoffBase_def backoffMax_def)
  moreover have "second \<le> 2 ^ nat (n - 1) * second" by (simp add: second_def)
  ultimately show ?thesis by (simp add: second_def)
qed

text \<open>Twenty failed deliveries of a quorum queue, the first without a count, are spread over 452
  seconds, the eight minutes of the comment.\<close>

lemma backoff_total:
  "sum_list (map (\<lambda>n. fst (RequeueWithBackoff
      (Some (if n = 0 then [] else [(''x-delivery-count'', VInt64 n)])) None)) [0..19]) =
   452 * second"
proof -
  have c: "DeliveryCount (Some (if n = 0 then [] else [(''x-delivery-count'', VInt64 n)])) = n" for n
    by (simp add: DeliveryCount_def header_int_def)
  have e: "[0..19] = [0, 1, 2, 3, 4, 5, 6, 7, 8, 9, 10, 11, 12, 13, 14, 15, 16, 17, 18, 19 :: int]"
    by (simp add: upto.simps)
  show ?thesis
    unfolding RequeueWithBackoff_def fst_conv c e
    by (simp add: BackoffForDeliveryCount_def backoffBase_def backoffMax_def second_def
        numeral_eq_Suc Let_def)
qed

end
