(* ===== verification/Consumer_Process.thy ===== *)
theory Consumer_Process
  imports Consumer_Health Codec Retry_Policy
begin

text \<open>
  How a consumer works off one delivery or one batch (src/consumer.go): the settle guard of
  \<open>Delivery\<close>, \<open>processMessage\<close>, \<open>handleProcessingError\<close> with the retry strategies, and
  \<open>processBatch\<close>. A handler is what it does: the settlements it makes itself and how it ends.
  The wire operations are logged; the channel's answer to each is arbitrary. The atomics of the
  health record that change here (\<open>inFlight\<close>, \<open>lastDelivery\<close>, \<open>lastAck\<close>) are updated in it.
\<close>

section \<open>Deliveries settle once\<close>

datatype wire =
    WireAck
  | WireNack bool
  | WireReject bool
  | WirePublish string string publishing

text \<open>
  The state a delivery is processed in: the settle guard (\<open>None\<close> for a delivery built without
  one), what went over the wire (the latest first), the consumer's health and the count of
  \<open>RecordMessageRequeued\<close>.
\<close>

record processing =
  pr_settled :: "bool option"
  pr_wire :: "wire list"
  pr_health :: consumerHealth
  pr_requeued :: nat

definition trySettle :: "processing \<Rightarrow> bool \<times> processing" where
  "trySettle s =
     (case pr_settled s of
        None \<Rightarrow> (True, s)
      | Some False \<Rightarrow> (True, s\<lparr>pr_settled := Some True\<rparr>)
      | Some True \<Rightarrow> (False, s))"

definition isSettled :: "processing \<Rightarrow> bool" where
  "isSettled s = (pr_settled s = Some True)"

definition send :: "wire \<Rightarrow> processing \<Rightarrow> processing" where
  "send w s = s\<lparr>pr_wire := w # pr_wire s\<rparr>"

text \<open>\<open>chan\<close> is the channel's answer: the error of an operation. \<open>now\<close> is the clock.\<close>

type_synonym channel = "wire \<Rightarrow> string option"

definition Ack :: "channel \<Rightarrow> instant \<Rightarrow> processing \<Rightarrow> string option \<times> processing" where
  "Ack chan now s =
     (case trySettle s of
        (False, s') \<Rightarrow> (None, s')
      | (True, s') \<Rightarrow>
          (let s2 = send WireAck s'; err = chan WireAck in
           (err, if err = None then s2\<lparr>pr_health := acked now (pr_health s2)\<rparr> else s2)))"

definition Nack :: "channel \<Rightarrow> bool \<Rightarrow> processing \<Rightarrow> string option \<times> processing" where
  "Nack chan requeue s =
     (case trySettle s of
        (False, s') \<Rightarrow> (None, s')
      | (True, s') \<Rightarrow> (chan (WireNack requeue), send (WireNack requeue) s'))"

definition Reject :: "channel \<Rightarrow> bool \<Rightarrow> processing \<Rightarrow> string option \<times> processing" where
  "Reject chan requeue s =
     (case trySettle s of
        (False, s') \<Rightarrow> (None, s')
      | (True, s') \<Rightarrow> (chan (WireReject requeue), send (WireReject requeue) s'))"

text \<open>\<open>NewDelivery\<close> installs the guard.\<close>

definition NewDelivery :: "consumerHealth \<Rightarrow> processing" where
  "NewDelivery h = \<lparr>pr_settled = Some False, pr_wire = [], pr_health = h, pr_requeued = 0\<rparr>"

definition GetMessage :: "delivery \<Rightarrow> message" where
  "GetMessage d =
     \<lparr>m_Body = pub_Body d, m_ContentType = pub_ContentType d, m_Headers = pub_Headers d,
      m_Exchange = [], m_RoutingKey = [], m_Persistent = (pub_DeliveryMode d = 2),
      m_MessageID = pub_MessageId d, m_CorrelationID = pub_CorrelationId d,
      m_ReplyTo = pub_ReplyTo d, m_Type = pub_Type d, m_AppID = pub_AppId d,
      m_UserID = pub_UserId d, m_Timestamp = Unix_of (pub_Timestamp d),
      m_Expiration = pub_Expiration d, m_Priority = pub_Priority d\<rparr>"

section \<open>Configuration and handlers\<close>

record consumerConfig =
  cn_AutoAck :: bool
  cn_MaxRetries :: int
  cn_RetryBackoff :: duration
  cn_QueueType :: queueType
  cn_Encryptor :: "MessageEncryptor option"
  cn_Compressor :: "MessageCompressor option"

text \<open>A settlement a handler makes on its own, and how the handler ends.\<close>

datatype manual = ManualAck | ManualNack bool | ManualReject bool

datatype ending = Returns "go_error option" | Panics string

type_synonym handler = "delivery \<Rightarrow> manual list \<times> ending"

fun settle_manually :: "channel \<Rightarrow> instant \<Rightarrow> manual list \<Rightarrow> processing \<Rightarrow> processing" where
  "settle_manually chan now [] s = s"
| "settle_manually chan now (ManualAck # ms) s = settle_manually chan now ms (snd (Ack chan now s))"
| "settle_manually chan now (ManualNack r # ms) s = settle_manually chan now ms (snd (Nack chan r s))"
| "settle_manually chan now (ManualReject r # ms) s =
     settle_manually chan now ms (snd (Reject chan r s))"

definition handler_error :: "ending \<Rightarrow> go_error option" where
  "handler_error e = (case e of Returns r \<Rightarrow> r | Panics v \<Rightarrow> Some (PlainError (''handler panicked: '' @ v)))"

section \<open>Retries\<close>

definition getRetryCount :: "table \<Rightarrow> int" where
  "getRetryCount headers =
     (case Option.bind (go_get headers ''x-delivery-count'') header_int of
        Some n \<Rightarrow> n - 1
      | None \<Rightarrow>
          (case Option.bind (go_get headers ''x-retry-count'') header_int of
             Some n \<Rightarrow> n
           | None \<Rightarrow> 0))"

definition isQuorumQueue :: "table \<Rightarrow> bool" where
  "isQuorumQueue headers = (go_get headers ''x-delivery-count'' \<noteq> None)"

definition republishWithRetry ::
  "channel \<Rightarrow> string \<Rightarrow> delivery \<Rightarrow> int \<Rightarrow> processing \<Rightarrow> string option \<times> processing" where
  "republishWithRetry chan queue d retryCount s =
     (let headers = go_put ''x-retry-count'' (VInt retryCount) (maps_Copy [] (pub_Headers d));
          msg = \<lparr>pub_Headers = headers, pub_ContentType = pub_ContentType d,
                 pub_DeliveryMode = pub_DeliveryMode d, pub_Priority = pub_Priority d,
                 pub_CorrelationId = pub_CorrelationId d, pub_ReplyTo = pub_ReplyTo d,
                 pub_Expiration = pub_Expiration d, pub_MessageId = pub_MessageId d,
                 pub_Timestamp = pub_Timestamp d, pub_Type = pub_Type d, pub_UserId = pub_UserId d,
                 pub_AppId = pub_AppId d, pub_Body = pub_Body d\<rparr>;
          w = WirePublish [] queue msg in
      (chan w, send w s))"

definition requeued :: "processing \<Rightarrow> processing" where
  "requeued s = s\<lparr>pr_requeued := Suc (pr_requeued s)\<rparr>"

definition handleProcessingError ::
  "consumerConfig \<Rightarrow> bool \<Rightarrow> channel \<Rightarrow> instant \<Rightarrow> string \<Rightarrow> delivery \<Rightarrow> go_error \<Rightarrow> processing \<Rightarrow>
   processing" where
  "handleProcessingError cf rejectRequeue chan now queue d err s =
     (if cn_AutoAck cf then s
      else if isSettled s then s
      else
        (case err of
           RejectError requeue _ \<Rightarrow>
             (let s1 = snd (Nack chan requeue s) in if requeue then requeued s1 else s1)
         | PlainError _ \<Rightarrow>
             if cn_MaxRetries cf > 0 then
               (let retryCount = getRetryCount (pub_Headers d) in
                if retryCount < cn_MaxRetries cf then
                  (if cn_QueueType cf \<noteq> QueueTypeClassic then requeued (snd (Nack chan True s))
                   else
                     (case republishWithRetry chan queue d (retryCount + 1) s of
                        (Some e, s1) \<Rightarrow> snd (Nack chan False s1)
                      | (None, s1) \<Rightarrow> requeued (snd (Ack chan now s1))))
                else snd (Nack chan False s))
             else
               (let s1 = snd (Nack chan rejectRequeue s) in
                if rejectRequeue then requeued s1 else s1)))"

section \<open>Processing a message\<close>

definition in_flight :: "int \<Rightarrow> processing \<Rightarrow> processing" where
  "in_flight n s =
     s\<lparr>pr_health := (pr_health s)\<lparr>co_inFlight := co_inFlight (pr_health s) + n\<rparr>\<rparr>"

definition processMessage ::
  "consumerConfig \<Rightarrow> bool \<Rightarrow> channel \<Rightarrow> instant \<Rightarrow> string \<Rightarrow> handler \<Rightarrow> delivery \<Rightarrow> consumerHealth \<Rightarrow>
   processing" where
  "processMessage cf rejectRequeue chan now queue handler d h =
     (let s0 = in_flight 1 (NewDelivery (delivered (cn_AutoAck cf) now h)) in
      in_flight (- 1)
        (case decode_message (cn_Encryptor cf) (cn_Compressor cf) d of
           (Some e, d1) \<Rightarrow>
             handleProcessingError cf rejectRequeue chan now queue d1 (PlainError e) s0
         | (None, d1) \<Rightarrow>
             (let (settlements, ending) = handler d1;
                  s1 = settle_manually chan now settlements s0 in
              case handler_error ending of
                None \<Rightarrow> if cn_AutoAck cf then s1 else snd (Ack chan now s1)
              | Some err \<Rightarrow> handleProcessingError cf rejectRequeue chan now queue d1 err s1)))"

section \<open>Batches\<close>

text \<open>The list of errors brought to the length of the batch: padded with nil or truncated.\<close>

definition fit_errors :: "nat \<Rightarrow> go_error option list \<Rightarrow> go_error option list" where
  "fit_errors n errors =
     (if length errors < n then errors @ replicate (n - length errors) None else take n errors)"

text \<open>
  A batch handler settles some deliveries itself (a list of settlements per delivery) and returns
  the errors, or panics.
\<close>

type_synonym batch_handler = "delivery list \<Rightarrow> manual list list \<times> (string + go_error option list)"

definition batch_errors :: "nat \<Rightarrow> string + go_error option list \<Rightarrow> go_error option list" where
  "batch_errors n r =
     (case r of Inl v \<Rightarrow> replicate n (Some (PlainError (''handler panicked: '' @ v)))
      | Inr errors \<Rightarrow> fit_errors n errors)"

definition settle_one ::
  "bool \<Rightarrow> bool \<Rightarrow> channel \<Rightarrow> instant \<Rightarrow> go_error option \<Rightarrow> processing \<Rightarrow> processing" where
  "settle_one autoAck rejectRequeue chan now err s =
     (if autoAck then s
      else case err of None \<Rightarrow> snd (Ack chan now s) | Some _ \<Rightarrow> snd (Reject chan rejectRequeue s))"

text \<open>
  The deliveries of a batch are independent of each other: each has its own processing state, and
  the health they share only keeps the latest acknowledgement.
\<close>

definition processBatch ::
  "bool \<Rightarrow> bool \<Rightarrow> channel \<Rightarrow> instant \<Rightarrow> batch_handler \<Rightarrow> (delivery \<times> processing) list \<Rightarrow>
   processing list" where
  "processBatch autoAck rejectRequeue chan now handler batch =
     (if batch = [] then []
      else
        (let (settlements, result) = handler (map fst batch);
             errors = batch_errors (length batch) result in
         map (\<lambda>i. settle_one autoAck rejectRequeue chan now (errors ! i)
                    (settle_manually chan now
                      (if i < length settlements then settlements ! i else [])
                      (snd (batch ! i))))
           [0..<length batch]))"

section \<open>The settle guard\<close>

definition is_settlement :: "wire \<Rightarrow> bool" where
  "is_settlement w = (case w of WirePublish _ _ _ \<Rightarrow> False | _ \<Rightarrow> True)"

lemma is_settlement_simps [simp]:
  "is_settlement WireAck" "is_settlement (WireNack r)" "is_settlement (WireReject r)"
  "\<not> is_settlement (WirePublish ex k m)"
  by (simp_all add: is_settlement_def)

definition settlements :: "processing \<Rightarrow> nat" where
  "settlements s = lcount is_settlement (pr_wire s)"

text \<open>The guard is there, and it says whether a settlement went over the wire.\<close>

definition guarded :: "processing \<Rightarrow> bool" where
  "guarded s \<longleftrightarrow>
     (pr_settled s = Some False \<and> settlements s = 0 \<or> pr_settled s = Some True \<and> settlements s = 1)"

lemmas settle_defs = Ack_def Nack_def Reject_def trySettle_def send_def guarded_def settlements_def

lemma guarded_ops [simp]:
  assumes "guarded s"
  shows "guarded (snd (Ack chan now s))" "pr_settled (snd (Ack chan now s)) = Some True"
    "guarded (snd (Nack chan r s))" "pr_settled (snd (Nack chan r s)) = Some True"
    "guarded (snd (Reject chan r s))" "pr_settled (snd (Reject chan r s)) = Some True"
  using assms by (auto simp: settle_defs Let_def split: if_splits)

lemma guarded_NewDelivery [simp]: "guarded (NewDelivery h)"
  by (simp add: guarded_def settlements_def NewDelivery_def)

lemma guarded_in_flight [simp]:
  "guarded (in_flight n s) = guarded s" "pr_settled (in_flight n s) = pr_settled s"
  "pr_wire (in_flight n s) = pr_wire s" "settlements (in_flight n s) = settlements s"
  by (simp_all add: guarded_def settlements_def in_flight_def)

lemma guarded_requeued [simp]:
  "guarded (requeued s) = guarded s" "pr_settled (requeued s) = pr_settled s"
  "pr_wire (requeued s) = pr_wire s"
  by (simp_all add: guarded_def settlements_def requeued_def)

lemma guarded_republish [simp]:
  "guarded (snd (republishWithRetry chan queue d n s)) = guarded s"
  "pr_settled (snd (republishWithRetry chan queue d n s)) = pr_settled s"
  by (simp_all add: guarded_def settlements_def republishWithRetry_def send_def Let_def)

lemma guarded_manually: "guarded s \<Longrightarrow> guarded (settle_manually chan now ms s)"
  by (induction chan now ms s rule: settle_manually.induct) simp_all

lemma handleProcessingError_settles:
  assumes "guarded s" and "\<not> cn_AutoAck cf"
  shows "guarded (handleProcessingError cf rr chan now queue d err s) \<and>
    pr_settled (handleProcessingError cf rr chan now queue d err s) = Some True"
proof (cases "isSettled s")
  case True
  with assms show ?thesis by (simp add: handleProcessingError_def isSettled_def)
next
  case False
  have rep: "guarded s1" if "republishWithRetry chan queue d n s = (e, s1)" for n e s1
    using assms(1) guarded_republish(1) [of chan queue d n s] that by simp
  show ?thesis
  proof (cases err)
    case (RejectError r c)
    with False assms show ?thesis by (simp add: handleProcessingError_def Let_def)
  next
    case (PlainError e)
    with False assms rep show ?thesis
      by (cases "republishWithRetry chan queue d (getRetryCount (pub_Headers d) + 1) s";
          cases "fst (republishWithRetry chan queue d (getRetryCount (pub_Headers d) + 1) s)")
        (auto simp: handleProcessingError_def Let_def dest!: rep)
  qed
qed

lemma settlements_settled: "guarded s \<Longrightarrow> pr_settled s = Some True \<Longrightarrow> settlements s = 1"
  by (simp add: guarded_def)

section \<open>What processing promises\<close>

text \<open>C4: with manual acknowledgement every delivery is settled over the wire exactly once, whatever
  the handler does (settling itself any number of times, failing or panicking), whatever the
  codecs and the channel answer.\<close>

theorem message_settled_exactly_once:
  assumes "\<not> cn_AutoAck cf"
  shows "settlements (processMessage cf rr chan now queue handler d h) = 1"
proof -
  let ?s0 = "in_flight 1 (NewDelivery (delivered (cn_AutoAck cf) now h))"
  obtain r d1 where dec: "decode_message (cn_Encryptor cf) (cn_Compressor cf) d = (r, d1)"
    by (cases "decode_message (cn_Encryptor cf) (cn_Compressor cf) d")
  obtain ms e where hd: "handler d1 = (ms, e)" by (cases "handler d1")
  have g0: "guarded ?s0" by simp
  note g1 = guarded_manually [OF g0, of chan now ms]
  note H = handleProcessingError_settles [OF _ assms]
  show ?thesis
    using H [OF g0] H [OF g1] g1 assms
    by (auto simp: processMessage_def dec hd Let_def settlements_settled
        split: option.splits)
qed

theorem message_settled_exactly_once_witness:
  "\<exists>cf d. \<not> cn_AutoAck cf \<and>
     settlements (processMessage cf False (\<lambda>_. None) 1 ''q''
       (\<lambda>_. ([ManualAck, ManualReject True], Panics ''x'')) d zero_health) = 1"
proof -
  let ?cf = "\<lparr>cn_AutoAck = False, cn_MaxRetries = 3, cn_RetryBackoff = 0,
    cn_QueueType = QueueTypeQuorum, cn_Encryptor = None, cn_Compressor = None\<rparr>"
  have "\<not> cn_AutoAck ?cf" by simp
  from message_settled_exactly_once [OF this, of False "\<lambda>_. None" 1 "''q''"
      "\<lambda>_. ([ManualAck, ManualReject True], Panics ''x'')" "demo_delivery (demo_message [])" zero_health]
  show ?thesis by (intro exI [of _ ?cf] exI [of _ "demo_delivery (demo_message [])"]) simp
qed

text \<open>What is sent when the guard is still open.\<close>

lemma open_ops:
  assumes "pr_settled s = Some False"
  shows "pr_wire (snd (Ack chan now s)) = WireAck # pr_wire s"
    "pr_wire (snd (Nack chan r s)) = WireNack r # pr_wire s"
    "pr_wire (snd (Reject chan r s)) = WireReject r # pr_wire s"
  using assms by (simp_all add: settle_defs Let_def)

lemma shut_ops:
  assumes "pr_settled s = Some True"
  shows "snd (Ack chan now s) = s" "snd (Nack chan r s) = s" "snd (Reject chan r s) = s"
  using assms by (simp_all add: settle_defs)

lemma shut_manually:
  "pr_settled s = Some True \<Longrightarrow> settle_manually chan now ms s = s"
  by (induction chan now ms s rule: settle_manually.induct) (simp_all add: shut_ops)

lemma shut_handleProcessingError:
  "pr_settled s = Some True \<Longrightarrow> handleProcessingError cf rr chan now queue d err s = s"
  by (simp add: handleProcessingError_def isSettled_def)

fun manual_wire :: "manual \<Rightarrow> wire" where
  "manual_wire ManualAck = WireAck"
| "manual_wire (ManualNack r) = WireNack r"
| "manual_wire (ManualReject r) = WireReject r"

lemma first_settlement:
  assumes "pr_settled s = Some False" and "pr_wire s = []" and "guarded s"
  shows "pr_wire (settle_manually chan now (m # ms) s) = [manual_wire m] \<and>
    pr_settled (settle_manually chan now (m # ms) s) = Some True"
  using assms by (cases m) (simp_all add: shut_manually open_ops)

lemma new_in_flight [simp]:
  "pr_settled (NewDelivery h) = Some False" "pr_wire (NewDelivery h) = []"
  by (simp_all add: NewDelivery_def)

text \<open>A handler that settles a delivery itself has the last word: its first settlement is the
  only thing that goes over the wire, whatever it does afterwards and however it ends, and no retry
  is made of the message.\<close>

lemma handler_settlement_wins:
  assumes "decode_message (cn_Encryptor cf) (cn_Compressor cf) d = (None, d1)"
    and "handler d1 = (m # ms, ending)"
  shows "pr_wire (processMessage cf rr chan now queue handler d h) = [manual_wire m]"
proof -
  have f: "pr_wire (settle_manually chan now (m # ms) (in_flight 1 (NewDelivery g))) = [manual_wire m]"
    "pr_settled (settle_manually chan now (m # ms) (in_flight 1 (NewDelivery g))) = Some True" for g
    using first_settlement [of "in_flight 1 (NewDelivery g)" chan now m ms] by simp_all
  show ?thesis
    by (cases "handler_error ending")
      (simp_all add: processMessage_def assms Let_def f shut_ops shut_handleProcessingError
        del: settle_manually.simps)
qed

definition plain_config :: "int \<Rightarrow> queueType \<Rightarrow> MessageEncryptor option \<Rightarrow> consumerConfig" where
  "plain_config maxRetries q enc =
     \<lparr>cn_AutoAck = False, cn_MaxRetries = maxRetries, cn_RetryBackoff = 0, cn_QueueType = q,
      cn_Encryptor = enc, cn_Compressor = None\<rparr>"

lemma handler_settlement_wins_witness:
  "pr_wire (processMessage (plain_config 3 QueueTypeClassic None) True (\<lambda>_. None) 1 ''q''
     (\<lambda>_. ([ManualReject True, ManualAck], Panics ''x'')) (demo_delivery (demo_message [])) zero_health) =
   [WireReject True]"
  using handler_settlement_wins [of "plain_config 3 QueueTypeClassic None" "demo_delivery (demo_message [])"
      "demo_delivery (demo_message [])" "\<lambda>_. ([ManualReject True, ManualAck], Panics ''x'')"
      "ManualReject True" "[ManualAck]" "Panics ''x''" True "\<lambda>_. None" 1 "''q''" zero_health]
  by (simp add: plain_config_def decode_message_def)

text \<open>
  What a quorum queue sends: the first delivery has no count, the redeliveries are counted
  from 1.
\<close>

definition quorum_headers :: "nat \<Rightarrow> table \<Rightarrow> table" where
  "quorum_headers n base =
     (if n = 0 then base else go_put ''x-delivery-count'' (VInt64 (int n)) base)"

lemma getRetryCount_quorum:
  "go_get base ''x-delivery-count'' = None \<Longrightarrow> go_get base ''x-retry-count'' = None \<Longrightarrow>
   getRetryCount (quorum_headers n base) = (if n = 0 then 0 else int n - 1)"
  by (simp add: getRetryCount_def quorum_headers_def header_int_def)

text \<open>C21: on a quorum queue a message is retried once more than configured: the n-th redelivery of a
  message whose handler keeps failing is requeued as long as n is at most the limit, so the first
  delivery is followed by one retry more than the limit before the message is dead-lettered.\<close>

theorem quorum_retries_one_too_many:
  assumes "0 < cn_MaxRetries cf" and "\<not> cn_AutoAck cf" and "cn_QueueType cf \<noteq> QueueTypeClassic"
    and "cn_Encryptor cf = None" and "cn_Compressor cf = None"
    and "go_get base ''x-delivery-count'' = None" and "go_get base ''x-retry-count'' = None"
    and "pub_Headers d = quorum_headers n base"
    and "handler d = ([], Returns (Some (PlainError e)))"
  shows "pr_wire (processMessage cf rr chan now queue handler d h) =
    [WireNack (int n \<le> cn_MaxRetries cf)]"
  using assms
  by (simp add: processMessage_def decode_message_def handler_error_def handleProcessingError_def
      isSettled_def getRetryCount_quorum open_ops Let_def)

theorem quorum_retries_one_too_many_witness:
  "\<forall>n. pr_wire (processMessage (plain_config 3 QueueTypeQuorum None) False (\<lambda>_. None) 1 ''q''
      (\<lambda>_. ([], Returns (Some (PlainError ''x''))))
      ((demo_delivery (demo_message []))\<lparr>pub_Headers := quorum_headers n []\<rparr>) zero_health) =
    [WireNack (n \<le> 3)]"
proof
  fix n
  let ?cf = "plain_config 3 QueueTypeQuorum None"
  have "pr_wire (processMessage ?cf False (\<lambda>_. None) 1 ''q''
      (\<lambda>_. ([], Returns (Some (PlainError ''x''))))
      ((demo_delivery (demo_message []))\<lparr>pub_Headers := quorum_headers n []\<rparr>) zero_health) =
    [WireNack (int n \<le> cn_MaxRetries ?cf)]"
    by (rule quorum_retries_one_too_many [where base = "[]"]) (simp_all add: plain_config_def)
  then show "pr_wire (processMessage ?cf False (\<lambda>_. None) 1 ''q''
      (\<lambda>_. ([], Returns (Some (PlainError ''x''))))
      ((demo_delivery (demo_message []))\<lparr>pub_Headers := quorum_headers n []\<rparr>) zero_health) =
    [WireNack (n \<le> 3)]"
    by (simp add: plain_config_def)
qed

text \<open>A retry on a classic queue publishes an encrypted message in the clear: when the handler of
  a message that was published encrypted fails, what goes to the queue is the decrypted body,
  without the encryption header, and the original is acknowledged.\<close>

lemma classic_retry_republishes_plaintext:
  assumes "publisher_codec 0 None (Some E) m = Inr m'"
    and "message_codec (me_Encrypt E) (me_Decrypt E)"
    and "go_map_ok (m_Headers m)" and "go_get (m_Headers m) ''x-encryption'' = None"
    and "getRetryCount (m_Headers m) < maxRetries" and "0 < maxRetries"
    and "pub_Body d = m_Body m'" and "pub_Headers d = m_Headers m'"
    and "\<And>d. handler d = ([], Returns (Some (PlainError e)))"
    and "\<And>w. chan w = None"
  shows "\<exists>p. pr_wire (processMessage (plain_config maxRetries QueueTypeClassic (Some E)) rr chan now
      queue handler d h) = [WireAck, WirePublish [] queue p] \<and>
    pub_Body p = m_Body m \<and> go_get (pub_Headers p) ''x-encryption'' = None \<and>
    go_get (pub_Headers p) ''x-retry-count'' = Some (VInt (getRetryCount (m_Headers m) + 1))"
proof -
  have enc: "applyEncryption E m = Inr m'"
    using assms(1) by (auto simp: publisher_codec_def wrap_error_def split: sum.splits)
  let ?d1 = "d\<lparr>pub_Body := m_Body m, pub_Headers := m_Headers m\<rparr>"
  have dec: "decode_message (Some E) None d = (None, ?d1)"
    by (simp add: decode_message_def applyDecryption_back [OF enc assms(2-4) assms(7,8)])
  let ?s0 = "in_flight 1 (NewDelivery (delivered False now h))"
  obtain p where r: "republishWithRetry chan queue ?d1 (getRetryCount (m_Headers m) + 1) ?s0 =
      (None, send (WirePublish [] queue p) ?s0)"
    and p: "pub_Body p = m_Body m"
      "pub_Headers p = go_put ''x-retry-count'' (VInt (getRetryCount (m_Headers m) + 1)) (m_Headers m)"
    using assms(10) by (simp add: republishWithRetry_def Let_def maps_Copy_Nil [OF assms(3)])
  have w: "pr_settled (send (WirePublish [] queue p) ?s0) = Some False"
    "pr_wire (send (WirePublish [] queue p) ?s0) = [WirePublish [] queue p]"
    by (simp_all add: send_def)
  have "pr_wire (processMessage (plain_config maxRetries QueueTypeClassic (Some E)) rr chan now
      queue handler d h) = [WireAck, WirePublish [] queue p]"
    using assms(5,6) w
    by (simp add: processMessage_def plain_config_def dec assms(9) handler_error_def
        handleProcessingError_def isSettled_def r open_ops Let_def)
  with p assms(4) show ?thesis by (intro exI [of _ p]) simp
qed

lemma classic_retry_republishes_plaintext_witness:
  "\<exists>m' p. publisher_codec 0 None (Some demo_encryptor) (demo_message [1, 2, 3]) = Inr m' \<and>
     m_Body m' \<noteq> [1, 2, 3] \<and>
     pr_wire (processMessage (plain_config 3 QueueTypeClassic (Some demo_encryptor)) False (\<lambda>_. None)
       1 ''q'' (\<lambda>_. ([], Returns (Some (PlainError ''x'')))) (demo_delivery m') zero_health) =
     [WireAck, WirePublish [] ''q'' p] \<and> pub_Body p = [1, 2, 3]"
proof -
  obtain m' where m': "publisher_codec 0 None (Some demo_encryptor) (demo_message [1, 2, 3]) = Inr m'"
    and b: "m_Body m' = [42, 1, 2, 3, 42]"
    by (simp add: publisher_codec_def applyEncryption_def wrap_error_def demo_encryptor_def
        AESGCM_Encrypt_def demo_gcm_def)
  have "\<exists>p. pr_wire (processMessage (plain_config 3 QueueTypeClassic (Some demo_encryptor)) False
       (\<lambda>_. None) 1 ''q'' (\<lambda>_. ([], Returns (Some (PlainError ''x'')))) (demo_delivery m') zero_health) =
     [WireAck, WirePublish [] ''q'' p] \<and> pub_Body p = m_Body (demo_message [1, 2, 3]) \<and>
     go_get (pub_Headers p) ''x-encryption'' = None \<and>
     go_get (pub_Headers p) ''x-retry-count'' =
       Some (VInt (getRetryCount (m_Headers (demo_message [1, 2, 3])) + 1))"
    by (rule classic_retry_republishes_plaintext [OF m' demo_codec])
      (simp_all add: getRetryCount_def)
  with m' b show ?thesis by auto
qed

text \<open>Every delivery of a batch is settled exactly once, and one that the handler left alone is
  rejected when the handler returned an error for it and acknowledged otherwise, also when the
  handler returned too few errors; after a panic all of them are rejected.\<close>

lemma batch_settled_exactly_once:
  assumes "batch \<noteq> []" and "i < length batch" and "guarded (snd (batch ! i))"
    and "handler (map fst batch) = (manuals, result)"
    and "s = processBatch False rr chan now handler batch ! i"
  shows "settlements s = 1 \<and>
    ((length manuals \<le> i \<or> manuals ! i = []) \<and> snd (batch ! i) = NewDelivery h \<longrightarrow>
       pr_wire s = [case result of
           Inl panic \<Rightarrow> WireReject rr
         | Inr errors \<Rightarrow> if i < length errors \<and> errors ! i \<noteq> None then WireReject rr else WireAck])"
proof -
  let ?e = "batch_errors (length batch) result ! i"
  let ?s1 = "settle_manually chan now (if i < length manuals then manuals ! i else []) (snd (batch ! i))"
  have s: "s = settle_one False rr chan now ?e ?s1"
    using assms(1,2) by (simp add: assms(5) processBatch_def assms(4) Let_def)
  have g: "guarded ?s1" by (rule guarded_manually [OF assms(3)])
  have "settlements s = 1"
    by (cases ?e) (simp_all add: s settle_one_def g settlements_settled)
  moreover have "(?e = None) = (case result of Inl p \<Rightarrow> False
      | Inr errors \<Rightarrow> \<not> (i < length errors \<and> errors ! i \<noteq> None))"
    using assms(2) by (auto simp: batch_errors_def fit_errors_def nth_append split: sum.split)
  ultimately show ?thesis
    by (cases ?e; cases result) (auto simp: s settle_one_def open_ops)
qed

lemma batch_settled_exactly_once_witness:
  "pr_wire (processBatch False True (\<lambda>_. None) 1
      (\<lambda>ds. ([], Inr [Some (PlainError ''x'')]))
      [(demo_delivery (demo_message []), NewDelivery zero_health),
       (demo_delivery (demo_message []), NewDelivery zero_health)] ! 1) = [WireAck]"
proof -
  let ?b = "[(demo_delivery (demo_message []), NewDelivery zero_health),
    (demo_delivery (demo_message []), NewDelivery zero_health)]"
  have "?b \<noteq> []" and "1 < length ?b" and "guarded (snd (?b ! 1))"
    and "(\<lambda>ds. ([], Inr [Some (PlainError ''x'')])) (map fst ?b) =
      ([], Inr [Some (PlainError ''x'')] :: string + go_error option list)"
    by simp_all
  from batch_settled_exactly_once [OF this refl, of True "\<lambda>_. None" 1 zero_health] show ?thesis by simp
qed

end
