(* ===== verification/Consumer_Loop.thy ===== *)
theory Consumer_Loop
  imports Consumer_Health Labelled_Runs
begin

text \<open>
  The consume loop of a consumer in shared-channel mode (src/consumer.go): the loop that
  subscribes again after a channel closed, its workers, and \<open>Close\<close>. Every goroutine has a
  program counter, and a label says which one moves; the labels may come in any order. The
  handler is a worker that is busy for a while; what it does is Consumer_Process.
\<close>

section \<open>State\<close>

definition minReconnectDelay :: duration where "minReconnectDelay = 100 * millisecond"

datatype main_pc =
    MTop
  | MSubscribe
  | MDelay instant
  | MSpawn nat
  | MWait
  | MDrain
  | MDrainReturn
  | MReturned

datatype worker = WSelect | WBusy | WDone

datatype closer = CloseNotCalled | CloseWaitsWorkers | CloseChannel | CloseDone

record consume_loop =
  lp_concurrency :: nat
  lp_autoAck :: bool
  lp_reconnectDelay :: duration
  lp_main :: main_pc
  lp_workers :: "worker list"
  lp_ch :: nat
  lp_next :: nat
  lp_chClosed :: "nat \<Rightarrow> bool"
  lp_deliveries :: nat
  lp_stop :: bool
  lp_ctxDone :: bool
  lp_consuming :: bool
  lp_closer :: closer
  lp_health :: consumerHealth
  lp_now :: instant

definition workers_done :: "consume_loop \<Rightarrow> bool" where
  "workers_done s = list_all (\<lambda>w. w = WDone) (lp_workers s)"

text \<open>\<open>Consume\<close> has taken its place and begun; the consumer was created with channel 1.\<close>

definition start_consume :: "string \<Rightarrow> bool \<Rightarrow> nat \<Rightarrow> duration \<Rightarrow> instant \<Rightarrow> consume_loop" where
  "start_consume queue autoAck concurrency reconnectDelay now =
     \<lparr>lp_concurrency = concurrency, lp_autoAck = autoAck, lp_reconnectDelay = reconnectDelay, lp_main = MTop,
      lp_workers = [], lp_ch = 1, lp_next = 2, lp_chClosed = (\<lambda>_. False), lp_deliveries = 0,
      lp_stop = False, lp_ctxDone = False, lp_consuming = True, lp_closer = CloseNotCalled,
      lp_health = begin_consume queue now zero_health, lp_now = now\<rparr>"

section \<open>The loop\<close>

text \<open>The wait before another attempt, at least the minimum.\<close>

definition retry_later :: "string \<times> int \<Rightarrow> consume_loop \<Rightarrow> consume_loop" where
  "retry_later err s =
     s\<lparr>lp_health := failed 0 err (lp_now s) (lp_health s),
       lp_main := MDelay (lp_now s + max (lp_reconnectDelay s) minReconnectDelay)\<rparr>"

text \<open>
  \<open>ensureValidChannel\<close> when the channel is closed: \<open>ans\<close> is the error of getting a channel or of
  setting its prefetch, or none.
\<close>

definition ensureValidChannel :: "(string \<times> int) option \<Rightarrow> consume_loop \<Rightarrow> consume_loop" where
  "ensureValidChannel ans s =
     (if \<not> lp_chClosed s (lp_ch s) then s\<lparr>lp_main := MSubscribe\<rparr>
      else
        (case ans of
           Some err \<Rightarrow> retry_later err s
         | None \<Rightarrow> s\<lparr>lp_ch := lp_next s, lp_next := Suc (lp_next s), lp_main := MSubscribe\<rparr>))"

text \<open>
  One step of \<open>consumeWithSharedChannel\<close>. \<open>ans\<close> is the answer of the operation it makes, if any,
  and \<open>other\<close> the choice between two cases of a \<open>select\<close> that are both ready. The third case of
  the final \<open>select\<close>, a signal on \<open>channelClosed\<close>, is a step of the worker that sends it.
\<close>

definition main_step :: "(string \<times> int) option \<Rightarrow> bool \<Rightarrow> consume_loop \<Rightarrow> consume_loop option" where
  "main_step ans other s =
     (case lp_main s of
        MTop \<Rightarrow> Some (if lp_ctxDone s then s\<lparr>lp_main := MReturned\<rparr> else ensureValidChannel ans s)
      | MSubscribe \<Rightarrow>
          (case ans of
             Some err \<Rightarrow> Some (retry_later err s)
           | None \<Rightarrow>
               if lp_chClosed s (lp_ch s) then None
               else Some (s\<lparr>lp_health := subscribed 0 (lp_ch s) (lp_now s) (lp_health s),
                            lp_stop := False, lp_deliveries := 0, lp_workers := [],
                            lp_main := MSpawn (lp_concurrency s)\<rparr>))
      | MDelay due \<Rightarrow>
          if lp_ctxDone s \<and> \<not> (other \<and> due \<le> lp_now s) then Some (s\<lparr>lp_main := MReturned\<rparr>)
          else if due \<le> lp_now s then Some (s\<lparr>lp_main := MTop\<rparr>)
          else None
      | MSpawn n \<Rightarrow>
          (case n of
             0 \<Rightarrow> Some (s\<lparr>lp_main := MWait\<rparr>)
           | Suc k \<Rightarrow> Some (s\<lparr>lp_workers := lp_workers s @ [WSelect], lp_main := MSpawn k\<rparr>))
      | MWait \<Rightarrow>
          if lp_ctxDone s then Some (s\<lparr>lp_stop := True, lp_main := MDrainReturn\<rparr>)
          else if lp_stop s then Some (s\<lparr>lp_main := MDrainReturn\<rparr>)
          else None
      | MDrain \<Rightarrow> if workers_done s then Some (s\<lparr>lp_main := MTop\<rparr>) else None
      | MDrainReturn \<Rightarrow> if workers_done s then Some (s\<lparr>lp_main := MReturned\<rparr>) else None
      | MReturned \<Rightarrow> None)"

text \<open>
  One step of a worker (\<open>workerWithReconnection\<close>). Its send on \<open>channelClosed\<close> does not block: it
  is received only when the loop is already waiting, and dropped otherwise.
\<close>

definition set_worker :: "nat \<Rightarrow> worker \<Rightarrow> consume_loop \<Rightarrow> consume_loop" where
  "set_worker i w s = s\<lparr>lp_workers := (lp_workers s)[i := w]\<rparr>"

definition signal_closed :: "consume_loop \<Rightarrow> consume_loop" where
  "signal_closed s =
     (if lp_main s = MWait
      then s\<lparr>lp_health := closed 0 (lp_now s) (lp_health s), lp_stop := True, lp_main := MDrain\<rparr>
      else s)"

definition worker_step :: "nat \<Rightarrow> bool \<Rightarrow> consume_loop \<Rightarrow> consume_loop option" where
  "worker_step i other s =
     (if length (lp_workers s) \<le> i then None
      else
        (case lp_workers s ! i of
           WBusy \<Rightarrow> Some (set_worker i WSelect s)
         | WDone \<Rightarrow> None
         | WSelect \<Rightarrow>
             if (lp_ctxDone s \<or> lp_stop s) \<and> \<not> other then Some (set_worker i WDone s)
             else if lp_deliveries s > 0
             then Some (set_worker i WBusy
                          (s\<lparr>lp_deliveries := lp_deliveries s - 1,
                             lp_health := delivered (lp_autoAck s) (lp_now s) (lp_health s)\<rparr>))
             else if lp_chClosed s (lp_ch s)
             then Some (set_worker i WDone (signal_closed s))
             else if lp_ctxDone s \<or> lp_stop s then Some (set_worker i WDone s)
             else None))"

text \<open>\<open>Close\<close>: stop the current cycle, wait for its workers, close the channel.\<close>

definition Consumer_Close_step :: "consume_loop \<Rightarrow> consume_loop option" where
  "Consumer_Close_step s =
     (case lp_closer s of
        CloseNotCalled \<Rightarrow>
          Some (if lp_consuming s then s\<lparr>lp_stop := True, lp_closer := CloseWaitsWorkers\<rparr>
                else s\<lparr>lp_closer := CloseChannel\<rparr>)
      | CloseWaitsWorkers \<Rightarrow>
          if workers_done s then Some (s\<lparr>lp_consuming := False, lp_closer := CloseChannel\<rparr>) else None
      | CloseChannel \<Rightarrow>
          Some (s\<lparr>lp_chClosed := (lp_chClosed s)(lp_ch s := True), lp_closer := CloseDone\<rparr>)
      | CloseDone \<Rightarrow> None)"

section \<open>Interleavings\<close>

datatype loop_label =
    LMain "(string \<times> int) option" bool
  | LWorker nat bool
  | LClose
  | LDelivery
  | LChannelCloses
  | LContextDone
  | LTime duration

fun loop_step :: "loop_label \<Rightarrow> consume_loop \<Rightarrow> consume_loop option" where
  "loop_step (LMain ans other) s = main_step ans other s"
| "loop_step (LWorker i other) s = worker_step i other s"
| "loop_step LClose s = Consumer_Close_step s"
| "loop_step LDelivery s =
     (if lp_chClosed s (lp_ch s) then None else Some (s\<lparr>lp_deliveries := Suc (lp_deliveries s)\<rparr>))"
| "loop_step LChannelCloses s = Some (s\<lparr>lp_chClosed := (lp_chClosed s)(lp_ch s := True)\<rparr>)"
| "loop_step LContextDone s = Some (s\<lparr>lp_ctxDone := True\<rparr>)"
| "loop_step (LTime d) s = (if 0 \<le> d then Some (s\<lparr>lp_now := lp_now s + d\<rparr>) else None)"

fun loop_run :: "loop_label list \<Rightarrow> consume_loop \<Rightarrow> consume_loop option" where
  "loop_run [] s = Some s"
| "loop_run (l # ls) s = (case loop_step l s of None \<Rightarrow> None | Some s' \<Rightarrow> loop_run ls s')"

interpretation shared_loop: labelled_run loop_step loop_run
  by unfold_locales simp_all

section \<open>The workers of one cycle\<close>

text \<open>Outside a cycle every worker has ended.\<close>

fun between_cycles :: "main_pc \<Rightarrow> bool" where
  "between_cycles MTop = True"
| "between_cycles MSubscribe = True"
| "between_cycles (MDelay d) = True"
| "between_cycles MReturned = True"
| "between_cycles _ = False"

fun spawned :: "main_pc \<Rightarrow> nat \<Rightarrow> nat \<Rightarrow> bool" where
  "spawned (MSpawn k) n c = (n + k = c)"
| "spawned MWait n c = (n = c)"
| "spawned MDrain n c = (n = c)"
| "spawned MDrainReturn n c = (n = c)"
| "spawned _ n c = (n \<le> c)"

definition loop_ok :: "consume_loop \<Rightarrow> bool" where
  "loop_ok s \<longleftrightarrow>
     (between_cycles (lp_main s) \<longrightarrow> workers_done s) \<and>
     spawned (lp_main s) (length (lp_workers s)) (lp_concurrency s)"

lemma workers_done_update: "workers_done s \<Longrightarrow> workers_done (s\<lparr>lp_workers := (lp_workers s)[i := WDone]\<rparr>)"
  by (auto simp: workers_done_def list_all_iff dest: set_update_subset_insert [THEN subsetD])

lemma loop_ok_main: "loop_ok s \<Longrightarrow> main_step ans other s = Some s' \<Longrightarrow> loop_ok s'"
  by (auto simp: loop_ok_def main_step_def ensureValidChannel_def retry_later_def workers_done_def
      split: main_pc.splits option.splits nat.splits if_splits)

lemma loop_ok_worker:
  assumes "loop_ok s" and "worker_step i other s = Some s'"
  shows "loop_ok s'"
proof (cases "between_cycles (lp_main s)")
  case True
  with assms(1) have "workers_done s" by (simp add: loop_ok_def)
  then have "i < length (lp_workers s) \<longrightarrow> lp_workers s ! i = WDone"
    by (simp add: workers_done_def list_all_iff)
  with assms(2) show ?thesis by (auto simp: worker_step_def split: if_splits)
next
  case False
  have m: "lp_main s' = lp_main s \<or> lp_main s = MWait \<and> lp_main s' = MDrain"
    and l: "length (lp_workers s') = length (lp_workers s)" "lp_concurrency s' = lp_concurrency s"
    using assms(2)
    by (auto simp: worker_step_def set_worker_def signal_closed_def split: if_splits worker.splits)
  from m show ?thesis
  proof
    assume "lp_main s' = lp_main s"
    with False l assms(1) show ?thesis by (simp add: loop_ok_def)
  next
    assume "lp_main s = MWait \<and> lp_main s' = MDrain"
    with l assms(1) show ?thesis by (simp add: loop_ok_def)
  qed
qed

lemma loop_ok_step: "loop_ok s \<Longrightarrow> loop_step l s = Some s' \<Longrightarrow> loop_ok s'"
proof (cases l)
  case (LMain ans other)
  then show "loop_ok s \<Longrightarrow> loop_step l s = Some s' \<Longrightarrow> loop_ok s'" using loop_ok_main by simp
next
  case (LWorker i other)
  then show "loop_ok s \<Longrightarrow> loop_step l s = Some s' \<Longrightarrow> loop_ok s'" using loop_ok_worker by simp
next
  case LClose
  then show "loop_ok s \<Longrightarrow> loop_step l s = Some s' \<Longrightarrow> loop_ok s'"
    by (auto simp: Consumer_Close_step_def loop_ok_def workers_done_def split: closer.splits if_splits)
qed (auto simp: loop_ok_def workers_done_def split: if_splits)

lemma loop_ok_run: "loop_ok s \<Longrightarrow> loop_run ls s = Some s' \<Longrightarrow> loop_ok s'"
  by (rule shared_loop.invariant [where P = loop_ok]) (auto dest: loop_ok_step)

section \<open>What the loop promises, and what it does not\<close>

text \<open>C29: a consumer never runs more workers than its concurrency, and none outlives its cycle: when
  the loop subscribes again or Consume has returned, every worker started before has ended.\<close>

theorem workers_never_outlive_cycle:
  assumes "loop_run ls (start_consume queue autoAck n delay now) = Some s"
  shows "length (lp_workers s) \<le> n \<and> (between_cycles (lp_main s) \<longrightarrow> workers_done s)"
proof -
  have "loop_ok (start_consume queue autoAck n delay now)"
    by (simp add: loop_ok_def start_consume_def workers_done_def)
  then have ok: "loop_ok s" using assms by (rule loop_ok_run)
  have c: "lp_concurrency s' = lp_concurrency s0" if "loop_step l s0 = Some s'" for l s0 s'
    using that
    by (cases l) (auto simp: main_step_def worker_step_def Consumer_Close_step_def set_worker_def
        signal_closed_def ensureValidChannel_def retry_later_def
        split: main_pc.splits worker.splits closer.splits option.splits nat.splits if_splits)
  from shared_loop.unchanged [where f = lp_concurrency, OF assms c] have "lp_concurrency s = n"
    by (simp add: start_consume_def)
  with ok show ?thesis by (cases "lp_main s") (auto simp: loop_ok_def)
qed

text \<open>A consumer with one worker, and two of its histories.\<close>

definition demo_consumer :: consume_loop where
  "demo_consumer = start_consume ''q'' False 1 (5 * second) 1"

definition subscribe_steps :: "loop_label list" where
  "subscribe_steps = [LMain None False, LMain None False, LMain None False, LMain None False]"

text \<open>The channel closes, the client is not back yet, \<open>Close\<close> runs to its end during the delay.\<close>

definition closed_while_reconnecting :: "loop_label list" where
  "closed_while_reconnecting =
     subscribe_steps @
     [LChannelCloses, LWorker 0 False, LMain None False,
      LMain (Some (''connection is not available'', 0)) False,
      LClose, LClose, LClose,
      LTime (5 * second), LMain None False] @ subscribe_steps @ [LDelivery, LWorker 0 False]"

text \<open>The channel closes while the loop is still starting its workers.\<close>

definition closed_while_starting :: "loop_label list" where
  "closed_while_starting =
     [LMain None False, LMain None False, LMain None False,
      LChannelCloses, LWorker 0 False, LMain None False]"

lemmas loop_demo_simps = demo_consumer_def start_consume_def main_step_def worker_step_def
  Consumer_Close_step_def ensureValidChannel_def retry_later_def set_worker_def signal_closed_def
  workers_done_def begin_consume_def zero_health_def subscribed_def closed_def failed_def
  with_sub_def sub_def zero_sub_def refreshSinceLocked_def anyActiveLocked_def is_zero_time_def
  delivered_def minReconnectDelay_def second_def millisecond_def Let_def

theorem workers_never_outlive_cycle_witness:
  "\<exists>s. loop_run subscribe_steps demo_consumer = Some s \<and> length (lp_workers s) \<le> 1"
proof -
  obtain s where "loop_run subscribe_steps demo_consumer = Some s"
    by (simp add: subscribe_steps_def loop_demo_simps)
  with workers_never_outlive_cycle [of subscribe_steps "''q''" False 1 "5 * second" 1 s]
  show ?thesis by (intro exI [of _ s]) (simp add: demo_consumer_def)
qed

text \<open>Close does not stop a consumer that is reconnecting: called while the loop waits to
  subscribe again, it returns, and afterwards the loop subscribes on a new channel and hands a
  delivery to a worker.\<close>

lemma close_does_not_stop_reconnecting_consumer:
  "\<exists>s. loop_run closed_while_reconnecting demo_consumer = Some s \<and> lp_closer s = CloseDone \<and>
     lp_main s = MWait \<and> lp_workers s = [WBusy] \<and> \<not> lp_stop s \<and> \<not> lp_chClosed s (lp_ch s)"
  by (simp add: closed_while_reconnecting_def subscribe_steps_def loop_demo_simps)

text \<open>The loop waits for a signal that no worker is left to send.\<close>

definition hung :: "consume_loop \<Rightarrow> bool" where
  "hung s \<longleftrightarrow> lp_main s = MWait \<and> workers_done s \<and> \<not> lp_stop s \<and> \<not> lp_ctxDone s"

lemma hung_step:
  assumes "hung s" and "loop_step l s = Some s'" and "l \<noteq> LClose" and "l \<noteq> LContextDone"
  shows "hung s' \<and> lp_health s' = lp_health s"
proof (cases l)
  case (LMain ans other)
  with assms(1,2) show ?thesis by (simp add: hung_def main_step_def)
next
  case (LWorker i other)
  have "i < length (lp_workers s) \<longrightarrow> lp_workers s ! i = WDone"
    using assms(1) by (simp add: hung_def workers_done_def list_all_iff)
  with LWorker assms(1,2) show ?thesis by (auto simp: worker_step_def split: if_splits)
qed (use assms in \<open>auto simp: hung_def workers_done_def split: if_splits\<close>)

lemma hung_run:
  "hung s \<Longrightarrow> loop_run ls s = Some s' \<Longrightarrow> LClose \<notin> set ls \<Longrightarrow> LContextDone \<notin> set ls \<Longrightarrow>
   hung s' \<and> lp_health s' = lp_health s"
  by (rule shared_loop.invariant_among [where P = "\<lambda>x. hung x \<and> lp_health x = lp_health s" and
        Q = "\<lambda>l. l \<noteq> LClose \<and> l \<noteq> LContextDone"]) (auto dest: hung_step)

text \<open>C30: a consumer can hang unnoticed: when its channel closes before the loop has started all
  workers, the signal is lost, and without a cancelled context or Close the loop then waits
  forever with no worker, while the health of the consumer is assessed as OK.\<close>

theorem lost_signal_hangs_consumer:
  "\<exists>s. loop_run closed_while_starting demo_consumer = Some s \<and> lp_chClosed s (lp_ch s) \<and>
     (\<forall>ls s'. loop_run ls s = Some s' \<longrightarrow> LClose \<in> set ls \<or> LContextDone \<in> set ls \<or>
        lp_main s' = MWait \<and> workers_done s' \<and>
        (\<forall>pol now. fst (Consumer_Assess (Consumer_Health_of (lp_chClosed s') True (lp_health s'))
           up_client pol now) = HealthOK))"
proof -
  obtain s where s: "loop_run closed_while_starting demo_consumer = Some s"
    and c: "lp_chClosed s (lp_ch s)" and h: "hung s"
    and l: "co_subs (lp_health s) = [(0, zero_sub\<lparr>ss_ch := Some 1, ss_active := True\<rparr>)]"
      "\<not> co_stopped (lp_health s)"
    by (simp add: closed_while_starting_def loop_demo_simps hung_def)
  have ok: "fst (Consumer_Assess (Consumer_Health_of closed' True (lp_health s)) up_client pol now) =
      HealthOK" for closed' pol now
    by (simp add: Consumer_Assess_def Consumer_Health_of_def l note_sub_def zero_sub_def
        gaveUpVerdict_def up_client_def consumerResubscribeFailureLimit_def is_zero_time_def Let_def)
  have "lp_main s' = MWait \<and> workers_done s' \<and>
      (\<forall>pol now. fst (Consumer_Assess (Consumer_Health_of (lp_chClosed s') True (lp_health s'))
         up_client pol now) = HealthOK)"
    if "loop_run ls s = Some s'" "LClose \<notin> set ls" "LContextDone \<notin> set ls" for ls s'
    using hung_run [OF h that] ok by (simp add: hung_def)
  with s c show ?thesis by blast
qed

theorem lost_signal_hangs_consumer_witness:
  "\<exists>s s'. loop_run closed_while_starting demo_consumer = Some s \<and>
     loop_run [LTime (10 * minute)] s = Some s' \<and> lp_main s' = MWait"
proof (rule exE [OF lost_signal_hangs_consumer], elim conjE)
  fix s
  assume s: "loop_run closed_while_starting demo_consumer = Some s"
    and r: "\<forall>ls s'. loop_run ls s = Some s' \<longrightarrow> LClose \<in> set ls \<or> LContextDone \<in> set ls \<or>
        lp_main s' = MWait \<and> workers_done s' \<and>
        (\<forall>pol now. fst (Consumer_Assess (Consumer_Health_of (lp_chClosed s') True (lp_health s'))
           up_client pol now) = HealthOK)"
  have t: "loop_run [LTime (10 * minute)] s = Some (s\<lparr>lp_now := lp_now s + 10 * minute\<rparr>)"
    by (simp add: minute_def second_def)
  have "lp_main (s\<lparr>lp_now := lp_now s + 10 * minute\<rparr>) = MWait"
    using r [THEN spec, THEN spec, THEN mp, OF t] by simp
  with s t show ?thesis by (intro exI conjI)
qed

end
