(* ===== verification/Admin.thy ===== *)
theory Admin
  imports Amqp_Types
begin

text \<open>
  Declaring topology: the options of queues, exchanges and bindings, the registry of what was
  declared, and the operations of the admin service (src/admin.go; the configurations of
  src/types.go; the registry of src/topology_validation.go). The broker is a parameter: every
  operation opens a channel, calls one method and closes the channel again.
\<close>

section \<open>Configurations\<close>

type_synonym exchangeType = string

definition ExchangeTypeTopic :: exchangeType where "ExchangeTypeTopic = ''topic''"

record exchangeConfig =
  xc_Name :: string
  xc_Type :: exchangeType
  xc_Durable :: bool
  xc_AutoDelete :: bool
  xc_Internal :: bool
  xc_NoWait :: bool
  xc_Arguments :: table

record bindingConfig =
  bc_QueueName :: string
  bc_ExchangeName :: string
  bc_RoutingKey :: string
  bc_NoWait :: bool
  bc_Arguments :: table

text \<open>The configuration a queue declaration is built in.\<close>

record adminQueueConfig =
  aq_Durable :: bool
  aq_AutoDelete :: bool
  aq_Exclusive :: bool
  aq_NoWait :: bool
  aq_Arguments :: table
  aq_TTL :: duration
  aq_MaxLength :: int
  aq_MaxLengthBytes :: int
  aq_DeadLetterExchange :: string
  aq_DeadLetterRoutingKey :: string
  aq_UseClassicQueue :: bool

record quorumQueueConfig = adminQueueConfig +
  aq_InitialGroupSize :: int
  aq_DeliveryLimit :: int

section \<open>Options\<close>

text \<open>\<open>Duration.Milliseconds\<close> truncates towards zero.\<close>

definition Milliseconds :: "duration \<Rightarrow> int" where
  "Milliseconds d = sgn d * (\<bar>d\<bar> div millisecond)"

datatype queue_option =
    WithDurable
  | WithAutoDelete
  | WithExclusiveQueue
  | WithTTL duration
  | WithMaxLength int
  | WithMaxLengthBytes int
  | WithArguments table
  | WithDeadLetter string string
  | WithDeadLetterTTL duration
  | WithoutDLQ
  | WithClassicQueue
  | WithQuorumGroupSize int
  | WithDeliveryLimit int

definition set_arg :: "string \<Rightarrow> hval \<Rightarrow> 'a adminQueueConfig_scheme \<Rightarrow> 'a adminQueueConfig_scheme" where
  "set_arg k v c = c\<lparr>aq_Arguments := go_put k v (aq_Arguments c)\<rparr>"

fun apply_queue_option :: "queue_option \<Rightarrow> adminQueueConfig \<Rightarrow> adminQueueConfig" where
  "apply_queue_option WithDurable c = c\<lparr>aq_Durable := True\<rparr>"
| "apply_queue_option WithAutoDelete c = c\<lparr>aq_AutoDelete := True\<rparr>"
| "apply_queue_option WithExclusiveQueue c = c\<lparr>aq_Exclusive := True\<rparr>"
| "apply_queue_option (WithTTL ttl) c =
     set_arg ''x-message-ttl'' (VInt64 (Milliseconds ttl)) (c\<lparr>aq_TTL := ttl\<rparr>)"
| "apply_queue_option (WithMaxLength n) c =
     set_arg ''x-max-length'' (VInt64 n) (c\<lparr>aq_MaxLength := n\<rparr>)"
| "apply_queue_option (WithMaxLengthBytes n) c =
     set_arg ''x-max-length-bytes'' (VInt64 n) (c\<lparr>aq_MaxLengthBytes := n\<rparr>)"
| "apply_queue_option (WithArguments args) c =
     c\<lparr>aq_Arguments := maps_Copy (aq_Arguments c) args\<rparr>"
| "apply_queue_option (WithDeadLetter exchange key) c =
     (let c1 = set_arg ''x-dead-letter-exchange'' (VStr exchange)
                 (c\<lparr>aq_DeadLetterExchange := exchange, aq_DeadLetterRoutingKey := key\<rparr>) in
      if key \<noteq> [] then set_arg ''x-dead-letter-routing-key'' (VStr key) c1 else c1)"
| "apply_queue_option (WithDeadLetterTTL ttl) c = c"
| "apply_queue_option WithoutDLQ c = c\<lparr>aq_DeadLetterExchange := [], aq_DeadLetterRoutingKey := []\<rparr>"
| "apply_queue_option WithClassicQueue c = c\<lparr>aq_UseClassicQueue := True\<rparr>"
| "apply_queue_option (WithQuorumGroupSize n) c = set_arg ''x-quorum-initial-group-size'' (VInt n) c"
| "apply_queue_option (WithDeliveryLimit n) c = set_arg ''x-delivery-limit'' (VInt n) c"

datatype quorum_option =
    WithInitialGroupSize int
  | WithQuorumDeliveryLimit int
  | WithoutQuorumDLQ
  | WithQuorumDeadLetter string string

fun apply_quorum_option :: "quorum_option \<Rightarrow> quorumQueueConfig \<Rightarrow> quorumQueueConfig" where
  "apply_quorum_option (WithInitialGroupSize n) c =
     set_arg ''x-quorum-initial-group-size'' (VInt n) (c\<lparr>aq_InitialGroupSize := n\<rparr>)"
| "apply_quorum_option (WithQuorumDeliveryLimit n) c =
     set_arg ''x-delivery-limit'' (VInt n) (c\<lparr>aq_DeliveryLimit := n\<rparr>)"
| "apply_quorum_option WithoutQuorumDLQ c =
     c\<lparr>aq_DeadLetterExchange := [], aq_DeadLetterRoutingKey := []\<rparr>"
| "apply_quorum_option (WithQuorumDeadLetter exchange key) c =
     c\<lparr>aq_DeadLetterExchange := exchange, aq_DeadLetterRoutingKey := key\<rparr>"

datatype exchange_option =
    WithExchangeDurable
  | WithExchangeAutoDelete
  | WithExchangeInternal
  | WithExchangeArguments table

fun apply_exchange_option :: "exchange_option \<Rightarrow> exchangeConfig \<Rightarrow> exchangeConfig" where
  "apply_exchange_option WithExchangeDurable c = c\<lparr>xc_Durable := True\<rparr>"
| "apply_exchange_option WithExchangeAutoDelete c = c\<lparr>xc_AutoDelete := True\<rparr>"
| "apply_exchange_option WithExchangeInternal c = c\<lparr>xc_Internal := True\<rparr>"
| "apply_exchange_option (WithExchangeArguments args) c =
     c\<lparr>xc_Arguments := maps_Copy (xc_Arguments c) args\<rparr>"

datatype binding_option =
    WithBindingNoWait
  | WithBindingHeaders table
  | WithBindingArguments table

fun apply_binding_option :: "binding_option \<Rightarrow> bindingConfig \<Rightarrow> bindingConfig" where
  "apply_binding_option WithBindingNoWait c = c\<lparr>bc_NoWait := True\<rparr>"
| "apply_binding_option (WithBindingHeaders hs) c = c\<lparr>bc_Arguments := maps_Copy (bc_Arguments c) hs\<rparr>"
| "apply_binding_option (WithBindingArguments args) c = c\<lparr>bc_Arguments := args\<rparr>"

section \<open>The registry\<close>

record topologyRegistry =
  rg_exchanges :: "(string, exchangeConfig) go_map"
  rg_queues :: "(string, queueConfig) go_map"
  rg_bindings :: "(string, bindingConfig) go_map"

definition NewTopologyRegistry :: topologyRegistry where
  "NewTopologyRegistry = \<lparr>rg_exchanges = [], rg_queues = [], rg_bindings = []\<rparr>"

definition RegisterExchange :: "exchangeConfig \<Rightarrow> topologyRegistry \<Rightarrow> topologyRegistry" where
  "RegisterExchange c r = r\<lparr>rg_exchanges := go_put (xc_Name c) c (rg_exchanges r)\<rparr>"

definition RegisterQueue :: "queueConfig \<Rightarrow> topologyRegistry \<Rightarrow> topologyRegistry" where
  "RegisterQueue c r = r\<lparr>rg_queues := go_put (qc_Name c) c (rg_queues r)\<rparr>"

definition binding_key :: "string \<Rightarrow> string \<Rightarrow> string \<Rightarrow> string" where
  "binding_key queue exchange routingKey = queue @ ''->'' @ exchange @ '':'' @ routingKey"

definition key_of_binding :: "bindingConfig \<Rightarrow> string" where
  "key_of_binding c = binding_key (bc_QueueName c) (bc_ExchangeName c) (bc_RoutingKey c)"

definition RegisterBinding :: "bindingConfig \<Rightarrow> topologyRegistry \<Rightarrow> topologyRegistry" where
  "RegisterBinding c r = r\<lparr>rg_bindings := go_put (key_of_binding c) c (rg_bindings r)\<rparr>"

definition GetExchange :: "string \<Rightarrow> topologyRegistry \<Rightarrow> exchangeConfig option" where
  "GetExchange name r = go_get (rg_exchanges r) name"

definition GetQueue :: "string \<Rightarrow> topologyRegistry \<Rightarrow> queueConfig option" where
  "GetQueue name r = go_get (rg_queues r) name"

definition GetBinding :: "string \<Rightarrow> string \<Rightarrow> string \<Rightarrow> topologyRegistry \<Rightarrow> bindingConfig option" where
  "GetBinding queue exchange routingKey r = go_get (rg_bindings r) (binding_key queue exchange routingKey)"

text \<open>The lists come in the order of a map iteration: \<open>order\<close> rearranges them.\<close>

definition ListExchanges ::
  "(exchangeConfig list \<Rightarrow> exchangeConfig list) \<Rightarrow> topologyRegistry \<Rightarrow> exchangeConfig list" where
  "ListExchanges order r = order (map snd (rg_exchanges r))"

definition ListQueues :: "(queueConfig list \<Rightarrow> queueConfig list) \<Rightarrow> topologyRegistry \<Rightarrow> queueConfig list" where
  "ListQueues order r = order (map snd (rg_queues r))"

definition ListBindings ::
  "(bindingConfig list \<Rightarrow> bindingConfig list) \<Rightarrow> topologyRegistry \<Rightarrow> bindingConfig list" where
  "ListBindings order r = order (map snd (rg_bindings r))"

definition Clear :: "topologyRegistry \<Rightarrow> topologyRegistry" where
  "Clear r = r\<lparr>rg_exchanges := [], rg_queues := [], rg_bindings := []\<rparr>"

section \<open>The broker\<close>

text \<open>Name, durable, auto-delete, exclusive or internal, no-wait, arguments, in the order of the calls.\<close>

datatype amqp_method =
    QueueDeclare string bool bool bool bool table
  | QueueDeclarePassive string
  | QueueDelete string bool bool bool
  | QueuePurge string
  | QueueBind string string string bool table
  | QueueUnbind string string string table
  | ExchangeDeclare string exchangeType bool bool bool bool table
  | ExchangeDeclarePassive string
  | ExchangeDelete string bool bool
  | ExchangeBind string string string bool table

text \<open>The answer: a name, messages and consumers; a purge counts messages; others have no use for it.\<close>

record queue_info =
  qi_Name :: string
  qi_Messages :: int
  qi_Consumers :: int

text \<open>
  The world outside: \<open>ev_open\<close> is \<open>client.getChannel\<close>, \<open>ev_call\<close> a method call on the channel,
  the others are the iteration orders of the three maps of the registry.
\<close>

record 'b env =
  ev_open :: "'b \<Rightarrow> string option \<times> 'b"
  ev_call :: "amqp_method \<Rightarrow> 'b \<Rightarrow> (string + queue_info) \<times> 'b"
  ev_exchanges :: "'b \<Rightarrow> exchangeConfig list \<Rightarrow> exchangeConfig list"
  ev_queues :: "'b \<Rightarrow> queueConfig list \<Rightarrow> queueConfig list"
  ev_bindings :: "'b \<Rightarrow> bindingConfig list \<Rightarrow> bindingConfig list"

text \<open>
  A session: the outside world, the registry (None without topology validation) and, for the
  statements, the methods called so far.
\<close>

record 'b session =
  se_world :: 'b
  se_registry :: "topologyRegistry option"
  se_sent :: "amqp_method list"

type_synonym ('b, 'a) operation = "'b session \<Rightarrow> (string + 'a) \<times> 'b session"

definition rpc :: "'b env \<Rightarrow> string \<Rightarrow> amqp_method \<Rightarrow> ('b, queue_info) operation" where
  "rpc E what m s =
     (case ev_open E (se_world s) of
        (Some e, w) \<Rightarrow> (Inl (''failed to get channel: '' @ e), s\<lparr>se_world := w\<rparr>)
      | (None, w) \<Rightarrow>
          (case ev_call E m w of
             (Inl e, w') \<Rightarrow> (Inl (what @ '': '' @ e), s\<lparr>se_world := w', se_sent := se_sent s @ [m]\<rparr>)
           | (Inr i, w') \<Rightarrow> (Inr i, s\<lparr>se_world := w', se_sent := se_sent s @ [m]\<rparr>)))"

definition register :: "(topologyRegistry \<Rightarrow> topologyRegistry) \<Rightarrow> 'b session \<Rightarrow> 'b session" where
  "register f s = s\<lparr>se_registry := map_option f (se_registry s)\<rparr>"

text \<open>One operation after another, stopping at the first error; and the same for each of a list.\<close>

definition and_then ::
  "('b, 'a) operation \<Rightarrow> ('a \<Rightarrow> ('b, 'c) operation) \<Rightarrow> ('b, 'c) operation" where
  "and_then f g s = (case f s of (Inl e, s') \<Rightarrow> (Inl e, s') | (Inr x, s') \<Rightarrow> g x s')"

definition op_ok :: "('b, unit) operation" where "op_ok s = (Inr (), s)"

definition in_context :: "string \<Rightarrow> ('b, 'a) operation \<Rightarrow> ('b, 'a) operation" where
  "in_context what f s = (case f s of (Inl e, s') \<Rightarrow> (Inl (what @ '': '' @ e), s') | r \<Rightarrow> r)"

fun each :: "('x \<Rightarrow> ('b, 'a) operation) \<Rightarrow> 'x list \<Rightarrow> ('b, unit) operation" where
  "each f [] = op_ok"
| "each f (x # xs) = and_then (f x) (\<lambda>_. each f xs)"

section \<open>Queues\<close>

definition default_queue :: adminQueueConfig where
  "default_queue =
     \<lparr>aq_Durable = True, aq_AutoDelete = False, aq_Exclusive = False, aq_NoWait = False,
      aq_Arguments = [], aq_TTL = 0, aq_MaxLength = 0, aq_MaxLengthBytes = 0,
      aq_DeadLetterExchange = [], aq_DeadLetterRoutingKey = [], aq_UseClassicQueue = False\<rparr>"

definition default_quorum_queue :: quorumQueueConfig where
  "default_quorum_queue =
     \<lparr>aq_Durable = True, aq_AutoDelete = False, aq_Exclusive = False, aq_NoWait = False,
      aq_Arguments = [(''x-queue-type'', VStr ''quorum'')], aq_TTL = 0, aq_MaxLength = 0,
      aq_MaxLengthBytes = 0, aq_DeadLetterExchange = [], aq_DeadLetterRoutingKey = [],
      aq_UseClassicQueue = False, aq_InitialGroupSize = 3, aq_DeliveryLimit = 0\<rparr>"

definition registered_queue :: "string \<Rightarrow> queueType \<Rightarrow> 'a adminQueueConfig_scheme \<Rightarrow> queueConfig" where
  "registered_queue name kind c =
     \<lparr>qc_Name = name, qc_Durable = aq_Durable c, qc_AutoDelete = aq_AutoDelete c,
      qc_Exclusive = aq_Exclusive c, qc_NoWait = False, qc_Arguments = aq_Arguments c,
      qc_QueueType = kind, qc_HighAvailability = False, qc_ReplicationFactor = 0, qc_MaxLength = 0,
      qc_MaxLengthBytes = 0, qc_MessageTTL = 0, qc_DeadLetterExchange = aq_DeadLetterExchange c,
      qc_DeadLetterRoutingKey = aq_DeadLetterRoutingKey c\<rparr>"

definition queue_method :: "string \<Rightarrow> 'a adminQueueConfig_scheme \<Rightarrow> amqp_method" where
  "queue_method name c =
     QueueDeclare name (aq_Durable c) (aq_AutoDelete c) (aq_Exclusive c) (aq_NoWait c) (aq_Arguments c)"

definition declareQueueLegacy :: "'b env \<Rightarrow> string \<Rightarrow> adminQueueConfig \<Rightarrow> ('b, queue_info) operation" where
  "declareQueueLegacy E name c =
     and_then (rpc E (''failed to declare queue '' @ name) (queue_method name c))
       (\<lambda>i s. (Inr i, register (RegisterQueue (registered_queue name QueueTypeClassic c)) s))"

definition declareQuorumQueueLegacy ::
  "'b env \<Rightarrow> string \<Rightarrow> quorumQueueConfig \<Rightarrow> ('b, queue_info) operation" where
  "declareQuorumQueueLegacy E name c =
     and_then (rpc E (''failed to declare quorum queue '' @ name) (queue_method name c))
       (\<lambda>i s. (Inr i, register (RegisterQueue (registered_queue name QueueTypeQuorum c)) s))"

text \<open>The quorum configuration of a queue configuration; the \<open>QueueConfig\<close> it also builds is not used.\<close>

definition declareQuorumQueueFromConfig ::
  "'b env \<Rightarrow> string \<Rightarrow> adminQueueConfig \<Rightarrow> ('b, queue_info) operation" where
  "declareQuorumQueueFromConfig E name c =
     declareQuorumQueueLegacy E name
       (set_arg ''x-queue-type'' (VStr ''quorum'')
         (adminQueueConfig.extend c
            (quorumQueueConfig.fields 3 0)))"

definition DeclareQueue :: "'b env \<Rightarrow> string \<Rightarrow> queue_option list \<Rightarrow> ('b, queue_info) operation" where
  "DeclareQueue E name opts =
     (let c = fold apply_queue_option opts default_queue in
      if \<not> aq_UseClassicQueue c then declareQuorumQueueFromConfig E name c
      else declareQueueLegacy E name c)"

definition DeclareQuorumQueue :: "'b env \<Rightarrow> string \<Rightarrow> quorum_option list \<Rightarrow> ('b, queue_info) operation" where
  "DeclareQuorumQueue E name opts =
     declareQuorumQueueLegacy E name (fold apply_quorum_option opts default_quorum_queue)"

definition DeclareQueueWithDLQ :: "'b env \<Rightarrow> queueConfig \<Rightarrow> ('b, queue_info) operation" where
  "DeclareQueueWithDLQ E c =
     rpc E (''failed to declare queue '' @ qc_Name c)
       (QueueDeclare (qc_Name c) (qc_Durable c) (qc_AutoDelete c) (qc_Exclusive c) (qc_NoWait c)
          (ToArguments c))"

definition DeclareQuorumQueueWithDLQ ::
  "'b env \<Rightarrow> string \<Rightarrow> (queueConfig \<Rightarrow> queueConfig) list \<Rightarrow> ('b, queue_info) operation" where
  "DeclareQuorumQueueWithDLQ E name opts =
     DeclareQueueWithDLQ E (fold (\<lambda>f. f) opts (DefaultQuorumQueueConfig name))"

definition DeclareHAQueueWithDLQ ::
  "'b env \<Rightarrow> string \<Rightarrow> (queueConfig \<Rightarrow> queueConfig) list \<Rightarrow> ('b, queue_info) operation" where
  "DeclareHAQueueWithDLQ E name opts =
     DeclareQueueWithDLQ E (fold (\<lambda>f. f) opts (DefaultHAQueueConfig name))"

definition DeclareClassicQueueWithDLQ ::
  "'b env \<Rightarrow> string \<Rightarrow> (queueConfig \<Rightarrow> queueConfig) list \<Rightarrow> ('b, queue_info) operation" where
  "DeclareClassicQueueWithDLQ E name opts =
     DeclareQueueWithDLQ E (fold (\<lambda>f. f) opts (DefaultClassicQueueConfig name))"

text \<open>There is no option of the package for a deletion, so the flags are the defaults.\<close>

definition DeleteQueue :: "'b env \<Rightarrow> string \<Rightarrow> ('b, unit) operation" where
  "DeleteQueue E name =
     and_then (rpc E (''failed to delete queue '' @ name) (QueueDelete name False False False)) (\<lambda>_. op_ok)"

definition PurgeQueue :: "'b env \<Rightarrow> string \<Rightarrow> ('b, int) operation" where
  "PurgeQueue E name =
     and_then (rpc E (''failed to purge queue '' @ name) (QueuePurge name))
       (\<lambda>i s. (Inr (qi_Messages i), s))"

record queueInfo = queue_info +
  qi_Memory :: int
  qi_Durable :: bool
  qi_AutoDelete :: bool
  qi_Exclusive :: bool
  qi_Arguments :: table
  qi_VHost :: string
  qi_Node :: string

definition InspectQueue :: "'b env \<Rightarrow> string \<Rightarrow> ('b, queueInfo) operation" where
  "InspectQueue E name =
     and_then (rpc E (''failed to inspect queue '' @ name) (QueueDeclarePassive name))
       (\<lambda>i s. (Inr (queue_info.extend i
          (queueInfo.fields 0 False False False [] ''/'' [])), s))"

text \<open>Every error of the passive declaration, other than that of getting a channel, means no.\<close>

definition exists_by :: "'b env \<Rightarrow> amqp_method \<Rightarrow> ('b, bool) operation" where
  "exists_by E m s =
     (case ev_open E (se_world s) of
        (Some e, w) \<Rightarrow> (Inl (''failed to get channel: '' @ e), s\<lparr>se_world := w\<rparr>)
      | (None, w) \<Rightarrow>
          (let (r, w') = ev_call E m w in
           (Inr (case r of Inl _ \<Rightarrow> False | Inr _ \<Rightarrow> True),
            s\<lparr>se_world := w', se_sent := se_sent s @ [m]\<rparr>)))"

definition QueueExists :: "'b env \<Rightarrow> string \<Rightarrow> ('b, bool) operation" where
  "QueueExists E name = exists_by E (QueueDeclarePassive name)"

section \<open>Exchanges and bindings\<close>

definition default_exchange :: "string \<Rightarrow> exchangeType \<Rightarrow> exchangeConfig" where
  "default_exchange name kind =
     \<lparr>xc_Name = name, xc_Type = kind, xc_Durable = True, xc_AutoDelete = False, xc_Internal = False,
      xc_NoWait = False, xc_Arguments = []\<rparr>"

definition exchange_method :: "exchangeConfig \<Rightarrow> amqp_method" where
  "exchange_method c =
     ExchangeDeclare (xc_Name c) (xc_Type c) (xc_Durable c) (xc_AutoDelete c) (xc_Internal c)
       (xc_NoWait c) (xc_Arguments c)"

definition DeclareExchange ::
  "'b env \<Rightarrow> string \<Rightarrow> exchangeType \<Rightarrow> exchange_option list \<Rightarrow> ('b, unit) operation" where
  "DeclareExchange E name kind opts =
     (let c = fold apply_exchange_option opts (default_exchange name kind) in
      and_then (rpc E (''failed to declare exchange '' @ name) (exchange_method c))
        (\<lambda>_ s. (Inr (), register (RegisterExchange c) s)))"

definition DeleteExchange :: "'b env \<Rightarrow> string \<Rightarrow> ('b, unit) operation" where
  "DeleteExchange E name =
     and_then (rpc E (''failed to delete exchange '' @ name) (ExchangeDelete name False False)) (\<lambda>_. op_ok)"

record exchangeInfo =
  xi_Name :: string
  xi_Type :: exchangeType
  xi_Durable :: bool
  xi_AutoDelete :: bool
  xi_Internal :: bool
  xi_Arguments :: table
  xi_VHost :: string

definition ExchangeInfo :: "'b env \<Rightarrow> string \<Rightarrow> ('b, exchangeInfo) operation" where
  "ExchangeInfo E name =
     and_then (rpc E (''failed to get exchange info for '' @ name) (ExchangeDeclarePassive name))
       (\<lambda>_ s. (Inr \<lparr>xi_Name = name, xi_Type = [], xi_Durable = False, xi_AutoDelete = False,
                    xi_Internal = False, xi_Arguments = [], xi_VHost = ''/''\<rparr>, s))"

definition ExchangeExists :: "'b env \<Rightarrow> string \<Rightarrow> ('b, bool) operation" where
  "ExchangeExists E name = exists_by E (ExchangeDeclarePassive name)"

definition default_binding :: "string \<Rightarrow> string \<Rightarrow> string \<Rightarrow> bindingConfig" where
  "default_binding queue exchange routingKey =
     \<lparr>bc_QueueName = queue, bc_ExchangeName = exchange, bc_RoutingKey = routingKey,
      bc_NoWait = False, bc_Arguments = []\<rparr>"

text \<open>The registered binding keeps the arguments, and no-wait as false.\<close>

definition BindQueue ::
  "'b env \<Rightarrow> string \<Rightarrow> string \<Rightarrow> string \<Rightarrow> binding_option list \<Rightarrow> ('b, unit) operation" where
  "BindQueue E queue exchange routingKey opts =
     (let c = fold apply_binding_option opts (default_binding queue exchange routingKey) in
      and_then
        (rpc E (''failed to bind queue '' @ queue @ '' to exchange '' @ exchange)
          (QueueBind queue routingKey exchange (bc_NoWait c) (bc_Arguments c)))
        (\<lambda>_ s. (Inr (), register (RegisterBinding (c\<lparr>bc_NoWait := False\<rparr>)) s)))"

definition UnbindQueue ::
  "'b env \<Rightarrow> string \<Rightarrow> string \<Rightarrow> string \<Rightarrow> binding_option list \<Rightarrow> ('b, unit) operation" where
  "UnbindQueue E queue exchange routingKey opts =
     (let c = fold apply_binding_option opts (default_binding queue exchange routingKey) in
      and_then
        (rpc E (''failed to unbind queue '' @ queue @ '' from exchange '' @ exchange)
          (QueueUnbind queue routingKey exchange (bc_Arguments c)))
        (\<lambda>_. op_ok))"

definition BindExchange ::
  "'b env \<Rightarrow> string \<Rightarrow> string \<Rightarrow> string \<Rightarrow> table \<Rightarrow> ('b, unit) operation" where
  "BindExchange E destination source routingKey args =
     and_then
       (rpc E (''failed to bind exchange '' @ destination @ '' to exchange '' @ source)
         (ExchangeBind destination routingKey source False args))
       (\<lambda>_. op_ok)"

section \<open>A complete topology\<close>

record queueDeclaration =
  qd_Name :: string
  qd_Durable :: bool
  qd_AutoDelete :: bool
  qd_Exclusive :: bool
  qd_Arguments :: table
  qd_TTL :: duration
  qd_DeadLetter :: string

text \<open>An exchange declaration has the fields of \<open>ExchangeConfig\<close>, a binding those of \<open>BindingConfig\<close>.\<close>

record topology =
  tp_Exchanges :: "exchangeConfig list"
  tp_Queues :: "queueDeclaration list"
  tp_Bindings :: "bindingConfig list"

definition exchange_options :: "exchangeConfig \<Rightarrow> exchange_option list" where
  "exchange_options c =
     (if xc_Durable c then [WithExchangeDurable] else []) @
     (if xc_AutoDelete c then [WithExchangeAutoDelete] else []) @
     (if xc_Internal c then [WithExchangeInternal] else []) @
     [WithExchangeArguments (xc_Arguments c)]"

definition declaration_options :: "queueDeclaration \<Rightarrow> queue_option list" where
  "declaration_options q =
     (if qd_Durable q then [WithDurable] else []) @
     (if qd_AutoDelete q then [WithAutoDelete] else []) @
     (if qd_Exclusive q then [WithExclusiveQueue] else []) @
     (if qd_TTL q > 0 then [WithTTL (qd_TTL q)] else []) @
     (if qd_DeadLetter q \<noteq> [] then [WithDeadLetter (qd_DeadLetter q) []] else []) @
     [WithArguments (qd_Arguments q)]"

definition config_options :: "queueConfig \<Rightarrow> queue_option list" where
  "config_options q =
     (if qc_Durable q then [WithDurable] else []) @
     (if qc_AutoDelete q then [WithAutoDelete] else []) @
     (if qc_Exclusive q then [WithExclusiveQueue] else []) @
     [WithArguments (qc_Arguments q)]"

definition declare_exchange :: "'b env \<Rightarrow> exchangeConfig \<Rightarrow> ('b, unit) operation" where
  "declare_exchange E c =
     in_context (''failed to declare exchange '' @ xc_Name c)
       (DeclareExchange E (xc_Name c) (xc_Type c) (exchange_options c))"

definition bind_queue :: "'b env \<Rightarrow> bindingConfig \<Rightarrow> ('b, unit) operation" where
  "bind_queue E c =
     in_context (''failed to bind queue '' @ bc_QueueName c @ '' to exchange '' @ bc_ExchangeName c)
       (BindQueue E (bc_QueueName c) (bc_ExchangeName c) (bc_RoutingKey c)
          [WithBindingArguments (bc_Arguments c)])"

definition DeclareTopology :: "'b env \<Rightarrow> topology \<Rightarrow> ('b, unit) operation" where
  "DeclareTopology E t =
     and_then (each (declare_exchange E) (tp_Exchanges t)) (\<lambda>_.
     and_then
       (each (\<lambda>q. in_context (''failed to declare queue '' @ qd_Name q)
                   (DeclareQueue E (qd_Name q) (declaration_options q)))
         (tp_Queues t)) (\<lambda>_.
     each (bind_queue E) (tp_Bindings t)))"

definition SetupTopology ::
  "'b env \<Rightarrow> exchangeConfig list \<Rightarrow> queueConfig list \<Rightarrow> bindingConfig list \<Rightarrow> ('b, unit) operation" where
  "SetupTopology E exchanges queues bindings =
     and_then (each (declare_exchange E) exchanges) (\<lambda>_.
     and_then
       (each (\<lambda>q. in_context (''failed to declare queue '' @ qc_Name q)
                   (DeclareQueue E (qc_Name q) (config_options q)))
         queues) (\<lambda>_.
     each (bind_queue E) bindings))"

section \<open>Registries keyed by name\<close>

text \<open>What the validator relies on: registering changes the entry of one key only.\<close>

locale keyed_registry =
  fixes key :: "'c \<Rightarrow> string"
    and reg :: "'c \<Rightarrow> topologyRegistry \<Rightarrow> topologyRegistry"
    and get :: "topologyRegistry \<Rightarrow> string \<Rightarrow> 'c option"
  assumes get_reg: "get (reg c r) k = (if k = key c then Some c else get r k)"
begin

definition keyed :: "topologyRegistry \<Rightarrow> bool" where
  "keyed r \<longleftrightarrow> (\<forall>k c. get r k = Some c \<longrightarrow> key c = k)"

lemma keyed_reg: "keyed r \<Longrightarrow> keyed (reg c r)"
  by (simp add: keyed_def get_reg)

lemma reg_dom: "dom (get (reg c r)) = insert (key c) (dom (get r))"
  by (auto simp: get_reg dom_def split: if_splits)

lemma reg_again: "get (reg c (reg c r)) = get (reg c r)"
  by (rule ext) (simp add: get_reg)

lemma reg_commute: "key c \<noteq> key d \<Longrightarrow> get (reg c (reg d r)) = get (reg d (reg c r))"
  by (rule ext) (simp add: get_reg)

lemma reg_ran:
  "keyed r \<Longrightarrow> ran (get (reg c r)) = insert c {d \<in> ran (get r). key d \<noteq> key c}"
  by (auto simp: ran_def get_reg keyed_def split: if_splits)

lemma reg_same_image:
  assumes "keyed r" and "c0 \<in> ran (get r)" and "key c0 = key c" and "f c0 = f c"
  shows "f ` ran (get (reg c r)) = f ` ran (get r)"
proof -
  have "get r (key c) = Some c0" using assms by (auto simp: ran_def keyed_def)
  then have one: "d = c0" if "d \<in> ran (get r)" "key d = key c" for d
    using that assms(1) by (auto simp: ran_def keyed_def)
  have "{d \<in> ran (get r). key d \<noteq> key c} = ran (get r) - {c0}"
    using one assms(3) by blast
  then have "f ` ran (get (reg c r)) = insert (f c0) (f ` (ran (get r) - {c0}))"
    by (simp add: reg_ran [OF assms(1)] assms(4))
  also have "\<dots> = f ` ran (get r)" using assms(2) by (metis image_insert insert_Diff)
  finally show ?thesis .
qed

end

definition get_exchange :: "topologyRegistry \<Rightarrow> string \<Rightarrow> exchangeConfig option" where
  "get_exchange r name = GetExchange name r"

definition get_queue :: "topologyRegistry \<Rightarrow> string \<Rightarrow> queueConfig option" where
  "get_queue r name = GetQueue name r"

definition get_binding :: "topologyRegistry \<Rightarrow> string \<Rightarrow> bindingConfig option" where
  "get_binding r k = go_get (rg_bindings r) k"

interpretation exchanges: keyed_registry xc_Name RegisterExchange get_exchange
  by unfold_locales (simp add: get_exchange_def GetExchange_def RegisterExchange_def)

interpretation queues: keyed_registry qc_Name RegisterQueue get_queue
  by unfold_locales (simp add: get_queue_def GetQueue_def RegisterQueue_def)

interpretation bindings: keyed_registry key_of_binding RegisterBinding get_binding
  by unfold_locales (simp add: get_binding_def RegisterBinding_def)

section \<open>What an operation sends\<close>

lemma rpc_sent:
  "se_sent (snd (rpc E what m s)) =
     (if fst (ev_open E (se_world s)) = None then se_sent s @ [m] else se_sent s)"
  by (auto simp: rpc_def split: prod.splits option.splits sum.splits)

lemma rpc_registry [simp]: "se_registry (snd (rpc E what m s)) = se_registry s"
  by (auto simp: rpc_def split: prod.splits option.splits sum.splits)

lemma register_simps [simp]:
  "se_sent (register f s) = se_sent s" "se_world (register f s) = se_world s"
  "se_registry (register f s) = map_option f (se_registry s)"
  by (simp_all add: register_def)

lemma sent_and_register:
  "se_sent (snd (and_then f (\<lambda>i s'. (Inr (g i), register (h i) s')) s)) = se_sent (snd (f s))"
  by (auto simp: and_then_def split: prod.splits sum.splits)

lemma DeclareQueue_sent:
  "se_sent (snd (DeclareQueue E name opts s)) =
     (if fst (ev_open E (se_world s)) = None
      then se_sent s @
        [let c = fold apply_queue_option opts default_queue in
         queue_method name
           (if aq_UseClassicQueue c then c else set_arg ''x-queue-type'' (VStr ''quorum'') c)]
      else se_sent s)"
  by (simp add: DeclareQueue_def declareQuorumQueueFromConfig_def declareQuorumQueueLegacy_def
      declareQueueLegacy_def sent_and_register [where g = "\<lambda>i. i"] rpc_sent Let_def queue_method_def
      set_arg_def adminQueueConfig.defs quorumQueueConfig.defs)

lemma apply_queue_option_fields:
  "aq_Durable (apply_queue_option opt c) = (aq_Durable c \<or> opt = WithDurable)"
  "aq_AutoDelete (apply_queue_option opt c) = (aq_AutoDelete c \<or> opt = WithAutoDelete)"
  "aq_Exclusive (apply_queue_option opt c) = (aq_Exclusive c \<or> opt = WithExclusiveQueue)"
  "aq_NoWait (apply_queue_option opt c) = aq_NoWait c"
  "aq_UseClassicQueue (apply_queue_option opt c) = (aq_UseClassicQueue c \<or> opt = WithClassicQueue)"
  by (cases opt; simp add: set_arg_def Let_def)+

lemma fold_queue_options:
  "aq_Durable (fold apply_queue_option opts c) = (aq_Durable c \<or> WithDurable \<in> set opts)"
  "aq_AutoDelete (fold apply_queue_option opts c) = (aq_AutoDelete c \<or> WithAutoDelete \<in> set opts)"
  "aq_Exclusive (fold apply_queue_option opts c) = (aq_Exclusive c \<or> WithExclusiveQueue \<in> set opts)"
  "aq_NoWait (fold apply_queue_option opts c) = aq_NoWait c"
  "aq_UseClassicQueue (fold apply_queue_option opts c) =
     (aq_UseClassicQueue c \<or> WithClassicQueue \<in> set opts)"
  by (induction opts arbitrary: c) (auto simp: apply_queue_option_fields)

text \<open>A queue is declared durable, and a quorum queue whatever its arguments say, unless
  WithClassicQueue is among the options; auto-delete and exclusive are as asked for.\<close>

lemma queue_declared_as_asked:
  assumes "fst (ev_open E (se_world s)) = None"
  shows "\<exists>args. se_sent (snd (DeclareQueue E name opts s)) =
      se_sent s @
        [QueueDeclare name True (WithAutoDelete \<in> set opts) (WithExclusiveQueue \<in> set opts) False args] \<and>
    (WithClassicQueue \<notin> set opts \<longrightarrow> go_get args ''x-queue-type'' = Some (VStr ''quorum''))"
  using assms
  by (simp add: DeclareQueue_sent Let_def queue_method_def fold_queue_options set_arg_def)
    (simp add: default_queue_def)

text \<open>A broker that accepts everything.\<close>

definition accepting_env :: "unit env" where
  "accepting_env =
     \<lparr>ev_open = (\<lambda>w. (None, w)),
      ev_call = (\<lambda>m w. (Inr \<lparr>qi_Name = [], qi_Messages = 0, qi_Consumers = 0\<rparr>, w)),
      ev_exchanges = (\<lambda>w xs. xs), ev_queues = (\<lambda>w xs. xs), ev_bindings = (\<lambda>w xs. xs)\<rparr>"

definition new_session :: "unit session" where
  "new_session = \<lparr>se_world = (), se_registry = Some NewTopologyRegistry, se_sent = []\<rparr>"

lemma queue_declared_as_asked_witness:
  "\<exists>args. se_sent (snd (DeclareQueue accepting_env ''q'' [WithDeliveryLimit 5] new_session)) =
     [QueueDeclare ''q'' True False False False args] \<and>
     go_get args ''x-queue-type'' = Some (VStr ''quorum'')"
proof -
  have "fst (ev_open accepting_env (se_world new_session)) = None" by (simp add: accepting_env_def)
  from queue_declared_as_asked [OF this, of "''q''" "[WithDeliveryLimit 5]"] show ?thesis
    by (simp add: new_session_def)
qed

section \<open>Dead lettering\<close>

text \<open>Two configurations that differ at most in the dead-letter fields and the sizes.\<close>

definition same_declaration :: "'a adminQueueConfig_scheme \<Rightarrow> 'a adminQueueConfig_scheme \<Rightarrow> bool" where
  "same_declaration c c' \<longleftrightarrow>
     aq_Durable c = aq_Durable c' \<and> aq_AutoDelete c = aq_AutoDelete c' \<and>
     aq_Exclusive c = aq_Exclusive c' \<and> aq_NoWait c = aq_NoWait c' \<and>
     aq_Arguments c = aq_Arguments c' \<and> aq_UseClassicQueue c = aq_UseClassicQueue c'"

lemma same_declaration_method:
  "same_declaration c c' \<Longrightarrow>
   queue_method name c = queue_method name c' \<and> aq_UseClassicQueue c = aq_UseClassicQueue c'"
  "same_declaration c c' \<Longrightarrow>
   queue_method name (set_arg k v c) = queue_method name (set_arg k v c')"
  by (simp_all add: same_declaration_def queue_method_def set_arg_def)

lemma fold_queue_option_cong:
  "same_declaration c c' \<Longrightarrow>
   same_declaration (fold apply_queue_option opts c) (fold apply_queue_option opts c')"
proof (induction opts arbitrary: c c')
  case (Cons opt opts)
  have "same_declaration (apply_queue_option opt c) (apply_queue_option opt c')"
    using Cons.prems by (cases opt) (simp_all add: same_declaration_def set_arg_def Let_def)
  then show ?case using Cons.IH by simp
qed simp

lemma fold_quorum_option_cong:
  "same_declaration c c' \<Longrightarrow>
   same_declaration (fold apply_quorum_option opts c) (fold apply_quorum_option opts c')"
proof (induction opts arbitrary: c c')
  case (Cons opt opts)
  have "same_declaration (apply_quorum_option opt c) (apply_quorum_option opt c')"
    using Cons.prems by (cases opt) (simp_all add: same_declaration_def set_arg_def)
  then show ?case using Cons.IH by simp
qed simp

lemma DeclareQueue_sent_cong:
  assumes "same_declaration (fold apply_queue_option o1 default_queue)
             (fold apply_queue_option o2 default_queue)"
  shows "se_sent (snd (DeclareQueue E name o1 s)) = se_sent (snd (DeclareQueue E name o2 s))"
  unfolding DeclareQueue_sent Let_def
  using same_declaration_method [OF assms] by presburger

lemma DeclareQuorumQueue_sent:
  "se_sent (snd (DeclareQuorumQueue E name opts s)) =
     (if fst (ev_open E (se_world s)) = None
      then se_sent s @ [queue_method name (fold apply_quorum_option opts default_quorum_queue)]
      else se_sent s)"
  by (simp add: DeclareQuorumQueue_def declareQuorumQueueLegacy_def
      sent_and_register [where g = "\<lambda>i. i"] rpc_sent)

text \<open>Two dead-letter options change nothing of what is declared: WithoutDLQ does not undo a
  WithDeadLetter before it, and WithQuorumDeadLetter gives a quorum queue no dead-letter exchange.\<close>

lemma dead_letter_options_without_effect:
  "se_sent (snd (DeclareQueue E name (opts @ WithoutDLQ # opts') s)) =
     se_sent (snd (DeclareQueue E name (opts @ opts') s)) \<and>
   se_sent (snd (DeclareQuorumQueue E name (qopts @ WithQuorumDeadLetter exchange key # qopts') s)) =
     se_sent (snd (DeclareQuorumQueue E name (qopts @ qopts') s))"
proof
  show "se_sent (snd (DeclareQueue E name (opts @ WithoutDLQ # opts') s)) =
     se_sent (snd (DeclareQueue E name (opts @ opts') s))"
    by (rule DeclareQueue_sent_cong)
      (simp, rule fold_queue_option_cong, simp add: same_declaration_def)
  have "same_declaration (fold apply_quorum_option (qopts @ WithQuorumDeadLetter exchange key # qopts')
       default_quorum_queue) (fold apply_quorum_option (qopts @ qopts') default_quorum_queue)"
    by (simp, rule fold_quorum_option_cong, simp add: same_declaration_def)
  from same_declaration_method(1) [OF this]
  show "se_sent (snd (DeclareQuorumQueue E name
       (qopts @ WithQuorumDeadLetter exchange key # qopts') s)) =
     se_sent (snd (DeclareQuorumQueue E name (qopts @ qopts') s))"
    by (simp add: DeclareQuorumQueue_sent)
qed

section \<open>Binding keys\<close>

lemma split_at: "a \<notin> set xs \<Longrightarrow> a \<notin> set ys \<Longrightarrow> xs @ a # zs = ys @ a # ws \<Longrightarrow> xs = ys \<and> zs = ws"
  by (induction xs arbitrary: ys; case_tac ys; auto)

text \<open>The registry keeps all bindings apart whose queue names have no greater-than sign and
  whose exchange names have no colon; without that a binding can replace another one.\<close>

lemma binding_keys_distinct:
  "(\<forall>q x k q' x' k'. CHR ''>'' \<notin> set q \<longrightarrow> CHR ''>'' \<notin> set q' \<longrightarrow> CHR '':'' \<notin> set x \<longrightarrow>
      CHR '':'' \<notin> set x' \<longrightarrow> binding_key q x k = binding_key q' x' k' \<longrightarrow> (q, x, k) = (q', x', k')) \<and>
   rg_bindings (RegisterBinding (default_binding ''q'' ''orders'' ''eu:new'')
     (RegisterBinding (default_binding ''q'' ''orders:eu'' ''new'') NewTopologyRegistry)) =
   [(''q->orders:eu:new'', default_binding ''q'' ''orders'' ''eu:new'')]"
proof (intro conjI allI impI)
  fix q x k q' x' k' :: string
  assume n: "CHR ''>'' \<notin> set q" "CHR ''>'' \<notin> set q'" "CHR '':'' \<notin> set x" "CHR '':'' \<notin> set x'"
    and e: "binding_key q x k = binding_key q' x' k'"
  have s: "(q @ ''-'') @ CHR ''>'' # (x @ CHR '':'' # k) =
      (q' @ ''-'') @ CHR ''>'' # (x' @ CHR '':'' # k')"
    using e by (simp add: binding_key_def)
  have "CHR ''>'' \<notin> set (q @ ''-'')" "CHR ''>'' \<notin> set (q' @ ''-'')" using n(1,2) by simp_all
  note p = split_at [OF this s]
  from split_at [OF n(3,4) conjunct2 [OF p]] p show "(q, x, k) = (q', x', k')" by simp
qed (simp add: RegisterBinding_def key_of_binding_def binding_key_def default_binding_def
    NewTopologyRegistry_def)

lemma binding_keys_distinct_witness:
  "binding_key ''q'' ''x'' ''a'' \<noteq> binding_key ''q'' ''x'' ''b''"
  using conjunct1 [OF binding_keys_distinct, rule_format, of "''q''" "''q''" "''x''" "''x''" "''a''" "''b''"]
  by auto

section \<open>The order of a topology\<close>

text \<open>An operation that makes one method call.\<close>

definition sends :: "('b, 'a) operation \<Rightarrow> amqp_method \<Rightarrow> bool" where
  "sends f m \<longleftrightarrow>
     (\<forall>s. (se_sent (snd (f s)) = se_sent s \<and> (\<exists>e. fst (f s) = Inl e)) \<or>
          se_sent (snd (f s)) = se_sent s @ [m])"

definition sends_all :: "('b, 'a) operation \<Rightarrow> amqp_method list \<Rightarrow> bool" where
  "sends_all f ms \<longleftrightarrow>
     (\<forall>s. \<exists>n. se_sent (snd (f s)) = se_sent s @ take n ms \<and>
            ((\<exists>x. fst (f s) = Inr x) \<longrightarrow> length ms \<le> n))"

lemma sends_rpc: "sends (rpc E what m) m"
  by (auto simp: sends_def rpc_def split: prod.splits option.splits sum.splits)

lemma sends_cases:
  "sends f m \<longleftrightarrow>
     (\<forall>s r s'. f s = (r, s') \<longrightarrow>
        (se_sent s' = se_sent s \<and> (\<exists>e. r = Inl e)) \<or> se_sent s' = se_sent s @ [m])"
  by (auto simp: sends_def) (metis fst_conv snd_conv surj_pair)+

lemma sends_register:
  assumes "sends f m"
  shows "sends (and_then f (\<lambda>i s. (Inr (g i), register (h i) s))) m"
  unfolding sends_def
proof
  fix s
  obtain r s' where r: "f s = (r, s')" by (cases "f s")
  with assms have "se_sent s' = se_sent s \<and> (\<exists>e. r = Inl e) \<or> se_sent s' = se_sent s @ [m]"
    by (auto simp: sends_cases)
  then show "se_sent (snd (and_then f (\<lambda>i s. (Inr (g i), register (h i) s)) s)) = se_sent s \<and>
      (\<exists>e. fst (and_then f (\<lambda>i s. (Inr (g i), register (h i) s)) s) = Inl e) \<or>
    se_sent (snd (and_then f (\<lambda>i s. (Inr (g i), register (h i) s)) s)) = se_sent s @ [m]"
    by (cases r) (auto simp: and_then_def r)
qed

lemma sends_context:
  assumes "sends f m"
  shows "sends (in_context what f) m"
  unfolding sends_def
proof
  fix s
  obtain r s' where r: "f s = (r, s')" by (cases "f s")
  with assms have "se_sent s' = se_sent s \<and> (\<exists>e. r = Inl e) \<or> se_sent s' = se_sent s @ [m]"
    by (auto simp: sends_cases)
  then show "se_sent (snd (in_context what f s)) = se_sent s \<and>
      (\<exists>e. fst (in_context what f s) = Inl e) \<or>
    se_sent (snd (in_context what f s)) = se_sent s @ [m]"
    by (cases r) (auto simp: in_context_def r)
qed

lemma sends_sends_all: "sends f m \<Longrightarrow> sends_all f [m]"
  unfolding sends_def sends_all_def
proof
  fix s
  assume "\<forall>s. se_sent (snd (f s)) = se_sent s \<and> (\<exists>e. fst (f s) = Inl e) \<or>
    se_sent (snd (f s)) = se_sent s @ [m]"
  then consider "se_sent (snd (f s)) = se_sent s" "\<exists>e. fst (f s) = Inl e"
    | "se_sent (snd (f s)) = se_sent s @ [m]" by blast
  then show "\<exists>n. se_sent (snd (f s)) = se_sent s @ take n [m] \<and>
      ((\<exists>x. fst (f s) = Inr x) \<longrightarrow> length [m] \<le> n)"
  proof cases
    case 1
    then show ?thesis by (intro exI [of _ 0]) auto
  next
    case 2
    then show ?thesis by (intro exI [of _ 1]) auto
  qed
qed

lemma sends_all_then:
  assumes f: "sends_all f ms" and g: "\<And>x. sends_all (g x) ns"
  shows "sends_all (and_then f g) (ms @ ns)"
  unfolding sends_all_def
proof
  fix s
  obtain r s1 where r: "f s = (r, s1)" by (cases "f s")
  from f [unfolded sends_all_def, THEN spec, of s] obtain n where
    n: "se_sent s1 = se_sent s @ take n ms" "(\<exists>x. r = Inr x) \<longrightarrow> length ms \<le> n"
    by (auto simp: r)
  show "\<exists>n. se_sent (snd (and_then f g s)) = se_sent s @ take n (ms @ ns) \<and>
      ((\<exists>x. fst (and_then f g s) = Inr x) \<longrightarrow> length (ms @ ns) \<le> n)"
  proof (cases r)
    case (Inl e)
    with n r show ?thesis
      by (intro exI [of _ "min n (length ms)"]) (auto simp: and_then_def min_def)
  next
    case (Inr x)
    from g [of x, unfolded sends_all_def, THEN spec, of s1] obtain k where
      "se_sent (snd (g x s1)) = se_sent s1 @ take k ns"
      "(\<exists>y. fst (g x s1) = Inr y) \<longrightarrow> length ns \<le> k"
      by blast
    with n r Inr show ?thesis
      by (intro exI [of _ "length ms + k"]) (auto simp: and_then_def)
  qed
qed

lemma sends_all_each: "(\<And>x. sends (f x) (m x)) \<Longrightarrow> sends_all (each f xs) (map m xs)"
proof (induction xs)
  case Nil
  then show ?case by (auto simp: sends_all_def op_ok_def)
next
  case (Cons x xs)
  from sends_all_then [OF sends_sends_all [OF Cons.prems], of "\<lambda>_. each f xs" "map m xs" x] Cons
  show ?case by simp
qed

lemma sends_DeclareExchange:
  "sends (DeclareExchange E name kind opts)
     (exchange_method (fold apply_exchange_option opts (default_exchange name kind)))"
  unfolding DeclareExchange_def Let_def by (rule sends_register [OF sends_rpc])

definition declared_queue :: "string \<Rightarrow> queue_option list \<Rightarrow> amqp_method" where
  "declared_queue name opts =
     queue_method name
       (let c = fold apply_queue_option opts default_queue in
        if aq_UseClassicQueue c then c else set_arg ''x-queue-type'' (VStr ''quorum'') c)"

lemma sends_DeclareQueue: "sends (DeclareQueue E name opts) (declared_queue name opts)"
proof -
  have "queue_method name (set_arg k v (adminQueueConfig.extend c (quorumQueueConfig.fields 3 0))) =
      queue_method name (set_arg k v c)" for k v and c :: adminQueueConfig
    by (simp add: queue_method_def set_arg_def adminQueueConfig.defs quorumQueueConfig.defs)
  then show ?thesis
    unfolding DeclareQueue_def declareQuorumQueueFromConfig_def declareQuorumQueueLegacy_def
      declareQueueLegacy_def declared_queue_def Let_def
    by (auto split: if_splits intro: sends_register [where g = "\<lambda>i. i", OF sends_rpc])
qed

lemma sends_BindQueue:
  "sends (BindQueue E q x k [WithBindingArguments args]) (QueueBind q k x False args)"
  using sends_register [OF sends_rpc, where g = "\<lambda>i. ()"]
  by (simp add: BindQueue_def Let_def default_binding_def)

definition topology_methods :: "topology \<Rightarrow> amqp_method list" where
  "topology_methods t =
     map (\<lambda>c. exchange_method (c\<lparr>xc_Durable := True, xc_NoWait := False,
                                 xc_Arguments := maps_Copy [] (xc_Arguments c)\<rparr>)) (tp_Exchanges t) @
     map (\<lambda>q. declared_queue (qd_Name q) (declaration_options q)) (tp_Queues t) @
     map (\<lambda>c. QueueBind (bc_QueueName c) (bc_RoutingKey c) (bc_ExchangeName c) False (bc_Arguments c))
       (tp_Bindings t)"

lemma sends_declare_exchange:
  "sends (declare_exchange E c)
     (exchange_method (c\<lparr>xc_Durable := True, xc_NoWait := False,
                         xc_Arguments := maps_Copy [] (xc_Arguments c)\<rparr>))"
proof -
  have "exchange_method (c\<lparr>xc_Durable := True, xc_NoWait := False,
      xc_Arguments := maps_Copy [] (xc_Arguments c)\<rparr>) =
    exchange_method (fold apply_exchange_option (exchange_options c)
      (default_exchange (xc_Name c) (xc_Type c)))"
    by (simp add: exchange_options_def default_exchange_def exchange_method_def)
  then show ?thesis
    unfolding declare_exchange_def by (simp only: sends_context [OF sends_DeclareExchange])
qed

text \<open>DeclareTopology declares exchanges before queues and queues before bindings, in the order
  given, and stops at the first error; it is successful only after all of them. What is sent does
  not depend on the durable flags: everything is declared durable.\<close>

lemma topology_declared_in_order:
  "(\<exists>n. se_sent (snd (DeclareTopology E t s)) = se_sent s @ take n (topology_methods t)) \<and>
   (fst (DeclareTopology E t s) = Inr () \<longrightarrow>
      se_sent (snd (DeclareTopology E t s)) = se_sent s @ topology_methods t) \<and>
   (\<forall>m \<in> set (topology_methods t).
      case m of ExchangeDeclare name kind durable autoDelete internal noWait args \<Rightarrow> durable
      | QueueDeclare name durable autoDelete exclusive noWait args \<Rightarrow> durable
      | _ \<Rightarrow> True)"
proof -
  have "sends_all (DeclareTopology E t) (topology_methods t)"
    unfolding DeclareTopology_def topology_methods_def bind_queue_def
    by (intro sends_all_then sends_all_each sends_context sends_declare_exchange
        sends_DeclareQueue sends_BindQueue)
  then obtain n where n: "se_sent (snd (DeclareTopology E t s)) = se_sent s @ take n (topology_methods t)"
    and l: "(\<exists>x. fst (DeclareTopology E t s) = Inr x) \<longrightarrow> length (topology_methods t) \<le> n"
    by (auto simp: sends_all_def)
  have d: "aq_Durable (fold apply_queue_option opts default_queue)" for opts
    by (simp add: fold_queue_options default_queue_def)
  have "case declared_queue name opts of QueueDeclare name durable autoDelete exclusive noWait args \<Rightarrow>
      durable | _ \<Rightarrow> True" for name opts
    using d by (simp add: declared_queue_def queue_method_def set_arg_def Let_def)
  with n l show ?thesis
    by (auto simp: topology_methods_def exchange_method_def declared_queue_def queue_method_def
        set_arg_def Let_def d)
qed

definition demo_topology :: topology where
  "demo_topology =
     \<lparr>tp_Exchanges = [(default_exchange ''orders'' ExchangeTypeTopic)\<lparr>xc_Durable := False\<rparr>],
      tp_Queues = [\<lparr>qd_Name = ''q'', qd_Durable = False, qd_AutoDelete = False, qd_Exclusive = False,
                    qd_Arguments = [], qd_TTL = 0, qd_DeadLetter = []\<rparr>],
      tp_Bindings = [default_binding ''q'' ''orders'' ''new'']\<rparr>"

lemma topology_declared_in_order_witness:
  "se_sent (snd (DeclareTopology accepting_env demo_topology new_session)) =
     topology_methods demo_topology"
proof -
  have "fst (DeclareTopology accepting_env demo_topology new_session) = Inr ()"
    by (simp add: demo_topology_def DeclareTopology_def and_then_def in_context_def op_ok_def
        declare_exchange_def DeclareExchange_def rpc_def accepting_env_def new_session_def Let_def
        DeclareQueue_def declareQuorumQueueFromConfig_def declareQuorumQueueLegacy_def
        declaration_options_def default_queue_def bind_queue_def BindQueue_def)
  with topology_declared_in_order [of accepting_env demo_topology new_session] show ?thesis
    by (simp add: new_session_def)
qed

end
