(* ===== verification/Topology.thy ===== *)
theory Topology
  imports Admin Labelled_Runs
begin

text \<open>
  The topology validator (src/topology_validation.go): it compares what was declared, as the
  registry remembers it, with what the broker has, and declares again what is missing. Loggers
  are left out. A map iteration comes in any order (the orders of the environment).
\<close>

section \<open>The validator\<close>

record topologyValidator =
  tv_enabled :: bool
  tv_autoRecreate :: bool
  tv_validationTimeout :: duration
  tv_backgroundEnabled :: bool
  tv_validationInterval :: duration
  tv_stopCh :: nat
  tv_closed :: "nat \<Rightarrow> bool"

text \<open>A stop channel is a number; 0 is the first one.\<close>

definition NewTopologyValidator :: topologyValidator where
  "NewTopologyValidator =
     \<lparr>tv_enabled = False, tv_autoRecreate = False, tv_validationTimeout = 5 * second,
      tv_backgroundEnabled = False, tv_validationInterval = 30 * second,
      tv_stopCh = 0, tv_closed = (\<lambda>_. False)\<rparr>"

definition Enable :: "topologyValidator \<Rightarrow> topologyValidator" where
  "Enable v = v\<lparr>tv_enabled := True\<rparr>"

definition EnableAutoRecreate :: "topologyValidator \<Rightarrow> topologyValidator" where
  "EnableAutoRecreate v = v\<lparr>tv_autoRecreate := True\<rparr>"

text \<open>Whether a new background loop is started, and the validator.\<close>

definition EnableBackgroundValidation :: "duration \<Rightarrow> topologyValidator \<Rightarrow> bool \<times> topologyValidator" where
  "EnableBackgroundValidation interval v =
     (if tv_backgroundEnabled v then (False, v)
      else (True, v\<lparr>tv_backgroundEnabled := True, tv_validationInterval := interval\<rparr>))"

definition Disable :: "topologyValidator \<Rightarrow> topologyValidator" where
  "Disable v =
     (let v1 = v\<lparr>tv_enabled := False, tv_autoRecreate := False\<rparr> in
      if tv_backgroundEnabled v
      then v1\<lparr>tv_backgroundEnabled := False, tv_closed := (tv_closed v)(tv_stopCh v := True),
              tv_stopCh := Suc (tv_stopCh v)\<rparr>
      else v1)"

text \<open>A validator always has a registry.\<close>

definition registry_of :: "'b session \<Rightarrow> topologyRegistry" where
  "registry_of s = (case se_registry s of Some r \<Rightarrow> r | None \<Rightarrow> NewTopologyRegistry)"

section \<open>Declaring again\<close>

definition binding_options :: "bindingConfig \<Rightarrow> binding_option list" where
  "binding_options c = (if bc_Arguments c \<noteq> [] then [WithBindingArguments (bc_Arguments c)] else [])"

definition restore_binding :: "'b env \<Rightarrow> bindingConfig \<Rightarrow> ('b, unit) operation" where
  "restore_binding E c =
     in_context (''failed to restore binding '' @ key_of_binding c)
       (BindQueue E (bc_QueueName c) (bc_ExchangeName c) (bc_RoutingKey c) (binding_options c))"

definition listed_bindings :: "'b env \<Rightarrow> 'b session \<Rightarrow> bindingConfig list" where
  "listed_bindings E s = ListBindings (ev_bindings E (se_world s)) (registry_of s)"

definition recreateQueueBindings :: "'b env \<Rightarrow> string \<Rightarrow> ('b, unit) operation" where
  "recreateQueueBindings E name s =
     each (restore_binding E) (filter (\<lambda>c. bc_QueueName c = name) (listed_bindings E s)) s"

definition recreateExchangeBindings :: "'b env \<Rightarrow> string \<Rightarrow> ('b, unit) operation" where
  "recreateExchangeBindings E name s =
     each (restore_binding E) (filter (\<lambda>c. bc_ExchangeName c = name) (listed_bindings E s)) s"

definition recreate_exchange_options :: "exchangeConfig \<Rightarrow> exchange_option list" where
  "recreate_exchange_options c =
     (if xc_Durable c then [WithExchangeDurable] else []) @
     (if xc_AutoDelete c then [WithExchangeAutoDelete] else []) @
     (if xc_Internal c then [WithExchangeInternal] else []) @
     (if xc_Arguments c \<noteq> [] then [WithExchangeArguments (xc_Arguments c)] else [])"

definition recreateExchange :: "'b env \<Rightarrow> exchangeConfig \<Rightarrow> ('b, unit) operation" where
  "recreateExchange E c =
     and_then (DeclareExchange E (xc_Name c) (xc_Type c) (recreate_exchange_options c))
       (\<lambda>_. recreateExchangeBindings E (xc_Name c))"

definition recreate_queue_options :: "queueConfig \<Rightarrow> queue_option list" where
  "recreate_queue_options c =
     (if qc_Durable c then [WithDurable] else []) @
     (if qc_AutoDelete c then [WithAutoDelete] else []) @
     (if qc_Exclusive c then [WithExclusiveQueue] else []) @
     (if qc_Arguments c \<noteq> [] then [WithArguments (qc_Arguments c)] else []) @
     (if qc_DeadLetterExchange c \<noteq> []
      then [WithDeadLetter (qc_DeadLetterExchange c) (qc_DeadLetterRoutingKey c)] else [])"

definition recreateQueue :: "'b env \<Rightarrow> queueConfig \<Rightarrow> ('b, unit) operation" where
  "recreateQueue E c =
     and_then (DeclareQueue E (qc_Name c) (recreate_queue_options c))
       (\<lambda>_. recreateQueueBindings E (qc_Name c))"

definition default_topic :: "string \<Rightarrow> exchangeConfig" where
  "default_topic name = default_exchange name ExchangeTypeTopic"

definition ensureExchangeExists :: "'b env \<Rightarrow> string \<Rightarrow> ('b, unit) operation" where
  "ensureExchangeExists E name =
     (if name = [] then op_ok
      else
        and_then (in_context ''failed to check exchange existence'' (ExchangeExists E name))
          (\<lambda>ex s.
             if ex then (Inr (), s)
             else
               in_context (''failed to recreate exchange '' @ name)
                 (recreateExchange E
                   (case GetExchange name (registry_of s) of Some c \<Rightarrow> c | None \<Rightarrow> default_topic name))
                 s))"

section \<open>Validation on demand\<close>

definition fails :: "string \<Rightarrow> ('b, 'a) operation" where
  "fails e s = (Inl e, s)"

definition ValidateExchange :: "'b env \<Rightarrow> topologyValidator \<Rightarrow> string \<Rightarrow> ('b, unit) operation" where
  "ValidateExchange E v name s =
     (if \<not> tv_enabled v then (Inr (), s)
      else
        (case GetExchange name (registry_of s) of
           None \<Rightarrow> (Inr (), s)
         | Some c \<Rightarrow>
             and_then (in_context (''failed to check if exchange exists: '' @ name) (ExchangeExists E name))
               (\<lambda>ex. if ex then op_ok
                     else if tv_autoRecreate v then recreateExchange E c
                     else fails (''exchange does not exist and auto-recreation is disabled: '' @ name))
               s))"

text \<open>What the registry learns about a queue that exists.\<close>

definition string_arg :: "string \<Rightarrow> table \<Rightarrow> string" where
  "string_arg k args = (case go_get args k of Some (VStr v) \<Rightarrow> v | _ \<Rightarrow> [])"

definition sync_registry :: "'b env \<Rightarrow> string \<Rightarrow> queueConfig \<Rightarrow> ('b, unit) operation" where
  "sync_registry E name c s =
     (case InspectQueue E name s of
        (Inl _, s') \<Rightarrow> (Inr (), s')
      | (Inr info, s') \<Rightarrow>
          (let dle = string_arg ''x-dead-letter-exchange'' (qi_Arguments info);
               dlrk = string_arg ''x-dead-letter-routing-key'' (qi_Arguments info) in
           (Inr (),
            if dle \<noteq> qc_DeadLetterExchange c \<or> dlrk \<noteq> qc_DeadLetterRoutingKey c
            then register (RegisterQueue (c\<lparr>qc_DeadLetterExchange := dle,
                   qc_DeadLetterRoutingKey := dlrk, qc_Arguments := qi_Arguments info\<rparr>)) s'
            else s')))"

text \<open>The exchanges a queue needs: its dead-letter exchange and those it is bound to.\<close>

definition ensure_dependencies :: "'b env \<Rightarrow> string \<Rightarrow> queueConfig \<Rightarrow> ('b, unit) operation" where
  "ensure_dependencies E name c =
     and_then
       (if qc_DeadLetterExchange c \<noteq> []
        then in_context (''failed to ensure dead-letter-exchange exists: '' @ qc_DeadLetterExchange c)
               (ensureExchangeExists E (qc_DeadLetterExchange c))
        else op_ok)
       (\<lambda>_ s.
          each (\<lambda>b. in_context (''failed to ensure exchange exists for queue binding: '' @ bc_ExchangeName b)
                     (ensureExchangeExists E (bc_ExchangeName b)))
            (filter (\<lambda>b. bc_QueueName b = name) (listed_bindings E s)) s)"

definition ValidateQueue :: "'b env \<Rightarrow> topologyValidator \<Rightarrow> string \<Rightarrow> ('b, unit) operation" where
  "ValidateQueue E v name s =
     (if \<not> tv_enabled v then (Inr (), s)
      else
        (case GetQueue name (registry_of s) of
           None \<Rightarrow> (Inr (), s)
         | Some c \<Rightarrow>
             and_then (ensure_dependencies E name c)
               (\<lambda>_. and_then (in_context (''failed to check if queue exists: '' @ name) (QueueExists E name))
                 (\<lambda>ex. if ex then sync_registry E name c
                       else if tv_autoRecreate v then recreateQueue E c
                       else fails (''queue does not exist and auto-recreation is disabled: '' @ name)))
               s))"

section \<open>Validation in the background\<close>

text \<open>One entry of each phase; an error is logged and the next entry is tried.\<close>

definition validate_exchange :: "'b env \<Rightarrow> exchangeConfig \<Rightarrow> 'b session \<Rightarrow> 'b session" where
  "validate_exchange E c s =
     (case ExchangeExists E (xc_Name c) s of
        (Inr False, s') \<Rightarrow> snd (recreateExchange E c s')
      | (_, s') \<Rightarrow> s')"

definition validate_queue :: "'b env \<Rightarrow> queueConfig \<Rightarrow> 'b session \<Rightarrow> 'b session" where
  "validate_queue E c s =
     (case QueueExists E (qc_Name c) s of
        (Inr False, s') \<Rightarrow>
          (if qc_DeadLetterExchange c \<noteq> []
           then snd (and_then (ensureExchangeExists E (qc_DeadLetterExchange c)) (\<lambda>_. recreateQueue E c) s')
           else snd (recreateQueue E c s'))
      | (_, s') \<Rightarrow> s')"

definition validate_binding :: "'b env \<Rightarrow> bindingConfig \<Rightarrow> 'b session \<Rightarrow> 'b session" where
  "validate_binding E c s =
     snd (and_then (ensureExchangeExists E (bc_ExchangeName c))
       (\<lambda>_. and_then (QueueExists E (bc_QueueName c))
         (\<lambda>ex. if ex
               then BindQueue E (bc_QueueName c) (bc_ExchangeName c) (bc_RoutingKey c) (binding_options c)
               else op_ok)) s)"

definition validateAndRecreateExchanges :: "'b env \<Rightarrow> 'b session \<Rightarrow> 'b session" where
  "validateAndRecreateExchanges E s =
     fold (validate_exchange E) (ListExchanges (ev_exchanges E (se_world s)) (registry_of s)) s"

definition validateAndRecreateQueues :: "'b env \<Rightarrow> 'b session \<Rightarrow> 'b session" where
  "validateAndRecreateQueues E s =
     fold (validate_queue E) (ListQueues (ev_queues E (se_world s)) (registry_of s)) s"

definition validateAndRecreateBindings :: "'b env \<Rightarrow> 'b session \<Rightarrow> 'b session" where
  "validateAndRecreateBindings E s = fold (validate_binding E) (listed_bindings E s) s"

definition performBackgroundValidation :: "'b env \<Rightarrow> 'b session \<Rightarrow> 'b session" where
  "performBackgroundValidation E s =
     validateAndRecreateBindings E (validateAndRecreateQueues E (validateAndRecreateExchanges E s))"

definition ValidateCompleteTopology :: "'b env \<Rightarrow> topologyValidator \<Rightarrow> ('b, unit) operation" where
  "ValidateCompleteTopology E v s =
     (Inr (), if tv_enabled v then performBackgroundValidation E s else s)"

section \<open>A broker that works\<close>

text \<open>
  What the broker has: exchanges, queues, and bindings of a queue to an exchange with a key. The
  hypothesis on it is its documented behaviour while it is reachable: a missing entity can be
  declared, a passive declaration succeeds if and only if the entity exists, and a binding needs
  its queue and its exchange; nothing else changes at the same time.
\<close>

record 'b broker_view =
  bv_exchanges :: "'b \<Rightarrow> string set"
  bv_queues :: "'b \<Rightarrow> string set"
  bv_bindings :: "'b \<Rightarrow> (string \<times> string \<times> string) set"

definition same_view :: "'b broker_view \<Rightarrow> 'b \<Rightarrow> 'b \<Rightarrow> bool" where
  "same_view V w w' \<longleftrightarrow>
     bv_exchanges V w' = bv_exchanges V w \<and> bv_queues V w' = bv_queues V w \<and>
     bv_bindings V w' = bv_bindings V w"

fun obeys :: "'b broker_view \<Rightarrow> 'b \<Rightarrow> amqp_method \<Rightarrow> bool \<Rightarrow> 'b \<Rightarrow> bool" where
  "obeys V w (ExchangeDeclare n kind d a i nw args) ok w' =
     (n \<notin> bv_exchanges V w \<longrightarrow>
        ok \<and> bv_exchanges V w' = insert n (bv_exchanges V w) \<and> bv_queues V w' = bv_queues V w \<and>
        bv_bindings V w' = bv_bindings V w)"
| "obeys V w (ExchangeDeclarePassive n) ok w' = ((ok \<longleftrightarrow> n \<in> bv_exchanges V w) \<and> same_view V w w')"
| "obeys V w (QueueDeclare n d a e nw args) ok w' =
     (n \<notin> bv_queues V w \<longrightarrow>
        ok \<and> bv_queues V w' = insert n (bv_queues V w) \<and> bv_exchanges V w' = bv_exchanges V w \<and>
        bv_bindings V w' = bv_bindings V w)"
| "obeys V w (QueueDeclarePassive n) ok w' = ((ok \<longleftrightarrow> n \<in> bv_queues V w) \<and> same_view V w w')"
| "obeys V w (QueueBind q k x nw args) ok w' =
     (if q \<in> bv_queues V w \<and> x \<in> bv_exchanges V w
      then ok \<and> bv_bindings V w' = insert (q, x, k) (bv_bindings V w) \<and>
           bv_exchanges V w' = bv_exchanges V w \<and> bv_queues V w' = bv_queues V w
      else \<not> ok \<and> same_view V w w')"
| "obeys V w _ ok w' = True"

definition working_broker :: "'b env \<Rightarrow> 'b broker_view \<Rightarrow> bool" where
  "working_broker E V \<longleftrightarrow>
     (\<forall>w. fst (ev_open E w) = None \<and> same_view V w (snd (ev_open E w))) \<and>
     (\<forall>w m. obeys V w m (\<not> isl (fst (ev_call E m w))) (snd (ev_call E m w))) \<and>
     (\<forall>w xs. set (ev_exchanges E w xs) = set xs) \<and> (\<forall>w xs. set (ev_queues E w xs) = set xs) \<and>
     (\<forall>w xs. set (ev_bindings E w xs) = set xs)"

lemma obeys_same_view: "same_view V w w1 \<Longrightarrow> obeys V w1 m ok w' \<Longrightarrow> obeys V w m ok w'"
  by (cases m) (auto simp: same_view_def split: if_splits)

lemma working_open:
  assumes "working_broker E V"
  obtains w1 where "ev_open E w = (None, w1)" "same_view V w w1"
proof -
  have "fst (ev_open E w) = None \<and> same_view V w (snd (ev_open E w))"
    using assms unfolding working_broker_def by blast
  with that [of "snd (ev_open E w)"] show ?thesis by (metis prod.collapse)
qed

lemma working_call:
  assumes "working_broker E V" and "same_view V w w1" and "ev_call E m w1 = (r, w2)"
  shows "obeys V w m (\<not> isl r) w2"
proof -
  have "obeys V w1 m (\<not> isl (fst (ev_call E m w1))) (snd (ev_call E m w1))"
    using assms(1) unfolding working_broker_def by blast
  with assms(3) have "obeys V w1 m (\<not> isl r) w2" by simp
  with assms(2) show ?thesis by (rule obeys_same_view)
qed

lemma rpc_obeys:
  assumes "working_broker E V" and "rpc E what m s = (r, s')"
  shows "obeys V (se_world s) m (\<not> isl r) (se_world s') \<and> se_registry s' = se_registry s"
proof -
  obtain w1 where w1: "ev_open E (se_world s) = (None, w1)" "same_view V (se_world s) w1"
    using working_open [OF assms(1)] .
  obtain r1 w2 where c: "ev_call E m w1 = (r1, w2)" by (cases "ev_call E m w1")
  have "isl r = isl r1 \<and> se_world s' = w2 \<and> se_registry s' = se_registry s"
    using assms(2) by (cases r1) (auto simp: rpc_def w1(1) c)
  with working_call [OF assms(1) w1(2) c] show ?thesis by simp
qed

lemma exists_obeys:
  assumes "working_broker E V" and "exists_by E m s = (r, s')"
  shows "\<exists>ok. r = Inr ok \<and> obeys V (se_world s) m ok (se_world s') \<and> se_registry s' = se_registry s"
proof -
  obtain w1 where w1: "ev_open E (se_world s) = (None, w1)" "same_view V (se_world s) w1"
    using working_open [OF assms(1)] .
  obtain r1 w2 where c: "ev_call E m w1 = (r1, w2)" by (cases "ev_call E m w1")
  have "r = Inr (\<not> isl r1) \<and> se_world s' = w2 \<and> se_registry s' = se_registry s"
    using assms(2) by (cases r1) (auto simp: exists_by_def w1(1) c)
  with working_call [OF assms(1) w1(2) c] show ?thesis by simp
qed

lemma ExchangeExists_working:
  assumes "working_broker E V" and "ExchangeExists E n s = (r, s')"
  shows "r = Inr (n \<in> bv_exchanges V (se_world s)) \<and> same_view V (se_world s) (se_world s') \<and>
    se_registry s' = se_registry s"
  using exists_obeys [OF assms [unfolded ExchangeExists_def]] by auto

lemma QueueExists_working:
  assumes "working_broker E V" and "QueueExists E n s = (r, s')"
  shows "r = Inr (n \<in> bv_queues V (se_world s)) \<and> same_view V (se_world s) (se_world s') \<and>
    se_registry s' = se_registry s"
  using exists_obeys [OF assms [unfolded QueueExists_def]] by auto

section \<open>What validation leaves in place\<close>

definition binding_triple :: "bindingConfig \<Rightarrow> string \<times> string \<times> string" where
  "binding_triple c = (bc_QueueName c, bc_ExchangeName c, bc_RoutingKey c)"

definition queue_pair :: "queueConfig \<Rightarrow> string \<times> string" where
  "queue_pair c = (qc_Name c, qc_DeadLetterExchange c)"

definition well_keyed :: "topologyRegistry \<Rightarrow> bool" where
  "well_keyed r \<longleftrightarrow>
     exchanges.keyed r \<and> queues.keyed r \<and> bindings.keyed r \<and>
     go_map_ok (rg_exchanges r) \<and> go_map_ok (rg_queues r) \<and> go_map_ok (rg_bindings r)"

definition reg_exchanges :: "topologyRegistry \<Rightarrow> string set" where
  "reg_exchanges r = xc_Name ` ran (get_exchange r)"

definition reg_queues :: "topologyRegistry \<Rightarrow> (string \<times> string) set" where
  "reg_queues r = queue_pair ` ran (get_queue r)"

definition reg_bindings :: "topologyRegistry \<Rightarrow> (string \<times> string \<times> string) set" where
  "reg_bindings r = binding_triple ` ran (get_binding r)"

definition same_names :: "topologyRegistry \<Rightarrow> topologyRegistry \<Rightarrow> bool" where
  "same_names r r' \<longleftrightarrow>
     reg_exchanges r' = reg_exchanges r \<and> reg_queues r' = reg_queues r \<and>
     reg_bindings r' = reg_bindings r"

text \<open>Nothing is lost, and the registry keeps its names.\<close>

definition grown :: "'b broker_view \<Rightarrow> 'b session \<Rightarrow> 'b session \<Rightarrow> bool" where
  "grown V s s' \<longleftrightarrow>
     bv_exchanges V (se_world s) \<subseteq> bv_exchanges V (se_world s') \<and>
     bv_queues V (se_world s) \<subseteq> bv_queues V (se_world s') \<and>
     bv_bindings V (se_world s) \<subseteq> bv_bindings V (se_world s') \<and>
     (well_keyed (registry_of s) \<longrightarrow>
        well_keyed (registry_of s') \<and> same_names (registry_of s) (registry_of s'))"

lemma grown_refl [simp]: "grown V s s"
  by (simp add: grown_def same_names_def)

lemma grown_trans: "grown V s s1 \<Longrightarrow> grown V s1 s2 \<Longrightarrow> grown V s s2"
  by (auto simp: grown_def same_names_def)

lemma registry_of_register:
  "se_registry s \<noteq> None \<Longrightarrow> registry_of (register f s) = f (registry_of s)"
  by (auto simp: registry_of_def register_def)

lemma registered_session:
  "n \<in> reg_exchanges (registry_of s) \<Longrightarrow> se_registry s \<noteq> None"
  "q \<in> reg_queues (registry_of s) \<Longrightarrow> se_registry s \<noteq> None"
  "b \<in> reg_bindings (registry_of s) \<Longrightarrow> se_registry s \<noteq> None"
  by (cases "se_registry s"; simp add: registry_of_def NewTopologyRegistry_def reg_exchanges_def
      reg_queues_def reg_bindings_def get_exchange_def GetExchange_def get_queue_def GetQueue_def
      get_binding_def ran_def)+

lemma get_register_other [simp]:
  "get_queue (RegisterExchange c r) = get_queue r"
  "get_binding (RegisterExchange c r) = get_binding r"
  "get_exchange (RegisterQueue q r) = get_exchange r"
  "get_binding (RegisterQueue q r) = get_binding r"
  "get_exchange (RegisterBinding b r) = get_exchange r"
  "get_queue (RegisterBinding b r) = get_queue r"
  by (auto simp: get_exchange_def get_queue_def get_binding_def GetExchange_def GetQueue_def
      RegisterExchange_def RegisterQueue_def RegisterBinding_def)

lemma register_fields:
  "rg_exchanges (RegisterExchange c r) = go_put (xc_Name c) c (rg_exchanges r)"
  "rg_queues (RegisterExchange c r) = rg_queues r" "rg_bindings (RegisterExchange c r) = rg_bindings r"
  "rg_queues (RegisterQueue q r) = go_put (qc_Name q) q (rg_queues r)"
  "rg_exchanges (RegisterQueue q r) = rg_exchanges r" "rg_bindings (RegisterQueue q r) = rg_bindings r"
  "rg_bindings (RegisterBinding b r) = go_put (key_of_binding b) b (rg_bindings r)"
  "rg_exchanges (RegisterBinding b r) = rg_exchanges r" "rg_queues (RegisterBinding b r) = rg_queues r"
  by (simp_all add: RegisterExchange_def RegisterQueue_def RegisterBinding_def)

lemma well_keyed_register:
  assumes "well_keyed r"
  shows "well_keyed (RegisterExchange c r)" "well_keyed (RegisterQueue q r)"
    "well_keyed (RegisterBinding b r)"
proof -
  from assms exchanges.keyed_reg [of r c] show "well_keyed (RegisterExchange c r)"
    by (simp add: well_keyed_def queues.keyed_def bindings.keyed_def register_fields)
  from assms queues.keyed_reg [of r q] show "well_keyed (RegisterQueue q r)"
    by (simp add: well_keyed_def exchanges.keyed_def bindings.keyed_def register_fields)
  from assms bindings.keyed_reg [of r b] show "well_keyed (RegisterBinding b r)"
    by (simp add: well_keyed_def exchanges.keyed_def queues.keyed_def register_fields)
qed

lemma same_names_exchange:
  assumes "well_keyed r" and "xc_Name c \<in> reg_exchanges r"
  shows "same_names r (RegisterExchange c r)"
proof -
  from assms(2) obtain c0 where "c0 \<in> ran (get_exchange r)" "xc_Name c0 = xc_Name c"
    by (auto simp: reg_exchanges_def)
  then have "xc_Name ` ran (get_exchange (RegisterExchange c r)) = xc_Name ` ran (get_exchange r)"
    using assms(1) by (intro exchanges.reg_same_image [of r c0]) (simp_all add: well_keyed_def)
  then show ?thesis by (simp add: same_names_def reg_exchanges_def reg_queues_def reg_bindings_def)
qed

lemma same_names_queue:
  assumes "well_keyed r" and "queue_pair c \<in> reg_queues r"
  shows "same_names r (RegisterQueue c r)"
proof -
  from assms(2) obtain c0 where "c0 \<in> ran (get_queue r)" "queue_pair c0 = queue_pair c"
    by (auto simp: reg_queues_def)
  then have "queue_pair ` ran (get_queue (RegisterQueue c r)) = queue_pair ` ran (get_queue r)"
    using assms(1) by (intro queues.reg_same_image [of r c0]) (simp_all add: well_keyed_def queue_pair_def)
  then show ?thesis by (simp add: same_names_def reg_exchanges_def reg_queues_def reg_bindings_def)
qed

lemma same_names_binding:
  assumes "well_keyed r" and "binding_triple c \<in> reg_bindings r"
  shows "same_names r (RegisterBinding c r)"
proof -
  from assms(2) obtain c0 where c0: "c0 \<in> ran (get_binding r)" "binding_triple c0 = binding_triple c"
    by (auto simp: reg_bindings_def)
  then have "key_of_binding c0 = key_of_binding c"
    by (simp add: binding_triple_def key_of_binding_def)
  with c0 have "binding_triple ` ran (get_binding (RegisterBinding c r)) =
      binding_triple ` ran (get_binding r)"
    using assms(1) by (intro bindings.reg_same_image [of r c0]) (simp_all add: well_keyed_def)
  then show ?thesis by (simp add: same_names_def reg_exchanges_def reg_queues_def reg_bindings_def)
qed

lemmas grown_intro = grown_def same_names_def

lemma binding_options_names:
  "bc_QueueName (fold apply_binding_option opts c) = bc_QueueName c \<and>
   bc_ExchangeName (fold apply_binding_option opts c) = bc_ExchangeName c \<and>
   bc_RoutingKey (fold apply_binding_option opts c) = bc_RoutingKey c"
proof (induction opts arbitrary: c)
  case (Cons opt opts)
  then show ?case by (cases opt) simp_all
qed simp

lemma BindQueue_working:
  assumes w: "working_broker E V" and b: "BindQueue E q x k opts s = (r, s')"
    and known: "(q, x, k) \<in> reg_bindings (registry_of s)"
  shows "grown V s s' \<and> bv_exchanges V (se_world s') = bv_exchanges V (se_world s) \<and>
    bv_queues V (se_world s') = bv_queues V (se_world s) \<and>
    (q \<in> bv_queues V (se_world s) \<longrightarrow> x \<in> bv_exchanges V (se_world s) \<longrightarrow>
       \<not> isl r \<and> (q, x, k) \<in> bv_bindings V (se_world s'))"
proof -
  define c where "c = fold apply_binding_option opts (default_binding q x k)"
  have c: "bc_QueueName c = q" "bc_ExchangeName c = x" "bc_RoutingKey c = k"
    using binding_options_names [of opts "default_binding q x k"]
    by (simp_all add: c_def default_binding_def)
  obtain r1 s1 where 1: "rpc E (''failed to bind queue '' @ q @ '' to exchange '' @ x)
      (QueueBind q k x (bc_NoWait c) (bc_Arguments c)) s = (r1, s1)" by fastforce
  note o = rpc_obeys [OF w 1]
  have reg: "registry_of s1 = registry_of s" using o by (simp add: registry_of_def)
  have view: "bv_exchanges V (se_world s1) = bv_exchanges V (se_world s)"
    "bv_queues V (se_world s1) = bv_queues V (se_world s)"
    "bv_bindings V (se_world s) \<subseteq> bv_bindings V (se_world s1)"
    "q \<in> bv_queues V (se_world s) \<longrightarrow> x \<in> bv_exchanges V (se_world s) \<longrightarrow>
       \<not> isl r1 \<and> (q, x, k) \<in> bv_bindings V (se_world s1)"
    using o by (auto simp: same_view_def split: if_splits)
  show ?thesis
  proof (cases r1)
    case (Inl e)
    with b 1 have "s' = s1" "r = Inl e" by (auto simp: BindQueue_def c_def [symmetric] and_then_def)
    with Inl view reg show ?thesis by (simp add: grown_intro)
  next
    case (Inr i)
    with b 1 have s': "s' = register (RegisterBinding (c\<lparr>bc_NoWait := False\<rparr>)) s1" "r = Inr ()"
      by (auto simp: BindQueue_def c_def [symmetric] and_then_def)
    have "se_registry s1 \<noteq> None" using o registered_session(3) [OF known] by simp
    then have r': "registry_of s' = RegisterBinding (c\<lparr>bc_NoWait := False\<rparr>) (registry_of s)"
      by (simp add: s' registry_of_register reg)
    have "binding_triple (c\<lparr>bc_NoWait := False\<rparr>) \<in> reg_bindings (registry_of s)"
      using known by (simp add: binding_triple_def c)
    then have "well_keyed (registry_of s) \<longrightarrow>
        well_keyed (registry_of s') \<and> same_names (registry_of s) (registry_of s')"
      unfolding r' using well_keyed_register(3) same_names_binding by blast
    with view s' show ?thesis by (simp add: grown_def)
  qed
qed

text \<open>The registry of a session has the names of \<open>r0\<close>.\<close>

definition ok_session :: "topologyRegistry \<Rightarrow> 'b session \<Rightarrow> bool" where
  "ok_session r0 s \<longleftrightarrow> well_keyed (registry_of s) \<and> same_names r0 (registry_of s)"

lemma ok_session_grown: "ok_session r0 s \<Longrightarrow> grown V s s' \<Longrightarrow> ok_session r0 s'"
  by (simp add: ok_session_def grown_intro)

lemma grown_ok:
  assumes "bv_exchanges V (se_world s) \<subseteq> bv_exchanges V (se_world s')"
    and "bv_queues V (se_world s) \<subseteq> bv_queues V (se_world s')"
    and "bv_bindings V (se_world s) \<subseteq> bv_bindings V (se_world s')"
    and "registry_of s' = registry_of s"
  shows "grown V s s'"
  using assms by (simp add: grown_intro)

lemma set_snd_ran: "go_map_ok m \<Longrightarrow> set (map snd m) = ran (go_get m)"
  by (force simp: go_map_ok_def ran_distinct)

lemma listed:
  assumes "working_broker E V" and "well_keyed (registry_of s)"
  shows "set (listed_bindings E s) = ran (get_binding (registry_of s))"
    and "set (ListExchanges (ev_exchanges E (se_world s)) (registry_of s)) =
      ran (get_exchange (registry_of s))"
    and "set (ListQueues (ev_queues E (se_world s)) (registry_of s)) = ran (get_queue (registry_of s))"
proof -
  have b: "\<And>w xs. set (ev_bindings E w xs) = set xs" and x: "\<And>w xs. set (ev_exchanges E w xs) = set xs"
    and q: "\<And>w xs. set (ev_queues E w xs) = set xs"
    using assms(1) unfolding working_broker_def by blast+
  have g: "get_binding r = go_get (rg_bindings r)" "get_exchange r = go_get (rg_exchanges r)"
    "get_queue r = go_get (rg_queues r)" for r
    by (auto simp: get_binding_def get_exchange_def get_queue_def GetExchange_def GetQueue_def)
  from assms(2) show "set (listed_bindings E s) = ran (get_binding (registry_of s))"
    and "set (ListExchanges (ev_exchanges E (se_world s)) (registry_of s)) =
      ran (get_exchange (registry_of s))"
    and "set (ListQueues (ev_queues E (se_world s)) (registry_of s)) = ran (get_queue (registry_of s))"
    unfolding listed_bindings_def ListBindings_def ListExchanges_def ListQueues_def b x q g
    by (simp_all only: well_keyed_def set_snd_ran)
qed

lemma in_context_snd: "snd (in_context what f s) = snd (f s)"
  by (auto simp: in_context_def split: prod.splits sum.splits)

lemma restore_bindings_working:
  assumes w: "working_broker E V"
  shows "ok_session r0 s \<Longrightarrow> \<forall>c \<in> set cs. binding_triple c \<in> reg_bindings r0 \<Longrightarrow>
    each (restore_binding E) cs s = (r, s') \<Longrightarrow>
    grown V s s' \<and> bv_exchanges V (se_world s') = bv_exchanges V (se_world s) \<and>
    bv_queues V (se_world s') = bv_queues V (se_world s)"
proof (induction cs arbitrary: s r)
  case Nil
  then show ?case by (simp add: op_ok_def)
next
  case (Cons c cs)
  obtain r1 s1 where 1: "restore_binding E c s = (r1, s1)" by (cases "restore_binding E c s")
  obtain r2 where 2: "BindQueue E (bc_QueueName c) (bc_ExchangeName c) (bc_RoutingKey c)
      (binding_options c) s = (r2, s1)"
    using in_context_snd [of _ "BindQueue E (bc_QueueName c) (bc_ExchangeName c) (bc_RoutingKey c)
      (binding_options c)" s] 1 unfolding restore_binding_def by (metis prod.collapse snd_conv)
  have "(bc_QueueName c, bc_ExchangeName c, bc_RoutingKey c) \<in> reg_bindings (registry_of s)"
    using Cons.prems(1,2) by (simp add: ok_session_def same_names_def binding_triple_def)
  note b = BindQueue_working [OF w 2 this]
  show ?case
  proof (cases r1)
    case (Inl e)
    with Cons.prems(3) 1 have "s' = s1" by (simp add: and_then_def)
    with b show ?thesis by simp
  next
    case (Inr u)
    with Cons.prems(3) 1 have "each (restore_binding E) cs s1 = (r, s')" by (simp add: and_then_def)
    from Cons.IH [OF ok_session_grown [OF Cons.prems(1)] _ this] b Cons.prems(2)
    show ?thesis using grown_trans by fastforce
  qed
qed

lemma exchange_options_name:
  "xc_Name (fold apply_exchange_option opts c) = xc_Name c"
proof (induction opts arbitrary: c)
  case (Cons opt opts)
  then show ?case by (cases opt) simp_all
qed simp

lemma DeclareExchange_working:
  assumes w: "working_broker E V" and d: "DeclareExchange E n kind opts s = (r, s')"
    and known: "n \<in> reg_exchanges (registry_of s)" and new: "n \<notin> bv_exchanges V (se_world s)"
  shows "r = Inr () \<and> grown V s s' \<and>
    bv_exchanges V (se_world s') = insert n (bv_exchanges V (se_world s)) \<and>
    bv_queues V (se_world s') = bv_queues V (se_world s)"
proof -
  define c where "c = fold apply_exchange_option opts (default_exchange n kind)"
  have n: "xc_Name c = n" by (simp add: c_def exchange_options_name default_exchange_def)
  obtain r1 s1 where 1: "rpc E (''failed to declare exchange '' @ n) (exchange_method c) s = (r1, s1)"
    by fastforce
  have o: "\<not> isl r1" "bv_exchanges V (se_world s1) = insert n (bv_exchanges V (se_world s))"
    "bv_queues V (se_world s1) = bv_queues V (se_world s)"
    "bv_bindings V (se_world s1) = bv_bindings V (se_world s)" "se_registry s1 = se_registry s"
    using rpc_obeys [OF w 1] new by (simp_all add: exchange_method_def n)
  from o(1) obtain i where "r1 = Inr i" by (cases r1) simp_all
  with d 1 have s': "s' = register (RegisterExchange c) s1" "r = Inr ()"
    by (simp_all add: DeclareExchange_def c_def [symmetric] and_then_def)
  have "se_registry s1 \<noteq> None" using o(5) registered_session(1) [OF known] by simp
  then have "registry_of s' = RegisterExchange c (registry_of s)"
    by (simp add: s'(1) registry_of_register) (simp add: registry_of_def o(5))
  then have "well_keyed (registry_of s) \<longrightarrow>
      well_keyed (registry_of s') \<and> same_names (registry_of s) (registry_of s')"
    using well_keyed_register(1) same_names_exchange known n by metis
  with o s' show ?thesis by (auto simp: grown_def)
qed

lemma recreateExchange_working:
  assumes w: "working_broker E V" and d: "recreateExchange E c s = (r, s')"
    and ok: "ok_session r0 s" and known: "xc_Name c \<in> reg_exchanges r0"
    and new: "xc_Name c \<notin> bv_exchanges V (se_world s)"
  shows "grown V s s' \<and> xc_Name c \<in> bv_exchanges V (se_world s') \<and>
    bv_queues V (se_world s') = bv_queues V (se_world s)"
proof -
  obtain r1 s1 where 1: "DeclareExchange E (xc_Name c) (xc_Type c) (recreate_exchange_options c) s = (r1, s1)"
    by fastforce
  have "xc_Name c \<in> reg_exchanges (registry_of s)"
    using ok known by (simp add: ok_session_def same_names_def)
  note x = DeclareExchange_working [OF w 1 this new]
  then have ok1: "ok_session r0 s1" using ok ok_session_grown by blast
  have 2: "each (restore_binding E) (filter (\<lambda>b. bc_ExchangeName b = xc_Name c) (listed_bindings E s1)) s1 =
      (r, s')"
    using d 1 x by (simp add: recreateExchange_def and_then_def recreateExchangeBindings_def)
  have "\<forall>b \<in> set (filter (\<lambda>b. bc_ExchangeName b = xc_Name c) (listed_bindings E s1)).
      binding_triple b \<in> reg_bindings r0"
    using ok1 listed(1) [OF w, of s1] by (auto simp: ok_session_def same_names_def reg_bindings_def)
  note b = restore_bindings_working [OF w ok1 this 2]
  from x b grown_trans [of V s s1 s'] show ?thesis by simp
qed

lemma registered_exchange:
  assumes "ok_session r0 s" and "n \<in> reg_exchanges r0"
  obtains c where "GetExchange n (registry_of s) = Some c" "xc_Name c = n"
proof -
  from assms have "n \<in> reg_exchanges (registry_of s)" by (simp add: ok_session_def same_names_def)
  then obtain c k where "get_exchange (registry_of s) k = Some c" "xc_Name c = n"
    by (auto simp: reg_exchanges_def ran_def)
  with assms that [of c] show ?thesis
    by (auto simp: ok_session_def well_keyed_def exchanges.keyed_def get_exchange_def)
qed

lemma ensureExchangeExists_working:
  assumes w: "working_broker E V" and d: "ensureExchangeExists E n s = (r, s')"
    and ok: "ok_session r0 s" and known: "n \<in> reg_exchanges r0"
  shows "grown V s s' \<and> bv_queues V (se_world s') = bv_queues V (se_world s) \<and>
    (n = [] \<or> n \<in> bv_exchanges V (se_world s')) \<and>
    (n \<in> bv_exchanges V (se_world s) \<longrightarrow> r = Inr () \<and> bv_exchanges V (se_world s') = bv_exchanges V (se_world s))"
proof (cases "n = []")
  case True
  with d show ?thesis by (simp add: ensureExchangeExists_def op_ok_def)
next
  case False
  obtain r1 s1 where 1: "ExchangeExists E n s = (r1, s1)" by fastforce
  note x = ExchangeExists_working [OF w 1]
  have reg: "registry_of s1 = registry_of s" using x by (simp add: registry_of_def)
  have g: "grown V s s1" using x reg by (intro grown_ok) (simp_all add: same_view_def)
  have views: "bv_exchanges V (se_world s1) = bv_exchanges V (se_world s)"
    "bv_queues V (se_world s1) = bv_queues V (se_world s)"
    using x by (simp_all add: same_view_def)
  show ?thesis
  proof (cases "n \<in> bv_exchanges V (se_world s)")
    case True
    with d 1 x False have "s' = s1" "r = Inr ()"
      by (simp_all add: ensureExchangeExists_def and_then_def in_context_def)
    with g views True show ?thesis by simp
  next
    case missing: False
    obtain c where c: "GetExchange n (registry_of s1) = Some c" "xc_Name c = n"
      using registered_exchange [OF ok known] by (auto simp: reg)
    obtain r2 where 2: "recreateExchange E c s1 = (r2, s')"
      using d 1 x False missing in_context_snd [of "''failed to recreate exchange '' @ n" "recreateExchange E c" s1]
      by (simp add: ensureExchangeExists_def and_then_def in_context_def c)
        (metis prod.collapse snd_conv)
    have "xc_Name c \<in> reg_exchanges r0" "xc_Name c \<notin> bv_exchanges V (se_world s1)"
      using known missing by (simp_all add: c views)
    from recreateExchange_working [OF w 2 ok_session_grown [OF ok g] this]
    show ?thesis using grown_trans [OF g] missing views c(2) by auto
  qed
qed

lemma recreate_queue_options_fields:
  "aq_DeadLetterExchange (fold apply_queue_option (recreate_queue_options c) default_queue) =
     qc_DeadLetterExchange c"
  by (simp add: recreate_queue_options_def default_queue_def set_arg_def Let_def)

lemma DeclareQueue_working:
  assumes w: "working_broker E V" and d: "DeclareQueue E n opts s = (r, s')"
    and known: "(n, aq_DeadLetterExchange (fold apply_queue_option opts default_queue)) \<in>
      reg_queues (registry_of s)"
    and new: "n \<notin> bv_queues V (se_world s)"
  shows "r \<noteq> Inl e \<and> grown V s s' \<and> bv_queues V (se_world s') = insert n (bv_queues V (se_world s)) \<and>
    bv_exchanges V (se_world s') = bv_exchanges V (se_world s)"
proof -
  define c where "c = fold apply_queue_option opts default_queue"
  define what where "what = (if aq_UseClassicQueue c then ''failed to declare queue '' @ n
    else ''failed to declare quorum queue '' @ n)"
  define c' where "c' = (if aq_UseClassicQueue c then c else set_arg ''x-queue-type'' (VStr ''quorum'') c)"
  define kind where "kind = (if aq_UseClassicQueue c then QueueTypeClassic else QueueTypeQuorum)"
  have m: "DeclareQueue E n opts = and_then (rpc E what (queue_method n c'))
      (\<lambda>i s. (Inr i, register (RegisterQueue (registered_queue n kind c')) s))"
    by (simp add: DeclareQueue_def c_def [symmetric] what_def c'_def kind_def Let_def declareQueueLegacy_def
        declareQuorumQueueFromConfig_def declareQuorumQueueLegacy_def queue_method_def set_arg_def
        registered_queue_def adminQueueConfig.defs quorumQueueConfig.defs)
  obtain r1 s1 where 1: "rpc E what (queue_method n c') s = (r1, s1)" by fastforce
  have o: "\<not> isl r1" "bv_queues V (se_world s1) = insert n (bv_queues V (se_world s))"
    "bv_exchanges V (se_world s1) = bv_exchanges V (se_world s)"
    "bv_bindings V (se_world s1) = bv_bindings V (se_world s)" "se_registry s1 = se_registry s"
    using rpc_obeys [OF w 1] new by (simp_all add: queue_method_def)
  from o(1) obtain i where "r1 = Inr i" by (cases r1) simp_all
  with d 1 m have s': "s' = register (RegisterQueue (registered_queue n kind c')) s1" "r = Inr i"
    by (simp_all add: and_then_def)
  have "se_registry s1 \<noteq> None" using o(5) registered_session(2) [OF known] by simp
  then have "registry_of s' = RegisterQueue (registered_queue n kind c') (registry_of s)"
    by (simp add: s'(1) registry_of_register) (simp add: registry_of_def o(5))
  moreover have "queue_pair (registered_queue n kind c') \<in> reg_queues (registry_of s)"
    using known by (simp add: queue_pair_def registered_queue_def c_def c'_def set_arg_def)
  ultimately have "well_keyed (registry_of s) \<longrightarrow>
      well_keyed (registry_of s') \<and> same_names (registry_of s) (registry_of s')"
    using well_keyed_register(2) same_names_queue by metis
  with o s' show ?thesis by (auto simp: grown_def)
qed

lemma recreateQueue_working:
  assumes w: "working_broker E V" and d: "recreateQueue E c s = (r, s')"
    and ok: "ok_session r0 s" and known: "queue_pair c \<in> reg_queues r0"
    and new: "qc_Name c \<notin> bv_queues V (se_world s)"
  shows "grown V s s' \<and> qc_Name c \<in> bv_queues V (se_world s')"
proof -
  obtain r1 s1 where 1: "DeclareQueue E (qc_Name c) (recreate_queue_options c) s = (r1, s1)" by fastforce
  have "(qc_Name c, aq_DeadLetterExchange (fold apply_queue_option (recreate_queue_options c) default_queue)) \<in>
      reg_queues (registry_of s)"
    using ok known by (simp add: recreate_queue_options_fields ok_session_def same_names_def queue_pair_def)
  note x = DeclareQueue_working [OF w 1 this new]
  then have ok1: "ok_session r0 s1" using ok ok_session_grown by blast
  from x obtain i where "r1 = Inr i" by (cases r1) auto
  with d 1 have 2: "each (restore_binding E)
      (filter (\<lambda>b. bc_QueueName b = qc_Name c) (listed_bindings E s1)) s1 = (r, s')"
    by (simp add: recreateQueue_def and_then_def recreateQueueBindings_def)
  have "\<forall>b \<in> set (filter (\<lambda>b. bc_QueueName b = qc_Name c) (listed_bindings E s1)).
      binding_triple b \<in> reg_bindings r0"
    using ok1 listed(1) [OF w, of s1] by (auto simp: ok_session_def same_names_def reg_bindings_def)
  note b = restore_bindings_working [OF w ok1 this 2]
  from x b grown_trans [of V s s1 s'] show ?thesis by simp
qed

section \<open>A pass repairs everything\<close>

lemma fold_phase:
  assumes keep: "\<And>c s s'. G c s \<Longrightarrow> grown V s s' \<Longrightarrow> G c s'"
    and inv: "\<And>s s'. I s \<Longrightarrow> grown V s s' \<Longrightarrow> I s'"
    and ok: "ok_session reg s" and I: "I s"
    and step: "\<And>c s. c \<in> set cs \<Longrightarrow> ok_session reg s \<Longrightarrow> I s \<Longrightarrow> grown V s (f c s) \<and> G c (f c s)"
  shows "grown V s (fold f cs s) \<and> (\<forall>c \<in> set cs. G c (fold f cs s))"
proof -
  have "set ds \<subseteq> set cs \<longrightarrow> ok_session reg t \<longrightarrow> I t \<longrightarrow>
      grown V t (fold f ds t) \<and> (\<forall>d \<in> set ds. G d (fold f ds t))" for ds t
  proof (induction ds arbitrary: t)
    case Nil
    then show ?case by simp
  next
    case (Cons d ds)
    show ?case
    proof (intro impI)
      assume p: "set (d # ds) \<subseteq> set cs" "ok_session reg t" "I t"
      then have 1: "grown V t (f d t)" "G d (f d t)" using step [of d t] by simp_all
      with p have 2: "grown V (f d t) (fold f ds (f d t))" "\<forall>e \<in> set ds. G e (fold f ds (f d t))"
        using Cons.IH [of "f d t"] ok_session_grown [OF p(2) 1(1)] inv [OF p(3) 1(1)] by simp_all
      from grown_trans [OF 1(1) 2(1)] keep [OF 1(2) 2(1)] 2(2)
      show "grown V t (fold f (d # ds) t) \<and> (\<forall>e \<in> set (d # ds). G e (fold f (d # ds) t))" by simp
    qed
  qed
  with ok I show ?thesis by blast
qed

lemma validate_exchange_working:
  assumes w: "working_broker E V" and ok: "ok_session r0 s" and known: "xc_Name c \<in> reg_exchanges r0"
  shows "grown V s (validate_exchange E c s) \<and>
    xc_Name c \<in> bv_exchanges V (se_world (validate_exchange E c s))"
proof -
  obtain r1 s1 where 1: "ExchangeExists E (xc_Name c) s = (r1, s1)" by fastforce
  note x = ExchangeExists_working [OF w 1]
  have g: "grown V s s1"
    using x by (intro grown_ok) (simp_all add: same_view_def registry_of_def)
  show ?thesis
  proof (cases "xc_Name c \<in> bv_exchanges V (se_world s)")
    case True
    with 1 x g show ?thesis by (simp add: validate_exchange_def same_view_def)
  next
    case False
    obtain r2 s2 where 2: "recreateExchange E c s1 = (r2, s2)" by fastforce
    have "xc_Name c \<notin> bv_exchanges V (se_world s1)" using False x by (simp add: same_view_def)
    from recreateExchange_working [OF w 2 ok_session_grown [OF ok g] known this] 1 x False 2
      grown_trans [OF g]
    show ?thesis by (simp add: validate_exchange_def)
  qed
qed

lemma validate_queue_working:
  assumes w: "working_broker E V" and ok: "ok_session r0 s" and known: "queue_pair c \<in> reg_queues r0"
    and dle: "qc_DeadLetterExchange c = [] \<or> qc_DeadLetterExchange c \<in> reg_exchanges r0"
    and there: "reg_exchanges r0 \<subseteq> bv_exchanges V (se_world s)"
  shows "grown V s (validate_queue E c s) \<and> qc_Name c \<in> bv_queues V (se_world (validate_queue E c s))"
proof -
  obtain r1 s1 where 1: "QueueExists E (qc_Name c) s = (r1, s1)" by fastforce
  note x = QueueExists_working [OF w 1]
  have g: "grown V s s1"
    using x by (intro grown_ok) (simp_all add: same_view_def registry_of_def)
  show ?thesis
  proof (cases "qc_Name c \<in> bv_queues V (se_world s)")
    case True
    with 1 x g show ?thesis by (simp add: validate_queue_def same_view_def)
  next
    case False
    define f where "f = (if qc_DeadLetterExchange c \<noteq> []
      then ensureExchangeExists E (qc_DeadLetterExchange c) else op_ok)"
    obtain r2 s2 where 2: "f s1 = (r2, s2)" by fastforce
    have e: "grown V s1 s2 \<and> r2 = Inr () \<and> bv_queues V (se_world s2) = bv_queues V (se_world s1)"
    proof (cases "qc_DeadLetterExchange c = []")
      case True
      with 2 show ?thesis by (simp add: f_def op_ok_def)
    next
      case False
      with dle there x have "qc_DeadLetterExchange c \<in> bv_exchanges V (se_world s1)"
        by (auto simp: same_view_def)
      with ensureExchangeExists_working [OF w _ ok_session_grown [OF ok g], of "qc_DeadLetterExchange c" r2 s2]
        2 False dle show ?thesis by (simp add: f_def)
    qed
    obtain r3 s3 where 3: "recreateQueue E c s2 = (r3, s3)" by fastforce
    have "qc_Name c \<notin> bv_queues V (se_world s2)" using False x e by (simp add: same_view_def)
    note q = recreateQueue_working [OF w 3 ok_session_grown [OF ok_session_grown [OF ok g]] known this]
    have "validate_queue E c s = s3"
      using 1 x False 2 3 e by (simp add: validate_queue_def f_def and_then_def op_ok_def split: if_splits)
    with q e grown_trans [OF g] grown_trans show ?thesis by metis
  qed
qed

lemma validate_binding_working:
  assumes w: "working_broker E V" and ok: "ok_session r0 s" and known: "binding_triple c \<in> reg_bindings r0"
    and dep: "bc_ExchangeName c \<in> reg_exchanges r0"
    and there: "bc_ExchangeName c \<in> bv_exchanges V (se_world s)" "bc_QueueName c \<in> bv_queues V (se_world s)"
  shows "grown V s (validate_binding E c s) \<and>
    binding_triple c \<in> bv_bindings V (se_world (validate_binding E c s))"
proof -
  obtain r1 s1 where 1: "ensureExchangeExists E (bc_ExchangeName c) s = (r1, s1)" by fastforce
  from ensureExchangeExists_working [OF w 1 ok dep] there(1)
  have e: "grown V s s1" "r1 = Inr ()" "bv_queues V (se_world s1) = bv_queues V (se_world s)"
    "bv_exchanges V (se_world s1) = bv_exchanges V (se_world s)" by simp_all
  obtain r2 s2 where 2: "QueueExists E (bc_QueueName c) s1 = (r2, s2)" by fastforce
  note x = QueueExists_working [OF w 2]
  have g: "grown V s1 s2"
    using x by (intro grown_ok) (simp_all add: same_view_def registry_of_def)
  have g2: "grown V s s2" by (rule grown_trans [OF e(1) g])
  obtain r3 s3 where 3: "BindQueue E (bc_QueueName c) (bc_ExchangeName c) (bc_RoutingKey c)
      (binding_options c) s2 = (r3, s3)" by fastforce
  have "(bc_QueueName c, bc_ExchangeName c, bc_RoutingKey c) \<in> reg_bindings (registry_of s2)"
    using ok_session_grown [OF ok g2] known by (simp add: ok_session_def same_names_def binding_triple_def)
  note b = BindQueue_working [OF w 3 this]
  have "validate_binding E c s = s3"
    using 1 2 3 e x there by (simp add: validate_binding_def and_then_def)
  with b x e there grown_trans [OF g2] show ?thesis
    by (simp add: same_view_def binding_triple_def)
qed

text \<open>Everything a queue or a binding of the registry refers to is registered as well.\<close>

definition closed_registry :: "topologyRegistry \<Rightarrow> bool" where
  "closed_registry r \<longleftrightarrow>
     (\<forall>(q, dle) \<in> reg_queues r. dle = [] \<or> dle \<in> reg_exchanges r) \<and>
     (\<forall>(q, x, k) \<in> reg_bindings r. x \<in> reg_exchanges r \<and> q \<in> fst ` reg_queues r)"

text \<open>The three phases: each restores what is registered and loses nothing.\<close>

lemma exchanges_validated:
  assumes w: "working_broker E V" and r: "well_keyed (registry_of s)" and ok: "ok_session (registry_of s) s"
  shows "grown V s (validateAndRecreateExchanges E s) \<and>
    reg_exchanges (registry_of s) \<subseteq> bv_exchanges V (se_world (validateAndRecreateExchanges E s))"
proof -
  let ?r = "registry_of s" and ?s = "validateAndRecreateExchanges E s"
  have "grown V s ?s \<and> (\<forall>c \<in> set (ListExchanges (ev_exchanges E (se_world s)) ?r).
      xc_Name c \<in> bv_exchanges V (se_world ?s))"
    unfolding validateAndRecreateExchanges_def
  proof (rule fold_phase [where reg = ?r and I = "\<lambda>_. True"])
    fix c and t :: "'a session"
    assume "c \<in> set (ListExchanges (ev_exchanges E (se_world s)) ?r)" "ok_session ?r t"
    then show "grown V t (validate_exchange E c t) \<and>
        xc_Name c \<in> bv_exchanges V (se_world (validate_exchange E c t))"
      by (intro validate_exchange_working [OF w]) (auto simp: listed [OF w r] reg_exchanges_def)
  qed (use ok in \<open>auto simp: grown_def\<close>)
  then show ?thesis by (auto simp: listed [OF w r] reg_exchanges_def)
qed

lemma session_names:
  assumes "ok_session r t"
  shows "same_names r (registry_of t)" and "well_keyed (registry_of t)"
  using assms by (simp_all add: ok_session_def)

lemma queues_validated:
  assumes w: "working_broker E V" and ok: "ok_session r s" and closed: "closed_registry r"
    and x: "reg_exchanges r \<subseteq> bv_exchanges V (se_world s)"
  shows "grown V s (validateAndRecreateQueues E s) \<and>
    fst ` reg_queues r \<subseteq> bv_queues V (se_world (validateAndRecreateQueues E s))"
proof -
  note names = session_names [OF ok]
  let ?s = "validateAndRecreateQueues E s"
  have "grown V s ?s \<and> (\<forall>c \<in> set (ListQueues (ev_queues E (se_world s)) (registry_of s)).
      qc_Name c \<in> bv_queues V (se_world ?s))"
    unfolding validateAndRecreateQueues_def
  proof (rule fold_phase [where reg = r and I = "\<lambda>t. reg_exchanges r \<subseteq> bv_exchanges V (se_world t)"])
    fix c and t :: "'a session"
    assume "c \<in> set (ListQueues (ev_queues E (se_world s)) (registry_of s))"
      and t: "ok_session r t" "reg_exchanges r \<subseteq> bv_exchanges V (se_world t)"
    then have q: "queue_pair c \<in> reg_queues r"
      using names by (auto simp: listed [OF w names(2)] same_names_def reg_queues_def)
    then have "qc_DeadLetterExchange c = [] \<or> qc_DeadLetterExchange c \<in> reg_exchanges r"
      using closed by (auto simp: closed_registry_def queue_pair_def)
    from validate_queue_working [OF w t(1) q this t(2)]
    show "grown V t (validate_queue E c t) \<and> qc_Name c \<in> bv_queues V (se_world (validate_queue E c t))" .
  qed (use ok x in \<open>auto simp: grown_def\<close>)
  moreover have "fst ` reg_queues r = qc_Name ` ran (get_queue (registry_of s))"
  proof -
    have "fst ` reg_queues r = fst ` reg_queues (registry_of s)" using names by (simp add: same_names_def)
    then show ?thesis by (simp add: reg_queues_def queue_pair_def image_image)
  qed
  ultimately show ?thesis by (auto simp: listed [OF w names(2)])
qed

definition declared_in :: "'b broker_view \<Rightarrow> topologyRegistry \<Rightarrow> 'b session \<Rightarrow> bool" where
  "declared_in V r t \<longleftrightarrow> reg_exchanges r \<subseteq> bv_exchanges V (se_world t) \<and>
    fst ` reg_queues r \<subseteq> bv_queues V (se_world t)"

lemma bindings_validated:
  assumes w: "working_broker E V" and ok: "ok_session r s" and closed: "closed_registry r"
    and d: "declared_in V r s"
  shows "grown V s (validateAndRecreateBindings E s) \<and>
    reg_bindings r \<subseteq> bv_bindings V (se_world (validateAndRecreateBindings E s))"
proof -
  note names = session_names [OF ok]
  let ?s = "validateAndRecreateBindings E s"
  have "grown V s ?s \<and> (\<forall>c \<in> set (listed_bindings E s). binding_triple c \<in> bv_bindings V (se_world ?s))"
    unfolding validateAndRecreateBindings_def
  proof (rule fold_phase [where reg = r and I = "declared_in V r"])
    fix c and t :: "'a session"
    assume "c \<in> set (listed_bindings E s)" and t: "ok_session r t" "declared_in V r t"
    then have b: "binding_triple c \<in> reg_bindings r"
      using names by (auto simp: listed [OF w names(2)] same_names_def reg_bindings_def)
    then have "bc_ExchangeName c \<in> reg_exchanges r" "bc_QueueName c \<in> fst ` reg_queues r"
      using closed by (auto simp: closed_registry_def binding_triple_def)
    with t(2) show "grown V t (validate_binding E c t) \<and>
        binding_triple c \<in> bv_bindings V (se_world (validate_binding E c t))"
      by (intro validate_binding_working [OF w t(1) b]) (auto simp: declared_in_def)
  qed (use ok d in \<open>auto simp: grown_def declared_in_def\<close>)
  moreover have "reg_bindings r = binding_triple ` ran (get_binding (registry_of s))"
    using names by (simp add: same_names_def reg_bindings_def)
  ultimately show ?thesis by (auto simp: listed [OF w names(2)])
qed


text \<open>A broker with sets of names.\<close>

record demo_broker =
  db_exchanges :: "string list"
  db_queues :: "string list"
  db_bindings :: "(string \<times> string \<times> string) list"

definition some_info :: "string + queue_info" where
  "some_info = Inr \<lparr>qi_Name = [], qi_Messages = 0, qi_Consumers = 0\<rparr>"

definition no_such :: "string + queue_info" where "no_such = Inl ''NOT_FOUND''"

fun demo_call :: "amqp_method \<Rightarrow> demo_broker \<Rightarrow> (string + queue_info) \<times> demo_broker" where
  "demo_call (ExchangeDeclare n kind d a i nw args) b =
     (some_info, b\<lparr>db_exchanges := List.insert n (db_exchanges b)\<rparr>)"
| "demo_call (ExchangeDeclarePassive n) b = (if n \<in> set (db_exchanges b) then some_info else no_such, b)"
| "demo_call (QueueDeclare n d a e nw args) b =
     (some_info, b\<lparr>db_queues := List.insert n (db_queues b)\<rparr>)"
| "demo_call (QueueDeclarePassive n) b = (if n \<in> set (db_queues b) then some_info else no_such, b)"
| "demo_call (QueueBind q k x nw args) b =
     (if q \<in> set (db_queues b) \<and> x \<in> set (db_exchanges b)
      then (some_info, b\<lparr>db_bindings := List.insert (q, x, k) (db_bindings b)\<rparr>)
      else (no_such, b))"
| "demo_call m b = (some_info, b)"

definition demo_env :: "demo_broker env" where
  "demo_env =
     \<lparr>ev_open = (\<lambda>w. (None, w)), ev_call = demo_call, ev_exchanges = (\<lambda>w xs. xs),
      ev_queues = (\<lambda>w xs. xs), ev_bindings = (\<lambda>w xs. rev xs)\<rparr>"

definition demo_view :: "demo_broker broker_view" where
  "demo_view =
     \<lparr>bv_exchanges = (\<lambda>b. set (db_exchanges b)), bv_queues = (\<lambda>b. set (db_queues b)),
      bv_bindings = (\<lambda>b. set (db_bindings b))\<rparr>"

lemma demo_working: "working_broker demo_env demo_view"
proof -
  have "obeys demo_view w m (\<not> isl (fst (demo_call m w))) (snd (demo_call m w))" for w m
    by (cases m) (simp_all add: demo_view_def some_info_def no_such_def same_view_def)
  then show ?thesis by (simp add: working_broker_def demo_env_def same_view_def)
qed

text \<open>An exchange, a queue with a dead-letter exchange, a binding: declared, and then all lost.\<close>

definition declared_session :: "demo_broker session" where
  "declared_session =
     (let s = \<lparr>se_world = \<lparr>db_exchanges = [], db_queues = [], db_bindings = []\<rparr>,
               se_registry = Some NewTopologyRegistry, se_sent = []\<rparr>;
          s = snd (DeclareExchange demo_env ''dead'' ExchangeTypeTopic [] s);
          s = snd (DeclareExchange demo_env ''orders'' ExchangeTypeTopic [] s);
          s = snd (DeclareQueue demo_env ''q'' [WithDeadLetter ''dead'' [], WithMaxLength 100] s)
      in snd (BindQueue demo_env ''q'' ''orders'' ''new'' [] s))"

definition lost_session :: "demo_broker session" where
  "lost_session =
     declared_session\<lparr>se_world := \<lparr>db_exchanges = [], db_queues = [], db_bindings = []\<rparr>, se_sent := []\<rparr>"

lemmas declare_simps = DeclareExchange_def DeclareQueue_def BindQueue_def and_then_def rpc_def
  demo_env_def declareQuorumQueueFromConfig_def declareQuorumQueueLegacy_def declareQueueLegacy_def
  default_queue_def default_exchange_def default_binding_def set_arg_def queue_method_def
  exchange_method_def registered_queue_def register_def some_info_def no_such_def
  adminQueueConfig.defs quorumQueueConfig.defs NewTopologyRegistry_def RegisterExchange_def
  RegisterQueue_def RegisterBinding_def key_of_binding_def binding_key_def ExchangeTypeTopic_def
  in_context_def op_ok_def

definition lost_queue :: queueConfig where
  "lost_queue =
     registered_queue ''q'' QueueTypeQuorum
       (default_queue\<lparr>aq_Arguments := [(''x-dead-letter-exchange'', VStr ''dead''),
          (''x-max-length'', VInt64 100), (''x-queue-type'', VStr ''quorum'')],
          aq_DeadLetterExchange := ''dead''\<rparr>)"

lemma lost_session_eq:
  "lost_session =
     \<lparr>se_world = \<lparr>db_exchanges = [], db_queues = [], db_bindings = []\<rparr>,
      se_registry = Some
        \<lparr>rg_exchanges = [(''dead'', default_exchange ''dead'' ExchangeTypeTopic),
            (''orders'', default_exchange ''orders'' ExchangeTypeTopic)],
         rg_queues = [(''q'', lost_queue)],
         rg_bindings = [(''q->orders:new'', default_binding ''q'' ''orders'' ''new'')]\<rparr>,
      se_sent = []\<rparr>"
  by (simp add: lost_session_def declared_session_def declare_simps lost_queue_def Let_def)

lemma lost_session_gets:
  "get_exchange (registry_of lost_session) =
     [''dead'' \<mapsto> default_exchange ''dead'' ExchangeTypeTopic,
      ''orders'' \<mapsto> default_exchange ''orders'' ExchangeTypeTopic]"
  "get_queue (registry_of lost_session) = [''q'' \<mapsto> lost_queue]"
  "get_binding (registry_of lost_session) =
     [''q->orders:new'' \<mapsto> default_binding ''q'' ''orders'' ''new'']"
  by (auto simp: registry_of_def lost_session_eq get_exchange_def get_queue_def get_binding_def
      GetExchange_def GetQueue_def)

lemma lost_session_ok:
  "well_keyed (registry_of lost_session)" "closed_registry (registry_of lost_session)"
proof -
  note g = lost_session_gets
  show "well_keyed (registry_of lost_session)"
    by (simp add: well_keyed_def exchanges.keyed_def queues.keyed_def bindings.keyed_def g)
      (simp add: registry_of_def lost_session_eq go_map_ok_def default_exchange_def lost_queue_def
        registered_queue_def default_binding_def key_of_binding_def binding_key_def)
  show "closed_registry (registry_of lost_session)"
    by (auto simp: closed_registry_def reg_exchanges_def reg_queues_def reg_bindings_def g
        default_exchange_def lost_queue_def registered_queue_def default_binding_def
        queue_pair_def binding_triple_def ran_map_upd)
qed


section \<open>What is declared again\<close>

lemma DeclareQueue_registers:
  assumes "fst (DeclareQueue E name opts s) = Inr i" and "se_registry s \<noteq> None"
  shows "GetQueue name (registry_of (snd (DeclareQueue E name opts s))) =
    Some (let c = fold apply_queue_option opts default_queue in
      if aq_UseClassicQueue c then registered_queue name QueueTypeClassic c
      else registered_queue name QueueTypeQuorum (set_arg ''x-queue-type'' (VStr ''quorum'') c))"
  using assms
  by (auto simp: DeclareQueue_def declareQueueLegacy_def declareQuorumQueueFromConfig_def
      declareQuorumQueueLegacy_def and_then_def Let_def registry_of_def register_def GetQueue_def
      RegisterQueue_def registered_queue_def set_arg_def adminQueueConfig.defs quorumQueueConfig.defs
      rpc_def split: prod.splits sum.splits option.splits if_splits)

text \<open>The dead-letter fields agree with the arguments.\<close>

definition dead_letter_ok :: "adminQueueConfig \<Rightarrow> bool" where
  "dead_letter_ok c \<longleftrightarrow>
     go_map_ok (aq_Arguments c) \<and>
     (aq_DeadLetterExchange c \<noteq> [] \<longrightarrow>
        go_get (aq_Arguments c) ''x-dead-letter-exchange'' = Some (VStr (aq_DeadLetterExchange c)) \<and>
        (aq_DeadLetterRoutingKey c \<noteq> [] \<longrightarrow>
           go_get (aq_Arguments c) ''x-dead-letter-routing-key'' =
             Some (VStr (aq_DeadLetterRoutingKey c))))"

fun harmless :: "queue_option \<Rightarrow> bool" where
  "harmless (WithArguments args) =
     (go_map_ok args \<and> go_get args ''x-dead-letter-exchange'' = None \<and>
      go_get args ''x-dead-letter-routing-key'' = None)"
| "harmless opt = (opt \<noteq> WithClassicQueue)"

lemma dead_letter_ok_option:
  "dead_letter_ok c \<Longrightarrow> harmless opt \<Longrightarrow> dead_letter_ok (apply_queue_option opt c)"
  by (cases opt)
    (auto simp: dead_letter_ok_def set_arg_def Let_def go_get_maps_Copy go_map_ok_maps_Copy
      split: option.splits)

lemma dead_letter_ok_fold:
  "dead_letter_ok c \<Longrightarrow> list_all harmless opts \<Longrightarrow> dead_letter_ok (fold apply_queue_option opts c)"
  by (induction opts arbitrary: c) (simp_all add: dead_letter_ok_option)

lemma declared_quorum:
  "WithClassicQueue \<notin> set opts \<Longrightarrow>
   declared_queue name opts =
     queue_method name (set_arg ''x-queue-type'' (VStr ''quorum'')
       (fold apply_queue_option opts default_queue))"
  by (simp add: declared_queue_def fold_queue_options Let_def default_queue_def)

lemma recreate_queue_flags:
  "WithAutoDelete \<in> set (recreate_queue_options q) \<longleftrightarrow> qc_AutoDelete q"
  "WithExclusiveQueue \<in> set (recreate_queue_options q) \<longleftrightarrow> qc_Exclusive q"
  "WithClassicQueue \<notin> set (recreate_queue_options q)"
  by (simp_all add: recreate_queue_options_def)

lemma recreate_queue_arguments:
  "aq_Arguments (fold apply_queue_option (recreate_queue_options q) default_queue) =
     (let args = (if qc_Arguments q \<noteq> [] then maps_Copy [] (qc_Arguments q) else []) in
      if qc_DeadLetterExchange q \<noteq> []
      then (let args = go_put ''x-dead-letter-exchange'' (VStr (qc_DeadLetterExchange q)) args in
            if qc_DeadLetterRoutingKey q \<noteq> []
            then go_put ''x-dead-letter-routing-key'' (VStr (qc_DeadLetterRoutingKey q)) args else args)
      else args)"
  by (simp add: recreate_queue_options_def set_arg_def Let_def default_queue_def)


definition demo_session :: "unit session" where
  "demo_session = \<lparr>se_world = (), se_registry = Some NewTopologyRegistry, se_sent = []\<rparr>"


text \<open>A classic queue is declared again as a quorum queue: recreateQueue never looks at the
  queue type, so whatever is registered, the queue declared is a quorum queue, and durable.\<close>

lemma classic_queue_recreated_as_quorum:
  "\<exists>args. declared_queue (qc_Name q) (recreate_queue_options q) =
      QueueDeclare (qc_Name q) True (qc_AutoDelete q) (qc_Exclusive q) False args \<and>
    go_get args ''x-queue-type'' = Some (VStr ''quorum'')"
proof -
  have "WithClassicQueue \<notin> set (recreate_queue_options q)" by (simp add: recreate_queue_options_def)
  then show ?thesis
    by (simp add: declared_quorum queue_method_def set_arg_def fold_queue_options)
      (simp add: default_queue_def recreate_queue_options_def)
qed

section \<open>Validation forgets\<close>

lemma ensure_all_there:
  assumes w: "working_broker E V"
  shows "ok_session r0 s \<Longrightarrow> \<forall>b \<in> set bs. bc_ExchangeName b \<in> reg_exchanges r0 \<Longrightarrow>
    reg_exchanges r0 \<subseteq> bv_exchanges V (se_world s) \<Longrightarrow>
    each (\<lambda>b. in_context (what b) (ensureExchangeExists E (bc_ExchangeName b))) bs s = (r, s') \<Longrightarrow>
    r = Inr () \<and> grown V s s' \<and> bv_queues V (se_world s') = bv_queues V (se_world s)"
proof (induction bs arbitrary: s r)
  case Nil
  then show ?case by (simp add: op_ok_def)
next
  case (Cons b bs)
  obtain r1 s1 where 1: "ensureExchangeExists E (bc_ExchangeName b) s = (r1, s1)" by fastforce
  have x: "bc_ExchangeName b \<in> reg_exchanges r0" "bc_ExchangeName b \<in> bv_exchanges V (se_world s)"
    using Cons.prems by auto
  from ensureExchangeExists_working [OF w 1 Cons.prems(1) x(1)] x(2)
  have e: "r1 = Inr ()" "grown V s s1" "bv_queues V (se_world s1) = bv_queues V (se_world s)" by simp_all
  have k: "in_context (what b) (ensureExchangeExists E (bc_ExchangeName b)) s = (Inr (), s1)"
    using 1 e(1) by (simp add: in_context_def)
  have 2: "each (\<lambda>b. in_context (what b) (ensureExchangeExists E (bc_ExchangeName b))) bs s1 = (r, s')"
    using Cons.prems(4) by (simp add: and_then_def k)
  have "reg_exchanges r0 \<subseteq> bv_exchanges V (se_world s1)"
    using Cons.prems(3) e(2) by (auto simp: grown_def)
  from Cons.IH [OF ok_session_grown [OF Cons.prems(1) e(2)] _ this 2] Cons.prems(2) e grown_trans [OF e(2)]
  show ?case by simp
qed

lemma ensure_dependencies_there:
  assumes w: "working_broker E V" and ok: "well_keyed (registry_of s)"
    and closed: "closed_registry (registry_of s)" and q: "queue_pair c \<in> reg_queues (registry_of s)"
    and there: "reg_exchanges (registry_of s) \<subseteq> bv_exchanges V (se_world s)"
    and d: "ensure_dependencies E name c s = (r, s')"
  shows "r = Inr () \<and> grown V s s' \<and> bv_queues V (se_world s') = bv_queues V (se_world s)"
proof -
  define r0 where "r0 = registry_of s"
  have ok0: "ok_session r0 s" using ok by (simp add: ok_session_def r0_def same_names_def)
  define f where "f = (if qc_DeadLetterExchange c \<noteq> []
    then in_context (''failed to ensure dead-letter-exchange exists: '' @ qc_DeadLetterExchange c)
           (ensureExchangeExists E (qc_DeadLetterExchange c)) else op_ok)"
  obtain r1 s1 where 1: "f s = (r1, s1)" by fastforce
  have f: "r1 = Inr () \<and> grown V s s1 \<and> bv_queues V (se_world s1) = bv_queues V (se_world s)"
  proof (cases "qc_DeadLetterExchange c = []")
    case True
    with 1 show ?thesis by (simp add: f_def op_ok_def)
  next
    case False
    obtain r2 where 2: "ensureExchangeExists E (qc_DeadLetterExchange c) s = (r2, s1)"
      using 1 False in_context_snd [of _ "ensureExchangeExists E (qc_DeadLetterExchange c)" s]
      by (simp add: f_def) (metis prod.collapse snd_conv)
    have "qc_DeadLetterExchange c \<in> reg_exchanges r0"
      using closed q False by (auto simp: closed_registry_def queue_pair_def r0_def)
    from ensureExchangeExists_working [OF w 2 ok0 this] there this 1 2 False show ?thesis
      by (auto simp: f_def in_context_def r0_def)
  qed
  then have ok1: "ok_session r0 s1" using ok0 ok_session_grown by blast
  have "\<forall>b \<in> set (filter (\<lambda>b. bc_QueueName b = name) (listed_bindings E s1)).
      bc_ExchangeName b \<in> reg_exchanges r0"
  proof
    fix b assume "b \<in> set (filter (\<lambda>b. bc_QueueName b = name) (listed_bindings E s1))"
    then have "binding_triple b \<in> reg_bindings r0"
      using ok1 listed(1) [OF w, of s1] by (auto simp: ok_session_def same_names_def reg_bindings_def)
    then show "bc_ExchangeName b \<in> reg_exchanges r0"
      using closed by (auto simp: closed_registry_def r0_def binding_triple_def)
  qed
  moreover have "reg_exchanges r0 \<subseteq> bv_exchanges V (se_world s1)"
    using there f by (auto simp: grown_def r0_def)
  moreover from d 1 f have "each (\<lambda>b. in_context
      (''failed to ensure exchange exists for queue binding: '' @ bc_ExchangeName b)
      (ensureExchangeExists E (bc_ExchangeName b)))
      (filter (\<lambda>b. bc_QueueName b = name) (listed_bindings E s1)) s1 = (r, s')"
    by (simp add: ensure_dependencies_def f_def [symmetric] and_then_def)
  ultimately have "r = Inr () \<and> grown V s1 s' \<and> bv_queues V (se_world s') = bv_queues V (se_world s1)"
    by (rule ensure_all_there [OF w ok1])
  with f grown_trans [of V s s1 s'] show ?thesis by simp
qed

text \<open>Validating a queue forgets how it was declared: when everything is in place, ValidateQueue
  succeeds and removes the dead-letter exchange and all arguments of the queue from the registry,
  because InspectQueue cannot see them; a queue lost later is declared without them.\<close>

lemma validation_forgets_dead_lettering:
  assumes w: "working_broker E V" and k: "well_keyed (registry_of s)" "closed_registry (registry_of s)"
    and v: "tv_enabled v" and q: "GetQueue name (registry_of s) = Some q" "qc_DeadLetterExchange q \<noteq> []"
    and there: "reg_exchanges (registry_of s) \<subseteq> bv_exchanges V (se_world s)" "name \<in> bv_queues V (se_world s)"
  shows "fst (ValidateQueue E v name s) = Inr () \<and>
    (\<exists>q'. GetQueue name (registry_of (snd (ValidateQueue E v name s))) = Some q' \<and>
       qc_DeadLetterExchange q' = [] \<and> qc_Arguments q' = [] \<and>
       declared_queue name (recreate_queue_options q') =
         QueueDeclare name True (qc_AutoDelete q) (qc_Exclusive q) False
           [(''x-queue-type'', VStr ''quorum'')])"
proof -
  have q1: "get_queue (registry_of s) name = Some q" "qc_Name q = name"
    using q(1) k(1) by (simp_all add: get_queue_def well_keyed_def queues.keyed_def)
  then have pair: "queue_pair q \<in> reg_queues (registry_of s)"
    by (auto simp: reg_queues_def ran_def)
  obtain r1 s1 where 1: "ensure_dependencies E name q s = (r1, s1)" by fastforce
  note e = ensure_dependencies_there [OF w k pair there(1) 1]
  obtain r2 s2 where 2: "QueueExists E name s1 = (r2, s2)" by fastforce
  note x = QueueExists_working [OF w 2]
  obtain r3 s3 where 3: "rpc E (''failed to inspect queue '' @ name) (QueueDeclarePassive name) s2 = (r3, s3)"
    by fastforce
  note o = rpc_obeys [OF w 3]
  have "\<not> isl r3" using o x e there(2) by (simp add: same_view_def)
  then obtain i where i: "r3 = Inr i" by (cases r3) simp_all
  define q' where "q' = q\<lparr>qc_DeadLetterExchange := [], qc_DeadLetterRoutingKey := [], qc_Arguments := []\<rparr>"
  have "sync_registry E name q s2 = (Inr (), register (RegisterQueue q') s3)"
    using 3 i q(2)
    by (simp add: sync_registry_def InspectQueue_def and_then_def q'_def string_arg_def Let_def
        queue_info.defs queueInfo.defs)
  then have r: "ValidateQueue E v name s = (Inr (), register (RegisterQueue q') s3)"
    using v q 1 e 2 x there(2) by (simp add: ValidateQueue_def and_then_def in_context_def)
  have "ok_session (registry_of s) s1"
    using e k(1) ok_session_grown [of "registry_of s" s V s1] by (simp add: ok_session_def same_names_def)
  then have "queue_pair q \<in> reg_queues (registry_of s1)"
    using pair by (simp add: ok_session_def same_names_def)
  then have "se_registry s3 \<noteq> None" using registered_session(2) x o by metis
  then have g: "GetQueue name (registry_of (register (RegisterQueue q') s3)) = Some q'"
    using q1 by (simp add: registry_of_register GetQueue_def RegisterQueue_def q'_def)
  have "declared_queue name (recreate_queue_options q') =
      QueueDeclare name True (qc_AutoDelete q) (qc_Exclusive q) False [(''x-queue-type'', VStr ''quorum'')]"
    using recreate_queue_flags [of q']
    by (simp add: declared_quorum queue_method_def set_arg_def fold_queue_options recreate_queue_arguments)
      (simp add: q'_def default_queue_def)
  with r g show ?thesis by (simp add: q'_def)
qed

definition strict_validator :: topologyValidator where
  "strict_validator = EnableAutoRecreate (Enable NewTopologyValidator)"

definition complete_session :: "demo_broker session" where
  "complete_session = lost_session\<lparr>se_world := \<lparr>db_exchanges = [''dead'', ''orders''],
     db_queues = [''q''], db_bindings = [(''q'', ''orders'', ''new'')]\<rparr>\<rparr>"

lemma validation_forgets_dead_lettering_witness:
  "fst (ValidateQueue demo_env strict_validator ''q'' complete_session) = Inr () \<and>
   (\<exists>q'. GetQueue ''q'' (registry_of (snd (ValidateQueue demo_env strict_validator ''q'' complete_session))) =
      Some q' \<and> qc_Arguments q' = [])"
proof -
  have r: "registry_of complete_session = registry_of lost_session"
    by (simp add: registry_of_def complete_session_def)
  have x: "reg_exchanges (registry_of lost_session) \<subseteq> {''dead'', ''orders''}"
    by (simp add: reg_exchanges_def lost_session_gets default_exchange_def ran_map_upd)
  show ?thesis
    using validation_forgets_dead_lettering [OF demo_working, of complete_session strict_validator
        "''q''" lost_queue] lost_session_ok x
    by (auto simp: r strict_validator_def EnableAutoRecreate_def Enable_def demo_view_def
        complete_session_def registry_of_def lost_session_eq GetQueue_def lost_queue_def
        registered_queue_def)
qed

text \<open>After a broker lost a queue together with its exchange, the first ValidateQueue with
  auto-recreation returns an error although the broker accepts everything asked of it: recreating
  the exchange restores its bindings before the queue is there. The second one succeeds.\<close>

lemma first_validation_after_loss_fails:
  "(\<exists>e. fst (ValidateQueue demo_env strict_validator ''q'' lost_session) = Inl e) \<and>
   fst (ValidateQueue demo_env strict_validator ''q''
     (snd (ValidateQueue demo_env strict_validator ''q'' lost_session))) = Inr ()"
  by (simp add: lost_session_eq ValidateQueue_def strict_validator_def EnableAutoRecreate_def Enable_def
      registry_of_def GetQueue_def ensure_dependencies_def ensureExchangeExists_def declare_simps
      lost_queue_def exists_by_def ExchangeExists_def QueueExists_def GetExchange_def Let_def
      recreateExchange_def recreate_exchange_options_def recreateExchangeBindings_def
      listed_bindings_def ListBindings_def restore_binding_def binding_options_def recreateQueue_def
      recreate_queue_options_def recreateQueueBindings_def maps_Copy_def)

section \<open>The background loop\<close>

text \<open>
  \<open>backgroundValidationLoop\<close> reads \<open>stopCh\<close> each time it comes to its \<open>select\<close>: \<open>BgSelect n\<close> waits
  on channel \<open>n\<close> or for the ticker. \<open>Disable\<close> closes the channel and puts a new one in its place.
\<close>

datatype bg_pc = BgTop | BgSelect nat | BgWorking | BgStopped

datatype bg_label = BgLoop bool | BgDisable

text \<open>The flag says whether the ticker has fired.\<close>

fun bg_step :: "bg_label \<Rightarrow> topologyValidator \<times> bg_pc \<Rightarrow> (topologyValidator \<times> bg_pc) option" where
  "bg_step (BgLoop tick) (v, BgTop) = Some (v, BgSelect (tv_stopCh v))"
| "bg_step (BgLoop tick) (v, BgSelect n) =
     (if tick then Some (v, BgWorking) else if tv_closed v n then Some (v, BgStopped) else None)"
| "bg_step (BgLoop tick) (v, BgWorking) = Some (v, BgTop)"
| "bg_step (BgLoop tick) (v, BgStopped) = None"
| "bg_step BgDisable (v, pc) = Some (Disable v, pc)"

fun bg_run :: "bg_label list \<Rightarrow> topologyValidator \<times> bg_pc \<Rightarrow> (topologyValidator \<times> bg_pc) option" where
  "bg_run [] c = Some c"
| "bg_run (l # ls) c = (case bg_step l c of None \<Rightarrow> None | Some c' \<Rightarrow> bg_run ls c')"

interpretation background: labelled_run bg_step bg_run
  by unfold_locales simp_all

text \<open>A validator that has been disabled, and a loop that will only ever wait on an open channel.\<close>

definition missed :: "topologyValidator \<times> bg_pc \<Rightarrow> bool" where
  "missed c \<longleftrightarrow>
     \<not> tv_backgroundEnabled (fst c) \<and> \<not> tv_closed (fst c) (tv_stopCh (fst c)) \<and>
     (snd c = BgTop \<or> snd c = BgWorking \<or> snd c = BgSelect (tv_stopCh (fst c)))"

lemma missed_step: "missed c \<Longrightarrow> bg_step l c = Some c' \<Longrightarrow> missed c'"
  by (cases "(l, c)" rule: bg_step.cases)
    (auto simp: missed_def Disable_def Let_def split: if_splits)

lemma missed_run: "missed c \<Longrightarrow> bg_run ls c = Some c' \<Longrightarrow> missed c'"
  by (rule background.invariant [where P = missed]) (auto dest: missed_step)

text \<open>Disable misses a background loop that is validating at that moment: the loop then waits on
  the new stop channel, which no later Disable closes, and never stops.\<close>

lemma disable_misses_working_loop:
  assumes "tv_backgroundEnabled v" and "\<forall>n > tv_stopCh v. \<not> tv_closed v n"
    and "bg_run ls (Disable v, BgWorking) = Some (v', pc)"
  shows "pc \<noteq> BgStopped \<and> \<not> tv_backgroundEnabled v'"
proof -
  have "missed (Disable v, BgWorking)"
    using assms(1,2) by (simp add: missed_def Disable_def Let_def)
  from missed_run [OF this assms(3)] show ?thesis by (auto simp: missed_def)
qed

lemma disable_misses_working_loop_witness:
  "\<exists>v' pc. bg_run [BgLoop False, BgLoop True, BgDisable, BgLoop True, BgLoop True, BgLoop True]
     (Disable (snd (EnableBackgroundValidation minute NewTopologyValidator)), BgWorking) =
       Some (v', pc) \<and> pc \<noteq> BgStopped"
proof -
  define v where "v = snd (EnableBackgroundValidation minute NewTopologyValidator)"
  have v: "tv_backgroundEnabled v" "\<forall>n > tv_stopCh v. \<not> tv_closed v n"
    by (simp_all add: v_def EnableBackgroundValidation_def NewTopologyValidator_def)
  obtain v' pc where
    r: "bg_run [BgLoop False, BgLoop True, BgDisable, BgLoop True, BgLoop True, BgLoop True]
      (Disable v, BgWorking) = Some (v', pc)"
    by (simp add: v_def EnableBackgroundValidation_def NewTopologyValidator_def Disable_def)
  from disable_misses_working_loop [OF v r] r show ?thesis unfolding v_def [symmetric] by blast
qed

end
