(* ===== verification/Saga.thy ===== *)
theory Saga
  imports Amqp_Types Labelled_Runs
begin

text \<open>
  The saga orchestrator (src/saga/saga.go): the in-memory store, starting and compensating a saga,
  and the handlers of step and compensation messages. The store keeps one object per saga, which
  every operation updates in place; a message carries a copy.
\<close>

section \<open>Data\<close>

datatype saga_state =
    StateUnset
  | StateStarted
  | StateCompleted
  | StateFailed
  | StateCompensating
  | StateCompensated

record sagaStep =
  sp_ID :: string
  sp_Name :: string
  sp_Action :: string
  sp_Compensation :: string
  sp_Input :: table
  sp_Output :: table
  sp_Status :: saga_state
  sp_Error :: string
  sp_ExecutedAt :: instant

record saga =
  sg_ID :: string
  sg_Name :: string
  sg_State :: saga_state
  sg_Steps :: "sagaStep list"
  sg_Context :: table
  sg_CreatedAt :: instant
  sg_UpdatedAt :: instant
  sg_CompletedAt :: "instant option"

type_synonym saga_store = "(string, saga) go_map"

section \<open>The in-memory store\<close>

definition SaveSaga :: "saga \<Rightarrow> saga_store \<Rightarrow> saga_store" where
  "SaveSaga sg st = go_put (sg_ID sg) sg st"

definition LoadSaga :: "string \<Rightarrow> saga_store \<Rightarrow> string + saga" where
  "LoadSaga sid st =
     (case go_get st sid of None \<Rightarrow> Inl (''saga not found: '' @ sid) | Some sg \<Rightarrow> Inr sg)"

definition DeleteSaga :: "string \<Rightarrow> saga_store \<Rightarrow> saga_store" where
  "DeleteSaga sid st = go_delete sid st"

definition ListActiveSagas :: "saga_store \<Rightarrow> saga list" where
  "ListActiveSagas st =
     filter (\<lambda>sg. sg_State sg = StateStarted \<or> sg_State sg = StateCompensating) (map snd st)"

text \<open>The first step with the ID.\<close>

fun set_step :: "string \<Rightarrow> (sagaStep \<Rightarrow> sagaStep) \<Rightarrow> sagaStep list \<Rightarrow> sagaStep list option" where
  "set_step sid f [] = None"
| "set_step sid f (s # ss) =
     (if sp_ID s = sid then Some (f s # ss) else map_option ((#) s) (set_step sid f ss))"

text \<open>The loop over the steps: whether all are completed, and whether one has failed, which ends it.\<close>

fun check_steps :: "sagaStep list \<Rightarrow> bool \<Rightarrow> bool \<times> bool" where
  "check_steps [] allCompleted = (allCompleted, False)"
| "check_steps (s # ss) allCompleted =
     (if sp_Status s = StateFailed then (allCompleted, True)
      else check_steps ss (allCompleted \<and> sp_Status s = StateCompleted))"

definition UpdateSagaStep ::
  "instant \<Rightarrow> string \<Rightarrow> string \<Rightarrow> saga_state \<Rightarrow> table \<Rightarrow> string \<Rightarrow> saga_store \<Rightarrow>
   (string + saga) \<times> saga_store" where
  "UpdateSagaStep now sagaID stepID status output errorMsg st =
     (case go_get st sagaID of
        None \<Rightarrow> (Inl (''saga not found: '' @ sagaID), st)
      | Some sg \<Rightarrow>
          (case set_step stepID
                  (\<lambda>s. s\<lparr>sp_Status := status, sp_Output := output, sp_Error := errorMsg,
                         sp_ExecutedAt := now\<rparr>) (sg_Steps sg) of
             None \<Rightarrow> (Inl (''step not found: '' @ stepID), st)
           | Some steps \<Rightarrow>
               (let sg1 = sg\<lparr>sg_Steps := steps, sg_UpdatedAt := now\<rparr>;
                    (allCompleted, anyFailed) = check_steps steps True;
                    sg2 = (if anyFailed then sg1\<lparr>sg_State := StateFailed\<rparr>
                           else if allCompleted
                           then sg1\<lparr>sg_State := StateCompleted, sg_CompletedAt := Some now\<rparr>
                           else sg1)
                in (Inr sg2, go_put sagaID sg2 st))))"

definition UpdateSagaState ::
  "instant \<Rightarrow> string \<Rightarrow> saga_state \<Rightarrow> saga_store \<Rightarrow> (string + saga) \<times> saga_store" where
  "UpdateSagaState now sagaID state st =
     (case go_get st sagaID of
        None \<Rightarrow> (Inl (''saga not found: '' @ sagaID), st)
      | Some sg \<Rightarrow>
          (let sg1 = sg\<lparr>sg_State := state, sg_UpdatedAt := now\<rparr>;
               sg2 = (if state = StateCompleted then sg1\<lparr>sg_CompletedAt := Some now\<rparr> else sg1)
           in (Inr sg2, go_put sagaID sg2 st)))"

definition GetCompletedSteps :: "saga \<Rightarrow> sagaStep list" where
  "GetCompletedSteps sg = filter (\<lambda>s. sp_Status s = StateCompleted) (sg_Steps sg)"

definition GetFailedSteps :: "saga \<Rightarrow> sagaStep list" where
  "GetFailedSteps sg = filter (\<lambda>s. sp_Status s = StateFailed) (sg_Steps sg)"

definition GetNextStep :: "saga \<Rightarrow> sagaStep option" where
  "GetNextStep sg = List.find (\<lambda>s. sp_Status s = StateStarted) (sg_Steps sg)"

section \<open>Messages and the world of a manager\<close>

datatype saga_message =
    Garbage string
  | SagaMessage string string sagaStep saga

datatype handled = HandlerOk table | HandlerError string | HandlerPanics

type_synonym saga_handler = "saga \<Rightarrow> sagaStep \<Rightarrow> handled"

text \<open>A handler may change its copy of the step; what the code reads back is the step's output.\<close>

record saga_config =
  gc_StepQueue :: string
  gc_CompensateQueue :: string
  gc_StepHandlers :: "string \<Rightarrow> saga_handler option"
  gc_CompensationHandlers :: "string \<Rightarrow> saga_handler option"

text \<open>
  What is outside: the IDs that \<open>ulid.New\<close> returns and the errors of \<open>Publish\<close>, both by the number
  of the call.
\<close>

record saga_env =
  ge_config :: saga_config
  ge_ulid :: "nat \<Rightarrow> string + string"
  ge_publish :: "nat \<Rightarrow> string option"

datatype handler_call = Executed string | Undone string

text \<open>\<open>sw_calls\<close> lists the handlers called so far, for the statements.\<close>

record saga_world =
  sw_store :: saga_store
  sw_queue :: "string \<Rightarrow> saga_message list"
  sw_ulids :: nat
  sw_publishes :: nat
  sw_now :: instant
  sw_calls :: "handler_call list"

definition new_ulid :: "saga_env \<Rightarrow> saga_world \<Rightarrow> (string + string) \<times> saga_world" where
  "new_ulid E w = (ge_ulid E (sw_ulids w), w\<lparr>sw_ulids := Suc (sw_ulids w)\<rparr>)"

text \<open>A message on the default exchange, to a queue whose name is fixed in the code.\<close>

definition publish_saga_message ::
  "saga_env \<Rightarrow> string \<Rightarrow> saga \<Rightarrow> sagaStep \<Rightarrow> saga_world \<Rightarrow> string option \<times> saga_world" where
  "publish_saga_message E queue sg st w =
     (case new_ulid E w of
        (Inl e, w1) \<Rightarrow> (Some (''failed to generate message ID: '' @ e), w1)
      | (Inr messageID, w1) \<Rightarrow>
          (let w2 = w1\<lparr>sw_publishes := Suc (sw_publishes w1)\<rparr> in
           case ge_publish E (sw_publishes w1) of
             Some e \<Rightarrow> (Some e, w2)
           | None \<Rightarrow>
               (None, w2\<lparr>sw_queue := (sw_queue w2)(queue := sw_queue w2 queue @
                           [SagaMessage (sg_ID sg) (sp_ID st) st sg])\<rparr>)))"

definition publishStep where
  "publishStep E sg st w = publish_saga_message E ''saga.steps'' sg st w"

definition publishCompensation where
  "publishCompensation E sg st w = publish_saga_message E ''saga.compensations'' sg st w"

section \<open>Starting and compensating\<close>

fun init_steps ::
  "saga_env \<Rightarrow> sagaStep list \<Rightarrow> saga_world \<Rightarrow> (string + sagaStep list) \<times> saga_world" where
  "init_steps E [] w = (Inr [], w)"
| "init_steps E (s # ss) w =
     (case (if sp_ID s = [] then new_ulid E w else (Inr (sp_ID s), w)) of
        (Inl e, w1) \<Rightarrow> (Inl (''failed to generate step ID: '' @ e), w1)
      | (Inr sid, w1) \<Rightarrow>
          (case init_steps E ss w1 of
             (Inl e, w2) \<Rightarrow> (Inl e, w2)
           | (Inr ss', w2) \<Rightarrow> (Inr (s\<lparr>sp_ID := sid, sp_Status := StateStarted\<rparr> # ss'), w2)))"

definition Start ::
  "saga_env \<Rightarrow> string \<Rightarrow> sagaStep list \<Rightarrow> table \<Rightarrow> saga_world \<Rightarrow> (string + saga) \<times> saga_world" where
  "Start E name steps0 ctx w =
     (case new_ulid E w of
        (Inl e, w1) \<Rightarrow> (Inl (''failed to generate saga ID: '' @ e), w1)
      | (Inr sagaID, w1) \<Rightarrow>
          (case init_steps E steps0 w1 of
             (Inl e, w2) \<Rightarrow> (Inl e, w2)
           | (Inr steps, w2) \<Rightarrow>
               (let sg = \<lparr>sg_ID = sagaID, sg_Name = name, sg_State = StateStarted, sg_Steps = steps,
                          sg_Context = ctx, sg_CreatedAt = sw_now w2, sg_UpdatedAt = sw_now w2,
                          sg_CompletedAt = None\<rparr>;
                    w3 = w2\<lparr>sw_store := SaveSaga sg (sw_store w2)\<rparr>
                in
                case steps of
                  [] \<Rightarrow> (Inr sg, w3)
                | s # ss \<Rightarrow>
                    (case publishStep E sg s w3 of
                       (Some e, w4) \<Rightarrow> (Inl (''failed to publish first step: '' @ e), w4)
                     | (None, w4) \<Rightarrow> (Inr sg, w4)))))"

text \<open>The completed steps, from the last one backwards; the first publish that fails ends it.\<close>

fun publish_compensations ::
  "saga_env \<Rightarrow> saga \<Rightarrow> sagaStep list \<Rightarrow> saga_world \<Rightarrow> string option \<times> saga_world" where
  "publish_compensations E sg [] w = (None, w)"
| "publish_compensations E sg (s # ss) w =
     (if sp_Status s = StateCompleted
      then
        (case publishCompensation E sg s w of
           (Some e, w1) \<Rightarrow> (Some (''failed to publish compensation for step '' @ sp_ID s @ '': '' @ e), w1)
         | (None, w1) \<Rightarrow> publish_compensations E sg ss w1)
      else publish_compensations E sg ss w)"

definition Compensate :: "saga_env \<Rightarrow> string \<Rightarrow> saga_world \<Rightarrow> string option \<times> saga_world" where
  "Compensate E sagaID w =
     (case LoadSaga sagaID (sw_store w) of
        Inl e \<Rightarrow> (Some (''failed to load saga: '' @ e), w)
      | Inr sg0 \<Rightarrow>
          (let sg = sg0\<lparr>sg_State := StateCompensating, sg_UpdatedAt := sw_now w\<rparr> in
           publish_compensations E sg (rev (sg_Steps sg))
             (w\<lparr>sw_store := SaveSaga sg (sw_store w)\<rparr>)))"

section \<open>Handling messages\<close>

definition with_store ::
  "(saga_store \<Rightarrow> (string + saga) \<times> saga_store) \<Rightarrow> saga_world \<Rightarrow> (string + saga) \<times> saga_world" where
  "with_store f w = (let (r, st) = f (sw_store w) in (r, w\<lparr>sw_store := st\<rparr>))"

definition called :: "handler_call \<Rightarrow> saga_world \<Rightarrow> saga_world" where
  "called c w = w\<lparr>sw_calls := sw_calls w @ [c]\<rparr>"

text \<open>Mark the saga as failed and start compensation; both errors are only logged.\<close>

definition fail_saga :: "saga_env \<Rightarrow> string \<Rightarrow> saga_world \<Rightarrow> saga_world" where
  "fail_saga E sagaID w =
     snd (Compensate E sagaID (snd (with_store (UpdateSagaState (sw_now w) sagaID StateFailed) w)))"

text \<open>The error the message handler returns. A panic of the handler is recovered: it returns nil.\<close>

definition handleStepMessage ::
  "saga_env \<Rightarrow> saga_message \<Rightarrow> saga_world \<Rightarrow> string option \<times> saga_world" where
  "handleStepMessage E msg w =
     (case msg of
        Garbage e \<Rightarrow> (Some (''failed to unmarshal step message: '' @ e), w)
      | SagaMessage sagaID stepID st sg \<Rightarrow>
          (case gc_StepHandlers (ge_config E) (sp_Action st) of
             None \<Rightarrow>
               (let w1 = snd (with_store (UpdateSagaStep (sw_now w) sagaID stepID StateFailed []
                                (''no handler found for action: '' @ sp_Action st)) w)
                in (None, fail_saga E sagaID w1))
           | Some handler \<Rightarrow>
               (let w0 = called (Executed stepID) w in
                case handler sg st of
                  HandlerPanics \<Rightarrow> (None, w0)
                | HandlerError e \<Rightarrow>
                    (case with_store (UpdateSagaStep (sw_now w0) sagaID stepID StateFailed [] e) w0 of
                       (Inl e', w1) \<Rightarrow> (Some e', w1)
                     | (Inr _, w1) \<Rightarrow> (None, fail_saga E sagaID w1))
                | HandlerOk output \<Rightarrow>
                    (case with_store (UpdateSagaStep (sw_now w0) sagaID stepID StateCompleted output []) w0 of
                       (Inl e', w1) \<Rightarrow> (Some e', w1)
                     | (Inr sg', w1) \<Rightarrow>
                         (case GetNextStep sg' of
                            Some next \<Rightarrow> publishStep E sg' next w1
                          | None \<Rightarrow>
                              (case with_store (UpdateSagaState (sw_now w1) sagaID StateCompleted) w1 of
                                 (Inl e', w2) \<Rightarrow> (Some e', w2)
                               | (Inr _, w2) \<Rightarrow> (None, w2)))))))"

definition allCompensated :: "saga \<Rightarrow> bool" where
  "allCompensated sg \<longleftrightarrow>
     \<not> list_ex (\<lambda>s. sp_Status s = StateCompleted \<and> sp_Status s \<noteq> StateCompensated) (sg_Steps sg)"

definition handleCompensationMessage ::
  "saga_env \<Rightarrow> saga_message \<Rightarrow> saga_world \<Rightarrow> string option \<times> saga_world" where
  "handleCompensationMessage E msg w =
     (case msg of
        Garbage e \<Rightarrow> (Some (''failed to unmarshal compensation message: '' @ e), w)
      | SagaMessage sagaID stepID st sg \<Rightarrow>
          (case gc_CompensationHandlers (ge_config E) (sp_Compensation st) of
             None \<Rightarrow>
               (None, snd (with_store (UpdateSagaStep (sw_now w) sagaID stepID StateCompensated []
                         (''no compensation handler found for: '' @ sp_Compensation st)) w))
           | Some handler \<Rightarrow>
               (let w0 = called (Undone stepID) w in
                case handler sg st of
                  HandlerPanics \<Rightarrow> (None, w0)
                | r \<Rightarrow>
                    (let text = (case r of HandlerError e \<Rightarrow> ''compensation failed: '' @ e | _ \<Rightarrow> []);
                         w1 = snd (with_store
                                (UpdateSagaStep (sw_now w0) sagaID stepID StateCompensated [] text) w0)
                     in
                     case LoadSaga sagaID (sw_store w1) of
                       Inl e \<Rightarrow> (None, w1)
                     | Inr sg' \<Rightarrow>
                         (None,
                          if allCompensated sg'
                          then snd (with_store (UpdateSagaState (sw_now w1) sagaID StateCompensated) w1)
                          else w1)))))"

section \<open>The interface of the orchestrator\<close>

record saga_step_status =
  ss_Name :: string
  ss_State :: saga_state
  ss_Error :: string
  ss_Output :: table
  ss_Timestamp :: instant

record saga_status =
  st_ID :: string
  st_State :: saga_state
  st_Steps :: "saga_step_status list"

text \<open>Name, action and compensation of a step of the interface.\<close>

definition StartSaga ::
  "saga_env \<Rightarrow> string \<Rightarrow> (string \<times> string \<times> string) list \<Rightarrow> table \<Rightarrow> saga_world \<Rightarrow>
   (string + string) \<times> saga_world" where
  "StartSaga E name steps ctx w =
     (case Start E name
             (map (\<lambda>(n, a, c).
                \<lparr>sp_ID = [], sp_Name = n, sp_Action = a, sp_Compensation = c, sp_Input = [],
                 sp_Output = [], sp_Status = StateUnset, sp_Error = [], sp_ExecutedAt = 0\<rparr>) steps)
             ctx w of
        (Inl e, w1) \<Rightarrow> (Inl e, w1)
      | (Inr sg, w1) \<Rightarrow> (Inr (sg_ID sg), w1))"

definition GetSagaStatus :: "string \<Rightarrow> saga_world \<Rightarrow> string + saga_status" where
  "GetSagaStatus sagaID w =
     (case LoadSaga sagaID (sw_store w) of
        Inl e \<Rightarrow> Inl e
      | Inr sg \<Rightarrow>
          Inr \<lparr>st_ID = sg_ID sg, st_State = sg_State sg,
               st_Steps = map (\<lambda>s. \<lparr>ss_Name = sp_Name s, ss_State = sp_Status s, ss_Error = sp_Error s,
                                    ss_Output = sp_Output s, ss_Timestamp = sp_ExecutedAt s\<rparr>)
                            (sg_Steps sg)\<rparr>)"

section \<open>Processing the queues\<close>

text \<open>
  A queue is served by a consumer that takes one message at a time (prefetch and concurrency are 1);
  one manager serves only one of the two (Saga_Run), so both are served only by two managers of one
  store. A message whose
  handler returns nil is acknowledged, any other is rejected without requeueing.
\<close>

datatype saga_label = TakeStep | TakeCompensation

definition take_message ::
  "string \<Rightarrow> (saga_message \<Rightarrow> saga_world \<Rightarrow> string option \<times> saga_world) \<Rightarrow> saga_world \<Rightarrow>
   saga_world option" where
  "take_message queue handle w =
     (case sw_queue w queue of
        [] \<Rightarrow> None
      | m # ms \<Rightarrow> Some (snd (handle m (w\<lparr>sw_queue := (sw_queue w)(queue := ms)\<rparr>))))"

fun saga_step :: "saga_env \<Rightarrow> saga_label \<Rightarrow> saga_world \<Rightarrow> saga_world option" where
  "saga_step E TakeStep w = take_message (gc_StepQueue (ge_config E)) (handleStepMessage E) w"
| "saga_step E TakeCompensation w =
     take_message (gc_CompensateQueue (ge_config E)) (handleCompensationMessage E) w"

fun saga_run :: "saga_env \<Rightarrow> saga_label list \<Rightarrow> saga_world \<Rightarrow> saga_world option" where
  "saga_run E [] w = Some w"
| "saga_run E (l # ls) w = (case saga_step E l w of None \<Rightarrow> None | Some w' \<Rightarrow> saga_run E ls w')"

section \<open>The course of one saga\<close>

definition good_env :: "saga_env \<Rightarrow> bool" where
  "good_env E \<longleftrightarrow>
     (\<forall>n. \<exists>u. ge_ulid E n = Inr u) \<and> (\<forall>n. ge_publish E n = None) \<and>
     gc_StepQueue (ge_config E) = ''saga.steps'' \<and>
     gc_CompensateQueue (ge_config E) = ''saga.compensations''"

text \<open>Every step has its handlers; that of the step \<open>bad\<close> fails, the others succeed.\<close>

definition handlers_for :: "saga_env \<Rightarrow> sagaStep list \<Rightarrow> string option \<Rightarrow> bool" where
  "handlers_for E S bad \<longleftrightarrow>
     (\<forall>s \<in> set S.
        (\<exists>h. gc_StepHandlers (ge_config E) (sp_Action s) = Some h \<and>
           (\<forall>sg st. sp_ID st = sp_ID s \<longrightarrow>
              (if bad = Some (sp_ID s) then \<exists>e. h sg st = HandlerError e
               else \<exists>out. h sg st = HandlerOk out))) \<and>
        (\<exists>h. gc_CompensationHandlers (ge_config E) (sp_Compensation s) = Some h \<and>
           (\<forall>sg st. h sg st \<noteq> HandlerPanics)))"

definition same_plan :: "sagaStep list \<Rightarrow> sagaStep list \<Rightarrow> bool" where
  "same_plan S T \<longleftrightarrow>
     map sp_ID T = map sp_ID S \<and> map sp_Action T = map sp_Action S \<and>
     map sp_Compensation T = map sp_Compensation S"

lemma same_planD:
  assumes "same_plan S T"
  shows "length T = length S"
    and "i < length S \<Longrightarrow> sp_ID (T ! i) = sp_ID (S ! i) \<and> sp_Action (T ! i) = sp_Action (S ! i) \<and>
      sp_Compensation (T ! i) = sp_Compensation (S ! i)"
proof -
  have l: "length T = length S" using assms by (metis same_plan_def length_map)
  then show "length T = length S" .
  assume i: "i < length S"
  with l assms show "sp_ID (T ! i) = sp_ID (S ! i) \<and> sp_Action (T ! i) = sp_Action (S ! i) \<and>
      sp_Compensation (T ! i) = sp_Compensation (S ! i)"
    unfolding same_plan_def by (metis nth_map)
qed

lemma set_step_nth:
  "distinct (map sp_ID T) \<Longrightarrow> k < length T \<Longrightarrow>
   set_step (sp_ID (T ! k)) f T = Some (T[k := f (T ! k)])"
proof (induction T arbitrary: k)
  case (Cons s T)
  then show ?case by (cases k) (auto simp: image_iff)
qed simp

lemma check_steps_failed: "snd (check_steps T b) = list_ex (\<lambda>s. sp_Status s = StateFailed) T"
  by (induction T arbitrary: b) auto

lemma check_steps_completed:
  "\<not> list_ex (\<lambda>s. sp_Status s = StateFailed) T \<Longrightarrow>
   fst (check_steps T b) = (b \<and> list_all (\<lambda>s. sp_Status s = StateCompleted) T)"
  by (induction T arbitrary: b) auto

lemma map_update_same: "k < length xs \<Longrightarrow> f y = f (xs ! k) \<Longrightarrow> map f (xs[k := y]) = map f xs"
  by (metis list_update_id map_update nth_map)

text \<open>What updating step \<open>k\<close> of a stored saga does.\<close>

lemma UpdateSagaStep_nth:
  assumes g: "go_get st sid = Some sg" and p: "same_plan S (sg_Steps sg)"
    and d: "distinct (map sp_ID S)" and k: "k < length S"
  shows "\<exists>sg'. UpdateSagaStep now sid (sp_ID (S ! k)) status output err st =
      (Inr sg', go_put sid sg' st) \<and> sg_ID sg' = sg_ID sg \<and> same_plan S (sg_Steps sg') \<and>
    map sp_Status (sg_Steps sg') = (map sp_Status (sg_Steps sg))[k := status] \<and>
    sg_State sg' =
      (if StateFailed \<in> set ((map sp_Status (sg_Steps sg))[k := status]) then StateFailed
       else if set ((map sp_Status (sg_Steps sg))[k := status]) \<subseteq> {StateCompleted} then StateCompleted
       else sg_State sg)"
proof -
  note l = same_planD(1) [OF p]
  define f where "f s = s\<lparr>sp_Status := status, sp_Output := output, sp_Error := err,
    sp_ExecutedAt := now\<rparr>" for s :: sagaStep
  have ff: "(\<lambda>s. s\<lparr>sp_Status := status, sp_Output := output, sp_Error := err,
    sp_ExecutedAt := now\<rparr>) = f"
    by (rule ext) (simp add: f_def)
  define T where "T = (sg_Steps sg)[k := f (sg_Steps sg ! k)]"
  have "distinct (map sp_ID (sg_Steps sg))" using p d by (simp add: same_plan_def)
  with set_step_nth [of "sg_Steps sg" k f] k l same_planD(2) [OF p k]
  have s: "set_step (sp_ID (S ! k)) f (sg_Steps sg) = Some T" by (simp add: T_def)
  have same: "map sp_ID T = map sp_ID (sg_Steps sg)" "map sp_Action T = map sp_Action (sg_Steps sg)"
    "map sp_Compensation T = map sp_Compensation (sg_Steps sg)"
    using k l by (simp_all add: T_def map_update_same f_def)
  have status: "map sp_Status T = (map sp_Status (sg_Steps sg))[k := status]"
    by (simp add: T_def f_def map_update)
  have failed: "list_ex (\<lambda>s. sp_Status s = StateFailed) T \<longleftrightarrow> StateFailed \<in> set (map sp_Status T)"
    by (force simp: list_ex_iff)
  have completed: "list_all (\<lambda>s. sp_Status s = StateCompleted) T \<longleftrightarrow>
      set (map sp_Status T) \<subseteq> {StateCompleted}"
    by (auto simp: list_all_iff)
  obtain ac af where c: "check_steps T True = (ac, af)" by fastforce
  with check_steps_failed [of T True] check_steps_completed [of T True]
  have af: "af \<longleftrightarrow> StateFailed \<in> set (map sp_Status T)"
    and ac: "\<not> af \<Longrightarrow> ac \<longleftrightarrow> set (map sp_Status T) \<subseteq> {StateCompleted}"
    unfolding failed completed by auto
  define sg1 where "sg1 = sg\<lparr>sg_Steps := T, sg_UpdatedAt := now\<rparr>"
  define sg' where "sg' = (if af then sg1\<lparr>sg_State := StateFailed\<rparr>
    else if ac then sg1\<lparr>sg_State := StateCompleted, sg_CompletedAt := Some now\<rparr> else sg1)"
  have "UpdateSagaStep now sid (sp_ID (S ! k)) status output err st = (Inr sg', go_put sid sg' st)"
    using s c unfolding UpdateSagaStep_def g ff by (simp add: sg'_def sg1_def Let_def)
  moreover have "sg_ID sg' = sg_ID sg \<and> sg_Steps sg' = T \<and>
      sg_State sg' = (if af then StateFailed else if ac then StateCompleted else sg_State sg)"
    by (simp add: sg'_def sg1_def)
  ultimately show ?thesis
    using p same af ac status by (intro exI [of _ sg']) (auto simp: same_plan_def)
qed

lemma UpdateSagaState_found:
  "go_get st sid = Some sg \<Longrightarrow>
   \<exists>sg'. UpdateSagaState now sid state st = (Inr sg', go_put sid sg' st) \<and> sg_ID sg' = sg_ID sg \<and>
     sg_Steps sg' = sg_Steps sg \<and> sg_State sg' = state"
  by (simp add: UpdateSagaState_def Let_def)

lemma publish_ok:
  assumes "good_env E"
  shows "\<exists>w'. publish_saga_message E q sg st w = (None, w') \<and> sw_store w' = sw_store w \<and>
    sw_calls w' = sw_calls w \<and> sw_now w' = sw_now w \<and>
    sw_queue w' = (sw_queue w)(q := sw_queue w q @ [SagaMessage (sg_ID sg) (sp_ID st) st sg])"
proof -
  obtain u where "ge_ulid E (sw_ulids w) = Inr u" using assms unfolding good_env_def by blast
  moreover have "ge_publish E (sw_publishes w) = None" using assms by (simp add: good_env_def)
  ultimately show ?thesis by (simp add: publish_saga_message_def new_ulid_def Let_def)
qed

lemma publish_compensations_ok:
  assumes "good_env E"
  shows "\<exists>w'. publish_compensations E sg ss w = (None, w') \<and> sw_store w' = sw_store w \<and>
    sw_calls w' = sw_calls w \<and> sw_now w' = sw_now w \<and>
    sw_queue w' = (sw_queue w)(''saga.compensations'' := sw_queue w ''saga.compensations'' @
      map (\<lambda>s. SagaMessage (sg_ID sg) (sp_ID s) s sg) (filter (\<lambda>s. sp_Status s = StateCompleted) ss))"
proof (induction ss arbitrary: w)
  case Nil
  then show ?case by simp
next
  case (Cons s ss)
  show ?case
  proof (cases "sp_Status s = StateCompleted")
    case False
    with Cons show ?thesis by simp
  next
    case True
    obtain w1 where 1: "publishCompensation E sg s w = (None, w1)" "sw_store w1 = sw_store w"
      "sw_calls w1 = sw_calls w" "sw_now w1 = sw_now w"
      "sw_queue w1 = (sw_queue w)(''saga.compensations'' := sw_queue w ''saga.compensations'' @
        [SagaMessage (sg_ID sg) (sp_ID s) s sg])"
      using publish_ok [OF assms] unfolding publishCompensation_def by metis
    obtain w' where "publish_compensations E sg ss w1 = (None, w')" "sw_store w' = sw_store w1"
      "sw_calls w' = sw_calls w1" "sw_now w' = sw_now w1"
      "sw_queue w' = (sw_queue w1)(''saga.compensations'' := sw_queue w1 ''saga.compensations'' @
        map (\<lambda>s. SagaMessage (sg_ID sg) (sp_ID s) s sg) (filter (\<lambda>s. sp_Status s = StateCompleted) ss))"
      using Cons.IH [of w1] by blast
    with 1 True show ?thesis by (intro exI [of _ w']) (auto simp: fun_eq_iff)
  qed
qed

text \<open>
  The phases of a saga with steps \<open>S\<close>: \<open>k\<close> steps are done and the message of the next one is in its
  queue; or step \<open>k\<close> has failed, the \<open>m\<close> first steps are still to be undone, and their messages
  are in the queue, the last step first.
\<close>

definition step_message :: "string \<Rightarrow> sagaStep \<Rightarrow> saga_message \<Rightarrow> bool" where
  "step_message sid s msg \<longleftrightarrow>
     (\<exists>st sg. msg = SagaMessage sid (sp_ID s) st sg \<and> sp_ID st = sp_ID s \<and>
        sp_Action st = sp_Action s \<and> sp_Compensation st = sp_Compensation s)"

definition stored :: "string \<Rightarrow> sagaStep list \<Rightarrow> saga_state list \<Rightarrow> saga_state \<Rightarrow> saga_world \<Rightarrow> bool" where
  "stored sid S statuses state w \<longleftrightarrow>
     (\<exists>sg. go_get (sw_store w) sid = Some sg \<and> sg_ID sg = sid \<and> same_plan S (sg_Steps sg) \<and>
        map sp_Status (sg_Steps sg) = statuses \<and> sg_State sg = state)"

definition running_statuses :: "nat \<Rightarrow> nat \<Rightarrow> saga_state list" where
  "running_statuses k n = replicate k StateCompleted @ replicate (n - k) StateStarted"

definition undone_statuses :: "nat \<Rightarrow> nat \<Rightarrow> nat \<Rightarrow> saga_state list" where
  "undone_statuses m k n =
     replicate m StateCompleted @ replicate (k - m) StateCompensated @ [StateFailed] @
     replicate (n - Suc k) StateStarted"

definition running :: "string \<Rightarrow> sagaStep list \<Rightarrow> nat \<Rightarrow> saga_world \<Rightarrow> bool" where
  "running sid S k w \<longleftrightarrow>
     stored sid S (running_statuses k (length S)) StateStarted w \<and>
     (\<exists>msg. sw_queue w ''saga.steps'' = [msg] \<and> step_message sid (S ! k) msg) \<and>
     sw_queue w ''saga.compensations'' = [] \<and>
     sw_calls w = map (Executed \<circ> sp_ID) (take k S)"

definition completed :: "string \<Rightarrow> sagaStep list \<Rightarrow> saga_world \<Rightarrow> bool" where
  "completed sid S w \<longleftrightarrow>
     stored sid S (replicate (length S) StateCompleted) StateCompleted w \<and>
     sw_queue w ''saga.steps'' = [] \<and> sw_queue w ''saga.compensations'' = [] \<and>
     sw_calls w = map (Executed \<circ> sp_ID) S"

definition undoing :: "string \<Rightarrow> sagaStep list \<Rightarrow> nat \<Rightarrow> nat \<Rightarrow> saga_world \<Rightarrow> bool" where
  "undoing sid S k m w \<longleftrightarrow>
     stored sid S (undone_statuses m k (length S))
       (if m = k then StateCompensating else if m = 0 then StateCompensated else StateFailed) w \<and>
     sw_queue w ''saga.steps'' = [] \<and>
     list_all2 (step_message sid) (rev (take m S)) (sw_queue w ''saga.compensations'') \<and>
     sw_calls w = map (Executed \<circ> sp_ID) (take (Suc k) S) @ map (Undone \<circ> sp_ID) (rev (drop m (take k S)))"

lemma replicate_last: "(replicate (Suc m) a)[m := b] = replicate m a @ [b]"
  by (induction m) simp_all

lemma statuses_completed:
  assumes "k < n"
  shows "(running_statuses k n)[k := StateCompleted] = running_statuses (Suc k) n"
proof -
  from assms obtain j where "n = Suc (k + j)" by (auto simp: less_iff_Suc_add)
  then show ?thesis
    by (simp add: running_statuses_def list_update_append replicate_app_Cons_same Suc_diff_le)
qed

lemma statuses_failed:
  assumes "k < n"
  shows "(running_statuses k n)[k := StateFailed] = undone_statuses k k n"
proof -
  from assms obtain j where "n = Suc (k + j)" by (auto simp: less_iff_Suc_add)
  then show ?thesis
    by (simp add: running_statuses_def undone_statuses_def list_update_append Suc_diff_le)
qed

lemma statuses_undone:
  assumes "Suc m \<le> k"
  shows "(undone_statuses (Suc m) k n)[m := StateCompensated] = undone_statuses m k n"
proof -
  from assms have "k - m = Suc (k - Suc m)" by simp
  then show ?thesis
    unfolding undone_statuses_def
    by (simp only: list_update_append length_replicate lessI if_True replicate_last) simp
qed

lemma stored_update:
  assumes "stored sid S statuses state w" and "distinct (map sp_ID S)" and "k < length S"
  shows "\<exists>sg' w'. with_store (UpdateSagaStep now sid (sp_ID (S ! k)) status output err) w = (Inr sg', w') \<and>
    go_get (sw_store w') sid = Some sg' \<and> sg_ID sg' = sid \<and> same_plan S (sg_Steps sg') \<and>
    map sp_Status (sg_Steps sg') = statuses[k := status] \<and>
    sg_State sg' = (if StateFailed \<in> set (statuses[k := status]) then StateFailed
      else if set (statuses[k := status]) \<subseteq> {StateCompleted} then StateCompleted else state) \<and>
    sw_queue w' = sw_queue w \<and> sw_calls w' = sw_calls w \<and> sw_now w' = sw_now w"
proof -
  from assms(1) obtain sg where sg: "go_get (sw_store w) sid = Some sg" "sg_ID sg = sid"
    "same_plan S (sg_Steps sg)" "map sp_Status (sg_Steps sg) = statuses" "sg_State sg = state"
    by (auto simp: stored_def)
  obtain sg' where u: "UpdateSagaStep now sid (sp_ID (S ! k)) status output err (sw_store w) =
      (Inr sg', go_put sid sg' (sw_store w))" "sg_ID sg' = sg_ID sg" "same_plan S (sg_Steps sg')"
    "map sp_Status (sg_Steps sg') = statuses[k := status]"
    "sg_State sg' = (if StateFailed \<in> set (statuses[k := status]) then StateFailed
      else if set (statuses[k := status]) \<subseteq> {StateCompleted} then StateCompleted else state)"
    using UpdateSagaStep_nth [OF sg(1,3) assms(2,3), of now status "output" err] sg(4,5) by blast
  show ?thesis
    by (intro exI [of _ sg'] exI [of _ "w\<lparr>sw_store := go_put sid sg' (sw_store w)\<rparr>"])
      (simp add: with_store_def u sg(2))
qed

lemma stored_state:
  assumes "stored sid S statuses state w"
  shows "\<exists>sg' w'. with_store (UpdateSagaState now sid state') w = (Inr sg', w') \<and>
    stored sid S statuses state' w' \<and> sw_queue w' = sw_queue w \<and> sw_calls w' = sw_calls w"
proof -
  from assms obtain sg where sg: "go_get (sw_store w) sid = Some sg" "sg_ID sg = sid"
    "same_plan S (sg_Steps sg)" "map sp_Status (sg_Steps sg) = statuses"
    by (auto simp: stored_def)
  from UpdateSagaState_found [OF sg(1), of now state'] sg
  show ?thesis by (auto simp: with_store_def stored_def)
qed

lemma next_step:
  assumes "map sp_Status T = running_statuses k n" and "k < n"
  shows "List.find (\<lambda>s. sp_Status s = StateStarted) T = Some (T ! k)"
proof -
  have l: "length T = n" using assms by (metis length_append length_map length_replicate
        running_statuses_def le_add_diff_inverse less_imp_le)
  have s: "sp_Status (T ! i) = (if i < k then StateCompleted else StateStarted)" if "i < n" for i
  proof -
    have "sp_Status (T ! i) = running_statuses k n ! i" using assms(1) that l by (metis nth_map)
    then show ?thesis using that assms(2) by (simp add: running_statuses_def nth_append)
  qed
  show ?thesis
    unfolding find_Some_iff using assms(2) l s by (intro exI [of _ k]) auto
qed

lemma running_statuses_all: "running_statuses n n = replicate n StateCompleted"
  by (simp add: running_statuses_def)

lemma next_step_none:
  assumes "map sp_Status T = replicate n StateCompleted"
  shows "List.find (\<lambda>s. sp_Status s = StateStarted) T = None"
proof -
  have "sp_Status s = StateCompleted" if "s \<in> set T" for s
    using that assms by (metis in_set_replicate image_eqI list.set_map)
  then show ?thesis by (auto simp: find_None_iff)
qed

lemma handlers_succeed:
  assumes "handlers_for E S bad" and "k < length S" and "bad \<noteq> Some (sp_ID (S ! k))"
  shows "\<exists>f. gc_StepHandlers (ge_config E) (sp_Action (S ! k)) = Some f \<and>
    (\<forall>sg st. sp_ID st = sp_ID (S ! k) \<longrightarrow> (\<exists>out. f sg st = HandlerOk out))"
proof -
  have "S ! k \<in> set S" using assms(2) by simp
  with assms(1,3) show ?thesis unfolding handlers_for_def by fastforce
qed

lemma handlers_fail:
  assumes "handlers_for E S (Some (sp_ID (S ! k)))" and "k < length S"
  shows "\<exists>f. gc_StepHandlers (ge_config E) (sp_Action (S ! k)) = Some f \<and>
    (\<forall>sg st. sp_ID st = sp_ID (S ! k) \<longrightarrow> (\<exists>e. f sg st = HandlerError e))"
proof -
  have "S ! k \<in> set S" using assms(2) by simp
  with assms(1) show ?thesis unfolding handlers_for_def by fastforce
qed

lemma handlers_undo:
  assumes "handlers_for E S bad" and "k < length S"
  shows "\<exists>f. gc_CompensationHandlers (ge_config E) (sp_Compensation (S ! k)) = Some f \<and>
    (\<forall>sg st. f sg st \<noteq> HandlerPanics)"
proof -
  have "S ! k \<in> set S" using assms(2) by simp
  with assms(1) show ?thesis unfolding handlers_for_def by blast
qed

text \<open>A step that succeeds.\<close>

lemma running_succeeds:
  assumes E: "good_env E" and h: "handlers_for E S bad" and d: "distinct (map sp_ID S)"
    and r: "running sid S k w" and k: "k < length S" and b: "bad \<noteq> Some (sp_ID (S ! k))"
  shows "\<exists>w'. saga_step E TakeStep w = Some w' \<and>
    (if Suc k < length S then running sid S (Suc k) w' else completed sid S w')"
proof -
  from r obtain msg where q: "sw_queue w ''saga.steps'' = [msg]" "step_message sid (S ! k) msg"
    by (auto simp: running_def)
  from q(2) obtain st sg0 where m: "msg = SagaMessage sid (sp_ID (S ! k)) st sg0"
    "sp_ID st = sp_ID (S ! k)" "sp_Action st = sp_Action (S ! k)"
    by (auto simp: step_message_def)
  obtain f out where f: "gc_StepHandlers (ge_config E) (sp_Action st) = Some f"
    "f sg0 st = HandlerOk out"
    using handlers_succeed [OF h k b] m(2,3) by metis
  define w0 where "w0 = called (Executed (sp_ID (S ! k))) (w\<lparr>sw_queue := (sw_queue w)(''saga.steps'' := [])\<rparr>)"
  have "stored sid S (running_statuses k (length S)) StateStarted w0"
    using r by (simp add: running_def stored_def w0_def called_def)
  note u = stored_update [OF this d k, of "sw_now w0" StateCompleted out "[]",
      unfolded statuses_completed [OF k]]
  obtain sg' w1 where 1: "with_store (UpdateSagaStep (sw_now w0) sid (sp_ID (S ! k)) StateCompleted out []) w0 =
      (Inr sg', w1)" "go_get (sw_store w1) sid = Some sg'" "sg_ID sg' = sid" "same_plan S (sg_Steps sg')"
    "map sp_Status (sg_Steps sg') = running_statuses (Suc k) (length S)"
    "sg_State sg' = (if StateFailed \<in> set (running_statuses (Suc k) (length S)) then StateFailed
      else if set (running_statuses (Suc k) (length S)) \<subseteq> {StateCompleted} then StateCompleted
      else StateStarted)"
    "sw_queue w1 = sw_queue w0" "sw_calls w1 = sw_calls w0"
    using u by blast
  have calls: "sw_calls w0 = map (Executed \<circ> sp_ID) (take (Suc k) S)"
    using r k by (simp add: running_def w0_def called_def take_Suc_conv_app_nth)
  have queues: "sw_queue w0 ''saga.steps'' = []" "sw_queue w0 ''saga.compensations'' = []"
    using r by (simp_all add: running_def w0_def called_def)
  have step: "saga_step E TakeStep w = Some (snd (handleStepMessage E msg
      (w\<lparr>sw_queue := (sw_queue w)(''saga.steps'' := [])\<rparr>)))"
    using E q by (simp add: good_env_def take_message_def)
  show ?thesis
  proof (cases "Suc k < length S")
    case True
    have state: "sg_State sg' = StateStarted"
      using 1(6) True by (simp add: running_statuses_def)
    have n: "GetNextStep sg' = Some (sg_Steps sg' ! Suc k)"
      using next_step [OF 1(5) True] by (simp add: GetNextStep_def)
    obtain w2 where 2: "publishStep E sg' (sg_Steps sg' ! Suc k) w1 = (None, w2)" "sw_store w2 = sw_store w1"
      "sw_calls w2 = sw_calls w1" "sw_queue w2 = (sw_queue w1)(''saga.steps'' := sw_queue w1 ''saga.steps'' @
        [SagaMessage (sg_ID sg') (sp_ID (sg_Steps sg' ! Suc k)) (sg_Steps sg' ! Suc k) sg'])"
      using publish_ok [OF E] unfolding publishStep_def by metis
    have "handleStepMessage E msg (w\<lparr>sw_queue := (sw_queue w)(''saga.steps'' := [])\<rparr>) = (None, w2)"
      by (simp add: handleStepMessage_def m(1) f w0_def [symmetric] 1(1) n 2(1))
    moreover have "running sid S (Suc k) w2"
      using 1 2 queues calls state same_planD(2) [OF 1(4) True]
      by (simp add: running_def stored_def step_message_def)
    ultimately show ?thesis using step True by simp
  next
    case False
    with k have e: "Suc k = length S" by simp
    then have all: "map sp_Status (sg_Steps sg') = replicate (length S) StateCompleted"
      using 1(5) by (simp add: running_statuses_all)
    have n: "GetNextStep sg' = None" using next_step_none [OF all] by (simp add: GetNextStep_def)
    have "stored sid S (replicate (length S) StateCompleted) (sg_State sg') w1"
      using 1 all by (simp add: stored_def)
    from stored_state [OF this, of "sw_now w1" StateCompleted]
    obtain sg2 w2 where 2: "with_store (UpdateSagaState (sw_now w1) sid StateCompleted) w1 = (Inr sg2, w2)"
      "stored sid S (replicate (length S) StateCompleted) StateCompleted w2"
      "sw_queue w2 = sw_queue w1" "sw_calls w2 = sw_calls w1" by blast
    have "handleStepMessage E msg (w\<lparr>sw_queue := (sw_queue w)(''saga.steps'' := [])\<rparr>) = (None, w2)"
      by (simp add: handleStepMessage_def m(1) f w0_def [symmetric] 1(1) n 2(1))
    moreover have "completed sid S w2"
      using 1 2 queues calls e by (simp add: completed_def)
    ultimately show ?thesis using step False by simp
  qed
qed

lemma filter_completed:
  assumes "map sp_Status T = replicate k StateCompleted @ xs" and "StateCompleted \<notin> set xs"
  shows "filter (\<lambda>s. sp_Status s = StateCompleted) T = take k T"
  using assms
proof (induction T arbitrary: k)
  case (Cons s T)
  show ?case
  proof (cases k)
    case 0
    with Cons.prems have "StateCompleted \<notin> sp_Status ` set (s # T)"
      by (metis append_Nil list.set_map replicate_0)
    then show ?thesis using 0 by (auto simp: filter_empty_conv image_iff)
  next
    case (Suc j)
    with Cons show ?thesis by simp
  qed
qed simp

lemma step_messages:
  assumes "same_plan S T" and "k \<le> length S"
  shows "list_all2 (step_message sid) (rev (take k S))
    (map (\<lambda>s. SagaMessage sid (sp_ID s) s sg) (rev (take k T)))"
proof -
  have "list_all2 (step_message sid) (take k S) (map (\<lambda>s. SagaMessage sid (sp_ID s) s sg) (take k T))"
    using same_planD [OF assms(1)] assms(2)
    by (intro list_all2_all_nthI) (simp_all add: step_message_def)
  then show ?thesis by (simp add: rev_map [symmetric])
qed

lemma Compensate_stored:
  assumes E: "good_env E" and s: "stored sid S (undone_statuses k k (length S)) state w"
    and k: "k < length S" and q: "sw_queue w ''saga.compensations'' = []"
  shows "\<exists>w'. Compensate E sid w = (None, w') \<and>
    stored sid S (undone_statuses k k (length S)) StateCompensating w' \<and>
    sw_queue w' ''saga.steps'' = sw_queue w ''saga.steps'' \<and>
    list_all2 (step_message sid) (rev (take k S)) (sw_queue w' ''saga.compensations'') \<and>
    sw_calls w' = sw_calls w"
proof -
  from s obtain sg where sg: "go_get (sw_store w) sid = Some sg" "sg_ID sg = sid"
    "same_plan S (sg_Steps sg)" "map sp_Status (sg_Steps sg) = undone_statuses k k (length S)"
    by (auto simp: stored_def)
  define sg' where "sg' = sg\<lparr>sg_State := StateCompensating, sg_UpdatedAt := sw_now w\<rparr>"
  define w1 where "w1 = w\<lparr>sw_store := SaveSaga sg' (sw_store w)\<rparr>"
  obtain w' where w': "publish_compensations E sg' (rev (sg_Steps sg')) w1 = (None, w')"
    "sw_store w' = sw_store w1" "sw_calls w' = sw_calls w1"
    "sw_queue w' = (sw_queue w1)(''saga.compensations'' := sw_queue w1 ''saga.compensations'' @
      map (\<lambda>s. SagaMessage (sg_ID sg') (sp_ID s) s sg')
        (filter (\<lambda>s. sp_Status s = StateCompleted) (rev (sg_Steps sg'))))"
    using publish_compensations_ok [OF E, of sg' "rev (sg_Steps sg')" w1] by blast
  have "filter (\<lambda>s. sp_Status s = StateCompleted) (rev (sg_Steps sg')) = rev (take k (sg_Steps sg))"
    using filter_completed [of "sg_Steps sg" k "StateFailed # replicate (length S - Suc k) StateStarted"] sg(4)
    by (simp add: rev_filter [symmetric] sg'_def undone_statuses_def)
  then have "sw_queue w' ''saga.compensations'' =
      map (\<lambda>s. SagaMessage sid (sp_ID s) s sg') (rev (take k (sg_Steps sg)))"
    using w'(4) q sg(2) by (simp add: w1_def sg'_def)
  moreover have "list_all2 (step_message sid) (rev (take k S))
      (map (\<lambda>s. SagaMessage sid (sp_ID s) s sg') (rev (take k (sg_Steps sg))))"
    using step_messages [OF sg(3)] k by simp
  moreover have "Compensate E sid w = (None, w')"
    using w'(1) sg(1) by (simp add: Compensate_def LoadSaga_def sg'_def [symmetric] w1_def [symmetric] Let_def)
  moreover have "stored sid S (undone_statuses k k (length S)) StateCompensating w'"
    using w'(2) sg by (simp add: stored_def w1_def SaveSaga_def sg'_def)
  ultimately show ?thesis using w'(3,4) by (simp add: w1_def)
qed

text \<open>A step that fails.\<close>

lemma running_fails:
  assumes E: "good_env E" and h: "handlers_for E S (Some (sp_ID (S ! k)))" and d: "distinct (map sp_ID S)"
    and r: "running sid S k w" and k: "k < length S"
  shows "\<exists>w'. saga_step E TakeStep w = Some w' \<and> undoing sid S k k w'"
proof -
  from r obtain msg where q: "sw_queue w ''saga.steps'' = [msg]" "step_message sid (S ! k) msg"
    by (auto simp: running_def)
  from q(2) obtain st sg0 where m: "msg = SagaMessage sid (sp_ID (S ! k)) st sg0"
    "sp_ID st = sp_ID (S ! k)" "sp_Action st = sp_Action (S ! k)"
    by (auto simp: step_message_def)
  obtain f e where f: "gc_StepHandlers (ge_config E) (sp_Action st) = Some f"
    "f sg0 st = HandlerError e"
    using handlers_fail [OF h k] m(2,3) by metis
  define w0 where "w0 = called (Executed (sp_ID (S ! k))) (w\<lparr>sw_queue := (sw_queue w)(''saga.steps'' := [])\<rparr>)"
  have "stored sid S (running_statuses k (length S)) StateStarted w0"
    using r by (simp add: running_def stored_def w0_def called_def)
  note u = stored_update [OF this d k, of "sw_now w0" StateFailed "[]" e,
      unfolded statuses_failed [OF k]]
  obtain sg' w1 where 1: "with_store (UpdateSagaStep (sw_now w0) sid (sp_ID (S ! k)) StateFailed [] e) w0 =
      (Inr sg', w1)" "stored sid S (undone_statuses k k (length S)) (sg_State sg') w1"
    "sw_queue w1 = sw_queue w0" "sw_calls w1 = sw_calls w0"
    using u unfolding stored_def by blast
  from stored_state [OF 1(2), of "sw_now w1" StateFailed]
  obtain sg2 w2 where 2: "with_store (UpdateSagaState (sw_now w1) sid StateFailed) w1 = (Inr sg2, w2)"
    "stored sid S (undone_statuses k k (length S)) StateFailed w2"
    "sw_queue w2 = sw_queue w1" "sw_calls w2 = sw_calls w1" by blast
  have queues: "sw_queue w2 ''saga.steps'' = []" "sw_queue w2 ''saga.compensations'' = []"
    using r 1 2 by (simp_all add: running_def w0_def called_def)
  from Compensate_stored [OF E 2(2) k queues(2)]
  obtain w3 where 3: "Compensate E sid w2 = (None, w3)"
    "stored sid S (undone_statuses k k (length S)) StateCompensating w3"
    "sw_queue w3 ''saga.steps'' = sw_queue w2 ''saga.steps''"
    "list_all2 (step_message sid) (rev (take k S)) (sw_queue w3 ''saga.compensations'')"
    "sw_calls w3 = sw_calls w2" by blast
  have "handleStepMessage E msg (w\<lparr>sw_queue := (sw_queue w)(''saga.steps'' := [])\<rparr>) = (None, w3)"
    by (simp add: handleStepMessage_def m(1) f w0_def [symmetric] 1(1) fail_saga_def 2(1) 3(1))
  moreover have "saga_step E TakeStep w = Some (snd (handleStepMessage E msg
      (w\<lparr>sw_queue := (sw_queue w)(''saga.steps'' := [])\<rparr>)))"
    using E q by (simp add: good_env_def take_message_def)
  moreover have "sw_calls w3 = map (Executed \<circ> sp_ID) (take (Suc k) S)"
    using r k 1 2 3 by (simp add: running_def w0_def called_def take_Suc_conv_app_nth)
  ultimately show ?thesis using 3 queues by (simp add: undoing_def)
qed

lemma allCompensated_undone:
  assumes "map sp_Status (sg_Steps sg) = undone_statuses m k n"
  shows "allCompensated sg \<longleftrightarrow> m = 0"
proof -
  have "allCompensated sg \<longleftrightarrow> StateCompleted \<notin> set (map sp_Status (sg_Steps sg))"
    by (auto simp: allCompensated_def list_ex_iff image_iff)
  then show ?thesis unfolding assms by (auto simp: undone_statuses_def)
qed

text \<open>One compensation.\<close>

lemma undoing_step:
  assumes E: "good_env E" and h: "handlers_for E S bad" and d: "distinct (map sp_ID S)"
    and u: "undoing sid S k (Suc m) w" and m: "m < k" and k: "k < length S"
  shows "\<exists>w'. saga_step E TakeCompensation w = Some w' \<and> undoing sid S k m w'"
proof -
  have ml: "m < length S" using m k by simp
  from u have "list_all2 (step_message sid) (S ! m # rev (take m S)) (sw_queue w ''saga.compensations'')"
    using ml by (simp add: undoing_def take_Suc_conv_app_nth)
  then obtain msg ms where q: "sw_queue w ''saga.compensations'' = msg # ms"
    "step_message sid (S ! m) msg" "list_all2 (step_message sid) (rev (take m S)) ms"
    by (auto simp: list_all2_Cons1)
  from q(2) obtain st sg0 where c: "msg = SagaMessage sid (sp_ID (S ! m)) st sg0"
    "sp_Compensation st = sp_Compensation (S ! m)"
    by (auto simp: step_message_def)
  obtain f where f: "gc_CompensationHandlers (ge_config E) (sp_Compensation st) = Some f"
    "f sg0 st \<noteq> HandlerPanics"
    using handlers_undo [OF h ml] c(2) by metis
  define err where "err = (case f sg0 st of HandlerError e \<Rightarrow> ''compensation failed: '' @ e | _ \<Rightarrow> [])"
  define w0 where "w0 = called (Undone (sp_ID (S ! m)))
    (w\<lparr>sw_queue := (sw_queue w)(''saga.compensations'' := ms)\<rparr>)"
  obtain state where "stored sid S (undone_statuses (Suc m) k (length S)) state w"
    using u by (auto simp: undoing_def)
  then have "stored sid S (undone_statuses (Suc m) k (length S)) state w0"
    by (simp add: stored_def w0_def called_def)
  note up = stored_update [OF this d ml, of "sw_now w0" StateCompensated "[]" err,
      unfolded statuses_undone [OF Suc_leI [OF m]]]
  have failed: "StateFailed \<in> set (undone_statuses m k (length S))" by (simp add: undone_statuses_def)
  obtain sg' w1 where 1: "with_store (UpdateSagaStep (sw_now w0) sid (sp_ID (S ! m)) StateCompensated [] err) w0 =
      (Inr sg', w1)" "go_get (sw_store w1) sid = Some sg'"
    "map sp_Status (sg_Steps sg') = undone_statuses m k (length S)"
    "stored sid S (undone_statuses m k (length S)) StateFailed w1"
    "sw_queue w1 = sw_queue w0" "sw_calls w1 = sw_calls w0"
    using up failed unfolding stored_def by auto
  from stored_state [OF 1(4), of "sw_now w1" StateCompensated]
  obtain sg2 w2 where 2: "with_store (UpdateSagaState (sw_now w1) sid StateCompensated) w1 = (Inr sg2, w2)"
    "stored sid S (undone_statuses m k (length S)) StateCompensated w2"
    "sw_queue w2 = sw_queue w1" "sw_calls w2 = sw_calls w1" by blast
  define w' where "w' = (if m = 0 then w2 else w1)"
  have "handleCompensationMessage E msg (w\<lparr>sw_queue := (sw_queue w)(''saga.compensations'' := ms)\<rparr>) =
      (None, w')"
    using f(2) 1(1,2) 2(1) allCompensated_undone [OF 1(3)]
    by (cases "f sg0 st")
      (simp_all add: handleCompensationMessage_def c(1) f(1) w0_def [symmetric] err_def LoadSaga_def w'_def)
  moreover have "saga_step E TakeCompensation w = Some (snd (handleCompensationMessage E msg
      (w\<lparr>sw_queue := (sw_queue w)(''saga.compensations'' := ms)\<rparr>)))"
    using E q(1) by (simp add: good_env_def take_message_def)
  moreover have "drop m (take k S) = S ! m # drop (Suc m) (take k S)"
    using m k by (simp add: Cons_nth_drop_Suc [symmetric])
  then have "undoing sid S k m w'"
    using u m 1 2 q(3) by (auto simp: undoing_def w'_def w0_def called_def)
  ultimately show ?thesis by simp
qed

interpretation saga_course: labelled_run "saga_step E" "saga_run E" for E
  by unfold_locales simp_all

lemma undoing_run:
  assumes "good_env E" and "handlers_for E S bad" and "distinct (map sp_ID S)" and "k < length S"
  shows "m \<le> k \<Longrightarrow> undoing sid S k m w \<Longrightarrow>
    \<exists>w'. saga_run E (replicate m TakeCompensation) w = Some w' \<and> undoing sid S k 0 w'"
proof (induction m arbitrary: w)
  case (Suc m)
  from undoing_step [OF assms(1-3) Suc.prems(2) _ assms(4)] Suc.prems(1)
  obtain w1 where 1: "saga_step E TakeCompensation w = Some w1" "undoing sid S k m w1" by auto
  with Suc.IH [of w1] Suc.prems(1) show ?case by auto
qed simp

lemma running_run:
  assumes "good_env E" and "handlers_for E S bad" and "distinct (map sp_ID S)"
    and "running sid S 0 w"
  shows "k < length S \<Longrightarrow> \<forall>i < k. bad \<noteq> Some (sp_ID (S ! i)) \<Longrightarrow>
    \<exists>w'. saga_run E (replicate k TakeStep) w = Some w' \<and> running sid S k w'"
proof (induction k)
  case 0
  then show ?case using assms(4) by simp
next
  case (Suc k)
  then obtain w1 where 1: "saga_run E (replicate k TakeStep) w = Some w1" "running sid S k w1" by auto
  have "bad \<noteq> Some (sp_ID (S ! k))" using Suc.prems(2) by simp
  from running_succeeds [OF assms(1-3) 1(2) _ this] Suc.prems(1)
  obtain w2 where "saga_step E TakeStep w1 = Some w2" "running sid S (Suc k) w2" by auto
  with 1 have "saga_run E (replicate k TakeStep @ [TakeStep]) w = Some w2 \<and> running sid S (Suc k) w2"
    by (simp add: saga_course.append)
  then show ?case by (simp add: replicate_append_same)
qed

text \<open>Starting a saga whose steps have their IDs.\<close>

lemma init_steps_given:
  "\<forall>s \<in> set S. sp_ID s \<noteq> [] \<Longrightarrow> init_steps E S w = (Inr (map (\<lambda>s. s\<lparr>sp_Status := StateStarted\<rparr>) S), w)"
  by (induction S) simp_all

lemma Start_running:
  assumes E: "good_env E" and S: "S \<noteq> []" "\<forall>s \<in> set S. sp_ID s \<noteq> []"
    and w: "sw_queue w ''saga.steps'' = []" "sw_queue w ''saga.compensations'' = []" "sw_calls w = []"
  shows "\<exists>sg w'. Start E name S ctx w = (Inr sg, w') \<and> running (sg_ID sg) S 0 w'"
proof -
  obtain sid where sid: "ge_ulid E (sw_ulids w) = Inr sid" using E unfolding good_env_def by blast
  define w1 where "w1 = w\<lparr>sw_ulids := Suc (sw_ulids w)\<rparr>"
  have n: "new_ulid E w = (Inr sid, w1)" by (simp add: new_ulid_def sid w1_def)
  define T where "T = map (\<lambda>s. s\<lparr>sp_Status := StateStarted\<rparr>) S"
  define sg where "sg = \<lparr>sg_ID = sid, sg_Name = name, sg_State = StateStarted, sg_Steps = T,
    sg_Context = ctx, sg_CreatedAt = sw_now w1, sg_UpdatedAt = sw_now w1, sg_CompletedAt = None\<rparr>"
  define w3 where "w3 = w1\<lparr>sw_store := SaveSaga sg (sw_store w1)\<rparr>"
  obtain s ss where ss: "S = s # ss" using S(1) by (cases S) simp_all
  obtain w4 where 4: "publishStep E sg (hd T) w3 = (None, w4)" "sw_store w4 = sw_store w3"
    "sw_calls w4 = sw_calls w3" "sw_queue w4 = (sw_queue w3)(''saga.steps'' := sw_queue w3 ''saga.steps'' @
      [SagaMessage (sg_ID sg) (sp_ID (hd T)) (hd T) sg])"
    using publish_ok [OF E] unfolding publishStep_def by metis
  have "Start E name S ctx w = (Inr sg, w4)"
  proof -
    obtain t0 ts where T: "T = t0 # ts" using ss by (simp add: T_def)
    have i: "init_steps E S w1 = (Inr T, w1)" using init_steps_given [OF S(2)] by (simp add: T_def)
    from 4(1) show ?thesis
      unfolding Start_def n by (simp add: i Let_def) (simp add: T sg_def w3_def)
  qed
  moreover have "map sp_Status T = running_statuses 0 (length S)"
    by (auto simp: T_def running_statuses_def intro!: nth_equalityI)
  moreover have "same_plan S T" by (simp add: same_plan_def T_def comp_def)
  moreover have "step_message sid (S ! 0) (SagaMessage sid (sp_ID (hd T)) (hd T) sg)"
    by (simp add: step_message_def T_def ss)
  ultimately show ?thesis
    using 4 w by (intro exI [of _ sg] exI [of _ w4])
      (simp add: running_def stored_def w3_def SaveSaga_def w1_def, simp add: sg_def)
qed

text \<open>A saga whose step handlers all succeed runs every step exactly once, in order, and is
  completed; no compensation is run and no message is left.\<close>

lemma saga_completes:
  assumes "good_env E" and "handlers_for E S None" and "distinct (map sp_ID S)" and "S \<noteq> []"
    and "\<forall>s \<in> set S. sp_ID s \<noteq> []"
    and "sw_queue w ''saga.steps'' = []" and "sw_queue w ''saga.compensations'' = []" and "sw_calls w = []"
  shows "\<exists>sg w1 w2. Start E name S ctx w = (Inr sg, w1) \<and>
    saga_run E (replicate (length S) TakeStep) w1 = Some w2 \<and>
    sw_calls w2 = map (Executed \<circ> sp_ID) S \<and>
    stored (sg_ID sg) S (replicate (length S) StateCompleted) StateCompleted w2 \<and>
    sw_queue w2 ''saga.steps'' = [] \<and> sw_queue w2 ''saga.compensations'' = []"
proof -
  obtain sg w1 where 1: "Start E name S ctx w = (Inr sg, w1)" "running (sg_ID sg) S 0 w1"
    using Start_running [OF assms(1,4-8)] by blast
  obtain n where n: "length S = Suc n" using assms(4) by (cases S) simp_all
  then have "n < length S" by simp
  obtain w2 where 2: "saga_run E (replicate n TakeStep) w1 = Some w2" "running (sg_ID sg) S n w2"
    using running_run [OF assms(1-3) 1(2) \<open>n < length S\<close>] by auto
  obtain w3 where 3: "saga_step E TakeStep w2 = Some w3" "completed (sg_ID sg) S w3"
    using running_succeeds [OF assms(1-3) 2(2)] n by auto
  have "saga_run E (replicate (length S) TakeStep) w1 = Some w3"
  proof -
    have "replicate (length S) TakeStep = replicate n TakeStep @ [TakeStep]"
      by (simp add: n replicate_append_same)
    with 2(1) 3(1) show ?thesis by (simp only: saga_course.append) simp
  qed
  with 1(1) 3(2) show ?thesis by (auto simp: completed_def)
qed

text \<open>C5: when the handler of step k fails, the steps before it are compensated exactly once, the last
  one first, and later steps are never run. The saga then is compensated, unless it was the first
  step that failed: such a saga stays in the state compensating although nothing is left to do.\<close>

theorem saga_compensates:
  assumes "good_env E" and "k < length S" and "handlers_for E S (Some (sp_ID (S ! k)))"
    and "distinct (map sp_ID S)" and "\<forall>s \<in> set S. sp_ID s \<noteq> []"
    and "sw_queue w ''saga.steps'' = []" and "sw_queue w ''saga.compensations'' = []" and "sw_calls w = []"
  shows "\<exists>sg w1 w2. Start E name S ctx w = (Inr sg, w1) \<and>
    saga_run E (replicate (Suc k) TakeStep @ replicate k TakeCompensation) w1 = Some w2 \<and>
    sw_calls w2 = map (Executed \<circ> sp_ID) (take (Suc k) S) @ map (Undone \<circ> sp_ID) (rev (take k S)) \<and>
    stored (sg_ID sg) S (replicate k StateCompensated @ [StateFailed] @
      replicate (length S - Suc k) StateStarted)
      (if k = 0 then StateCompensating else StateCompensated) w2 \<and>
    sw_queue w2 ''saga.steps'' = [] \<and> sw_queue w2 ''saga.compensations'' = []"
proof -
  have "S \<noteq> []" using assms(2) by auto
  then obtain sg w1 where 1: "Start E name S ctx w = (Inr sg, w1)" "running (sg_ID sg) S 0 w1"
    using Start_running [OF assms(1) _ assms(5-8)] by blast
  have "Some (sp_ID (S ! k)) \<noteq> Some (sp_ID (S ! i))" if "i < k" for i
  proof -
    have "map sp_ID S ! k \<noteq> map sp_ID S ! i"
      using nth_eq_iff_index_eq [OF assms(4), of k i] that assms(2) by simp
    then show ?thesis using that assms(2) by simp
  qed
  then obtain w2 where 2: "saga_run E (replicate k TakeStep) w1 = Some w2" "running (sg_ID sg) S k w2"
    using running_run [OF assms(1,3,4) 1(2) assms(2)] by blast
  obtain w3 where 3: "saga_step E TakeStep w2 = Some w3" "undoing (sg_ID sg) S k k w3"
    using running_fails [OF assms(1,3,4) 2(2) assms(2)] by blast
  obtain w4 where 4: "saga_run E (replicate k TakeCompensation) w3 = Some w4" "undoing (sg_ID sg) S k 0 w4"
    using undoing_run [OF assms(1,3,4,2) le_refl 3(2)] by blast
  have "replicate (Suc k) TakeStep @ replicate k TakeCompensation =
      replicate k TakeStep @ TakeStep # replicate k TakeCompensation"
    by (simp add: replicate_app_Cons_same)
  then have "saga_run E (replicate (Suc k) TakeStep @ replicate k TakeCompensation) w1 = Some w4"
    using 2(1) 3(1) 4(1) by (simp only: saga_course.append) simp
  with 1(1) 4(2) show ?thesis
    by (intro exI [of _ sg] exI [of _ w1] exI [of _ w4]) (auto simp: undoing_def undone_statuses_def)
qed

section \<open>Sagas that come to nothing\<close>

lemma new_ulid_queue: "new_ulid E w = (r, w') \<Longrightarrow> sw_queue w' = sw_queue w"
  by (auto simp: new_ulid_def)

lemma init_steps_queue: "init_steps E ss w = (r, w') \<Longrightarrow> sw_queue w' = sw_queue w"
proof (induction ss arbitrary: w r w')
  case (Cons s ss)
  obtain u w1 where 1: "(if sp_ID s = [] then new_ulid E w else (Inr (sp_ID s), w)) = (u, w1)" by fastforce
  then have q: "sw_queue w1 = sw_queue w" by (auto dest: new_ulid_queue split: if_splits)
  obtain v w2 where 2: "init_steps E ss w1 = (v, w2)" by fastforce
  from Cons.prems 1 2 have "w' = w1 \<or> w' = w2" by (auto split: sum.splits)
  with q Cons.IH [OF 2] show ?case by auto
qed simp

lemma publishStep_queue: "publishStep E sg s w = (r, w') \<Longrightarrow> q \<noteq> ''saga.steps'' \<Longrightarrow> sw_queue w' q = sw_queue w q"
  by (auto simp: publishStep_def publish_saga_message_def new_ulid_def Let_def
      split: prod.splits sum.splits option.splits)

lemma Start_queue:
  assumes "Start E name S ctx w = (r, w')" and "q \<noteq> ''saga.steps''"
  shows "sw_queue w' q = sw_queue w q"
proof -
  obtain u v where 1: "new_ulid E w = (u, v)" by fastforce
  obtain ss v1 where 2: "init_steps E S v = (ss, v1)" by fastforce
  have q: "sw_queue v = sw_queue w" "sw_queue v1 = sw_queue w"
    using new_ulid_queue [OF 1] init_steps_queue [OF 2] by simp_all
  show ?thesis
    using assms 1 2 q
    by (auto simp: Start_def Let_def split: sum.splits list.splits prod.splits option.splits
        dest!: publishStep_queue)
qed

text \<open>A manager configured with a step queue of another name never runs a step: messages are
  published to the queue saga.steps whatever the configuration says, so after Start nothing can
  happen.\<close>

lemma configured_step_queue_starves:
  assumes "gc_StepQueue (ge_config E) \<noteq> ''saga.steps''" and "gc_CompensateQueue (ge_config E) \<noteq> ''saga.steps''"
    and "\<forall>q. sw_queue w q = []" and "Start E name S ctx w = (r, w1)" and "saga_run E ls w1 = Some w2"
  shows "ls = [] \<and> w2 = w1"
proof -
  have "sw_queue w1 q = []" if "q \<noteq> ''saga.steps''" for q
    using Start_queue [OF assms(4) that] assms(3) by simp
  with assms(1,2) have "saga_step E l w1 = None" for l
    by (cases l) (simp_all add: take_message_def)
  with assms(5) show ?thesis by (cases ls) auto
qed

text \<open>A step handler that panics leaves its saga started for good: the panic is recovered and the
  message acknowledged, and then there is no message left and no step is marked.\<close>

lemma panicking_step_sticks:
  assumes "good_env E" and "running sid S k w" and "k < length S"
    and "gc_StepHandlers (ge_config E) (sp_Action (S ! k)) = Some h" and "\<forall>sg st. h sg st = HandlerPanics"
  shows "\<exists>w'. saga_step E TakeStep w = Some w' \<and>
    stored sid S (running_statuses k (length S)) StateStarted w' \<and>
    (\<forall>l. saga_step E l w' = None)"
proof -
  from assms(2) obtain msg where q: "sw_queue w ''saga.steps'' = [msg]" "step_message sid (S ! k) msg"
    by (auto simp: running_def)
  from q(2) obtain st sg where m: "msg = SagaMessage sid (sp_ID (S ! k)) st sg" "sp_Action st = sp_Action (S ! k)"
    by (auto simp: step_message_def)
  define w' where "w' = called (Executed (sp_ID (S ! k))) (w\<lparr>sw_queue := (sw_queue w)(''saga.steps'' := [])\<rparr>)"
  have "saga_step E TakeStep w = Some w'"
    using assms q m by (simp add: good_env_def take_message_def handleStepMessage_def w'_def)
  moreover have "saga_step E l w' = None" for l
    using assms(1,2) by (cases l) (simp_all add: good_env_def take_message_def w'_def called_def running_def)
  moreover have "stored sid S (running_statuses k (length S)) StateStarted w'"
    using assms(2) by (simp add: running_def stored_def w'_def called_def)
  ultimately show ?thesis by simp
qed

section \<open>A saga of three steps\<close>

definition demo_step :: "string \<Rightarrow> sagaStep" where
  "demo_step sid =
     \<lparr>sp_ID = sid, sp_Name = sid, sp_Action = ''do'', sp_Compensation = ''undo'', sp_Input = [],
      sp_Output = [], sp_Status = StateUnset, sp_Error = [], sp_ExecutedAt = 0\<rparr>"

definition demo_steps :: "sagaStep list" where
  "demo_steps = [demo_step ''a'', demo_step ''b'', demo_step ''c'']"

definition demo_handlers :: "string option \<Rightarrow> saga_handler" where
  "demo_handlers bad sg st =
     (if bad = Some (sp_ID st) then HandlerError ''no'' else HandlerOk [])"

definition demo_saga_env :: "string \<Rightarrow> saga_handler \<Rightarrow> saga_env" where
  "demo_saga_env queue h =
     \<lparr>ge_config = \<lparr>gc_StepQueue = queue, gc_CompensateQueue = ''saga.compensations'',
        gc_StepHandlers = (\<lambda>_. Some h), gc_CompensationHandlers = (\<lambda>_. Some (demo_handlers None))\<rparr>,
      ge_ulid = (\<lambda>n. Inr (replicate (Suc n) CHR ''0'')), ge_publish = (\<lambda>_. None)\<rparr>"

definition empty_world :: saga_world where
  "empty_world = \<lparr>sw_store = [], sw_queue = (\<lambda>_. []), sw_ulids = 0, sw_publishes = 0, sw_now = 1,
     sw_calls = []\<rparr>"

lemma demo_saga_ok:
  "good_env (demo_saga_env ''saga.steps'' h)"
  "handlers_for (demo_saga_env ''saga.steps'' (demo_handlers bad)) demo_steps bad"
  "distinct (map sp_ID demo_steps)" "\<forall>s \<in> set demo_steps. sp_ID s \<noteq> []" "length demo_steps = 3"
  "sw_queue empty_world q = []" "sw_calls empty_world = []"
  by (simp_all add: good_env_def demo_saga_env_def handlers_for_def demo_handlers_def demo_steps_def
      demo_step_def empty_world_def)

lemma saga_completes_witness:
  "\<exists>w1 w2. saga_run (demo_saga_env ''saga.steps'' (demo_handlers None)) (replicate 3 TakeStep) w1 = Some w2 \<and>
     sw_calls w2 = [Executed ''a'', Executed ''b'', Executed ''c'']"
proof -
  have n: "demo_steps \<noteq> []" by (simp add: demo_steps_def)
  have c: "map (Executed \<circ> sp_ID) demo_steps = [Executed ''a'', Executed ''b'', Executed ''c'']"
    by (simp add: demo_steps_def demo_step_def)
  from saga_completes [OF demo_saga_ok(1,2,3) n demo_saga_ok(4,6,6,7)]
  show ?thesis unfolding demo_saga_ok(5) c by blast
qed

theorem saga_compensates_witness:
  "\<exists>w1 w2. saga_run (demo_saga_env ''saga.steps'' (demo_handlers (Some ''c'')))
      (replicate (Suc 2) TakeStep @ replicate 2 TakeCompensation) w1 = Some w2 \<and>
     sw_calls w2 = [Executed ''a'', Executed ''b'', Executed ''c'', Undone ''b'', Undone ''a'']"
proof -
  have k: "2 < length demo_steps" "sp_ID (demo_steps ! 2) = ''c''"
    by (simp_all add: demo_steps_def demo_step_def)
  have c: "map (Executed \<circ> sp_ID) (take (Suc 2) demo_steps) @ map (Undone \<circ> sp_ID) (rev (take 2 demo_steps)) =
      [Executed ''a'', Executed ''b'', Executed ''c'', Undone ''b'', Undone ''a'']"
    by (simp add: demo_steps_def demo_step_def eval_nat_numeral)
  have h: "handlers_for (demo_saga_env ''saga.steps'' (demo_handlers (Some ''c''))) demo_steps
      (Some (sp_ID (demo_steps ! 2)))"
    unfolding k(2) by (rule demo_saga_ok(2))
  from saga_compensates [OF demo_saga_ok(1) k(1) h demo_saga_ok(3,4,6,6,7)]
  show ?thesis unfolding c by blast
qed

lemma configured_step_queue_starves_witness:
  "\<exists>w1. snd (Start (demo_saga_env ''orders.steps'' (demo_handlers None)) ''s'' demo_steps [] empty_world) = w1 \<and>
     (\<forall>ls w2. saga_run (demo_saga_env ''orders.steps'' (demo_handlers None)) ls w1 = Some w2 \<longrightarrow> w2 = w1)"
proof -
  define r where "r = Start (demo_saga_env ''orders.steps'' (demo_handlers None)) ''s'' demo_steps [] empty_world"
  have "w2 = snd r" if "saga_run (demo_saga_env ''orders.steps'' (demo_handlers None)) ls (snd r) = Some w2" for ls w2
    using configured_step_queue_starves [of "demo_saga_env ''orders.steps'' (demo_handlers None)" empty_world
        "''s''" demo_steps "[]" "fst r" "snd r" ls w2] that demo_saga_ok(6)
    by (simp add: r_def demo_saga_env_def)
  then show ?thesis unfolding r_def by blast
qed

lemma panicking_step_sticks_witness:
  "\<exists>w w'. saga_step (demo_saga_env ''saga.steps'' (\<lambda>_ _. HandlerPanics)) TakeStep w = Some w' \<and>
     (\<forall>l. saga_step (demo_saga_env ''saga.steps'' (\<lambda>_ _. HandlerPanics)) l w' = None)"
proof -
  define E where "E = demo_saga_env ''saga.steps'' (\<lambda>_ _. HandlerPanics)"
  have E: "good_env E" unfolding E_def by (rule demo_saga_ok(1))
  have h: "gc_StepHandlers (ge_config E) (sp_Action (demo_steps ! 0)) = Some (\<lambda>_ _. HandlerPanics)"
    by (simp add: E_def demo_saga_env_def)
  have n: "demo_steps \<noteq> []" by (simp add: demo_steps_def)
  obtain sg :: saga and w where "running (sg_ID sg) demo_steps 0 w"
    using Start_running [OF E n demo_saga_ok(4) demo_saga_ok(6) demo_saga_ok(6) demo_saga_ok(7),
        of "''s''" "[]"]
    by blast
  from panicking_step_sticks [OF E this _ h] show ?thesis
    unfolding E_def by (auto simp: demo_steps_def)
qed

end
