(* ===== verification/Saga_Run.thy ===== *)
theory Saga_Run
  imports Saga
begin

text \<open>
  The engine of the saga manager (src/saga/saga.go): \<open>Run\<close>, which starts a goroutine for each of the
  two queues on the one consumer of the manager, and \<open>Stop\<close>. The goroutines and the caller of
  \<open>Run\<close> move one at a time, in any order. What a served queue does is in Saga.
\<close>

section \<open>State\<close>

datatype engine_queue = StepQueue | CompensateQueue

text \<open>What \<open>Consume\<close> returns; \<open>Canceled\<close> is \<open>context.Canceled\<close>.\<close>

datatype consume_result = ConsumeNil | Canceled | AlreadyConsuming | ConsumeError string

datatype consume_pc = GoSpawned | GoConsuming | GoReturned consume_result

text \<open>A goroutine of the \<open>Run\<close> with that number.\<close>

record engine_goroutine =
  eg_run :: nat
  eg_queue :: engine_queue
  eg_pc :: consume_pc

datatype run_result = RunRefused | RunContext | RunStopped | RunFailed engine_queue consume_result

text \<open>
  \<open>en_waiting\<close>: the number of the \<open>Run\<close> that waits in its \<open>select\<close>. \<open>en_errors\<close>: the buffered
  error channels of that call. \<open>en_consuming\<close>: the flag of the consumer. \<open>en_ctxDone\<close>: the calls whose
  context is cancelled.
\<close>

record engine =
  en_running :: bool
  en_stopClosed :: bool
  en_panicked :: bool
  en_ctxDone :: "nat \<Rightarrow> bool"
  en_consuming :: bool
  en_goroutines :: "engine_goroutine list"
  en_runs :: nat
  en_waiting :: "nat option"
  en_errors :: "engine_queue \<Rightarrow> consume_result option"
  en_results :: "run_result list"

definition NewManager :: engine where
  "NewManager =
     \<lparr>en_running = False, en_stopClosed = False, en_panicked = False, en_ctxDone = (\<lambda>_. False),
      en_consuming = False, en_goroutines = [], en_runs = 0, en_waiting = None,
      en_errors = (\<lambda>_. None), en_results = []\<rparr>"

section \<open>Steps\<close>

datatype engine_label =
    CallRun
  | CallConsume nat "string option"
  | ConsumeEnds nat consume_result
  | SelectContext
  | SelectStop
  | SelectError engine_queue
  | CallStop
  | CancelContext nat

definition Run_call :: "engine \<Rightarrow> engine" where
  "Run_call m =
     (if en_running m then m\<lparr>en_results := en_results m @ [RunRefused]\<rparr>
      else m\<lparr>en_running := True, en_runs := Suc (en_runs m), en_waiting := Some (en_runs m),
             en_errors := (\<lambda>_. None),
             en_goroutines := en_goroutines m @
               [\<lparr>eg_run = en_runs m, eg_queue = StepQueue, eg_pc = GoSpawned\<rparr>,
                \<lparr>eg_run = en_runs m, eg_queue = CompensateQueue, eg_pc = GoSpawned\<rparr>]\<rparr>)"

text \<open>A goroutine gets its result: any error but a cancellation goes to the channel of its call.\<close>

definition consume_returned :: "nat \<Rightarrow> consume_result \<Rightarrow> engine \<Rightarrow> engine" where
  "consume_returned i r m =
     (let g = en_goroutines m ! i;
          m1 = m\<lparr>en_goroutines := (en_goroutines m)[i := g\<lparr>eg_pc := GoReturned r\<rparr>]\<rparr>
      in
      if r \<noteq> ConsumeNil \<and> r \<noteq> Canceled \<and> en_waiting m = Some (eg_run g)
      then m1\<lparr>en_errors := (en_errors m)(eg_queue g := Some r)\<rparr>
      else m1)"

text \<open>
  \<open>Consume\<close> up to its flag. \<open>refusal\<close> is the error of the topology validation before it, if any.
\<close>

definition Consume_call :: "nat \<Rightarrow> string option \<Rightarrow> engine \<Rightarrow> engine" where
  "Consume_call i refusal m =
     (case refusal of
        Some e \<Rightarrow> consume_returned i (ConsumeError e) m
      | None \<Rightarrow>
          if en_consuming m then consume_returned i AlreadyConsuming m
          else m\<lparr>en_consuming := True,
                 en_goroutines := (en_goroutines m)[i := (en_goroutines m ! i)\<lparr>eg_pc := GoConsuming\<rparr>]\<rparr>)"

definition Run_return :: "run_result \<Rightarrow> engine \<Rightarrow> engine" where
  "Run_return r m = m\<lparr>en_running := False, en_waiting := None, en_results := en_results m @ [r]\<rparr>"

definition Stop :: "engine \<Rightarrow> engine" where
  "Stop m =
     (if en_running m
      then (if en_stopClosed m then m\<lparr>en_panicked := True\<rparr> else m\<lparr>en_stopClosed := True\<rparr>)
      else m)"

inductive engine_step :: "engine \<Rightarrow> engine_label \<Rightarrow> engine \<Rightarrow> bool" where
  step_run: "engine_step m CallRun (Run_call m)"
| step_consume: "i < length (en_goroutines m) \<Longrightarrow> eg_pc (en_goroutines m ! i) = GoSpawned \<Longrightarrow>
    engine_step m (CallConsume i refusal) (Consume_call i refusal m)"
| step_end: "i < length (en_goroutines m) \<Longrightarrow> eg_pc (en_goroutines m ! i) = GoConsuming \<Longrightarrow>
    r \<noteq> AlreadyConsuming \<Longrightarrow>
    engine_step m (ConsumeEnds i r) (consume_returned i r (m\<lparr>en_consuming := False\<rparr>))"
| step_context: "en_waiting m = Some n \<Longrightarrow> en_ctxDone m n \<Longrightarrow>
    engine_step m SelectContext (Run_return RunContext m)"
| step_stop: "en_waiting m \<noteq> None \<Longrightarrow> en_stopClosed m \<Longrightarrow>
    engine_step m SelectStop (Run_return RunStopped m)"
| step_error: "en_waiting m \<noteq> None \<Longrightarrow> en_errors m q = Some r \<Longrightarrow>
    engine_step m (SelectError q) (Run_return (RunFailed q r) m)"
| step_Stop: "engine_step m CallStop (Stop m)"
| step_cancel: "engine_step m (CancelContext n) (m\<lparr>en_ctxDone := (en_ctxDone m)(n := True)\<rparr>)"

inductive_simps engine_step_simps:
  "engine_step m CallRun m'"
  "engine_step m (CallConsume i refusal) m'"
  "engine_step m (SelectError q) m'"
  "engine_step m SelectStop m'"
  "engine_step m SelectContext m'"
  "engine_step m CallStop m'"

inductive engine_reaches :: "engine \<Rightarrow> engine_label list \<Rightarrow> engine \<Rightarrow> bool" where
  reach_refl: "engine_reaches m [] m"
| reach_step: "engine_reaches m ls m' \<Longrightarrow> engine_step m' l m'' \<Longrightarrow> engine_reaches m (ls @ [l]) m''"

section \<open>Invariant\<close>

definition consuming_goroutines :: "engine \<Rightarrow> nat" where
  "consuming_goroutines m = lcount (\<lambda>g. eg_pc g = GoConsuming) (en_goroutines m)"

text \<open>
  The flag is set exactly while one goroutine consumes. The waiting \<open>Run\<close> has a goroutine for each
  queue; one that came back with an error has left it in its channel, and nothing else is there.
\<close>

definition failed_with :: "consume_result \<Rightarrow> bool" where
  "failed_with r \<longleftrightarrow> r \<noteq> ConsumeNil \<and> r \<noteq> Canceled"

definition run_ok ::
  "nat \<Rightarrow> engine_goroutine list \<Rightarrow> (engine_queue \<Rightarrow> consume_result option) \<Rightarrow> bool" where
  "run_ok n gs errs \<longleftrightarrow>
     (\<forall>q. \<exists>g \<in> set gs. eg_run g = n \<and> eg_queue g = q) \<and>
     (\<forall>q r. errs q = Some r \<longrightarrow>
        failed_with r \<and> (\<exists>g \<in> set gs. eg_run g = n \<and> eg_queue g = q \<and> eg_pc g = GoReturned r)) \<and>
     (\<forall>g \<in> set gs. \<forall>r. eg_run g = n \<longrightarrow> eg_pc g = GoReturned r \<longrightarrow> failed_with r \<longrightarrow>
        errs (eg_queue g) \<noteq> None)"

definition engine_ok :: "engine \<Rightarrow> bool" where
  "engine_ok m \<longleftrightarrow>
     consuming_goroutines m = (if en_consuming m then 1 else 0) \<and>
     (\<forall>g \<in> set (en_goroutines m). eg_run g < en_runs m) \<and>
     (\<forall>n. en_waiting m = Some n \<longrightarrow> n < en_runs m \<and> run_ok n (en_goroutines m) (en_errors m))"

lemma ok_NewManager: "engine_ok NewManager"
  by (simp add: engine_ok_def NewManager_def consuming_goroutines_def)

lemma run_ok_new:
  assumes "\<forall>g \<in> set gs. eg_run g < n"
  shows "run_ok n (gs @ [\<lparr>eg_run = n, eg_queue = StepQueue, eg_pc = GoSpawned\<rparr>,
    \<lparr>eg_run = n, eg_queue = CompensateQueue, eg_pc = GoSpawned\<rparr>]) (\<lambda>_. None)"
proof -
  have "\<exists>g \<in> set [\<lparr>eg_run = n, eg_queue = StepQueue, eg_pc = GoSpawned\<rparr>,
      \<lparr>eg_run = n, eg_queue = CompensateQueue, eg_pc = GoSpawned\<rparr>]. eg_run g = n \<and> eg_queue g = q" for q
    by (cases q) simp_all
  with assms show ?thesis by (auto simp: run_ok_def)
qed

lemma ok_Run_call: "engine_ok m \<Longrightarrow> engine_ok (Run_call m)"
  using run_ok_new [of "en_goroutines m" "en_runs m"]
  by (auto simp: engine_ok_def Run_call_def consuming_goroutines_def less_Suc_eq)

lemma ok_Run_return: "engine_ok m \<Longrightarrow> engine_ok (Run_return r m)"
  by (simp add: engine_ok_def Run_return_def consuming_goroutines_def)

lemma ok_Stop: "engine_ok m \<Longrightarrow> engine_ok (Stop m)"
  by (simp add: engine_ok_def Stop_def consuming_goroutines_def)

lemma run_ok_goroutine: "run_ok n gs errs \<Longrightarrow> \<exists>g \<in> set gs. eg_run g = n \<and> eg_queue g = q"
  unfolding run_ok_def by blast

lemma run_ok_error:
  "run_ok n gs errs \<Longrightarrow> errs q = Some r \<Longrightarrow>
   failed_with r \<and> (\<exists>g \<in> set gs. eg_run g = n \<and> eg_queue g = q \<and> eg_pc g = GoReturned r)"
  unfolding run_ok_def by simp

lemma run_ok_left:
  "run_ok n gs errs \<Longrightarrow> \<forall>g \<in> set gs. \<forall>r. eg_run g = n \<longrightarrow> eg_pc g = GoReturned r \<longrightarrow> failed_with r \<longrightarrow>
   errs (eg_queue g) \<noteq> None"
  unfolding run_ok_def by (elim conjE)

lemma run_ok_consuming:
  assumes "run_ok n gs errs" and "i < length gs" and "eg_pc (gs ! i) = GoSpawned"
  shows "run_ok n (gs[i := (gs ! i)\<lparr>eg_pc := GoConsuming\<rparr>]) errs"
  unfolding run_ok_def
proof (intro conjI allI impI)
  fix q
  show "\<exists>g \<in> set (gs[i := (gs ! i)\<lparr>eg_pc := GoConsuming\<rparr>]). eg_run g = n \<and> eg_queue g = q"
    using bex_list_update [OF assms(2) run_ok_goroutine [OF assms(1)]] by simp
next
  fix q r assume "errs q = Some r"
  note err = run_ok_error [OF assms(1) this]
  have ex: "\<exists>g \<in> set gs. eg_run g = n \<and> eg_queue g = q \<and> eg_pc g = GoReturned r"
    by (rule conjunct2 [OF err])
  show "failed_with r" by (rule conjunct1 [OF err])
  show "\<exists>g \<in> set (gs[i := (gs ! i)\<lparr>eg_pc := GoConsuming\<rparr>]). eg_run g = n \<and> eg_queue g = q \<and> eg_pc g = GoReturned r"
    using bex_list_update [OF assms(2) ex] assms(3) by simp
next
  show "\<forall>g \<in> set (gs[i := (gs ! i)\<lparr>eg_pc := GoConsuming\<rparr>]). \<forall>r. eg_run g = n \<longrightarrow> eg_pc g = GoReturned r \<longrightarrow>
      failed_with r \<longrightarrow> errs (eg_queue g) \<noteq> None"
    by (rule ball_list_update [OF run_ok_left [OF assms(1)]]) simp
qed

lemma if_fun_upd: "(if a \<and> b then f(x := y) else f) z = (if a \<and> b \<and> z = x then y else f z)"
  by simp

lemma run_ok_returned:
  assumes "run_ok n gs errs" and "i < length gs" and "\<nexists>r. eg_pc (gs ! i) = GoReturned r"
    and "errs' = (if failed_with r \<and> eg_run (gs ! i) = n then errs(eg_queue (gs ! i) := Some r) else errs)"
  shows "run_ok n (gs[i := (gs ! i)\<lparr>eg_pc := GoReturned r\<rparr>]) errs'"
  unfolding run_ok_def
proof (intro conjI allI impI)
  fix q
  show "\<exists>g \<in> set (gs[i := (gs ! i)\<lparr>eg_pc := GoReturned r\<rparr>]). eg_run g = n \<and> eg_queue g = q"
    using bex_list_update [OF assms(2) run_ok_goroutine [OF assms(1)]] by simp
next
  fix q r' assume e: "errs' q = Some r'"
  have "errs' q = (if failed_with r \<and> eg_run (gs ! i) = n \<and> q = eg_queue (gs ! i) then Some r else errs q)"
    unfolding assms(4) by (rule if_fun_upd)
  with e have "failed_with r \<and> eg_run (gs ! i) = n \<and> q = eg_queue (gs ! i) \<and> r' = r \<or> errs q = Some r'"
    by (simp split: if_splits)
  then have "failed_with r' \<and>
    (\<exists>g \<in> set (gs[i := (gs ! i)\<lparr>eg_pc := GoReturned r\<rparr>]). eg_run g = n \<and> eg_queue g = q \<and> eg_pc g = GoReturned r')"
  proof
    assume 1: "failed_with r \<and> eg_run (gs ! i) = n \<and> q = eg_queue (gs ! i) \<and> r' = r"
    have "(gs ! i)\<lparr>eg_pc := GoReturned r\<rparr> \<in> set (gs[i := (gs ! i)\<lparr>eg_pc := GoReturned r\<rparr>])"
      using assms(2) by (rule set_update_memI)
    with 1 show ?thesis
      by (intro conjI bexI [of _ "(gs ! i)\<lparr>eg_pc := GoReturned r\<rparr>"]) simp_all
  next
    assume 2: "errs q = Some r'"
    note err = run_ok_error [OF assms(1) 2]
    have ex: "\<exists>g \<in> set gs. eg_run g = n \<and> eg_queue g = q \<and> eg_pc g = GoReturned r'"
      by (rule conjunct2 [OF err])
    have "failed_with r'" by (rule conjunct1 [OF err])
    with bex_list_update [OF assms(2) ex] assms(3) show ?thesis by simp
  qed
  then show "failed_with r'"
    and "\<exists>g \<in> set (gs[i := (gs ! i)\<lparr>eg_pc := GoReturned r\<rparr>]). eg_run g = n \<and> eg_queue g = q \<and> eg_pc g = GoReturned r'"
    by simp_all
next
  show "\<forall>g \<in> set (gs[i := (gs ! i)\<lparr>eg_pc := GoReturned r\<rparr>]). \<forall>r'. eg_run g = n \<longrightarrow> eg_pc g = GoReturned r' \<longrightarrow>
      failed_with r' \<longrightarrow> errs' (eg_queue g) \<noteq> None"
    using run_ok_left [OF assms(1)] by (intro ball_list_update) (auto simp: assms(4))
qed

lemma ok_consume_returned:
  assumes "engine_ok m" and "i < length (en_goroutines m)" and "\<nexists>r. eg_pc (en_goroutines m ! i) = GoReturned r"
  shows "engine_ok (consume_returned i r
    (m\<lparr>en_consuming := en_consuming m \<and> eg_pc (en_goroutines m ! i) \<noteq> GoConsuming\<rparr>))"
    (is "engine_ok (consume_returned i r ?m)")
proof -
  let ?gs = "en_goroutines m" and ?n = "consume_returned i r ?m"
  have g: "en_goroutines ?n = ?gs[i := (?gs ! i)\<lparr>eg_pc := GoReturned r\<rparr>]"
    and f: "en_waiting ?n = en_waiting m" "en_runs ?n = en_runs m"
      "en_consuming ?n = (en_consuming m \<and> eg_pc (?gs ! i) \<noteq> GoConsuming)"
    and e: "en_waiting m = Some n \<Longrightarrow> en_errors ?n =
      (if failed_with r \<and> eg_run (?gs ! i) = n then (en_errors m)(eg_queue (?gs ! i) := Some r) else en_errors m)" for n
    by (auto simp: consume_returned_def Let_def failed_with_def)
  have "lcount (\<lambda>g. eg_pc g = GoConsuming) (?gs[i := (?gs ! i)\<lparr>eg_pc := GoReturned r\<rparr>]) +
      (if eg_pc (?gs ! i) = GoConsuming then 1 else 0) = lcount (\<lambda>g. eg_pc g = GoConsuming) ?gs"
    using lcount_list_update [OF assms(2), of "\<lambda>g. eg_pc g = GoConsuming" "(?gs ! i)\<lparr>eg_pc := GoReturned r\<rparr>"] by simp
  then have "consuming_goroutines ?n = (if en_consuming ?n then 1 else 0)"
    using assms(1) by (auto simp: engine_ok_def consuming_goroutines_def g f split: if_splits)
  moreover have "\<forall>g \<in> set (en_goroutines ?n). eg_run g < en_runs ?n"
    using assms(1,2) unfolding g f by (intro ball_list_update) (auto simp: engine_ok_def)
  moreover have "n < en_runs ?n \<and> run_ok n (en_goroutines ?n) (en_errors ?n)" if "en_waiting ?n = Some n" for n
    using that assms run_ok_returned [OF _ assms(2,3) e] unfolding g f by (auto simp: engine_ok_def)
  ultimately show ?thesis by (auto simp: engine_ok_def)
qed

lemma ok_Consume_call:
  assumes "engine_ok m" and "i < length (en_goroutines m)" and "eg_pc (en_goroutines m ! i) = GoSpawned"
  shows "engine_ok (Consume_call i refusal m)"
proof -
  have ret: "engine_ok (consume_returned i r m)" for r
    using ok_consume_returned [OF assms(1,2), of r] assms(3) by simp
  let ?gs = "en_goroutines m"
  have c: "lcount (\<lambda>g. eg_pc g = GoConsuming) (?gs[i := (?gs ! i)\<lparr>eg_pc := GoConsuming\<rparr>]) =
      lcount (\<lambda>g. eg_pc g = GoConsuming) ?gs + 1"
    using lcount_list_update [OF assms(2), of "\<lambda>g. eg_pc g = GoConsuming" "(?gs ! i)\<lparr>eg_pc := GoConsuming\<rparr>"]
      assms(3) by simp
  have "\<forall>g \<in> set (?gs[i := (?gs ! i)\<lparr>eg_pc := GoConsuming\<rparr>]). eg_run g < en_runs m"
    using assms(1,2) by (intro ball_list_update) (auto simp: engine_ok_def)
  then have "engine_ok (m\<lparr>en_consuming := True, en_goroutines := ?gs[i := (?gs ! i)\<lparr>eg_pc := GoConsuming\<rparr>]\<rparr>)"
    if "\<not> en_consuming m"
    using assms that c run_ok_consuming [OF _ assms(2,3)]
    by (auto simp: engine_ok_def consuming_goroutines_def)
  with ret show ?thesis by (auto simp: Consume_call_def split: option.splits)
qed

lemma ok_engine_step: "engine_step m l m' \<Longrightarrow> engine_ok m \<Longrightarrow> engine_ok m'"
proof (induction rule: engine_step.induct)
  case (step_end i m r)
  then have "m\<lparr>en_consuming := en_consuming m \<and> eg_pc (en_goroutines m ! i) \<noteq> GoConsuming\<rparr> =
      m\<lparr>en_consuming := False\<rparr>"
    by simp
  with step_end ok_consume_returned [of m i r] show ?case by simp
qed (auto simp: ok_Run_call ok_Consume_call ok_Run_return ok_Stop,
    simp add: engine_ok_def consuming_goroutines_def)

lemma ok_engine_reaches: "engine_reaches m ls m' \<Longrightarrow> engine_ok m \<Longrightarrow> engine_ok m'"
  by (induction rule: engine_reaches.induct) (auto intro: ok_engine_step)

section \<open>Run serves one queue and fails\<close>

text \<open>C32: the manager has one consumer, which serves one queue at a time, so steps and compensations are
  never both processed: as soon as both goroutines of a call of Run have called Consume, one of them
  was told that the consumer is already consuming, and that error is what Run receives.\<close>

theorem run_serves_one_queue:
  assumes "engine_reaches NewManager ls m" and "en_waiting m = Some n"
    and "\<forall>g \<in> set (en_goroutines m). eg_run g = n \<longrightarrow>
      eg_pc g = GoConsuming \<or> eg_pc g = GoReturned AlreadyConsuming"
  shows "consuming_goroutines m \<le> 1 \<and>
    (\<exists>q. engine_step m (SelectError q) (Run_return (RunFailed q AlreadyConsuming) m)) \<and>
    (\<forall>q m'. engine_step m (SelectError q) m' \<longrightarrow> m' = Run_return (RunFailed q AlreadyConsuming) m)"
proof -
  have ok: "engine_ok m" by (rule ok_engine_reaches [OF assms(1) ok_NewManager])
  then have c: "consuming_goroutines m \<le> 1" by (simp add: engine_ok_def)
  from ok assms(2) have r: "run_ok n (en_goroutines m) (en_errors m)" by (simp add: engine_ok_def)
  obtain a where a: "a \<in> set (en_goroutines m)" "eg_run a = n" "eg_queue a = StepQueue"
    using run_ok_goroutine [OF r] by blast
  obtain b where b: "b \<in> set (en_goroutines m)" "eg_run b = n" "eg_queue b = CompensateQueue"
    using run_ok_goroutine [OF r] by blast
  from a(3) b(3) have "a \<noteq> b" by auto
  then have "\<not> (eg_pc a = GoConsuming \<and> eg_pc b = GoConsuming)"
    using lcount_two [OF a(1) b(1), of "\<lambda>g. eg_pc g = GoConsuming"] c by (auto simp: consuming_goroutines_def)
  then obtain g where g: "g \<in> set (en_goroutines m)" "eg_run g = n" "eg_pc g = GoReturned AlreadyConsuming"
    using assms(3) a(1,2) b(1,2) by blast
  have "en_errors m (eg_queue g) \<noteq> None"
    using run_ok_left [OF r, rule_format, OF g] by (simp add: failed_with_def)
  moreover have e: "e = AlreadyConsuming" if "en_errors m q = Some e" for q e
    using run_ok_error [OF r that] assms(3) by auto
  ultimately obtain q where q: "en_errors m q = Some AlreadyConsuming" by auto
  have "\<exists>q. engine_step m (SelectError q) (Run_return (RunFailed q AlreadyConsuming) m)"
    using step_error [OF _ q] assms(2) by auto
  moreover have "m' = Run_return (RunFailed q AlreadyConsuming) m" if "engine_step m (SelectError q) m'" for q m'
    using that e by (auto simp: engine_step_simps)
  ultimately show ?thesis using c by blast
qed

text \<open>Stop is final: the stop channel is closed and never made again. Every later Run can return at
  once, and a second Stop during such a Run panics.\<close>

lemma stopped_manager_cannot_restart:
  assumes "engine_reaches m ls m'" and "en_stopClosed m"
  shows "(\<forall>n. en_waiting m' = Some n \<longrightarrow> engine_step m' SelectStop (Run_return RunStopped m')) \<and>
    (en_running m' \<longrightarrow> (\<exists>m''. engine_step m' CallStop m'' \<and> en_panicked m''))"
proof -
  have "en_stopClosed m'"
    using assms
  proof (induction rule: engine_reaches.induct)
    case (reach_step m ls m' l m'')
    from reach_step(2) reach_step.IH [OF reach_step.prems] show ?case
      by cases (auto simp: Run_call_def Consume_call_def consume_returned_def Let_def Run_return_def Stop_def
          split: option.splits)
  qed
  then show ?thesis by (auto simp: engine_step_simps Stop_def)
qed

theorem run_serves_one_queue_witness:
  "\<exists>m m' q. engine_reaches NewManager [CallRun, CallConsume 1 None, CallConsume 0 None] m \<and>
     engine_step m (SelectError q) m' \<and> en_results m' = [RunFailed q AlreadyConsuming]"
proof -
  define m1 where "m1 = Run_call NewManager"
  define m2 where "m2 = Consume_call 1 None m1"
  define m3 where "m3 = Consume_call 0 None m2"
  note d = m3_def m2_def m1_def Consume_call_def consume_returned_def Run_call_def NewManager_def Let_def
  have "engine_reaches NewManager ([] @ [CallRun]) m1"
    unfolding m1_def by (rule reach_step [OF reach_refl step_run])
  then have "engine_reaches NewManager (([] @ [CallRun]) @ [CallConsume 1 None]) m2"
    unfolding m2_def by (rule reach_step) (rule step_consume, simp_all add: m1_def Run_call_def NewManager_def)
  then have "engine_reaches NewManager ((([] @ [CallRun]) @ [CallConsume 1 None]) @ [CallConsume 0 None]) m3"
    unfolding m3_def by (rule reach_step)
      (rule step_consume, simp_all add: m2_def m1_def Consume_call_def Run_call_def NewManager_def)
  then have r: "engine_reaches NewManager [CallRun, CallConsume 1 None, CallConsume 0 None] m3" by simp
  have w: "en_waiting m3 = Some 0" "en_results m3 = []" by (simp_all add: d)
  have g: "\<forall>g \<in> set (en_goroutines m3). eg_run g = 0 \<longrightarrow>
      eg_pc g = GoConsuming \<or> eg_pc g = GoReturned AlreadyConsuming"
    by (simp add: d)
  from run_serves_one_queue [OF r w(1) g] obtain q
    where "engine_step m3 (SelectError q) (Run_return (RunFailed q AlreadyConsuming) m3)" by blast
  with r w(2) show ?thesis
    by (intro exI [of _ m3] exI [of _ "Run_return (RunFailed q AlreadyConsuming) m3"] exI [of _ q])
      (simp add: Run_return_def)
qed

lemma stopped_manager_cannot_restart_witness:
  "en_waiting (Run_call (NewManager\<lparr>en_stopClosed := True\<rparr>)) = Some 0 \<and>
   (\<exists>m'. engine_step (Run_call (NewManager\<lparr>en_stopClosed := True\<rparr>)) SelectStop m' \<and> en_results m' = [RunStopped])"
proof -
  let ?m = "NewManager\<lparr>en_stopClosed := True\<rparr>"
  have "engine_reaches ?m ([] @ [CallRun]) (Run_call ?m)" by (rule reach_step [OF reach_refl step_run])
  from stopped_manager_cannot_restart [OF this] show ?thesis
    by (simp add: Run_call_def Run_return_def NewManager_def) (metis engine.select_convs(10))
qed

section \<open>Closing the manager\<close>

text \<open>Both are closed, whatever the other answers: a publisher or consumer is \<open>None\<close> when it is nil, and
  else what its Close returns.\<close>

definition Manager_Close :: "string option option \<Rightarrow> string option option \<Rightarrow> string option" where
  "Manager_Close publisher consumer =
     (let errs = (case publisher of Some (Some e) \<Rightarrow> [''failed to close publisher: '' @ e] | _ \<Rightarrow> []) @
                 (case consumer of Some (Some e) \<Rightarrow> [''failed to close consumer: '' @ e] | _ \<Rightarrow> []) in
      if errs \<noteq> [] then Some (''errors closing saga manager: ['' @ join '' '' errs @ '']'') else None)"

lemma manager_close_reports:
  "Manager_Close publisher consumer = None \<longleftrightarrow>
     \<not> (\<exists>e. publisher = Some (Some e)) \<and> \<not> (\<exists>e. consumer = Some (Some e))"
  by (auto simp: Manager_Close_def Let_def split: option.splits)

end
