(* ===== verification/Publish_Loop.thy ===== *)
theory Publish_Loop
  imports Codec Retry_Policy Consumer_Loop
begin

text \<open>
  Publishing without delivery assurance (src/publisher.go): \<open>Publish\<close> with its loop over the
  attempts, \<open>refreshChannel\<close>, \<open>waitForConfirmation\<close>, \<open>PublishBatch\<close> and the goroutines of
  \<open>PublishBatchParallel\<close>. The answers of the client and of the broker during one call are a
  script, by the number of the attempt.
\<close>

section \<open>State\<close>

record publish_config =
  pc_DefaultExchange :: string
  pc_Mandatory :: bool
  pc_Immediate :: bool
  pc_Persistent :: bool
  pc_ConfirmationEnabled :: bool
  pc_Compressor :: "MessageCompressor option"
  pc_CompressionThreshold :: int
  pc_Encryptor :: "MessageEncryptor option"
  pc_maxConnectionRetries :: int
  pc_AutoReconnect :: bool
  pc_ReconnectPolicy :: "ReconnectPolicy option"
  pc_ReconnectDelay :: duration
  pc_validator :: "(string \<Rightarrow> string option) option"

text \<open>\<open>ps_ctxDone\<close>: the context is done right after that attempt; \<open>ps_ctxWait\<close>: during the wait.\<close>

record publish_script =
  ps_send :: "nat \<Rightarrow> go_error option"
  ps_ctxDone :: "nat \<Rightarrow> bool"
  ps_ctxWait :: "nat \<Rightarrow> bool"
  ps_channel :: "nat \<Rightarrow> string option"
  ps_confirm :: "nat \<Rightarrow> string option"

datatype publish_event = Attempted nat string string publishing bool | Waited duration

text \<open>
  Channels are numbered. \<open>rg_confirmations\<close> is the channel whose confirmations the publisher reads
  and \<open>rg_buffer\<close> what each channel has buffered: delivery tags with ack or nack, oldest first.
\<close>

record regular_publisher =
  rg_ch :: nat
  rg_next :: nat
  rg_confirmations :: "nat option"
  rg_buffer :: "nat \<Rightarrow> (nat \<times> bool) list"
  rg_closed :: "nat \<Rightarrow> bool"
  rg_tag :: "nat \<Rightarrow> nat"
  rg_events :: "publish_event list"

section \<open>Refreshing the channel\<close>

definition refreshChannel ::
  "publish_config \<Rightarrow> string option \<Rightarrow> string option \<Rightarrow> regular_publisher \<Rightarrow>
   string option \<times> regular_publisher" where
  "refreshChannel c noChannel noConfirm p =
     (case noChannel of
        Some e \<Rightarrow> (Some (''failed to get new channel: '' @ e), p)
      | None \<Rightarrow>
          (let newCh = rg_next p; p1 = p\<lparr>rg_next := Suc newCh\<rparr> in
           if pc_ConfirmationEnabled c
           then
             (case noConfirm of
                Some e \<Rightarrow>
                  (Some (''failed to enable confirm mode on new channel: '' @ e),
                   p1\<lparr>rg_closed := (rg_closed p1)(newCh := True)\<rparr>)
              | None \<Rightarrow> (None, p1\<lparr>rg_confirmations := Some newCh, rg_ch := newCh\<rparr>))
           else (None, p1\<lparr>rg_ch := newCh\<rparr>)))"

section \<open>The loop of Publish\<close>

definition ctx_error :: go_error where "ctx_error = PlainError ''context done''"

text \<open>One \<open>PublishWithContext\<close>; a send that returns nil takes the next delivery tag of its channel.\<close>

definition send_publishing ::
  "string \<Rightarrow> string \<Rightarrow> publishing \<Rightarrow> go_error option \<Rightarrow> regular_publisher \<Rightarrow> regular_publisher" where
  "send_publishing exchange routingKey m err p =
     p\<lparr>rg_events := rg_events p @ [Attempted (rg_ch p) exchange routingKey m (err = None)],
       rg_tag := (if err = None then (rg_tag p)(rg_ch p := Suc (rg_tag p (rg_ch p))) else rg_tag p)\<rparr>"

definition publish_delay :: "publish_config \<Rightarrow> nat \<Rightarrow> duration" where
  "publish_delay c att =
     max (case pc_ReconnectPolicy c of
            Some p \<Rightarrow> NextDelay p (int att + 1)
          | None \<Rightarrow> pc_ReconnectDelay c)
         minReconnectDelay"

definition policy_refuses :: "publish_config \<Rightarrow> nat \<Rightarrow> bool" where
  "policy_refuses c att \<longleftrightarrow>
     (case pc_ReconnectPolicy c of
        Some p \<Rightarrow> \<not> ReconnectPolicy_ShouldRetry p (int att + 1)
      | None \<Rightarrow> False)"

text \<open>
  The loop, from an attempt on. \<open>None\<close>: it never ends. A \<open>break\<close> inside a \<open>select\<close> leaves only
  the \<open>select\<close>: the first one is followed by the question to the policy, the second one by the
  final \<open>break\<close>. A wait that begins with a done context ends at once. A refresh that fails is
  followed by another attempt just as one that succeeds.
\<close>

partial_function (option) publish_loop ::
  "publish_config \<Rightarrow> publish_script \<Rightarrow> string \<Rightarrow> string \<Rightarrow> publishing \<Rightarrow> nat \<Rightarrow> go_error option \<Rightarrow>
   regular_publisher \<Rightarrow> (go_error option \<times> regular_publisher) option" where
  "publish_loop c S exchange routingKey m att publishErr p =
     (if pc_maxConnectionRetries c > 0 \<and> int att > pc_maxConnectionRetries c
      then Some (publishErr, p)
      else
        (let p1 = send_publishing exchange routingKey m (ps_send S att) p in
         case ps_send S att of
           None \<Rightarrow> Some (None, p1)
         | Some e \<Rightarrow>
             if isChannelError (Some e) \<and> pc_AutoReconnect c
             then
               (let err = (if ps_ctxDone S att then ctx_error else e) in
                if policy_refuses c att then Some (Some err, p1)
                else if ps_ctxDone S att \<or> ps_ctxWait S att then Some (Some ctx_error, p1)
                else
                  publish_loop c S exchange routingKey m (Suc att) (Some err)
                    (snd (refreshChannel c (ps_channel S att) (ps_confirm S att)
                      (p1\<lparr>rg_events := rg_events p1 @ [Waited (publish_delay c att)]\<rparr>))))
             else Some (Some e, p1)))"

section \<open>Waiting for a confirmation\<close>

text \<open>The case of the \<open>select\<close> that is taken; the first one only when something is there to receive.\<close>

datatype wait_case = TakeConfirmation | TakeTimeout | TakeContext

definition waitForConfirmation ::
  "publish_config \<Rightarrow> wait_case \<Rightarrow> regular_publisher \<Rightarrow> (string option \<times> regular_publisher) option" where
  "waitForConfirmation c w p =
     (if \<not> pc_ConfirmationEnabled c then Some (None, p)
      else
        (case rg_confirmations p of
           None \<Rightarrow> Some (None, p)
         | Some ch \<Rightarrow>
             (case w of
                TakeConfirmation \<Rightarrow>
                  (case rg_buffer p ch of
                     (tag, ack) # rest \<Rightarrow>
                       Some (if ack then None else Some ''message not acknowledged by broker'',
                             p\<lparr>rg_buffer := (rg_buffer p)(ch := rest)\<rparr>)
                   | [] \<Rightarrow>
                       if rg_closed p ch
                       then Some (Some ''confirmation channel closed before the broker answered'', p)
                       else None)
              | TakeTimeout \<Rightarrow> Some (Some ''confirmation timeout'', p)
              | TakeContext \<Rightarrow> Some (Some (Error_text ctx_error), p))))"

section \<open>Publish\<close>

definition quoted :: "string \<Rightarrow> string" where
  "quoted s = [CHR 0x27] @ s @ [CHR 0x27]"

text \<open>The message as it goes to the wire: defaults, codec, conversion.\<close>

definition prepare_message :: "publish_config \<Rightarrow> message \<Rightarrow> string + publishing" where
  "prepare_message c m =
     (let m1 = (if pc_Persistent c \<and> \<not> m_Persistent m then (Clone m)\<lparr>m_Persistent := True\<rparr> else m) in
      case publisher_codec (pc_CompressionThreshold c) (pc_Compressor c) (pc_Encryptor c) m1 of
        Inl e \<Rightarrow> Inl e
      | Inr m2 \<Rightarrow> Inr (ToAMQPPublishing m2))"

text \<open>\<open>arrive\<close> is what the broker adds to the buffers between the send and the receive.\<close>

definition Publish ::
  "publish_config \<Rightarrow> publish_script \<Rightarrow> (regular_publisher \<Rightarrow> regular_publisher) \<Rightarrow> wait_case \<Rightarrow>
   string \<Rightarrow> string \<Rightarrow> message \<Rightarrow> regular_publisher \<Rightarrow> (string option \<times> regular_publisher) option" where
  "Publish c S arrive w exchange0 routingKey m p =
     (let exchange = (if exchange0 = [] then pc_DefaultExchange c else exchange0) in
      case (case pc_validator c of
              Some validate \<Rightarrow> if exchange \<noteq> [] then validate exchange else None
            | None \<Rightarrow> None) of
        Some e \<Rightarrow> Some (Some (''topology validation failed for exchange '' @ quoted exchange @ '': '' @ e), p)
      | None \<Rightarrow>
          (case prepare_message c m of
             Inl e \<Rightarrow> Some (Some e, p)
           | Inr pub \<Rightarrow>
               (case publish_loop c S exchange routingKey pub 0 None p of
                  None \<Rightarrow> None
                | Some (Some e, p1) \<Rightarrow> Some (Some (''failed to publish message: '' @ Error_text e), p1)
                | Some (None, p1) \<Rightarrow>
                    (case waitForConfirmation c w (arrive p1) of
                       None \<Rightarrow> None
                     | Some (Some e, p2) \<Rightarrow> Some (Some (''confirmation failed: '' @ e), p2)
                     | Some (None, p2) \<Rightarrow> Some (None, p2)))))"

record publishRequest =
  rq_Exchange :: string
  rq_RoutingKey :: string
  rq_Message :: message

type_synonym publish_answers =
  "publish_script \<times> (regular_publisher \<Rightarrow> regular_publisher) \<times> wait_case"

text \<open>\<open>PublishBatch\<close> from message \<open>i\<close> on: in order, up to the first one that fails.\<close>

fun PublishBatch ::
  "publish_config \<Rightarrow> (nat \<Rightarrow> publish_answers) \<Rightarrow> nat \<Rightarrow> publishRequest list \<Rightarrow> regular_publisher \<Rightarrow>
   (string option \<times> regular_publisher) option" where
  "PublishBatch c A i [] p = Some (None, p)"
| "PublishBatch c A i (r # rs) p =
     (case Publish c (fst (A i)) (fst (snd (A i))) (snd (snd (A i))) (rq_Exchange r) (rq_RoutingKey r)
             (rq_Message r) p of
        None \<Rightarrow> None
      | Some (Some e, p1) \<Rightarrow>
          Some (Some (''failed to publish message '' @ show_int (int i) @ '': '' @ e), p1)
      | Some (None, p1) \<Rightarrow> PublishBatch c A (Suc i) rs p1)"

section \<open>How often Publish sends\<close>

fun is_attempt :: "publish_event \<Rightarrow> bool" where
  "is_attempt (Attempted _ _ _ _ _) = True"
| "is_attempt (Waited _) = False"

definition attempts :: "regular_publisher \<Rightarrow> nat" where
  "attempts p = lcount is_attempt (rg_events p)"

text \<open>
  The three limits on the number of attempts: the configured retries, the reconnect policy, and the
  context.
\<close>

definition attempt_limit :: "publish_config \<Rightarrow> publish_script \<Rightarrow> nat \<Rightarrow> bool" where
  "attempt_limit c S N \<longleftrightarrow>
     0 < pc_maxConnectionRetries c \<and> int N = pc_maxConnectionRetries c + 1 \<or>
     (\<exists>pol. pc_ReconnectPolicy c = Some pol \<and> 0 < MaxAttempts pol \<and> int N = MaxAttempts pol) \<or>
     (\<exists>k. (ps_ctxDone S k \<or> ps_ctxWait S k) \<and> N = Suc k)"

lemma events_refreshChannel [simp]: "rg_events (snd (refreshChannel c e e' p)) = rg_events p"
  by (simp add: refreshChannel_def Let_def split: option.splits)

lemma attempts_send: "attempts (send_publishing x rk m e p) = Suc (attempts p)"
  by (simp add: attempts_def send_publishing_def)

lemma attempts_wait:
  "attempts (snd (refreshChannel c e e' (p\<lparr>rg_events := rg_events p @ [Waited d]\<rparr>))) = attempts p"
  by (simp add: attempts_def)

definition all_waits :: "(duration \<Rightarrow> bool) \<Rightarrow> regular_publisher \<Rightarrow> bool" where
  "all_waits P p \<longleftrightarrow> (\<forall>d. Waited d \<in> set (rg_events p) \<longrightarrow> P d)"

lemma all_waits_send: "all_waits P (send_publishing x rk m e p) = all_waits P p"
  by (simp add: all_waits_def send_publishing_def)

lemma all_waits_wait:
  "all_waits P (snd (refreshChannel c e e' (p\<lparr>rg_events := rg_events p @ [Waited d]\<rparr>))) \<longleftrightarrow> all_waits P p \<and> P d"
  by (auto simp: all_waits_def)

lemma publish_delay_ge: "100 * millisecond \<le> publish_delay c k"
  by (simp add: publish_delay_def minReconnectDelay_def)

text \<open>What is known of a loop that begins at attempt \<open>k\<close> and may go up to attempt \<open>N\<close>.\<close>

lemma publish_loop_stops:
  assumes "attempt_limit c S N" and "k \<le> N" and "k = N \<longrightarrow> 0 < pc_maxConnectionRetries c \<and> int N = pc_maxConnectionRetries c + 1"
    and "all_waits (\<lambda>d. 100 * millisecond \<le> d) p"
  shows "\<exists>r p'. publish_loop c S x rk m k e p = Some (r, p') \<and> attempts p' + k \<le> attempts p + N \<and>
    all_waits (\<lambda>d. 100 * millisecond \<le> d) p'"
  using assms(2-4)
proof (induction "N - k" arbitrary: k e p)
  case 0
  then show ?case by (subst publish_loop.simps) auto
next
  case (Suc n)
  let ?p1 = "send_publishing x rk m (ps_send S k) p"
  let ?p2 = "snd (refreshChannel c (ps_channel S k) (ps_confirm S k)
    (?p1\<lparr>rg_events := rg_events ?p1 @ [Waited (publish_delay c k)]\<rparr>))"
  have k: "Suc k \<le> N" using Suc.hyps(2) by simp
  have a: "attempts ?p1 + k \<le> attempts p + N" using k by (simp add: attempts_send)
  have w: "all_waits (\<lambda>d. 100 * millisecond \<le> d) ?p1" using Suc.prems(3) by (simp add: all_waits_send)
  have rest: "\<exists>r p'. publish_loop c S x rk m (Suc k) (Some e') ?p2 = Some (r, p') \<and>
      attempts p' + k \<le> attempts p + N \<and> all_waits (\<lambda>d. 100 * millisecond \<le> d) p'"
    if "\<not> policy_refuses c k" "\<not> ps_ctxDone S k" "\<not> ps_ctxWait S k" for e'
  proof -
    have last: "0 < pc_maxConnectionRetries c \<and> int N = pc_maxConnectionRetries c + 1" if "Suc k = N"
    proof -
      have "\<not> (\<exists>pol. pc_ReconnectPolicy c = Some pol \<and> 0 < MaxAttempts pol \<and> int N = MaxAttempts pol)"
        using \<open>\<not> policy_refuses c k\<close> that by (auto simp: policy_refuses_def ReconnectPolicy_ShouldRetry_def)
      moreover have "\<not> (\<exists>k. (ps_ctxDone S k \<or> ps_ctxWait S k) \<and> N = Suc k)"
        using \<open>\<not> ps_ctxDone S k\<close> \<open>\<not> ps_ctxWait S k\<close> that by auto
      ultimately show ?thesis using assms(1) unfolding attempt_limit_def by blast
    qed
    have "n = N - Suc k" using Suc.hyps(2) by simp
    moreover have "all_waits (\<lambda>d. 100 * millisecond \<le> d) ?p2"
      using w publish_delay_ge by (simp add: all_waits_wait)
    ultimately obtain r p' where "publish_loop c S x rk m (Suc k) (Some e') ?p2 = Some (r, p')"
      "attempts p' + Suc k \<le> attempts ?p2 + N" "all_waits (\<lambda>d. 100 * millisecond \<le> d) p'"
      using Suc.hyps(1) [of "Suc k" ?p2 "Some e'"] k last by blast
    then show ?thesis by (auto simp: attempts_wait attempts_send)
  qed
  show ?case
    using a w rest Suc.prems(3) k by (subst publish_loop.simps) (auto simp: Let_def split: option.splits)
qed

text \<open>C33: the loop of Publish returns whenever something limits it: the connection retries, the reconnect
  policy or the end of the context. It sends at most as often as the limit says, one more than the
  configured retries, and waits at least 100 milliseconds before each further attempt.\<close>

theorem publish_returns_within_limit:
  assumes "attempt_limit c S N" and "0 < N" and "all_waits (\<lambda>d. 100 * millisecond \<le> d) p"
  shows "\<exists>r p'. publish_loop c S x rk m 0 None p = Some (r, p') \<and> attempts p' \<le> attempts p + N \<and>
    all_waits (\<lambda>d. 100 * millisecond \<le> d) p'"
  using publish_loop_stops [OF assms(1), of 0 p x rk m None] assms(2,3) by simp

text \<open>No limit, and every send fails because the channel or the connection is not open.\<close>

definition broker_gone :: "publish_config \<Rightarrow> publish_script \<Rightarrow> bool" where
  "broker_gone c S \<longleftrightarrow>
     pc_maxConnectionRetries c \<le> 0 \<and> pc_AutoReconnect c \<and>
     (\<forall>pol. pc_ReconnectPolicy c = Some pol \<longrightarrow> MaxAttempts pol \<le> 0) \<and>
     (\<forall>n. \<not> ps_ctxDone S n \<and> \<not> ps_ctxWait S n) \<and>
     (\<forall>n. \<exists>err. ps_send S n = Some err \<and> isChannelError (Some err))"

lemma publish_loop_unlimited:
  assumes "publish_loop c S x rk m k e p = Some y"
  shows "\<not> broker_gone c S"
proof (rule publish_loop.raw_induct [where P = "\<lambda>c S x rk m k e p y. \<not> broker_gone c S", OF _ assms])
  fix f :: "publish_config \<Rightarrow> publish_script \<Rightarrow> string \<Rightarrow> string \<Rightarrow> publishing \<Rightarrow> nat \<Rightarrow> go_error option \<Rightarrow>
    regular_publisher \<Rightarrow> (go_error option \<times> regular_publisher) option"
  fix c S x rk m k e p y
  assume ih: "\<And>c S x rk m k e p y. f c S x rk m k e p = Some y \<Longrightarrow> \<not> broker_gone c S"
  assume step: "(if pc_maxConnectionRetries c > 0 \<and> int k > pc_maxConnectionRetries c then Some (e, p)
    else let p1 = send_publishing x rk m (ps_send S k) p in
      case ps_send S k of None \<Rightarrow> Some (None, p1)
      | Some e \<Rightarrow>
        if isChannelError (Some e) \<and> pc_AutoReconnect c
        then let err = if ps_ctxDone S k then ctx_error else e in
          if policy_refuses c k then Some (Some err, p1)
          else if ps_ctxDone S k \<or> ps_ctxWait S k then Some (Some ctx_error, p1)
          else f c S x rk m (Suc k) (Some err)
            (snd (refreshChannel c (ps_channel S k) (ps_confirm S k)
              (p1\<lparr>rg_events := rg_events p1 @ [Waited (publish_delay c k)]\<rparr>)))
        else Some (Some e, p1)) = Some y"
  show "\<not> broker_gone c S"
  proof
    assume g: "broker_gone c S"
    then obtain err where err: "ps_send S k = Some err" "isChannelError (Some err)"
      unfolding broker_gone_def by blast
    have "\<not> policy_refuses c k"
      using g by (auto simp: broker_gone_def policy_refuses_def ReconnectPolicy_ShouldRetry_def split: option.splits)
    with step err g show False
      by (auto simp: Let_def broker_gone_def dest!: ih)
  qed
qed

text \<open>With unlimited connection retries and a policy without a limit, a publish under a context that
  is never done does not return while every send fails because the channel is not open.\<close>

lemma unlimited_publish_never_returns:
  assumes "broker_gone c S" and "pc_validator c = None" and "prepare_message c msg = Inr pub"
  shows "Publish c S arrive w x rk msg p = None"
proof -
  have "publish_loop c S x' rk m 0 None p = None" for x' m
    using publish_loop_unlimited assms(1) by (cases "publish_loop c S x' rk m 0 None p") auto
  with assms(2,3) show ?thesis by (simp add: Publish_def Let_def)
qed

section \<open>Confirmations carry no message\<close>

definition broker_answers :: "bool \<Rightarrow> regular_publisher \<Rightarrow> regular_publisher" where
  "broker_answers ack p =
     p\<lparr>rg_buffer := (rg_buffer p)(rg_ch p := rg_buffer p (rg_ch p) @ [(rg_tag p (rg_ch p), ack)])\<rparr>"

definition all_sent :: publish_script where
  "all_sent = \<lparr>ps_send = (\<lambda>_. None), ps_ctxDone = (\<lambda>_. False), ps_ctxWait = (\<lambda>_. False),
     ps_channel = (\<lambda>_. None), ps_confirm = (\<lambda>_. None)\<rparr>"

text \<open>Messages published one after the other, each answered before its publish waits.\<close>

fun publish_each ::
  "publish_config \<Rightarrow> (publishRequest \<times> bool) list \<Rightarrow> regular_publisher \<Rightarrow>
   (string option list \<times> regular_publisher) option" where
  "publish_each c [] p = Some ([], p)"
| "publish_each c ((r, ack) # rs) p =
     (case Publish c all_sent (broker_answers ack) TakeConfirmation (rq_Exchange r) (rq_RoutingKey r)
             (rq_Message r) p of
        None \<Rightarrow> None
      | Some (res, p1) \<Rightarrow>
          (case publish_each c rs p1 of None \<Rightarrow> None | Some (rest, p2) \<Rightarrow> Some (res # rest, p2)))"

definition report :: "bool \<Rightarrow> string option" where
  "report ack = (if ack then None else Some ''confirmation failed: message not acknowledged by broker'')"

definition confirming :: "publish_config \<Rightarrow> regular_publisher \<Rightarrow> bool" where
  "confirming c p \<longleftrightarrow>
     pc_ConfirmationEnabled c \<and> pc_validator c = None \<and> rg_confirmations p = Some (rg_ch p)"

lemma Publish_confirming:
  assumes "confirming c p" and "prepare_message c m = Inr pub" and "rg_buffer p (rg_ch p) = b"
  obtains p' where "Publish c all_sent (broker_answers ack) TakeConfirmation x rk m p =
      Some (report (hd (map snd b @ [ack])), p')"
    and "confirming c p'" and "rg_buffer p' (rg_ch p') = tl (b @ [(Suc (rg_tag p (rg_ch p)), ack)])"
proof -
  let ?x = "if x = [] then pc_DefaultExchange c else x"
  have l: "publish_loop c all_sent ?x rk pub 0 None p = Some (None, send_publishing ?x rk pub None p)"
    by (subst publish_loop.simps) (auto simp: all_sent_def Let_def)
  define q where "q = broker_answers ack (send_publishing ?x rk pub None p)"
  define s where "s = b @ [(Suc (rg_tag p (rg_ch p)), ack)]"
  have q: "rg_ch q = rg_ch p" "rg_confirmations q = rg_confirmations p" "rg_buffer q (rg_ch p) = s"
    using assms(3) by (simp_all add: q_def s_def broker_answers_def send_publishing_def)
  obtain t0 a0 s0 where s: "s = (t0, a0) # s0" by (cases s) (auto simp: s_def)
  then have h: "a0 = hd (map snd b @ [ack])" "s0 = tl s" by (cases b; simp add: s_def)+
  define p' where "p' = q\<lparr>rg_buffer := (rg_buffer q)(rg_ch p := s0)\<rparr>"
  have w: "waitForConfirmation c TakeConfirmation q =
      Some (if a0 then None else Some ''message not acknowledged by broker'', p')"
    using assms(1) q s by (simp add: waitForConfirmation_def confirming_def p'_def)
  have "Publish c all_sent (broker_answers ack) TakeConfirmation x rk m p = Some (report a0, p')"
    using assms(1,2) l w by (simp add: Publish_def Let_def confirming_def q_def report_def)
  moreover have "confirming c p'" "rg_buffer p' (rg_ch p') = tl s"
    using assms(1) q h by (simp_all add: confirming_def p'_def)
  ultimately show ?thesis using that h(1) by (simp add: s_def)
qed

text \<open>A publish takes the oldest confirmation of the channel, whichever message it is for. When
  answers of publishes that timed out have arrived late, every later publish is told the answer of
  an earlier one, shifted by their number, and a nacked message is reported as published.\<close>

lemma confirmations_not_correlated:
  assumes "confirming c p" and "\<forall>(r, ack) \<in> set rs. \<exists>pub. prepare_message c (rq_Message r) = Inr pub"
  shows "\<exists>p'. publish_each c rs p =
    Some (map report (take (length rs) (map snd (rg_buffer p (rg_ch p)) @ map snd rs)), p')"
  using assms
proof (induction rs arbitrary: p)
  case (Cons a rs)
  obtain r ack where a: "a = (r, ack)" by (cases a)
  with Cons.prems(2) obtain pub where pub: "prepare_message c (rq_Message r) = Inr pub" by auto
  let ?b = "rg_buffer p (rg_ch p)"
  obtain p1 where p1: "Publish c all_sent (broker_answers ack) TakeConfirmation (rq_Exchange r)
      (rq_RoutingKey r) (rq_Message r) p = Some (report (hd (map snd ?b @ [ack])), p1)"
    "confirming c p1" "rg_buffer p1 (rg_ch p1) = tl (?b @ [(Suc (rg_tag p (rg_ch p)), ack)])"
    using Publish_confirming [OF Cons.prems(1) pub refl] by blast
  from Cons.IH [OF p1(2)] Cons.prems(2) obtain p2 where
    "publish_each c rs p1 = Some (map report (take (length rs) (map snd (rg_buffer p1 (rg_ch p1)) @ map snd rs)), p2)"
    by auto
  with p1 a show ?case by (cases ?b) auto
qed simp

section \<open>The goroutines of PublishBatchParallel\<close>

record publishResult =
  pr_Index :: nat
  pr_Success :: bool
  pr_Error :: "string option"

text \<open>
  A goroutine acquires a slot, checks the context, publishes, and gives its slot back. What its
  \<open>Publish\<close> returns is any error or none.
\<close>

datatype par_pc = ParAcquire | ParCheck | ParPublish | ParRelease | ParFinished

text \<open>\<open>bp_limit\<close> is 0 when there is no semaphore (\<open>maxConcurrency \<le> 0\<close>).\<close>

record batch_parallel =
  bp_limit :: nat
  bp_pcs :: "par_pc list"
  bp_results :: "publishResult list"
  bp_SuccessCount :: nat
  bp_FailureCount :: nat
  bp_ctxDone :: bool

definition PublishBatchParallel :: "nat \<Rightarrow> int \<Rightarrow> batch_parallel" where
  "PublishBatchParallel n maxConcurrency =
     \<lparr>bp_limit = nat maxConcurrency, bp_pcs = replicate n ParAcquire,
      bp_results = replicate n \<lparr>pr_Index = 0, pr_Success = False, pr_Error = None\<rparr>,
      bp_SuccessCount = 0, bp_FailureCount = 0, bp_ctxDone = False\<rparr>"

fun holds_slot :: "par_pc \<Rightarrow> bool" where
  "holds_slot ParCheck = True"
| "holds_slot ParPublish = True"
| "holds_slot ParRelease = True"
| "holds_slot _ = False"

definition slots_taken :: "batch_parallel \<Rightarrow> nat" where
  "slots_taken b = lcount holds_slot (bp_pcs b)"

definition record_result :: "nat \<Rightarrow> string option \<Rightarrow> par_pc \<Rightarrow> batch_parallel \<Rightarrow> batch_parallel" where
  "record_result i err pc b =
     b\<lparr>bp_pcs := (bp_pcs b)[i := pc],
       bp_results := (bp_results b)[i := \<lparr>pr_Index = i, pr_Success = (err = None), pr_Error = err\<rparr>],
       bp_SuccessCount := (if err = None then Suc (bp_SuccessCount b) else bp_SuccessCount b),
       bp_FailureCount := (if err = None then bp_FailureCount b else Suc (bp_FailureCount b))\<rparr>"

definition ctx_text :: string where "ctx_text = Error_text ctx_error"

inductive par_step :: "batch_parallel \<Rightarrow> batch_parallel \<Rightarrow> bool" where
  par_acquire: "i < length (bp_pcs b) \<Longrightarrow> bp_pcs b ! i = ParAcquire \<Longrightarrow>
    bp_limit b = 0 \<or> slots_taken b < bp_limit b \<Longrightarrow>
    par_step b (b\<lparr>bp_pcs := (bp_pcs b)[i := ParCheck]\<rparr>)"
| par_acquire_done: "i < length (bp_pcs b) \<Longrightarrow> bp_pcs b ! i = ParAcquire \<Longrightarrow> 0 < bp_limit b \<Longrightarrow> bp_ctxDone b \<Longrightarrow>
    par_step b (record_result i (Some ctx_text) ParFinished b)"
| par_check: "i < length (bp_pcs b) \<Longrightarrow> bp_pcs b ! i = ParCheck \<Longrightarrow>
    par_step b (if bp_ctxDone b then record_result i (Some ctx_text) ParRelease b
                else b\<lparr>bp_pcs := (bp_pcs b)[i := ParPublish]\<rparr>)"
| par_publish: "i < length (bp_pcs b) \<Longrightarrow> bp_pcs b ! i = ParPublish \<Longrightarrow>
    par_step b (record_result i err ParRelease b)"
| par_release: "i < length (bp_pcs b) \<Longrightarrow> bp_pcs b ! i = ParRelease \<Longrightarrow>
    par_step b (b\<lparr>bp_pcs := (bp_pcs b)[i := ParFinished]\<rparr>)"

text \<open>\<open>k\<close> counts the steps of the goroutines; the context may end at any moment.\<close>

inductive par_reaches :: "batch_parallel \<Rightarrow> nat \<Rightarrow> batch_parallel \<Rightarrow> bool" where
  par_refl: "par_reaches b 0 b"
| par_more: "par_reaches b k b' \<Longrightarrow> par_step b' b'' \<Longrightarrow> par_reaches b (Suc k) b''"
| par_cancel: "par_reaches b k b' \<Longrightarrow> par_reaches b k (b'\<lparr>bp_ctxDone := True\<rparr>)"

definition batch_over :: "batch_parallel \<Rightarrow> bool" where
  "batch_over b \<longleftrightarrow> (\<forall>pc \<in> set (bp_pcs b). pc = ParFinished)"

definition FailedMessages :: "batch_parallel \<Rightarrow> nat list" where
  "FailedMessages b = map pr_Index (filter (\<lambda>r. \<not> pr_Success r) (bp_results b))"

subsection \<open>Invariant\<close>

fun answered :: "par_pc \<Rightarrow> bool" where
  "answered ParRelease = True"
| "answered ParFinished = True"
| "answered _ = False"

fun steps_left :: "par_pc \<Rightarrow> nat" where
  "steps_left ParAcquire = 4"
| "steps_left ParCheck = 3"
| "steps_left ParPublish = 2"
| "steps_left ParRelease = 1"
| "steps_left ParFinished = 0"

definition batch_ok :: "nat \<Rightarrow> nat \<Rightarrow> batch_parallel \<Rightarrow> bool" where
  "batch_ok n k b \<longleftrightarrow>
     length (bp_pcs b) = n \<and> length (bp_results b) = n \<and>
     (0 < bp_limit b \<longrightarrow> slots_taken b \<le> bp_limit b) \<and>
     k + sum_list (map steps_left (bp_pcs b)) \<le> 4 * n \<and>
     bp_SuccessCount b = lcount (\<lambda>(pc, r). answered pc \<and> pr_Success r) (zip (bp_pcs b) (bp_results b)) \<and>
     bp_FailureCount b = lcount (\<lambda>(pc, r). answered pc \<and> \<not> pr_Success r) (zip (bp_pcs b) (bp_results b)) \<and>
     (\<forall>i < n. answered (bp_pcs b ! i) \<longrightarrow>
        pr_Index (bp_results b ! i) = i \<and> (pr_Success (bp_results b ! i) \<longleftrightarrow> pr_Error (bp_results b ! i) = None))"

lemma batch_ok_start: "batch_ok n 0 (PublishBatchParallel n c)"
proof -
  have "lcount holds_slot (replicate n ParAcquire) = 0" by (simp add: lcount_zero_iff)
  moreover have "lcount (\<lambda>(pc, r). answered pc \<and> P r) (zip (replicate n ParAcquire) (replicate n r)) = 0" for P and r :: publishResult
    by (auto simp: lcount_zero_iff dest!: set_zip_leftD)
  ultimately show ?thesis
    by (simp add: batch_ok_def PublishBatchParallel_def slots_taken_def sum_list_replicate)
qed

lemma steps_left_update:
  "i < length pcs \<Longrightarrow> steps_left pc < steps_left (pcs ! i) \<Longrightarrow>
   sum_list (map steps_left (pcs[i := pc])) < sum_list (map steps_left pcs)"
proof (induction pcs arbitrary: i)
  case (Cons p pcs)
  then show ?case by (cases i) auto
qed simp

lemma zip_update_left: "length xs = length ys \<Longrightarrow> i < length xs \<Longrightarrow> zip (xs[i := x]) ys = (zip xs ys)[i := (x, ys ! i)]"
  by (metis list_update_id zip_update)

lemma batch_ok_pc:
  assumes "batch_ok n k b" and "i < length (bp_pcs b)" and "answered pc \<longleftrightarrow> answered (bp_pcs b ! i)"
    and "steps_left pc < steps_left (bp_pcs b ! i)"
    and "0 < bp_limit b \<Longrightarrow> \<not> holds_slot (bp_pcs b ! i) \<Longrightarrow> slots_taken b < bp_limit b"
  shows "batch_ok n (Suc k) (b\<lparr>bp_pcs := (bp_pcs b)[i := pc]\<rparr>)"
proof -
  from assms(1) have l: "length (bp_pcs b) = n" "length (bp_results b) = n" by (simp_all add: batch_ok_def)
  have z: "lcount P (zip ((bp_pcs b)[i := pc]) (bp_results b)) = lcount P (zip (bp_pcs b) (bp_results b))"
    if "\<And>r. P (pc, r) = P (bp_pcs b ! i, r)" for P
    using lcount_list_update [of i "zip (bp_pcs b) (bp_results b)" P "(pc, bp_results b ! i)"] assms(2) l that
    by (auto simp: zip_update_left split: if_splits)
  have s: "slots_taken (b\<lparr>bp_pcs := (bp_pcs b)[i := pc]\<rparr>) + (if holds_slot (bp_pcs b ! i) then 1 else 0) =
      slots_taken b + (if holds_slot pc then 1 else 0)"
    using lcount_list_update [OF assms(2), of holds_slot pc] by (simp add: slots_taken_def)
  have m: "sum_list (map steps_left ((bp_pcs b)[i := pc])) < sum_list (map steps_left (bp_pcs b))"
    by (rule steps_left_update [OF assms(2,4)])
  let ?b = "b\<lparr>bp_pcs := (bp_pcs b)[i := pc]\<rparr>"
  have a: "\<forall>j < n. answered (bp_pcs ?b ! j) \<longrightarrow> pr_Index (bp_results ?b ! j) = j \<and>
      (pr_Success (bp_results ?b ! j) \<longleftrightarrow> pr_Error (bp_results ?b ! j) = None)"
    using assms(1-3) l by (auto simp: batch_ok_def nth_list_update)
  have k: "Suc k + sum_list (map steps_left (bp_pcs ?b)) \<le> 4 * n"
    using assms(1) m by (simp add: batch_ok_def)
  have t: "0 < bp_limit ?b \<longrightarrow> slots_taken ?b \<le> bp_limit ?b"
  proof
    assume "0 < bp_limit ?b"
    then have "slots_taken b \<le> bp_limit b" "\<not> holds_slot (bp_pcs b ! i) \<longrightarrow> slots_taken b < bp_limit b"
      using assms(1,5) by (simp_all add: batch_ok_def)
    with s show "slots_taken ?b \<le> bp_limit ?b" by (cases "holds_slot (bp_pcs b ! i)"; cases "holds_slot pc") simp_all
  qed
  have c: "bp_SuccessCount ?b = lcount (\<lambda>(pc, r). answered pc \<and> pr_Success r) (zip (bp_pcs ?b) (bp_results ?b))"
    "bp_FailureCount ?b = lcount (\<lambda>(pc, r). answered pc \<and> \<not> pr_Success r) (zip (bp_pcs ?b) (bp_results ?b))"
    using assms(1,3) by (simp_all add: z batch_ok_def)
  show ?thesis unfolding batch_ok_def using l c a k t by simp
qed

lemma batch_ok_record:
  assumes "batch_ok n k b" and "i < length (bp_pcs b)" and "\<not> answered (bp_pcs b ! i)" and "answered pc"
    and "steps_left pc < steps_left (bp_pcs b ! i)" and "holds_slot pc \<longrightarrow> holds_slot (bp_pcs b ! i)"
  shows "batch_ok n (Suc k) (record_result i err pc b)"
proof -
  let ?r = "\<lparr>pr_Index = i, pr_Success = (err = None), pr_Error = err\<rparr>"
  from assms(1) have l: "length (bp_pcs b) = n" "length (bp_results b) = n" by (simp_all add: batch_ok_def)
  have z: "lcount (\<lambda>(pc, r). answered pc \<and> Q r) (zip ((bp_pcs b)[i := pc]) ((bp_results b)[i := ?r])) =
      lcount (\<lambda>(pc, r). answered pc \<and> Q r) (zip (bp_pcs b) (bp_results b)) + (if Q ?r then 1 else 0)" for Q
    using lcount_list_update [of i "zip (bp_pcs b) (bp_results b)" "\<lambda>(pc, r). answered pc \<and> Q r" "(pc, ?r)"]
      assms(2-4) l by (simp add: zip_update)
  have s: "slots_taken (record_result i err pc b) \<le> slots_taken b"
    using lcount_list_update [OF assms(2), of holds_slot pc] assms(6)
    by (auto simp: slots_taken_def record_result_def split: if_splits)
  have m: "sum_list (map steps_left ((bp_pcs b)[i := pc])) < sum_list (map steps_left (bp_pcs b))"
    by (rule steps_left_update [OF assms(2,5)])
  let ?b = "record_result i err pc b"
  have f: "bp_limit ?b = bp_limit b" "bp_pcs ?b = (bp_pcs b)[i := pc]" "bp_results ?b = (bp_results b)[i := ?r]"
    "bp_SuccessCount ?b = bp_SuccessCount b + (if err = None then 1 else 0)"
    "bp_FailureCount ?b = bp_FailureCount b + (if err = None then 0 else 1)"
    by (simp_all add: record_result_def)
  have c: "bp_SuccessCount ?b = lcount (\<lambda>(pc, r). answered pc \<and> pr_Success r) (zip (bp_pcs ?b) (bp_results ?b))"
    "bp_FailureCount ?b = lcount (\<lambda>(pc, r). answered pc \<and> \<not> pr_Success r) (zip (bp_pcs ?b) (bp_results ?b))"
    using assms(1) by (simp_all add: f z batch_ok_def)
  have a: "\<forall>j < n. answered (bp_pcs ?b ! j) \<longrightarrow> pr_Index (bp_results ?b ! j) = j \<and>
      (pr_Success (bp_results ?b ! j) \<longleftrightarrow> pr_Error (bp_results ?b ! j) = None)"
    using assms(1,2) l by (auto simp: f batch_ok_def nth_list_update)
  have k: "Suc k + sum_list (map steps_left (bp_pcs ?b)) \<le> 4 * n" and t: "0 < bp_limit ?b \<longrightarrow> slots_taken ?b \<le> bp_limit ?b"
    using assms(1) m s by (auto simp: f batch_ok_def)
  show ?thesis unfolding batch_ok_def using l c a k t by (simp add: f)
qed

lemma batch_ok_step: "par_step b b' \<Longrightarrow> batch_ok n k b \<Longrightarrow> batch_ok n (Suc k) b'"
  by (induction rule: par_step.induct) (auto intro!: batch_ok_pc batch_ok_record)

lemma batch_ok_reaches: "par_reaches b k b' \<Longrightarrow> batch_ok n 0 b \<Longrightarrow> batch_ok n k b'"
proof (induction rule: par_reaches.induct)
  case (par_more b k b' b'')
  then show ?case using batch_ok_step by blast
next
  case (par_cancel b k b')
  then show ?case by (simp add: batch_ok_def slots_taken_def)
qed simp

lemma reaches_limit: "par_reaches b k b' \<Longrightarrow> bp_limit b' = bp_limit b"
proof (induction rule: par_reaches.induct)
  case (par_more b k b' b'')
  from par_more.hyps(2) have "bp_limit b'' = bp_limit b'"
    by cases (auto simp: record_result_def)
  with par_more.IH show ?case by simp
qed simp_all

text \<open>No deadlock: some goroutine can move while one has not finished.\<close>

lemma batch_moves:
  assumes "batch_ok n k b" and "\<not> batch_over b"
  shows "\<exists>b'. par_step b b'"
proof (cases "\<exists>pc \<in> set (bp_pcs b). holds_slot pc")
  case True
  then obtain i where i: "i < length (bp_pcs b)" "holds_slot (bp_pcs b ! i)" by (auto simp: in_set_conv_nth)
  then show ?thesis by (cases "bp_pcs b ! i") (auto intro: par_step.intros)
next
  case False
  then have "slots_taken b = 0" by (auto simp: slots_taken_def lcount_zero_iff)
  then have s: "bp_limit b = 0 \<or> slots_taken b < bp_limit b" by auto
  from assms(2) obtain i where i: "i < length (bp_pcs b)" "bp_pcs b ! i \<noteq> ParFinished"
    by (auto simp: batch_over_def in_set_conv_nth)
  from i(1) False have "\<not> holds_slot (bp_pcs b ! i)" by auto
  with i(2) have "bp_pcs b ! i = ParAcquire" by (cases "bp_pcs b ! i") simp_all
  from par_acquire [OF i(1) this s] show ?thesis by blast
qed

lemma answered_over: "batch_over b \<Longrightarrow> i < length (bp_pcs b) \<Longrightarrow> answered (bp_pcs b ! i)"
  by (metis answered.simps(2) batch_over_def nth_mem)

lemma FailedMessages_over:
  assumes "batch_ok n k b" and "batch_over b"
  shows "FailedMessages b = filter (\<lambda>i. \<not> pr_Success (bp_results b ! i)) [0..<n]"
    and "bp_FailureCount b = length (FailedMessages b)" and "bp_SuccessCount b + bp_FailureCount b = n"
proof -
  from assms have l: "length (bp_pcs b) = n" "length (bp_results b) = n"
    by (simp_all add: batch_ok_def)
  then have a: "\<And>i. i < n \<Longrightarrow> answered (bp_pcs b ! i)" using answered_over [OF assms(2)] by simp
  have r: "bp_results b = map ((!) (bp_results b)) [0..<n]" using l(2) by (metis map_nth)
  have "map pr_Index (filter (\<lambda>r. \<not> pr_Success r) (map ((!) (bp_results b)) [0..<n])) =
      map (\<lambda>i. pr_Index (bp_results b ! i)) (filter (\<lambda>i. \<not> pr_Success (bp_results b ! i)) [0..<n])"
    by (simp add: filter_map comp_def)
  also have "\<dots> = filter (\<lambda>i. \<not> pr_Success (bp_results b ! i)) [0..<n]"
    using a assms(1) by (intro map_idI) (simp add: batch_ok_def)
  finally have "map pr_Index (filter (\<lambda>r. \<not> pr_Success r) (map ((!) (bp_results b)) [0..<n])) =
      filter (\<lambda>i. \<not> pr_Success (bp_results b ! i)) [0..<n]" .
  then show f: "FailedMessages b = filter (\<lambda>i. \<not> pr_Success (bp_results b ! i)) [0..<n]"
    unfolding FailedMessages_def by (simp flip: r)
  have z: "lcount (\<lambda>(pc, r). answered pc \<and> Q r) (zip (bp_pcs b) (bp_results b)) = lcount Q (bp_results b)" for Q
  proof -
    have "\<forall>x \<in> set (zip (bp_pcs b) (bp_results b)). answered (fst x)"
      using assms(2) by (auto simp: batch_over_def dest!: set_zip_leftD)
    then have "lcount (\<lambda>(pc, r). answered pc \<and> Q r) (zip (bp_pcs b) (bp_results b)) =
        lcount (Q \<circ> snd) (zip (bp_pcs b) (bp_results b))"
      unfolding lcount_def by (intro arg_cong [where f = length] filter_cong) auto
    also have "\<dots> = lcount Q (map snd (zip (bp_pcs b) (bp_results b)))" by (simp add: lcount_def filter_map)
    finally show ?thesis using l by simp
  qed
  have c: "bp_FailureCount b = lcount (\<lambda>r. \<not> pr_Success r) (bp_results b)"
    "bp_SuccessCount b = lcount pr_Success (bp_results b)"
    using assms(1) z by (simp_all add: batch_ok_def)
  then show "bp_FailureCount b = length (FailedMessages b)" by (simp add: FailedMessages_def lcount_def)
  show "bp_SuccessCount b + bp_FailureCount b = n"
    using c l(2) sum_length_filter_compl [of pr_Success "bp_results b"] by (simp add: lcount_def)
qed

text \<open>A parallel batch never has more publishes under way than its limit, never deadlocks and is
  over after at most four steps of each goroutine. Then every message has its result at its own
  index, the two counters add up to the number of messages, and FailedMessages names exactly
  those that failed.\<close>

lemma batch_parallel_accounts:
  assumes "par_reaches (PublishBatchParallel n c) k b"
  shows "(0 < c \<longrightarrow> int (slots_taken b) \<le> c) \<and> k \<le> 4 * n \<and>
    (\<not> batch_over b \<longrightarrow> (\<exists>b'. par_step b b')) \<and>
    (batch_over b \<longrightarrow>
       bp_SuccessCount b + bp_FailureCount b = n \<and> bp_FailureCount b = length (FailedMessages b) \<and>
       (\<forall>i < n. pr_Index (bp_results b ! i) = i \<and>
          (i \<in> set (FailedMessages b) \<longleftrightarrow> pr_Error (bp_results b ! i) \<noteq> None)))"
proof -
  have ok: "batch_ok n k b" by (rule batch_ok_reaches [OF assms batch_ok_start])
  have "bp_limit b = nat c" using reaches_limit [OF assms] by (simp add: PublishBatchParallel_def)
  with ok have "0 < c \<longrightarrow> int (slots_taken b) \<le> c" "k \<le> 4 * n" by (auto simp: batch_ok_def)
  moreover have "answered (bp_pcs b ! i)" if "batch_over b" "i < n" for i
    using answered_over [OF that(1)] that(2) ok by (simp add: batch_ok_def)
  ultimately show ?thesis
    using batch_moves [OF ok] FailedMessages_over [OF ok] ok by (auto simp: batch_ok_def)
qed

section \<open>Instances\<close>

definition demo_publish_config :: "int \<Rightarrow> publish_config" where
  "demo_publish_config retries =
     \<lparr>pc_DefaultExchange = [], pc_Mandatory = False, pc_Immediate = False, pc_Persistent = True,
      pc_ConfirmationEnabled = True, pc_Compressor = None, pc_CompressionThreshold = 0,
      pc_Encryptor = None, pc_maxConnectionRetries = retries, pc_AutoReconnect = True,
      pc_ReconnectPolicy = None, pc_ReconnectDelay = second, pc_validator = None\<rparr>"

definition demo_regular_publisher :: "(nat \<times> bool) list \<Rightarrow> regular_publisher" where
  "demo_regular_publisher buffer =
     \<lparr>rg_ch = 1, rg_next = 2, rg_confirmations = Some 1, rg_buffer = (\<lambda>_. buffer),
      rg_closed = (\<lambda>_. False), rg_tag = (\<lambda>_. 1), rg_events = []\<rparr>"

definition gone_script :: publish_script where
  "gone_script = \<lparr>ps_send = (\<lambda>_. Some (PlainError ''connection closed'')), ps_ctxDone = (\<lambda>_. False),
     ps_ctxWait = (\<lambda>_. False), ps_channel = (\<lambda>_. Some ''no connection''), ps_confirm = (\<lambda>_. None)\<rparr>"

lemma demo_prepare: "prepare_message (demo_publish_config n) m = Inr (ToAMQPPublishing
    (if m_Persistent m then m else (Clone m)\<lparr>m_Persistent := True\<rparr>))"
  by (simp add: prepare_message_def demo_publish_config_def publisher_codec_def Let_def)

theorem publish_returns_within_limit_witness:
  "\<exists>r p'. publish_loop (demo_publish_config 3) gone_script [] ''orders'' (ToAMQPPublishing (demo_message [1])) 0 None (demo_regular_publisher []) =
     Some (r, p') \<and> attempts p' \<le> 4"
proof -
  have "attempt_limit (demo_publish_config 3) gone_script 4"
    by (simp add: attempt_limit_def demo_publish_config_def)
  moreover have "all_waits (\<lambda>d. 100 * millisecond \<le> d) (demo_regular_publisher [])"
    by (simp add: all_waits_def demo_regular_publisher_def)
  moreover have "attempts (demo_regular_publisher []) = 0"
    by (simp add: attempts_def demo_regular_publisher_def)
  ultimately show ?thesis using publish_returns_within_limit [of "demo_publish_config 3" gone_script 4] by fastforce
qed

lemma demo_broker_gone: "broker_gone (demo_publish_config 0) gone_script"
proof -
  have "isChannelError (Some (PlainError ''connection closed''))"
    by (simp add: isChannelError_def contains_any_def)
  then show ?thesis by (simp add: broker_gone_def demo_publish_config_def gone_script_def)
qed

lemma unlimited_publish_never_returns_witness:
  "Publish (demo_publish_config 0) gone_script id TakeTimeout [] ''orders'' (demo_message [1]) (demo_regular_publisher []) = None"
  by (rule unlimited_publish_never_returns [OF demo_broker_gone _ demo_prepare])
    (simp add: demo_publish_config_def)

definition demo_request :: publishRequest where
  "demo_request = \<lparr>rq_Exchange = [], rq_RoutingKey = ''orders'', rq_Message = demo_message [1]\<rparr>"

text \<open>The late ack of a publish that timed out makes a nacked message look published.\<close>

lemma confirmations_not_correlated_witness:
  "\<exists>p'. publish_each (demo_publish_config 3) [(demo_request, False), (demo_request, True)]
      (demo_regular_publisher [(1, True)]) =
    Some ([None, Some ''confirmation failed: message not acknowledged by broker''], p')"
proof -
  have "confirming (demo_publish_config 3) (demo_regular_publisher [(1, True)])"
    by (simp add: confirming_def demo_publish_config_def demo_regular_publisher_def)
  from confirmations_not_correlated [OF this, of "[(demo_request, False), (demo_request, True)]"]
  show ?thesis by (auto simp: demo_prepare report_def demo_regular_publisher_def eval_nat_numeral)
qed

lemma batch_parallel_accounts_witness:
  "\<exists>b. par_reaches (PublishBatchParallel 2 1) 1 b \<and> int (slots_taken b) \<le> 1 \<and> (\<exists>b'. par_step b b')"
proof -
  let ?b = "(PublishBatchParallel 2 1)\<lparr>bp_pcs := (bp_pcs (PublishBatchParallel 2 1))[0 := ParCheck]\<rparr>"
  have "par_step (PublishBatchParallel 2 1) ?b"
    by (rule par_acquire) (simp_all add: PublishBatchParallel_def slots_taken_def eval_nat_numeral)
  then have r: "par_reaches (PublishBatchParallel 2 1) (Suc 0) ?b" by (rule par_more [OF par_refl])
  have "\<not> batch_over ?b" by (simp add: batch_over_def PublishBatchParallel_def eval_nat_numeral)
  with batch_parallel_accounts [OF r] r show ?thesis by auto
qed

end
