(* ===== verification/Pool.thy ===== *)
theory Pool
  imports Retry_Policy
begin

text \<open>
  The connection pool (src/pool/pool.go): creation, the round robin of \<open>Get\<close>, the goroutine that
  checks and repairs the connections, and \<open>Close\<close>. Clients are numbered in the order of their
  creation; what \<open>Ping\<close> and \<open>NewClient\<close> answer comes with the step that calls them.
\<close>

section \<open>State\<close>

datatype ping_answer = PingOk | PingFails go_error | PingPanics

text \<open>\<open>Client.Ping\<close>: whether the client is closed and its connection open, and the errors of the broker.\<close>

definition Ping :: "bool \<Rightarrow> bool \<Rightarrow> string option \<Rightarrow> string option \<Rightarrow> ping_answer" where
  "Ping closed connected noChannel noAnswer =
     (if closed then PingFails (PlainError ''client is closed'')
      else if \<not> connected then PingFails (PlainError ''connection is not available'')
      else
        (case noChannel of
           Some e \<Rightarrow> PingFails (PlainError (''failed to open channel: '' @ e))
         | None \<Rightarrow>
             (case noAnswer of
                Some e \<Rightarrow> PingFails (PlainError (''broker health check failed: '' @ e))
              | None \<Rightarrow> PingOk)))"

datatype ticker = NoTicker | TickerRuns | TickerStopped

text \<open>The goroutine of the health monitoring; \<open>MonPing\<close> holds the copied connections.\<close>

datatype pool_monitor =
    MonNotStarted
  | MonNever
  | MonSelect
  | MonCopy
  | MonPing "nat option list"
  | MonSwap "nat list" nat nat "nat list"
  | MonRepair "nat list"
  | MonExited

record pool_config =
  pl_healthCheckInterval :: duration
  pl_autoRepair :: bool

record pool =
  po_connections :: "nat option list"
  po_healthyClients :: "nat list"
  po_size :: nat
  po_current :: "64 word"
  po_closed :: bool
  po_config :: pool_config
  po_ticker :: ticker
  po_tick :: bool
  po_monitor :: pool_monitor
  po_HealthyConnections :: nat
  po_UnhealthyConnections :: nat
  po_TotalRepairAttempts :: int
  po_LastHealthCheck :: instant
  po_nextClient :: nat
  po_closedClients :: "nat list"

definition close_client :: "nat \<Rightarrow> pool \<Rightarrow> pool" where
  "close_client k p = p\<lparr>po_closedClients := k # po_closedClients p\<rparr>"

text \<open>\<open>None\<close> is the nil client.\<close>

definition live_clients :: "nat option list \<Rightarrow> nat list" where
  "live_clients cs = map the (filter (\<lambda>c. c \<noteq> None) cs)"

section \<open>Creation and closing\<close>

definition empty_pool :: "nat \<Rightarrow> pool_config \<Rightarrow> nat \<Rightarrow> pool" where
  "empty_pool n c nextClient =
     \<lparr>po_connections = replicate n None, po_healthyClients = [], po_size = n, po_current = 0,
      po_closed = False, po_config = c, po_ticker = NoTicker, po_tick = False,
      po_monitor = (if pl_healthCheckInterval c > 0 then MonNotStarted else MonNever),
      po_HealthyConnections = 0, po_UnhealthyConnections = 0, po_TotalRepairAttempts = 0,
      po_LastHealthCheck = 0, po_nextClient = nextClient, po_closedClients = []\<rparr>"

text \<open>
  \<open>Close\<close>, all of it under the lock. The send on the unbuffered \<open>stopHealthCheck\<close> happens only
  when the monitor is in its \<open>select\<close>, which then returns; otherwise the \<open>default\<close> is taken.
\<close>

definition Pool_Close :: "pool \<Rightarrow> pool" where
  "Pool_Close p =
     (if po_closed p then p
      else
        fold close_client (live_clients (po_connections p))
          (p\<lparr>po_closed := True,
             po_ticker := (if po_ticker p = TickerRuns then TickerStopped else po_ticker p),
             po_monitor := (if po_monitor p = MonSelect then MonExited else po_monitor p)\<rparr>))"

text \<open>The connections from index \<open>i\<close> on; \<open>dial i\<close> is the error of \<open>NewClient\<close>, which ends it.\<close>

fun create_connections :: "(nat \<Rightarrow> string option) \<Rightarrow> nat \<Rightarrow> nat \<Rightarrow> pool \<Rightarrow> string option \<times> pool" where
  "create_connections dial i 0 p = (None, p)"
| "create_connections dial i (Suc n) p =
     (case dial i of
        Some e \<Rightarrow> (Some (''failed to create connection '' @ show_int (int i) @ '': '' @ e), p)
      | None \<Rightarrow>
          create_connections dial (Suc i) n
            (p\<lparr>po_connections := (po_connections p)[i := Some (po_nextClient p)],
               po_nextClient := Suc (po_nextClient p)\<rparr>))"

text \<open>\<open>updateHealthyClients\<close>: a panic of \<open>Ping\<close> is not recovered here and is left out.\<close>

definition updateHealthyClients :: "(nat \<Rightarrow> ping_answer) \<Rightarrow> pool \<Rightarrow> pool" where
  "updateHealthyClients ping p =
     (if po_closed p then p\<lparr>po_healthyClients := []\<rparr>
      else p\<lparr>po_healthyClients := filter (\<lambda>k. ping k = PingOk) (live_clients (po_connections p))\<rparr>)"

text \<open>The second component is what is left behind when the creation fails.\<close>

definition New ::
  "int \<Rightarrow> pool_config \<Rightarrow> nat \<Rightarrow> (nat \<Rightarrow> string option) \<Rightarrow> (nat \<Rightarrow> ping_answer) \<Rightarrow>
   string option \<times> pool" where
  "New n c nextClient dial ping =
     (if n \<le> 0 then (Some (''connection pool size must be positive, got '' @ show_int n), empty_pool 0 c nextClient)
      else
        (case create_connections dial 0 (nat n) (empty_pool (nat n) c nextClient) of
           (Some e, p) \<Rightarrow> (Some e, Pool_Close p)
         | (None, p) \<Rightarrow> (None, updateHealthyClients ping p)))"

section \<open>Health checks and repair\<close>

text \<open>The loop over the connections: healthy clients, the two counters, and the indices to repair.\<close>

fun check_connections ::
  "bool \<Rightarrow> (nat \<Rightarrow> ping_answer) \<Rightarrow> nat \<Rightarrow> nat option list \<Rightarrow> nat list \<times> nat \<times> nat \<times> nat list" where
  "check_connections autoRepair ping i [] = ([], 0, 0, [])"
| "check_connections autoRepair ping i (c # cs) =
     (let (healthy, good, bad, repair) = check_connections autoRepair ping (Suc i) cs in
      case c of
        None \<Rightarrow> (healthy, good, Suc bad, i # repair)
      | Some k \<Rightarrow>
          (case ping k of
             PingOk \<Rightarrow> (k # healthy, Suc good, bad, repair)
           | PingFails e \<Rightarrow>
               (healthy, good, Suc bad, if autoRepair \<and> IsConnectionError (Some e) then i # repair else repair)
           | PingPanics \<Rightarrow> (healthy, good, Suc bad, if autoRepair then i # repair else repair)))"

text \<open>One index of \<open>repairConnections\<close>: the old client is closed, a new one is made.\<close>

definition repair_one :: "(nat \<Rightarrow> string option) \<Rightarrow> nat \<Rightarrow> pool \<Rightarrow> pool" where
  "repair_one dial i p =
     (if i \<ge> length (po_connections p) then p
      else
        (let p1 = (case po_connections p ! i of Some k \<Rightarrow> close_client k p | None \<Rightarrow> p) in
         case dial i of
           Some e \<Rightarrow> p1\<lparr>po_connections := (po_connections p1)[i := None]\<rparr>
         | None \<Rightarrow>
             p1\<lparr>po_connections := (po_connections p1)[i := Some (po_nextClient p1)],
                po_nextClient := Suc (po_nextClient p1),
                po_TotalRepairAttempts := po_TotalRepairAttempts p1 + 1\<rparr>))"

definition repairConnections :: "(nat \<Rightarrow> string option) \<Rightarrow> nat list \<Rightarrow> pool \<Rightarrow> pool" where
  "repairConnections dial indices p =
     (if po_closed p then p
      else
        (let p1 = fold (repair_one dial) indices p
         in p1\<lparr>po_healthyClients := live_clients (po_connections p1)\<rparr>))"

text \<open>
  The steps of the monitor. \<open>performHealthCheck\<close> copies the connections under the read lock, pings
  them without a lock, and takes the write lock to store the result and again to repair.
\<close>

definition startHealthMonitoring :: "pool \<Rightarrow> pool" where
  "startHealthMonitoring p =
     (if po_closed p then p\<lparr>po_monitor := MonNever\<rparr>
      else p\<lparr>po_ticker := TickerRuns, po_monitor := MonSelect\<rparr>)"

definition pool_monitor_step ::
  "(nat \<Rightarrow> ping_answer) \<Rightarrow> (nat \<Rightarrow> string option) \<Rightarrow> instant \<Rightarrow> pool \<Rightarrow> pool option" where
  "pool_monitor_step ping dial now p =
     (case po_monitor p of
        MonNotStarted \<Rightarrow> Some (startHealthMonitoring p)
      | MonNever \<Rightarrow> None
      | MonSelect \<Rightarrow>
          if po_tick p
          then Some (p\<lparr>po_tick := False, po_monitor := (if po_closed p then MonExited else MonCopy)\<rparr>)
          else None
      | MonCopy \<Rightarrow>
          Some (if po_closed p then p\<lparr>po_monitor := MonSelect\<rparr>
                else p\<lparr>po_LastHealthCheck := now, po_monitor := MonPing (po_connections p)\<rparr>)
      | MonPing cs \<Rightarrow>
          (let (healthy, good, bad, repair) = check_connections (pl_autoRepair (po_config p)) ping 0 cs
           in Some (p\<lparr>po_monitor := MonSwap healthy good bad repair\<rparr>))
      | MonSwap healthy good bad repair \<Rightarrow>
          Some (if po_closed p then p\<lparr>po_monitor := MonSelect\<rparr>
                else p\<lparr>po_healthyClients := healthy, po_HealthyConnections := good,
                       po_UnhealthyConnections := bad,
                       po_monitor := (if pl_autoRepair (po_config p) \<and> repair \<noteq> [] then MonRepair repair
                                      else MonSelect)\<rparr>)
      | MonRepair indices \<Rightarrow> Some ((repairConnections dial indices p)\<lparr>po_monitor := MonSelect\<rparr>)
      | MonExited \<Rightarrow> None)"

definition tick :: "pool \<Rightarrow> pool option" where
  "tick p = (if po_ticker p = TickerRuns then Some (p\<lparr>po_tick := True\<rparr>) else None)"

section \<open>Use\<close>

text \<open>The counter is a \<open>uint64\<close> and wraps around.\<close>

definition Get :: "pool \<Rightarrow> (string + nat) \<times> pool" where
  "Get p =
     (if po_closed p then (Inl ''connection pool is closed'', p)
      else if po_healthyClients p = [] then (Inl ''no healthy connections available'', p)
      else
        (let p1 = p\<lparr>po_current := po_current p + 1\<rparr>;
             i = unat (po_current p1 mod of_nat (length (po_healthyClients p1)))
         in (Inr (po_healthyClients p1 ! i), p1)))"

definition GetClientByIndex :: "int \<Rightarrow> pool \<Rightarrow> nat option" where
  "GetClientByIndex i p =
     (if po_closed p \<or> i < 0 \<or> i \<ge> int (po_size p) then None else po_connections p ! nat i)"

text \<open>The number of connections that fail, and their errors: a text for the nil client, or that of \<open>Ping\<close>.\<close>

definition connection_error :: "(nat \<Rightarrow> ping_answer) \<Rightarrow> nat \<times> nat option \<Rightarrow> string list" where
  "connection_error ping x =
     (case snd x of
        None \<Rightarrow> [''connection '' @ show_int (int (fst x)) @ '' is nil'']
      | Some k \<Rightarrow>
          (case ping k of
             PingFails e \<Rightarrow>
               [''connection '' @ show_int (int (fst x)) @ '' health check failed: '' @ Error_text e]
           | _ \<Rightarrow> []))"

definition HealthCheck :: "(nat \<Rightarrow> ping_answer) \<Rightarrow> pool \<Rightarrow> string list" where
  "HealthCheck ping p =
     (if po_closed p then [''connection pool is closed'']
      else concat (map (connection_error ping) (List.enumerate 0 (po_connections p))))"

record pool_stats =
  pt_Size :: nat
  pt_HealthyConnections :: nat
  pt_UnhealthyConnections :: nat
  pt_TotalRepairAttempts :: int
  pt_LastHealthCheck :: instant
  pt_Closed :: bool
  pt_Errors :: "string list"
  pt_HealthMonitoringEnabled :: bool
  pt_AutoRepairEnabled :: bool

definition stats_error :: "(nat \<Rightarrow> ping_answer) \<Rightarrow> nat \<times> nat option \<Rightarrow> string list" where
  "stats_error ping x =
     (case snd x of
        None \<Rightarrow> [''connection '' @ show_int (int (fst x)) @ '': nil'']
      | Some k \<Rightarrow>
          (case ping k of
             PingFails e \<Rightarrow> [''connection '' @ show_int (int (fst x)) @ '': '' @ Error_text e]
           | _ \<Rightarrow> []))"

definition GetStats :: "(nat \<Rightarrow> ping_answer) \<Rightarrow> pool \<Rightarrow> pool_stats" where
  "GetStats ping p =
     \<lparr>pt_Size = po_size p, pt_HealthyConnections = po_HealthyConnections p,
      pt_UnhealthyConnections = po_UnhealthyConnections p,
      pt_TotalRepairAttempts = po_TotalRepairAttempts p, pt_LastHealthCheck = po_LastHealthCheck p,
      pt_Closed = po_closed p,
      pt_Errors = (if po_closed p then []
                   else concat (map (stats_error ping) (List.enumerate 0 (po_connections p)))),
      pt_HealthMonitoringEnabled = (po_ticker p \<noteq> NoTicker),
      pt_AutoRepairEnabled = pl_autoRepair (po_config p)\<rparr>"

definition HealthyCount :: "pool \<Rightarrow> nat" where
  "HealthyCount p = length (po_healthyClients p)"

section \<open>Steps\<close>

inductive pool_step :: "pool \<Rightarrow> pool \<Rightarrow> bool" where
  pool_monitor: "pool_monitor_step ping dial now p = Some p' \<Longrightarrow> pool_step p p'"
| pool_tick: "tick p = Some p' \<Longrightarrow> pool_step p p'"
| pool_get: "Get p = (r, p') \<Longrightarrow> pool_step p p'"
| pool_close: "pool_step p (Pool_Close p)"

inductive pool_steps :: "pool \<Rightarrow> pool \<Rightarrow> bool" where
  pool_refl: "pool_steps p p"
| pool_more: "pool_steps p p' \<Longrightarrow> pool_step p' p'' \<Longrightarrow> pool_steps p p''"

section \<open>Connections and closed clients\<close>

lemma set_live_clients: "set (live_clients cs) = {k. Some k \<in> set cs}"
  by (force simp: live_clients_def)

lemma live_clients_Cons [simp]:
  "live_clients (c # cs) = (case c of None \<Rightarrow> live_clients cs | Some k \<Rightarrow> k # live_clients cs)"
  by (simp add: live_clients_def split: option.splits)

lemma live_clients_Nil [simp]: "live_clients [] = []"
  by (simp add: live_clients_def)

lemma live_clients_update:
  "i < length cs \<Longrightarrow> distinct (live_clients cs) \<Longrightarrow> (\<And>k. c = Some k \<Longrightarrow> k \<notin> set (live_clients cs)) \<Longrightarrow>
   distinct (live_clients (cs[i := c])) \<and>
   set (live_clients (cs[i := c])) = (set (live_clients cs) - set_option (cs ! i)) \<union> set_option c"
proof (induction cs arbitrary: i)
  case (Cons x cs)
  show ?case
  proof (cases i)
    case 0
    with Cons.prems show ?thesis by (cases x; cases c) auto
  next
    case (Suc j)
    with Cons.prems have "j < length cs" "distinct (live_clients cs)"
      "\<And>k. c = Some k \<Longrightarrow> k \<notin> set (live_clients cs)"
      by (auto split: option.splits)
    note ih = Cons.IH [OF this]
    show ?thesis
    proof (cases x)
      case None
      with ih Suc show ?thesis by simp
    next
      case (Some k)
      have "Some k \<noteq> cs ! j"
      proof
        assume "Some k = cs ! j"
        with \<open>j < length cs\<close> have "Some k \<in> set cs" by simp
        with Cons.prems(2) Some show False by (simp add: set_live_clients)
      qed
      with ih Suc Some Cons.prems(2,3) show ?thesis by (cases c; cases "cs ! j") auto
    qed
  qed
qed simp

lemma closed_fold_close:
  "po_closedClients (fold close_client ks p) = rev ks @ po_closedClients p"
  "po_connections (fold close_client ks p) = po_connections p"
  "po_closed (fold close_client ks p) = po_closed p"
  "po_nextClient (fold close_client ks p) = po_nextClient p"
  "po_size (fold close_client ks p) = po_size p"
  "po_monitor (fold close_client ks p) = po_monitor p"
  "po_ticker (fold close_client ks p) = po_ticker p"
  "po_tick (fold close_client ks p) = po_tick p"
  by (induction ks arbitrary: p) (simp_all add: close_client_def)

lemma Pool_Close_simps [simp]:
  "po_connections (Pool_Close p) = po_connections p" "po_closed (Pool_Close p)"
  "po_nextClient (Pool_Close p) = po_nextClient p" "po_size (Pool_Close p) = po_size p"
  by (simp_all add: Pool_Close_def closed_fold_close)

section \<open>Invariant\<close>

text \<open>No client is in the pool twice, and none that was closed; client numbers are never used again.\<close>

definition clients_ok :: "pool \<Rightarrow> bool" where
  "clients_ok p \<longleftrightarrow>
     distinct (live_clients (po_connections p)) \<and> length (po_connections p) = po_size p \<and>
     (\<forall>k \<in> set (live_clients (po_connections p)) \<union> set (po_closedClients p). k < po_nextClient p) \<and>
     (\<not> po_closed p \<longrightarrow> set (live_clients (po_connections p)) \<inter> set (po_closedClients p) = {})"

text \<open>What the monitor carries from the copy of the connections to the swap is still true of them.\<close>

definition monitor_ok :: "pool \<Rightarrow> bool" where
  "monitor_ok p \<longleftrightarrow>
     (case po_monitor p of
        MonPing cs \<Rightarrow> cs = po_connections p
      | MonSwap healthy good bad repair \<Rightarrow>
          set healthy \<subseteq> set (live_clients (po_connections p)) \<and> good + bad = po_size p \<and>
          length healthy = good
      | _ \<Rightarrow> True)"

definition pool_ok :: "pool \<Rightarrow> bool" where
  "pool_ok p \<longleftrightarrow>
     clients_ok p \<and> monitor_ok p \<and>
     (\<not> po_closed p \<longrightarrow> set (po_healthyClients p) \<subseteq> set (live_clients (po_connections p)))"

definition needs_repair :: "bool \<Rightarrow> (nat \<Rightarrow> ping_answer) \<Rightarrow> nat option \<Rightarrow> bool" where
  "needs_repair autoRepair ping c =
     (case c of
        None \<Rightarrow> True
      | Some k \<Rightarrow>
          autoRepair \<and>
          (case ping k of PingOk \<Rightarrow> False | PingFails e \<Rightarrow> IsConnectionError (Some e) | PingPanics \<Rightarrow> True))"

lemma needs_repair_None: "needs_repair ar ping None"
  by (simp add: needs_repair_def)

lemma needs_repair_Some: "needs_repair ar ping (Some k) =
    (ar \<and> (case ping k of PingOk \<Rightarrow> False | PingFails e \<Rightarrow> IsConnectionError (Some e) | PingPanics \<Rightarrow> True))"
  by (simp add: needs_repair_def)

lemma indices_Cons:
  "{i + j |j. j < Suc n \<and> P ((c # cs) ! j)} = (if P c then {i} else {}) \<union> {Suc i + j |j. j < n \<and> P (cs ! j)}"
proof -
  have "{i + j |j. j < Suc n \<and> P ((c # cs) ! j)} =
      {i + j |j. j = 0 \<and> P c} \<union> {i + Suc j |j. j < n \<and> P (cs ! j)}"
    by (auto simp: less_Suc_eq_0_disj)
  then show ?thesis by auto
qed

lemma check_connections_result:
  "check_connections ar ping i cs = (healthy, good, bad, repair) \<Longrightarrow>
   healthy = filter (\<lambda>k. ping k = PingOk) (live_clients cs) \<and> good + bad = length cs \<and> good = length healthy \<and>
   set repair = {i + j |j. j < length cs \<and> needs_repair ar ping (cs ! j)}"
proof (induction cs arbitrary: i healthy good bad repair)
  case (Cons c cs)
  obtain h g b r where r: "check_connections ar ping (Suc i) cs = (h, g, b, r)" by (metis prod_cases4)
  note ih = Cons.IH [OF r] and s = indices_Cons [of i "length cs" "needs_repair ar ping" c cs]
  show ?case
  proof (cases c)
    case None
    with r ih s Cons.prems show ?thesis by (auto simp: needs_repair_None simp del: nth_Cons_Suc)
  next
    case (Some k)
    with r ih s Cons.prems needs_repair_Some [of ar ping k] show ?thesis
      by (cases "ping k") (auto simp del: nth_Cons_Suc split: if_splits)
  qed
qed auto

lemma clients_ok_repair_one:
  assumes "clients_ok p" and "\<not> po_closed p"
  shows "clients_ok (repair_one dial i p) \<and> \<not> po_closed (repair_one dial i p)"
proof (cases "i < length (po_connections p)")
  case True
  let ?cs = "po_connections p"
  from assms have d: "distinct (live_clients ?cs)" and l: "length ?cs = po_size p"
    and b: "\<And>k. k \<in> set (live_clients ?cs) \<Longrightarrow> k < po_nextClient p" "\<And>k. k \<in> set (po_closedClients p) \<Longrightarrow> k < po_nextClient p"
    and x: "set (live_clients ?cs) \<inter> set (po_closedClients p) = {}"
    by (auto simp: clients_ok_def)
  have n: "po_nextClient p \<notin> set (live_clients ?cs)" "po_nextClient p \<notin> set (po_closedClients p)"
    using b by blast+
  have none: "distinct (live_clients (?cs[i := None])) \<and>
      set (live_clients (?cs[i := None])) = set (live_clients ?cs) - set_option (?cs ! i)"
    using live_clients_update [OF True d, of None] by simp
  have new: "distinct (live_clients (?cs[i := Some (po_nextClient p)])) \<and>
      set (live_clients (?cs[i := Some (po_nextClient p)])) =
      (set (live_clients ?cs) - set_option (?cs ! i)) \<union> {po_nextClient p}"
    using live_clients_update [OF True d, of "Some (po_nextClient p)"] n(1) by simp
  have old: "k \<in> set (live_clients ?cs)" if "?cs ! i = Some k" for k
    using nth_mem [OF True] that by (simp add: set_live_clients)
  show ?thesis
  proof (cases "?cs ! i")
    case None
    with True assms(2) none new l b x n show ?thesis
      by (cases "dial i") (auto simp: repair_one_def clients_ok_def less_Suc_eq)
  next
    case (Some k)
    with old have k: "k < po_nextClient p" using b(1) by blast
    with Some True assms(2) none new l b x n show ?thesis
      by (cases "dial i") (auto simp: repair_one_def clients_ok_def close_client_def less_Suc_eq)
  qed
qed (use assms in \<open>simp add: repair_one_def\<close>)

lemma clients_ok_repairs:
  assumes "clients_ok p" and "\<not> po_closed p"
  shows "clients_ok (fold (repair_one dial) is p) \<and> \<not> po_closed (fold (repair_one dial) is p)"
  using assms
proof (induction "is" arbitrary: p)
  case (Cons i "is")
  from clients_ok_repair_one [OF Cons.prems, of dial i] Cons.IH show ?case by simp
qed simp

lemma pool_ok_Close: "pool_ok p \<Longrightarrow> pool_ok (Pool_Close p)"
  by (auto simp: pool_ok_def clients_ok_def monitor_ok_def Pool_Close_def closed_fold_close split: pool_monitor.splits)

lemma live_repairs:
  "set (po_healthyClients (repairConnections dial is p)) \<subseteq> set (live_clients (po_connections (repairConnections dial is p)))"
  if "\<not> po_closed p"
  using that by (simp add: repairConnections_def Let_def)

lemma pool_ok_repair:
  assumes "pool_ok p"
  shows "pool_ok ((repairConnections dial is p)\<lparr>po_monitor := MonSelect\<rparr>)"
proof (cases "po_closed p")
  case False
  with assms clients_ok_repairs [of p dial "is"]
  have "clients_ok (fold (repair_one dial) is p)" by (simp add: pool_ok_def)
  then show ?thesis using False
    by (simp add: pool_ok_def monitor_ok_def clients_ok_def repairConnections_def Let_def)
qed (use assms in \<open>simp add: pool_ok_def monitor_ok_def clients_ok_def repairConnections_def\<close>)

lemma pool_ok_monitor:
  assumes "pool_ok p" and "pool_monitor_step ping dial now p = Some p'"
  shows "pool_ok p'"
proof (cases "po_monitor p")
  case (MonPing cs)
  obtain healthy good bad repair
    where c: "check_connections (pl_autoRepair (po_config p)) ping 0 cs = (healthy, good, bad, repair)"
    by (metis prod_cases4)
  from MonPing assms(1) have "cs = po_connections p" by (simp add: pool_ok_def monitor_ok_def)
  with check_connections_result [OF c] MonPing c assms show ?thesis
    by (auto simp: pool_monitor_step_def pool_ok_def clients_ok_def monitor_ok_def)
next
  case (MonRepair "is")
  with assms pool_ok_repair [OF assms(1), of dial "is"] show ?thesis by (simp add: pool_monitor_step_def)
next
  case (MonSwap healthy good bad repair)
  with assms show ?thesis
    by (auto simp: pool_monitor_step_def pool_ok_def clients_ok_def monitor_ok_def split: if_splits)
qed (use assms in \<open>auto simp: pool_monitor_step_def startHealthMonitoring_def pool_ok_def clients_ok_def monitor_ok_def split: if_splits\<close>)

lemma pool_ok_cong:
  assumes "pool_ok p" and "po_monitor p' = po_monitor p" and "po_connections p' = po_connections p"
    and "po_size p' = po_size p" and "po_nextClient p' = po_nextClient p"
    and "po_closedClients p' = po_closedClients p" and "po_closed p' = po_closed p"
    and "set (po_healthyClients p') \<subseteq> set (live_clients (po_connections p)) \<or> po_closed p"
  shows "pool_ok p'"
proof -
  have "clients_ok p'" using assms(1,3-7) by (simp add: pool_ok_def clients_ok_def)
  moreover have "monitor_ok p'"
    using assms(1-4) by (cases "po_monitor p") (simp_all add: monitor_ok_def pool_ok_def)
  ultimately show ?thesis using assms(3,7,8) by (auto simp: pool_ok_def)
qed

lemma pool_ok_step: "pool_step p p' \<Longrightarrow> pool_ok p \<Longrightarrow> pool_ok p'"
proof (induction rule: pool_step.induct)
  case (pool_monitor ping dial now p p')
  then show ?case using pool_ok_monitor by blast
next
  case (pool_tick p p')
  then have "p' = p\<lparr>po_tick := True\<rparr>" by (simp add: tick_def split: if_splits)
  with pool_tick(2) show ?case by (intro pool_ok_cong [OF pool_tick(2)]) (auto simp: pool_ok_def)
next
  case (pool_get p r p')
  then have "p' = p \<or> p' = p\<lparr>po_current := po_current p + 1\<rparr>"
    by (auto simp: Get_def Let_def split: if_splits)
  with pool_get(2) show ?case by (intro pool_ok_cong [OF pool_get(2)]) (auto simp: pool_ok_def)
qed (rule pool_ok_Close)

lemma pool_ok_steps: "pool_steps p p' \<Longrightarrow> pool_ok p \<Longrightarrow> pool_ok p'"
  by (induction rule: pool_steps.induct) (auto intro: pool_ok_step)

subsection \<open>Creation\<close>

lemma live_replicate_None: "live_clients (replicate n None) = []"
  by (induction n) simp_all

definition created :: "nat \<Rightarrow> nat \<Rightarrow> nat \<Rightarrow> pool \<Rightarrow> bool" where
  "created n i first p \<longleftrightarrow>
     po_connections p = map Some [first..<first + i] @ replicate (n - i) None \<and>
     po_nextClient p = first + i \<and> po_size p = n \<and> \<not> po_closed p \<and> po_closedClients p = [] \<and>
     po_healthyClients p = [] \<and> po_monitor p \<in> {MonNotStarted, MonNever}"

lemma created_next:
  assumes "created n i first p" and "i < n"
  shows "created n (Suc i) first (p\<lparr>po_connections := (po_connections p)[i := Some (po_nextClient p)],
    po_nextClient := Suc (po_nextClient p)\<rparr>)"
proof -
  obtain m where m: "n - i = Suc m" "n - Suc i = m" using assms(2) by (metis Suc_diff_Suc)
  have "(map Some [first..<first + i] @ replicate (n - i) None)[i := Some (first + i)] =
      map Some [first..<first + Suc i] @ replicate (n - Suc i) None"
    by (simp add: m list_update_append)
  with assms(1) show ?thesis by (simp add: created_def)
qed

lemma create_connections_result:
  "created n i first p \<Longrightarrow> i + r = n \<Longrightarrow> create_connections dial i r p = (e, q) \<Longrightarrow>
   (\<exists>j. created n j first q \<and> j \<le> n \<and> (e = None \<longleftrightarrow> j = n) \<and> (e \<noteq> None \<longrightarrow> dial j \<noteq> None) \<and>
     (\<forall>l. i \<le> l \<longrightarrow> l < j \<longrightarrow> dial l = None))"
proof (induction r arbitrary: i p)
  case (Suc r)
  show ?case
  proof (cases "dial i")
    case None
    have c: "created n (Suc i) first (p\<lparr>po_connections := (po_connections p)[i := Some (po_nextClient p)],
        po_nextClient := Suc (po_nextClient p)\<rparr>)"
      using created_next [OF Suc.prems(1)] Suc.prems(2) by simp
    from Suc.IH [OF c] Suc.prems None obtain j where
      "created n j first q" "j \<le> n" "e = None \<longleftrightarrow> j = n" "e \<noteq> None \<longrightarrow> dial j \<noteq> None"
      "\<forall>l. Suc i \<le> l \<longrightarrow> l < j \<longrightarrow> dial l = None" by auto
    with None show ?thesis by (metis le_neq_implies_less Suc_leI)
  next
    case (Some err)
    with Suc.prems show ?thesis by (intro exI [of _ i]) auto
  qed
qed auto

lemma live_created: "created n i first p \<Longrightarrow> live_clients (po_connections p) = [first..<first + i]"
proof -
  have "live_clients (map Some ks @ cs) = ks @ live_clients cs" for ks cs
    by (induction ks) simp_all
  then show "created n i first p \<Longrightarrow> ?thesis" by (simp add: created_def live_replicate_None)
qed

lemma created_empty: "created n 0 first (empty_pool n c first)"
  by (simp add: created_def empty_pool_def)

lemma pool_ok_New:
  assumes "New n c first dial ping = (None, p)"
  shows "pool_ok p \<and> \<not> po_closed p"
proof -
  from assms have n: "0 < n" by (simp add: New_def split: if_splits)
  obtain e q where q: "create_connections dial 0 (nat n) (empty_pool (nat n) c first) = (e, q)" by fastforce
  with assms n have "e = None" and p: "p = updateHealthyClients ping q"
    by (auto simp: New_def split: option.splits)
  with create_connections_result [OF created_empty _ q] have cr: "created (nat n) (nat n) first q" by auto
  have "clients_ok q" "monitor_ok q" "\<not> po_closed q" "po_healthyClients q = []"
    using cr live_created [OF cr] by (auto simp: clients_ok_def monitor_ok_def created_def)
  then have "pool_ok q" by (simp add: pool_ok_def)
  then show ?thesis
    using \<open>\<not> po_closed q\<close> unfolding p updateHealthyClients_def by (auto intro: pool_ok_cong)
qed

section \<open>Properties\<close>

text \<open>Creating a pool makes all its connections or leaves none open: when a connection fails, the
  ones before it were made and are closed, and the pool is closed; otherwise every connection is
  there and none is closed.\<close>

lemma new_pool_all_or_nothing:
  assumes "0 < n" and "New n c first dial ping = (e, p)"
  shows "case e of
      None \<Rightarrow> (\<forall>i < nat n. dial i = None) \<and> po_connections p = map Some [first..<first + nat n] \<and>
        po_closedClients p = [] \<and> \<not> po_closed p
    | Some _ \<Rightarrow> (\<exists>j < nat n. dial j \<noteq> None \<and> (\<forall>i < j. dial i = None) \<and>
        set (po_closedClients p) = {first..<first + j} \<and> po_nextClient p = first + j) \<and> po_closed p"
proof -
  obtain e' q where q: "create_connections dial 0 (nat n) (empty_pool (nat n) c first) = (e', q)" by fastforce
  from create_connections_result [OF created_empty _ q] obtain j where
    j: "created (nat n) j first q" "j \<le> nat n" "e' = None \<longleftrightarrow> j = nat n" "e' \<noteq> None \<longrightarrow> dial j \<noteq> None"
      "\<forall>l < j. dial l = None" by auto
  show ?thesis
  proof (cases e')
    case None
    with assms q have "e = None" "p = updateHealthyClients ping q" by (auto simp: New_def)
    with j None show ?thesis by (simp add: created_def updateHealthyClients_def)
  next
    case (Some x)
    with assms q have p: "e = Some x" "p = Pool_Close q" by (auto simp: New_def)
    from Some j have "j < nat n" by auto
    moreover have "set (po_closedClients p) = {first..<first + j}" "po_nextClient p = first + j"
      using j(1) live_created [OF j(1)] by (auto simp: p Pool_Close_def closed_fold_close created_def)
    ultimately show ?thesis using j Some by (auto simp: p)
  qed
qed

lemma unat_mod_length:
  assumes "length xs < 2 ^ 64"
  shows "unat ((x :: 64 word) mod of_nat (length xs)) = unat x mod length xs"
  using assms by (simp add: unat_mod_distrib unat_of_nat take_bit_nat_eq_self)

lemma length_live_clients: "length (live_clients cs) \<le> length cs"
  by (simp add: live_clients_def)

text \<open>\<open>Get\<close> on an open pool: the next index modulo the number of healthy clients.\<close>

lemma Get_healthy:
  assumes "\<not> po_closed p" and "po_healthyClients p \<noteq> []" and "length (po_healthyClients p) < 2 ^ 64"
  shows "Get p = (Inr (po_healthyClients p ! (unat (po_current p + 1) mod length (po_healthyClients p))),
    p\<lparr>po_current := po_current p + 1\<rparr>)"
  using assms by (simp add: Get_def Let_def unat_mod_length)

lemma Get_Inr:
  assumes "Get p = (Inr k, p')" and "length (po_healthyClients p) < 2 ^ 64"
  shows "\<not> po_closed p \<and> k \<in> set (po_healthyClients p)"
proof -
  from assms(1) have o: "\<not> po_closed p" "po_healthyClients p \<noteq> []"
    by (auto simp: Get_def split: if_splits)
  with assms Get_healthy [OF o assms(2)]
  have "k = po_healthyClients p ! (unat (po_current p + 1) mod length (po_healthyClients p))" by simp
  with o show ?thesis by simp
qed

text \<open>C36: however use, health checks, repairs and Close interleave, Get only ever returns a client that is in
  the pool at that moment and that the pool has not closed.\<close>

theorem pool_hands_out_open_clients:
  assumes "New n c first dial ping = (None, p0)" and "pool_steps p0 p" and "Get p = (Inr k, p')"
    and "length (po_healthyClients p) < 2 ^ 64"
  shows "k \<in> set (live_clients (po_connections p)) \<and> k \<notin> set (po_closedClients p) \<and> \<not> po_closed p"
proof -
  have "pool_ok p" using pool_ok_steps [OF assms(2)] pool_ok_New [OF assms(1)] by blast
  with Get_Inr [OF assms(3,4)] show ?thesis by (auto simp: pool_ok_def clients_ok_def)
qed

fun gets :: "nat \<Rightarrow> pool \<Rightarrow> (string + nat) list \<times> pool" where
  "gets 0 p = ([], p)"
| "gets (Suc n) p = (let (r, p1) = Get p; (rs, p2) = gets n p1 in (r # rs, p2))"

lemma unat_add_one: "unat (x :: 64 word) + 1 < 2 ^ 64 \<Longrightarrow> unat (x + 1) = unat x + 1"
  using unat_add_lem [of x "1 :: 64 word"] by simp

lemma gets_round_robin:
  assumes "\<not> po_closed p" and "hs = po_healthyClients p" and "hs \<noteq> []" and "length hs < 2 ^ 64"
    and "unat (po_current p) + m < 2 ^ 64"
  shows "fst (gets m p) = map (\<lambda>j. Inr (hs ! ((unat (po_current p) + 1 + j) mod length hs))) [0..<m]"
  using assms
proof (induction m arbitrary: p)
  case (Suc m)
  let ?p = "p\<lparr>po_current := po_current p + 1\<rparr>"
  have u: "unat (po_current p + 1) = unat (po_current p) + 1"
    using Suc.prems(5) by (intro unat_add_one) simp
  have g: "Get p = (Inr (hs ! ((unat (po_current p) + 1) mod length hs)), ?p)"
    using Get_healthy [of p] Suc.prems u by simp
  have "fst (gets m ?p) = map (\<lambda>j. Inr (hs ! ((unat (po_current ?p) + 1 + j) mod length hs))) [0..<m]"
    using Suc.prems u by (intro Suc.IH) simp_all
  then have "fst (gets m ?p) = map (\<lambda>j. Inr (hs ! ((unat (po_current p) + 1 + j) mod length hs))) [1..<Suc m]"
    by (simp add: u map_add_upt [symmetric, of 1 m] map_Suc_upt [symmetric] comp_def del: upt_Suc)
  with g show ?case by (simp add: case_prod_beta upt_conv_Cons del: upt_Suc)
qed simp

text \<open>Get is a round robin: as many calls as there are healthy clients return every one of them
  exactly once, from wherever the counter stands, as long as the 64-bit counter does not wrap.\<close>

lemma get_is_round_robin:
  assumes "\<not> po_closed p" and "hs = po_healthyClients p" and "hs \<noteq> []" and "length hs < 2 ^ 64"
    and "unat (po_current p) + length hs < 2 ^ 64"
  shows "fst (gets (length hs) p) = map Inr (rotate (unat (po_current p) + 1) hs) \<and>
    mset (fst (gets (length hs) p)) = image_mset Inr (mset hs)"
proof -
  have "map (\<lambda>j. hs ! ((unat (po_current p) + 1 + j) mod length hs)) [0..<length hs] =
      rotate (unat (po_current p) + 1) hs"
    by (rule nth_equalityI) (simp_all add: nth_rotate del: rotate_Suc)
  with gets_round_robin [OF assms] have "fst (gets (length hs) p) = map Inr (rotate (unat (po_current p) + 1) hs)"
    by (metis (no_types, lifting) map_map comp_def map_eq_conv)
  moreover have "mset (rotate k xs) = mset xs" for k and xs :: "nat list"
    by (metis append_take_drop_id mset_append rotate_drop_take union_commute)
  ultimately show ?thesis by (simp only: mset_map)
qed

section \<open>What Close and repairs do to the monitor\<close>

definition in_check :: "pool \<Rightarrow> bool" where
  "in_check p \<longleftrightarrow> po_monitor p \<notin> {MonNotStarted, MonNever, MonSelect, MonExited}"

definition monitor_lost :: "pool \<Rightarrow> bool" where
  "monitor_lost p \<longleftrightarrow>
     po_closed p \<and> po_ticker p = TickerStopped \<and> \<not> po_tick p \<and> (in_check p \<or> po_monitor p = MonSelect)"

lemma monitor_lost_step: "pool_step p p' \<Longrightarrow> monitor_lost p \<Longrightarrow> monitor_lost p'"
proof (induction rule: pool_step.induct)
  case (pool_monitor ping dial now p p')
  then show ?case
    by (cases "po_monitor p") (auto simp: monitor_lost_def in_check_def pool_monitor_step_def repairConnections_def
        split: if_splits prod.splits)
next
  case (pool_tick p p')
  then show ?case by (simp add: monitor_lost_def tick_def)
next
  case (pool_get p r p')
  then show ?case by (auto simp: monitor_lost_def Get_def)
next
  case (pool_close p)
  then show ?case by (simp add: Pool_Close_def monitor_lost_def)
qed

text \<open>Close stops a waiting monitor at once; but when a health check is under way and no tick is
  buffered, the stop is not delivered and the monitor goroutine never ends.\<close>

lemma close_during_check_leaks_monitor:
  assumes "\<not> po_closed p" and "po_ticker p = TickerRuns"
  shows "(po_monitor p = MonSelect \<longrightarrow> po_monitor (Pool_Close p) = MonExited) \<and>
    (in_check p \<and> \<not> po_tick p \<longrightarrow> (\<forall>p'. pool_steps (Pool_Close p) p' \<longrightarrow> po_monitor p' \<noteq> MonExited))"
proof -
  have steps: "monitor_lost p'" if "pool_steps q p'" "monitor_lost q" for q p'
    using that by (induction rule: pool_steps.induct) (auto intro: monitor_lost_step)
  have lost: "monitor_lost (Pool_Close p)" if "in_check p" "\<not> po_tick p"
    using assms that by (auto simp: monitor_lost_def in_check_def Pool_Close_def closed_fold_close)
  have "po_monitor p' \<noteq> MonExited" if "in_check p" "\<not> po_tick p" "pool_steps (Pool_Close p) p'" for p'
    using steps [OF that(3) lost [OF that(1,2)]] by (auto simp: monitor_lost_def in_check_def)
  moreover have "po_monitor (Pool_Close p) = MonExited" if "po_monitor p = MonSelect"
    using assms that by (simp add: Pool_Close_def closed_fold_close)
  ultimately show ?thesis by blast
qed

text \<open>The four steps of a health check that repairs something.\<close>

fun pool_monitor_steps ::
  "nat \<Rightarrow> (nat \<Rightarrow> ping_answer) \<Rightarrow> (nat \<Rightarrow> string option) \<Rightarrow> instant \<Rightarrow> pool \<Rightarrow> pool option" where
  "pool_monitor_steps 0 ping dial now p = Some p"
| "pool_monitor_steps (Suc n) ping dial now p = Option.bind (pool_monitor_step ping dial now p) (pool_monitor_steps n ping dial now)"

lemma repair_one_other:
  "j \<noteq> i \<Longrightarrow> po_connections (repair_one dial i p) ! j = po_connections p ! j"
  "length (po_connections (repair_one dial i p)) = length (po_connections p)"
  by (auto simp: repair_one_def close_client_def Let_def split: option.splits)

lemma repairs_other:
  "j \<notin> set is \<Longrightarrow> po_connections (fold (repair_one dial) is p) ! j = po_connections p ! j \<and>
   length (po_connections (fold (repair_one dial) is p)) = length (po_connections p)"
  by (induction "is" arbitrary: p) (simp_all add: repair_one_other)

lemma repair_one_stats:
  "po_HealthyConnections (repair_one dial i p) = po_HealthyConnections p"
  by (simp add: repair_one_def close_client_def Let_def split: option.splits)

lemma repairs_stats:
  "po_HealthyConnections (fold (repair_one dial) is p) = po_HealthyConnections p"
  by (induction "is" arbitrary: p) (simp_all add: repair_one_stats)

text \<open>A repair puts every client of the pool back among the healthy ones, also one whose Ping has just
  failed with an error that is not taken for a connection error: it is counted as unhealthy, never
  repaired, and handed out by Get again.\<close>

lemma repair_declares_failed_client_healthy:
  assumes "pool_ok p" and "\<not> po_closed p" and "po_monitor p = MonCopy" and "pl_autoRepair (po_config p)"
    and "i < po_size p" and "needs_repair True ping (po_connections p ! i)"
    and "j < po_size p" and "po_connections p ! j = Some k" and "ping k = PingFails e"
    and "\<not> IsConnectionError (Some e)"
  shows "\<exists>p'. pool_monitor_steps 4 ping dial now p = Some p' \<and> k \<in> set (po_healthyClients p') \<and>
    po_HealthyConnections p' = length (filter (\<lambda>k. ping k = PingOk) (live_clients (po_connections p)))"
proof -
  let ?cs = "po_connections p"
  obtain h g b r where c: "check_connections True ping 0 ?cs = (h, g, b, r)" by (metis prod_cases4)
  have l: "length ?cs = po_size p" using assms(1) by (simp add: pool_ok_def clients_ok_def)
  note res = check_connections_result [OF c]
  have i: "i \<in> set r" and j: "j \<notin> set r"
    using res assms(5-10) l by (auto simp: needs_repair_Some)
  then have r: "r \<noteq> []" by auto
  define p1 where "p1 = p\<lparr>po_LastHealthCheck := now, po_monitor := MonPing ?cs\<rparr>"
  define p2 where "p2 = p1\<lparr>po_monitor := MonSwap h g b r\<rparr>"
  define p3 where "p3 = p2\<lparr>po_healthyClients := h, po_HealthyConnections := g, po_UnhealthyConnections := b,
      po_monitor := MonRepair r\<rparr>"
  define p4 where "p4 = (repairConnections dial r p3)\<lparr>po_monitor := MonSelect\<rparr>"
  have "pool_monitor_step ping dial now p = Some p1" "pool_monitor_step ping dial now p1 = Some p2"
    "pool_monitor_step ping dial now p2 = Some p3" "pool_monitor_step ping dial now p3 = Some p4"
    using assms(2-4) c r by (simp_all add: pool_monitor_step_def p1_def p2_def p3_def p4_def)
  then have s: "pool_monitor_steps 4 ping dial now p = Some p4" by (simp add: eval_nat_numeral)
  let ?f = "fold (repair_one dial) r p3"
  have "po_connections ?f ! j = Some k" "j < length (po_connections ?f)"
    using repairs_other [OF j, of dial p3] assms(7,8) l by (simp_all add: p3_def p2_def p1_def)
  then have "Some k \<in> set (po_connections ?f)" by (metis nth_mem)
  then have "k \<in> set (po_healthyClients p4)"
    using assms(2) by (simp add: p4_def repairConnections_def Let_def set_live_clients p3_def p2_def p1_def)
  moreover have "po_HealthyConnections p4 = g"
    using assms(2) by (simp add: p4_def repairConnections_def Let_def repairs_stats p3_def p2_def p1_def)
  ultimately show ?thesis using s res by auto
qed

lemma lost_not_connection_error:
  "Ping closed False e e' = PingFails err \<Longrightarrow> \<not> IsConnectionError (Some err)"
  by (auto simp: Ping_def IsConnectionError_def contains_any_def connection_error_texts_def split: if_splits)

text \<open>A pool never repairs a lost connection: Ping answers that the connection is not available, which
  is not one of the texts of a connection error. When all connections are lost the health check
  leaves the pool without a healthy client and starts no repair.\<close>

lemma lost_connections_never_repaired:
  assumes "pool_ok p" and "\<not> po_closed p" and "po_monitor p = MonCopy"
    and "None \<notin> set (po_connections p)"
    and "\<forall>k \<in> set (live_clients (po_connections p)). \<exists>closed e e'. ping k = Ping closed False e e'"
  shows "\<exists>p'. pool_monitor_steps 3 ping dial now p = Some p' \<and> po_monitor p' = MonSelect \<and>
    po_connections p' = po_connections p \<and> po_healthyClients p' = [] \<and>
    po_UnhealthyConnections p' = po_size p"
proof -
  let ?cs = "po_connections p"
  obtain h g b r where c: "check_connections (pl_autoRepair (po_config p)) ping 0 ?cs = (h, g, b, r)"
    by (metis prod_cases4)
  have l: "length ?cs = po_size p" using assms(1) by (simp add: pool_ok_def clients_ok_def)
  note res = check_connections_result [OF c]
  have fails: "\<exists>err. ping k = PingFails err \<and> \<not> IsConnectionError (Some err)"
    if k: "k \<in> set (live_clients ?cs)" for k
  proof -
    obtain closed e e' where "ping k = Ping closed False e e'" using assms(5) k by blast
    moreover obtain err where "Ping closed False e e' = PingFails err" by (cases closed) (auto simp: Ping_def)
    ultimately show ?thesis using lost_not_connection_error by metis
  qed
  have "\<not> needs_repair ar ping (?cs ! j)" if "j < length ?cs" for j ar
  proof -
    from that assms(4) obtain k where k: "?cs ! j = Some k" by (metis nth_mem not_None_eq)
    with that have "k \<in> set (live_clients ?cs)" by (metis nth_mem mem_Collect_eq set_live_clients)
    from fails [OF this] k show ?thesis by (auto simp: needs_repair_Some)
  qed
  with res have "set r = {}" by auto
  then have r: "r = []" by simp
  have "filter (\<lambda>k. ping k = PingOk) (live_clients ?cs) = []"
    using fails by (fastforce simp: filter_empty_conv)
  moreover from res have "h = filter (\<lambda>k. ping k = PingOk) (live_clients ?cs)" by (rule conjunct1)
  moreover from res have "g + b = length ?cs" by (elim conjE)
  moreover from res have "g = length h" by (elim conjE)
  ultimately have h: "h = []" "g = 0" "b = po_size p" using l by simp_all
  define p1 where "p1 = p\<lparr>po_LastHealthCheck := now, po_monitor := MonPing ?cs\<rparr>"
  define p2 where "p2 = p1\<lparr>po_monitor := MonSwap h g b r\<rparr>"
  define p3 where "p3 = p2\<lparr>po_healthyClients := h, po_HealthyConnections := g, po_UnhealthyConnections := b,
      po_monitor := MonSelect\<rparr>"
  have "pool_monitor_step ping dial now p = Some p1" "pool_monitor_step ping dial now p1 = Some p2"
    "pool_monitor_step ping dial now p2 = Some p3"
    using assms(2,3) c r by (simp_all add: pool_monitor_step_def p1_def p2_def p3_def)
  then have "pool_monitor_steps 3 ping dial now p = Some p3" by (simp add: eval_nat_numeral)
  with h show ?thesis by (simp add: p3_def p2_def p1_def)
qed

section \<open>Instances\<close>

definition demo_pool_config :: pool_config where
  "demo_pool_config = \<lparr>pl_healthCheckInterval = 30 * second, pl_autoRepair = True\<rparr>"

definition demo_pool :: pool where
  "demo_pool = snd (New 3 demo_pool_config 10 (\<lambda>_. None) (\<lambda>_. PingOk))"

lemma demo_pool_new: "New 3 demo_pool_config 10 (\<lambda>_. None) (\<lambda>_. PingOk) = (None, demo_pool)"
  by (simp add: demo_pool_def New_def demo_pool_config_def eval_nat_numeral split: prod.splits option.splits)

lemma demo_pool_simps:
  "po_connections demo_pool = [Some 10, Some 11, Some 12]" "po_healthyClients demo_pool = [10, 11, 12]"
  "po_closed demo_pool = False" "po_current demo_pool = 0" "po_size demo_pool = 3"
  "po_config demo_pool = demo_pool_config"
  by (simp_all add: demo_pool_def New_def updateHealthyClients_def empty_pool_def eval_nat_numeral)

lemma new_pool_all_or_nothing_witness:
  "\<exists>e p. New 3 demo_pool_config 10 (\<lambda>i. if i = 2 then Some ''refused'' else None) (\<lambda>_. PingOk) = (Some e, p) \<and> po_closed p"
proof -
  obtain e p where r: "New 3 demo_pool_config 10 (\<lambda>i. if i = 2 then Some ''refused'' else None) (\<lambda>_. PingOk) = (e, p)"
    by fastforce
  from new_pool_all_or_nothing [OF _ this] have "e \<noteq> None \<and> po_closed p"
    by (cases e) (auto dest: spec [of _ "2 :: nat"])
  with r show ?thesis by auto
qed

theorem pool_hands_out_open_clients_witness:
  "\<exists>p'. Get demo_pool = (Inr 11, p') \<and> 11 \<notin> set (po_closedClients demo_pool)"
proof -
  have g: "Get demo_pool = (Inr 11, demo_pool\<lparr>po_current := 1\<rparr>)"
    using Get_healthy [of demo_pool] by (simp add: demo_pool_simps)
  from pool_hands_out_open_clients [OF demo_pool_new pool_refl this] g show ?thesis
    by (simp add: demo_pool_simps)
qed

lemma get_is_round_robin_witness:
  "fst (gets 3 demo_pool) = [Inr 11, Inr 12, Inr 10]"
  using get_is_round_robin [of demo_pool "[10, 11, 12]"] by (simp add: demo_pool_simps numeral_3_eq_3)

lemma close_during_check_leaks_monitor_witness:
  "\<forall>p'. pool_steps (Pool_Close (demo_pool\<lparr>po_ticker := TickerRuns, po_tick := False, po_monitor := MonCopy\<rparr>)) p' \<longrightarrow>
     po_monitor p' \<noteq> MonExited"
  using close_during_check_leaks_monitor [of "demo_pool\<lparr>po_ticker := TickerRuns, po_tick := False, po_monitor := MonCopy\<rparr>"]
  by (simp add: in_check_def demo_pool_simps)

definition demo_ping :: "nat \<Rightarrow> ping_answer" where
  "demo_ping k =
     (if k = 10 then PingFails (PlainError ''connection reset'')
      else if k = 11 then Ping False False None None else PingOk)"

lemma repair_declares_failed_client_healthy_witness:
  "\<exists>p'. pool_monitor_steps 4 demo_ping (\<lambda>_. None) 1 (demo_pool\<lparr>po_monitor := MonCopy\<rparr>) = Some p' \<and>
     11 \<in> set (po_healthyClients p')"
proof -
  let ?p = "demo_pool\<lparr>po_monitor := MonCopy\<rparr>"
  have "pool_ok demo_pool" using pool_ok_New [OF demo_pool_new] by simp
  then have "pool_ok ?p" by (simp add: pool_ok_def clients_ok_def monitor_ok_def)
  moreover have "needs_repair True demo_ping (Some 10)" "\<not> IsConnectionError (Some (PlainError ''connection is not available''))"
    by (simp_all add: needs_repair_def demo_ping_def IsConnectionError_def contains_any_def connection_error_texts_def)
  ultimately show ?thesis
    using repair_declares_failed_client_healthy [of ?p 0 demo_ping 1 11 "PlainError ''connection is not available''" "\<lambda>_. None" 1]
    by (simp add: demo_pool_simps demo_pool_config_def demo_ping_def Ping_def) blast
qed

lemma lost_connections_never_repaired_witness:
  "\<exists>p'. pool_monitor_steps 3 (\<lambda>_. Ping False False None None) (\<lambda>_. None) 1 (demo_pool\<lparr>po_monitor := MonCopy\<rparr>) = Some p' \<and>
     po_healthyClients p' = [] \<and> po_connections p' = [Some 10, Some 11, Some 12]"
proof -
  let ?p = "demo_pool\<lparr>po_monitor := MonCopy\<rparr>"
  have "pool_ok demo_pool" using pool_ok_New [OF demo_pool_new] by simp
  then have ok: "pool_ok ?p" by (simp add: pool_ok_def clients_ok_def monitor_ok_def)
  have "\<forall>k \<in> set (live_clients (po_connections ?p)). \<exists>closed e e'. Ping False False None None = Ping closed False e e'"
    by blast
  from lost_connections_never_repaired [OF ok _ _ _ this] show ?thesis by (auto simp: demo_pool_simps)
qed

end
