(* ===== verification/Shutdown.thy ===== *)
theory Shutdown
  imports Go_Base
begin

text \<open>
  Graceful shutdown (src/shutdown/shutdown.go): the manager, which closes its components once, and
  the tracker of operations in flight. The goroutines of a shutdown, its callers and the
  operations move one at a time, in any order.
\<close>

section \<open>State\<close>

record shutdown_config =
  sh_Timeout :: duration
  sh_SignalTimeout :: duration
  sh_GracefulDrainTime :: duration

definition DefaultShutdownConfig :: shutdown_config where
  "DefaultShutdownConfig =
     \<lparr>sh_Timeout = 30 * second, sh_SignalTimeout = 5 * second, sh_GracefulDrainTime = 10 * second\<rparr>"

text \<open>A component: closed not at all, being closed by its goroutine, or with the error of \<open>Close\<close>.\<close>

datatype component = CompOpen | CompClosing | CompClosed "string option"

record in_flight_tracker =
  tr_closed :: bool
  tr_count :: nat
  tr_panicked :: bool

datatype once = OnceNew | OnceRunning | OnceDone

text \<open>The goroutine that shuts down the components: closing them, draining, or at its end.\<close>

datatype shutdown_worker = WorkerNone | WorkerSpawned | WorkerClosing | WorkerDraining instant | WorkerEnded

text \<open>A caller of \<open>Shutdown\<close>: inside \<open>once.Do\<close> (the first one or one that waits for it), or returned.\<close>

datatype caller = InsideOnce | BlockedOnOnce | CallReturned

record shutdown_manager =
  sm_timeout :: duration
  sm_components :: "component list"
  sm_inFlight :: in_flight_tracker
  sm_once :: once
  sm_worker :: shutdown_worker
  sm_snapshot :: nat
  sm_deadline :: instant
  sm_done :: bool
  sm_callers :: "caller list"
  sm_now :: instant
  sm_timedOut :: bool
  sm_drainTimedOut :: bool

definition NewInFlightTracker :: in_flight_tracker where
  "NewInFlightTracker = \<lparr>tr_closed = False, tr_count = 0, tr_panicked = False\<rparr>"

definition NewShutdownManager :: "shutdown_config \<Rightarrow> instant \<Rightarrow> shutdown_manager" where
  "NewShutdownManager c now =
     \<lparr>sm_timeout = sh_Timeout c, sm_components = [], sm_inFlight = NewInFlightTracker,
      sm_once = OnceNew, sm_worker = WorkerNone, sm_snapshot = 0, sm_deadline = 0, sm_done = False,
      sm_callers = [], sm_now = now, sm_timedOut = False, sm_drainTimedOut = False\<rparr>"

section \<open>Operations in flight\<close>

definition tracker_Start :: "in_flight_tracker \<Rightarrow> bool \<times> in_flight_tracker" where
  "tracker_Start t = (if tr_closed t then (False, t) else (True, t\<lparr>tr_count := Suc (tr_count t)\<rparr>))"

text \<open>A \<open>WaitGroup\<close> panics when its counter would be negative.\<close>

definition tracker_Done :: "in_flight_tracker \<Rightarrow> in_flight_tracker" where
  "tracker_Done t = (if tr_count t = 0 then t\<lparr>tr_panicked := True\<rparr> else t\<lparr>tr_count := tr_count t - 1\<rparr>)"

definition tracker_close :: "in_flight_tracker \<Rightarrow> in_flight_tracker" where
  "tracker_close t = t\<lparr>tr_closed := True\<rparr>"

definition upd_tracker :: "(in_flight_tracker \<Rightarrow> in_flight_tracker) \<Rightarrow> shutdown_manager \<Rightarrow> shutdown_manager" where
  "upd_tracker f s = s\<lparr>sm_inFlight := f (sm_inFlight s)\<rparr>"

section \<open>The manager\<close>

definition Register :: "shutdown_manager \<Rightarrow> shutdown_manager" where
  "Register s = s\<lparr>sm_components := sm_components s @ [CompOpen]\<rparr>"

text \<open>
  \<open>Shutdown\<close>: the first caller starts the worker and waits for it or for the deadline; every other
  one waits inside \<open>once.Do\<close> until the first has returned.
\<close>

definition Shutdown_call :: "shutdown_manager \<Rightarrow> shutdown_manager" where
  "Shutdown_call s =
     (case sm_once s of
        OnceNew \<Rightarrow>
          s\<lparr>sm_once := OnceRunning, sm_worker := WorkerSpawned,
            sm_deadline := sm_now s + sm_timeout s, sm_callers := sm_callers s @ [InsideOnce]\<rparr>
      | OnceRunning \<Rightarrow> s\<lparr>sm_callers := sm_callers s @ [BlockedOnOnce]\<rparr>
      | OnceDone \<Rightarrow> s\<lparr>sm_callers := sm_callers s @ [CallReturned]\<rparr>)"

definition once_done :: "shutdown_manager \<Rightarrow> shutdown_manager" where
  "once_done s = s\<lparr>sm_done := True, sm_once := OnceDone, sm_callers := map (\<lambda>_. CallReturned) (sm_callers s)\<rparr>"

definition closing :: "component \<Rightarrow> bool" where
  "closing c \<longleftrightarrow> c = CompClosing"

text \<open>
  The worker copies the components and closes them concurrently, waits for all of them, closes the
  tracker and drains it with the manager's timeout.
\<close>

definition start_closing :: "shutdown_manager \<Rightarrow> shutdown_manager" where
  "start_closing s =
     s\<lparr>sm_worker := WorkerClosing, sm_snapshot := length (sm_components s),
       sm_components := map (\<lambda>_. CompClosing) (sm_components s)\<rparr>"

definition close_component :: "nat \<Rightarrow> string option \<Rightarrow> shutdown_manager \<Rightarrow> shutdown_manager" where
  "close_component i err s = s\<lparr>sm_components := (sm_components s)[i := CompClosed err]\<rparr>"

definition start_draining :: "shutdown_manager \<Rightarrow> shutdown_manager" where
  "start_draining s = (upd_tracker tracker_close s)\<lparr>sm_worker := WorkerDraining (sm_now s + sm_timeout s)\<rparr>"

definition IsShutdown :: "shutdown_manager \<Rightarrow> bool" where
  "IsShutdown s = sm_done s"

definition Wait_returns :: "shutdown_manager \<Rightarrow> bool" where
  "Wait_returns s = sm_done s"

inductive shutdown_step :: "shutdown_manager \<Rightarrow> shutdown_manager \<Rightarrow> bool" where
  sh_register: "shutdown_step s (Register s)"
| sh_start: "shutdown_step s (upd_tracker (snd \<circ> tracker_Start) s)"
| sh_finish: "0 < tr_count (sm_inFlight s) \<Longrightarrow> shutdown_step s (upd_tracker tracker_Done s)"
| sh_clock: "sm_now s \<le> now \<Longrightarrow> shutdown_step s (s\<lparr>sm_now := now\<rparr>)"
| sh_call: "shutdown_step s (Shutdown_call s)"
| sh_snapshot: "sm_worker s = WorkerSpawned \<Longrightarrow> shutdown_step s (start_closing s)"
| sh_close: "sm_worker s = WorkerClosing \<Longrightarrow> i < sm_snapshot s \<Longrightarrow> sm_components s ! i = CompClosing \<Longrightarrow>
    shutdown_step s (close_component i err s)"
| sh_closed: "sm_worker s = WorkerClosing \<Longrightarrow> \<not> list_ex closing (sm_components s) \<Longrightarrow>
    shutdown_step s (start_draining s)"
| sh_drained: "sm_worker s = WorkerDraining d \<Longrightarrow> tr_count (sm_inFlight s) = 0 \<Longrightarrow>
    shutdown_step s (s\<lparr>sm_worker := WorkerEnded\<rparr>)"
| sh_drain_timeout: "sm_worker s = WorkerDraining d \<Longrightarrow> d \<le> sm_now s \<Longrightarrow>
    shutdown_step s (s\<lparr>sm_worker := WorkerEnded, sm_drainTimedOut := True\<rparr>)"
| sh_complete: "sm_once s = OnceRunning \<Longrightarrow> sm_worker s = WorkerEnded \<Longrightarrow> shutdown_step s (once_done s)"
| sh_timeout: "sm_once s = OnceRunning \<Longrightarrow> sm_deadline s \<le> sm_now s \<Longrightarrow>
    shutdown_step s ((once_done s)\<lparr>sm_timedOut := True\<rparr>)"

inductive shutdown_steps :: "shutdown_manager \<Rightarrow> shutdown_manager \<Rightarrow> bool" where
  shs_refl: "shutdown_steps s s"
| shs_more: "shutdown_steps s s' \<Longrightarrow> shutdown_step s' s'' \<Longrightarrow> shutdown_steps s s''"

section \<open>Invariant\<close>

text \<open>What the worker has done with the components; the ones registered after its copy stay open.\<close>

definition components_ok :: "shutdown_manager \<Rightarrow> bool" where
  "components_ok s \<longleftrightarrow>
     sm_snapshot s \<le> length (sm_components s) \<and>
     (\<forall>i < length (sm_components s).
        if i < sm_snapshot s
        then sm_components s ! i \<noteq> CompOpen \<and>
          (sm_worker s = WorkerClosing \<or> sm_components s ! i \<noteq> CompClosing)
        else sm_components s ! i = CompOpen) \<and>
     (sm_worker s \<in> {WorkerNone, WorkerSpawned} \<longrightarrow> sm_snapshot s = 0) \<and>
     (sm_once s = OnceNew \<longleftrightarrow> sm_worker s = WorkerNone)"

definition draining_ok :: "shutdown_manager \<Rightarrow> bool" where
  "draining_ok s \<longleftrightarrow>
     (sm_worker s \<notin> {WorkerNone, WorkerSpawned, WorkerClosing} \<longrightarrow> tr_closed (sm_inFlight s)) \<and>
     (sm_worker s = WorkerEnded \<longrightarrow> sm_drainTimedOut s \<or> tr_count (sm_inFlight s) = 0)"

definition callers_ok :: "shutdown_manager \<Rightarrow> bool" where
  "callers_ok s \<longleftrightarrow>
     (sm_done s \<longleftrightarrow> sm_once s = OnceDone) \<and> (sm_done s \<longrightarrow> sm_timedOut s \<or> sm_worker s = WorkerEnded) \<and>
     (CallReturned \<in> set (sm_callers s) \<longrightarrow> sm_done s) \<and>
     lcount (\<lambda>c. c = InsideOnce) (sm_callers s) = (if sm_once s = OnceRunning then 1 else 0)"

definition shutdown_ok :: "shutdown_manager \<Rightarrow> bool" where
  "shutdown_ok s \<longleftrightarrow> components_ok s \<and> draining_ok s \<and> callers_ok s"

lemma lcount_returned: "lcount (\<lambda>c. c = InsideOnce) (map (\<lambda>_. CallReturned) cs) = 0"
  by (simp add: lcount_zero_iff)

lemmas shutdown_operations = Register_def upd_tracker_def tracker_Start_def tracker_Done_def tracker_close_def
  Shutdown_call_def once_done_def close_component_def start_draining_def start_closing_def

lemma components_ok_step: "shutdown_step s s' \<Longrightarrow> components_ok s \<Longrightarrow> components_ok s'"
proof (induction rule: shutdown_step.induct)
  case (sh_register s)
  then show ?case by (auto simp: components_ok_def shutdown_operations nth_append less_Suc_eq)
next
  case (sh_close s i err)
  then show ?case by (auto simp: components_ok_def shutdown_operations nth_list_update split: if_splits)
next
  case (sh_closed s)
  then have "\<forall>i < length (sm_components s). sm_components s ! i \<noteq> CompClosing"
    by (metis closing_def list_ex_iff nth_mem)
  with sh_closed show ?case by (auto simp: components_ok_def shutdown_operations split: if_splits)
qed (auto simp: components_ok_def shutdown_operations split: once.splits if_splits)

lemma draining_ok_step: "shutdown_step s s' \<Longrightarrow> draining_ok s \<Longrightarrow> draining_ok s'"
  by (induction rule: shutdown_step.induct) (auto simp: draining_ok_def shutdown_operations split: once.splits if_splits)

lemma callers_ok_step: "shutdown_step s s' \<Longrightarrow> callers_ok s \<Longrightarrow> callers_ok s'"
  by (induction rule: shutdown_step.induct)
    (auto simp: callers_ok_def shutdown_operations lcount_returned split: once.splits if_splits)

lemma shutdown_ok_steps: "shutdown_steps s s' \<Longrightarrow> shutdown_ok s \<Longrightarrow> shutdown_ok s'"
  by (induction rule: shutdown_steps.induct)
    (auto simp: shutdown_ok_def intro: components_ok_step draining_ok_step callers_ok_step)

lemma shutdown_ok_new: "shutdown_ok (NewShutdownManager c now)"
  by (simp add: shutdown_ok_def components_ok_def draining_ok_def callers_ok_def NewShutdownManager_def
      NewInFlightTracker_def)

section \<open>Properties\<close>

text \<open>C37: when Shutdown has returned and its timeout did not expire, every component that was registered when
  it took its copy is closed, no operation is accepted any more, and none is in flight unless the
  drain timed out on its own; components registered later are never closed. Every caller of
  Shutdown returns then and not before, and only one of them runs it.\<close>

theorem shutdown_returns_after_closing:
  assumes "shutdown_steps (NewShutdownManager c now) s"
  shows "(sm_done s \<and> \<not> sm_timedOut s \<longrightarrow>
      (\<forall>i < sm_snapshot s. \<exists>err. sm_components s ! i = CompClosed err) \<and>
      \<not> fst (tracker_Start (sm_inFlight s)) \<and>
      (sm_drainTimedOut s \<or> tr_count (sm_inFlight s) = 0)) \<and>
    (\<forall>i < length (sm_components s). sm_snapshot s \<le> i \<longrightarrow> sm_components s ! i = CompOpen) \<and>
    (CallReturned \<in> set (sm_callers s) \<longrightarrow> sm_done s) \<and>
    lcount (\<lambda>c. c = InsideOnce) (sm_callers s) \<le> 1"
proof -
  have ok: "components_ok s" "draining_ok s" "callers_ok s"
    using shutdown_ok_steps [OF assms shutdown_ok_new] by (simp_all add: shutdown_ok_def)
  have closed: "\<exists>err. sm_components s ! i = CompClosed err" if "sm_worker s = WorkerEnded" "i < sm_snapshot s" for i
  proof -
    from ok(1) that have "i < length (sm_components s)" by (simp add: components_ok_def)
    with ok(1) that(2) have "sm_components s ! i \<noteq> CompOpen \<and>
        (sm_worker s = WorkerClosing \<or> sm_components s ! i \<noteq> CompClosing)"
      by (simp add: components_ok_def)
    with that(1) have "sm_components s ! i \<noteq> CompOpen" "sm_components s ! i \<noteq> CompClosing" by simp_all
    then show ?thesis by (cases "sm_components s ! i") simp_all
  qed
  have "\<forall>i < length (sm_components s). sm_snapshot s \<le> i \<longrightarrow> sm_components s ! i = CompOpen"
    using ok(1) by (auto simp: components_ok_def)
  moreover have "sm_worker s = WorkerEnded" if "sm_done s" "\<not> sm_timedOut s"
    using ok(3) that by (auto simp: callers_ok_def)
  ultimately show ?thesis
    using closed ok(2,3) by (auto simp: draining_ok_def callers_ok_def tracker_Start_def)
qed

text \<open>While a shutdown is under way IsShutdown is false although its comment says it tells that a
  shutdown was initiated, and a second caller of Shutdown is blocked until the first has returned.\<close>

lemma is_shutdown_late:
  assumes "shutdown_steps (NewShutdownManager c now) s" and "sm_once s = OnceRunning"
  shows "\<not> IsShutdown s \<and> last (sm_callers (Shutdown_call s)) = BlockedOnOnce \<and>
    CallReturned \<notin> set (sm_callers (Shutdown_call s))"
proof -
  have "callers_ok s" using shutdown_ok_steps [OF assms(1) shutdown_ok_new] by (simp add: shutdown_ok_def)
  with assms(2) show ?thesis by (auto simp: callers_ok_def IsShutdown_def Shutdown_call_def)
qed

text \<open>A manager with one component and no operation in flight.\<close>

definition demo_manager :: shutdown_manager where
  "demo_manager = Shutdown_call (Register (NewShutdownManager DefaultShutdownConfig 0))"

lemma demo_manager_reached: "shutdown_steps (NewShutdownManager DefaultShutdownConfig 0) demo_manager"
  unfolding demo_manager_def by (rule shs_more [OF shs_more [OF shs_refl sh_register] sh_call])

theorem shutdown_returns_after_closing_witness:
  "\<exists>s. shutdown_steps (NewShutdownManager DefaultShutdownConfig 0) s \<and> sm_done s \<and>
     (\<exists>err. sm_components s ! 0 = CompClosed err) \<and> \<not> fst (tracker_Start (sm_inFlight s))"
proof -
  define s1 where "s1 = start_closing demo_manager"
  define s2 where "s2 = close_component 0 None s1"
  define s3 where "s3 = start_draining s2"
  define s4 where "s4 = s3\<lparr>sm_worker := WorkerEnded\<rparr>"
  define s5 where "s5 = once_done s4"
  note d = s5_def s4_def s3_def s2_def s1_def demo_manager_def shutdown_operations NewShutdownManager_def
    NewInFlightTracker_def
  have "shutdown_steps (NewShutdownManager DefaultShutdownConfig 0) s1"
    unfolding s1_def by (rule shs_more [OF demo_manager_reached sh_snapshot]) (simp add: d)
  then have "shutdown_steps (NewShutdownManager DefaultShutdownConfig 0) s2"
    unfolding s2_def by (rule shs_more) (rule sh_close; simp add: d)
  then have "shutdown_steps (NewShutdownManager DefaultShutdownConfig 0) s3"
    unfolding s3_def by (rule shs_more) (rule sh_closed; simp add: d closing_def)
  then have "shutdown_steps (NewShutdownManager DefaultShutdownConfig 0) s4"
    unfolding s4_def by (rule shs_more) (rule sh_drained; simp add: d)
  then have r: "shutdown_steps (NewShutdownManager DefaultShutdownConfig 0) s5"
    unfolding s5_def by (rule shs_more) (rule sh_complete; simp add: d)
  have s: "sm_done s5" "\<not> sm_timedOut s5" "sm_snapshot s5 = 1" by (simp_all add: d)
  from shutdown_returns_after_closing [OF r] s r show ?thesis by auto
qed

lemma is_shutdown_late_witness: "\<not> IsShutdown demo_manager"
  using is_shutdown_late [OF demo_manager_reached]
  by (simp add: demo_manager_def Shutdown_call_def Register_def NewShutdownManager_def)

end
