(* ===== verification/Consume_Guard.thy ===== *)
theory Consume_Guard
  imports Client_Config
begin

text \<open>
  The check before a consumer is created (src/consume_guard.go): which brokers the client may dial,
  and the refusal to consume from a shared broker outside Kubernetes. \<open>url.Parse\<close> is an argument,
  the host of the URL or none when it does not parse; space and letter case are those of ASCII.
\<close>

section \<open>Strings\<close>

definition is_space :: "char \<Rightarrow> bool" where
  "is_space c \<longleftrightarrow> (of_char c :: nat) \<in> {9, 10, 11, 12, 13, 32}"

definition TrimSpace :: "string \<Rightarrow> string" where
  "TrimSpace s = rev (dropWhile is_space (rev (dropWhile is_space s)))"

definition lower :: "char \<Rightarrow> char" where
  "lower c = (let n = (of_char c :: nat) in if 65 \<le> n \<and> n \<le> 90 then char_of (n + 32) else c)"

definition ToLower :: "string \<Rightarrow> string" where
  "ToLower s = map lower s"

definition EqualFold :: "string \<Rightarrow> string \<Rightarrow> bool" where
  "EqualFold s t \<longleftrightarrow> ToLower s = ToLower t"

text \<open>\<open>strings.Index\<close> of one character.\<close>

definition index_of :: "char \<Rightarrow> string \<Rightarrow> nat option" where
  "index_of c s = (let n = length (takeWhile (\<lambda>x. x \<noteq> c) s) in if n < length s then Some n else None)"

section \<open>The hosts of a client\<close>

definition add_host :: "string \<Rightarrow> string list \<Rightarrow> string list" where
  "add_host h hosts = (if h \<noteq> [] \<and> h \<notin> set hosts then hosts @ [h] else hosts)"

text \<open>The URLs, the URL and the hosts, without duplicates.\<close>

definition guardHosts :: "(string \<Rightarrow> string option) \<Rightarrow> clientConfig \<Rightarrow> string list" where
  "guardHosts parse c =
     (let urls = cc_URLs c @ [cc_URL c];
          hosts = fold (\<lambda>raw hosts.
                     if raw = [] then hosts
                     else case parse raw of None \<Rightarrow> hosts | Some h \<Rightarrow> add_host h hosts) urls []
      in fold add_host (cc_Hosts c) hosts)"

type_synonym consume_guard = "string list \<Rightarrow> string option"

definition checkConsumeGuard ::
  "(string \<Rightarrow> string option) \<Rightarrow> consume_guard option \<Rightarrow> clientConfig \<Rightarrow> string option" where
  "checkConsumeGuard parse guard c =
     (case guard of
        None \<Rightarrow> None
      | Some g \<Rightarrow>
          (case g (guardHosts parse c) of
             None \<Rightarrow> None
           | Some e \<Rightarrow> Some (''consume guard refused: '' @ e)))"

section \<open>Local and shared brokers\<close>

text \<open>The name in \<open>host\<close>, \<open>host:port\<close>, \<open>[v6]\<close> or \<open>[v6]:port\<close>.\<close>

definition host_name :: "string \<Rightarrow> string" where
  "host_name h =
     (if has_prefix h ''[''
      then (case index_of (CHR '']'') h of
              Some e \<Rightarrow> if e > 0 then drop 1 (take e h) else h
            | None \<Rightarrow> h)
      else if length (filter (\<lambda>c. c = CHR '':'') h) = 1
      then takeWhile (\<lambda>c. c \<noteq> CHR '':'') h
      else h)"

definition local_names :: "string list" where
  "local_names = [''localhost'', ''127.0.0.1'', ''::1'', ''0.0.0.0'', ''host.docker.internal'']"

definition is_local :: "string \<Rightarrow> bool" where
  "is_local h \<longleftrightarrow> ToLower (host_name h) \<in> set local_names"

definition nonLocalHosts :: "string list \<Rightarrow> string list" where
  "nonLocalHosts hosts = filter (\<lambda>h. h \<noteq> [] \<and> \<not> is_local h) (map TrimSpace hosts)"

definition SharedBrokerRefusedError :: "string list \<Rightarrow> string \<Rightarrow> string" where
  "SharedBrokerRefusedError hosts allowEnv =
     ''refusing to consume: not running in Kubernetes and the broker is not local ('' @ join '','' hosts @
     ''); a local run would compete with the deployed consumers for shared queues. '' @
     ''Point at a local broker, or set '' @ allowEnv @ ''=true to consume deliberately''"

definition sharedConsumeDecision :: "string list \<Rightarrow> string \<Rightarrow> (string \<Rightarrow> string) \<Rightarrow> string option" where
  "sharedConsumeDecision hosts allowEnv getenv =
     (if getenv ''KUBERNETES_SERVICE_HOST'' \<noteq> [] then None
      else
        (let shared = nonLocalHosts hosts in
         if shared = [] then None
         else if EqualFold (TrimSpace (getenv allowEnv)) ''true'' then None
         else Some (SharedBrokerRefusedError shared allowEnv)))"

definition RefuseSharedBrokerOutsideKubernetes :: "string \<Rightarrow> (string \<Rightarrow> string) \<Rightarrow> consume_guard" where
  "RefuseSharedBrokerOutsideKubernetes allowEnv getenv hosts = sharedConsumeDecision hosts allowEnv getenv"

section \<open>The guard sees what the client dials\<close>

lemma set_add_host: "set (add_host h hosts) = set hosts \<union> ({h} - {[]})"
  by (auto simp: add_host_def)

lemma distinct_add_host: "distinct hosts \<Longrightarrow> distinct (add_host h hosts)"
  by (simp add: add_host_def)

lemma set_fold_add_host: "set (fold add_host hs hosts) = set hosts \<union> (set hs - {[]})"
  by (induction hs arbitrary: hosts) (auto simp: set_add_host)

lemma set_fold_urls:
  "set (fold (\<lambda>raw hosts. if raw = [] then hosts else case parse raw of None \<Rightarrow> hosts | Some h \<Rightarrow> add_host h hosts) urls hosts) =
   set hosts \<union> {h. h \<noteq> [] \<and> (\<exists>u \<in> set urls. u \<noteq> [] \<and> parse u = Some h)}"
  by (induction urls arbitrary: hosts) (auto simp: set_add_host split: option.splits)

lemma distinct_fold_add_host: "distinct hosts \<Longrightarrow> distinct (fold add_host hs hosts)"
  by (induction hs arbitrary: hosts) (simp_all add: distinct_add_host)

lemma distinct_fold_urls:
  "distinct hosts \<Longrightarrow> distinct (fold (\<lambda>raw hosts. if raw = [] then hosts
     else case parse raw of None \<Rightarrow> hosts | Some h \<Rightarrow> add_host h hosts) urls hosts)"
  by (induction urls arbitrary: hosts) (auto simp: distinct_add_host split: option.splits)

lemma set_guardHosts:
  "set (guardHosts parse c) =
   {h. h \<noteq> [] \<and> (\<exists>u \<in> set (cc_URLs c @ [cc_URL c]). u \<noteq> [] \<and> parse u = Some h)} \<union> (set (cc_Hosts c) - {[]})"
  by (simp only: guardHosts_def Let_def set_fold_add_host set_fold_urls) simp

lemma NewClient_config_URL: "NewClient_config opts = Inr c \<Longrightarrow> cc_URL c \<noteq> []"
  by (auto simp: NewClient_config_def format_url_def split: sum.splits if_splits)

lemma nonLocalHosts_Nil: "nonLocalHosts hosts = [] \<longleftrightarrow> (\<forall>h \<in> set hosts. TrimSpace h = [] \<or> is_local (TrimSpace h))"
  by (auto simp: nonLocalHosts_def filter_empty_conv)

text \<open>A client whose guard is RefuseSharedBrokerOutsideKubernetes, outside Kubernetes and without
  the override, may create a consumer only when every broker that it can ever dial is local: the
  guard sees the host of every connection URL, each once.\<close>

lemma guard_covers_every_broker:
  assumes "NewClient_config opts = Inr c"
    and "checkConsumeGuard parse (Some (RefuseSharedBrokerOutsideKubernetes allowEnv getenv)) c = None"
    and "getenv ''KUBERNETES_SERVICE_HOST'' = []" and "\<not> EqualFold (TrimSpace (getenv allowEnv)) ''true''"
    and "u \<in> set (getConnectionURLs c)" and "u \<noteq> []" and "parse u = Some h"
  shows "(TrimSpace h = [] \<or> is_local (TrimSpace h)) \<and> distinct (guardHosts parse c)"
proof -
  have "u \<in> set (cc_URLs c @ [cc_URL c])"
    using assms(5) NewClient_config_URL [OF assms(1)] by (auto simp: getConnectionURLs_def split: if_splits)
  with assms(6,7) have "h = [] \<or> h \<in> set (guardHosts parse c)" unfolding set_guardHosts by blast
  moreover have "nonLocalHosts (guardHosts parse c) = []"
    using assms(2-4) by (auto simp: checkConsumeGuard_def RefuseSharedBrokerOutsideKubernetes_def
        sharedConsumeDecision_def Let_def split: if_splits)
  moreover have "TrimSpace [] = []" by (simp add: TrimSpace_def)
  moreover have "distinct (guardHosts parse c)"
    unfolding guardHosts_def Let_def by (intro distinct_fold_add_host distinct_fold_urls) simp
  ultimately show ?thesis by (auto simp: nonLocalHosts_Nil)
qed

text \<open>Every spelling of a local host is recognised, whatever its port.\<close>

lemma char_108: "char_of (108 :: nat) = CHR ''l''" and char_104: "char_of (104 :: nat) = CHR ''h''"
  by code_simp+

lemma local_with_port:
  assumes "CHR '':'' \<notin> set p"
  shows "is_local (''localhost:'' @ p)" and "is_local (''LocalHost:'' @ p)" and "is_local (''127.0.0.1:'' @ p)"
    and "is_local (''[::1]:'' @ p)" and "is_local ''::1''" and "\<not> is_local (''broker.example.com:'' @ p)"
proof -
  have "filter (\<lambda>c. c = CHR '':'') p = []" using assms by (auto simp: filter_empty_conv)
  then show "is_local (''localhost:'' @ p)" and "is_local (''LocalHost:'' @ p)" and "is_local (''127.0.0.1:'' @ p)"
    and "is_local (''[::1]:'' @ p)" and "is_local ''::1''" and "\<not> is_local (''broker.example.com:'' @ p)"
    by (simp_all add: is_local_def host_name_def index_of_def ToLower_def lower_def local_names_def Let_def char_108 char_104)
qed

lemma guard_covers_every_broker_witness:
  "\<exists>c. NewClient_config [] = Inr c \<and>
     checkConsumeGuard (\<lambda>_. Some ''localhost:5672'') (Some (RefuseSharedBrokerOutsideKubernetes ''ALLOW'' (\<lambda>_. []))) c = None \<and>
     is_local (TrimSpace ''localhost:5672'')"
proof -
  obtain c where c: "NewClient_config [] = Inr c" by (simp add: NewClient_config_def)
  have h: "cc_Hosts c = []" "cc_URLs c = []" "cc_URL c \<noteq> []"
    using c NewClient_config_URL [OF c] by (auto simp: NewClient_config_def default_clientConfig_def split: if_splits)
  have t: "TrimSpace ''localhost:5672'' = ''localhost:5672''" by (simp add: TrimSpace_def is_space_def)
  have l: "is_local ''localhost:5672''" using local_with_port(1) [of "''5672''"] by simp
  have g: "checkConsumeGuard (\<lambda>_. Some ''localhost:5672'')
      (Some (RefuseSharedBrokerOutsideKubernetes ''ALLOW'' (\<lambda>_. []))) c = None"
    using h t l by (simp add: checkConsumeGuard_def RefuseSharedBrokerOutsideKubernetes_def sharedConsumeDecision_def
        guardHosts_def add_host_def nonLocalHosts_def)
  have f: "\<not> EqualFold (TrimSpace []) ''true''" by (simp add: EqualFold_def TrimSpace_def ToLower_def)
  have u: "cc_URL c \<in> set (getConnectionURLs c)" using h by (simp add: getConnectionURLs_def)
  from guard_covers_every_broker [OF c g _ f u h(3) refl] t c g show ?thesis by auto
qed

end
