(* ===== verification/Performance.thy ===== *)
theory Performance
  imports Go_Base
begin

text \<open>
  The performance monitor (src/performance/performance.go): counters, the last latencies, and the
  rates over a window. A rate is given as the number of events that the code divides by the length
  of the window, and a success rate by its two counters.
\<close>

section \<open>Rates\<close>

record rateTracker =
  rt_events :: "instant list"
  rt_window :: duration

definition NewRateTracker :: "duration \<Rightarrow> rateTracker" where
  "NewRateTracker window = \<lparr>rt_events = [], rt_window = window\<rparr>"

text \<open>The events from the first one after the cutoff on; when there is none all are kept.\<close>

definition clean_events :: "instant \<Rightarrow> instant list \<Rightarrow> instant list" where
  "clean_events cutoff es =
     (let kept = dropWhile (\<lambda>e. \<not> e > cutoff) es in if kept = [] then es else kept)"

definition Record :: "instant \<Rightarrow> rateTracker \<Rightarrow> rateTracker" where
  "Record now r =
     r\<lparr>rt_events := clean_events (now - rt_window r) (rt_events r @ [now])\<rparr>"

definition Rate_count :: "instant \<Rightarrow> rateTracker \<Rightarrow> nat" where
  "Rate_count now r = length (filter (\<lambda>e. e > now - rt_window r) (rt_events r))"

section \<open>The monitor\<close>

record performance_monitor =
  pf_connectionsTotal :: "64 word"
  pf_reconnectionsTotal :: "64 word"
  pf_publishesTotal :: "64 word"
  pf_publishSuccessTotal :: "64 word"
  pf_publishErrorsTotal :: "64 word"
  pf_consumesTotal :: "64 word"
  pf_consumeSuccessTotal :: "64 word"
  pf_consumeErrorsTotal :: "64 word"
  pf_publishLatencies :: "duration list"
  pf_consumeLatencies :: "duration list"
  pf_connected :: bool
  pf_lastConnectionTime :: instant
  pf_lastReconnectionTime :: instant
  pf_publishRate :: rateTracker
  pf_consumeRate :: rateTracker

definition NewMonitor :: performance_monitor where
  "NewMonitor =
     \<lparr>pf_connectionsTotal = 0, pf_reconnectionsTotal = 0, pf_publishesTotal = 0,
      pf_publishSuccessTotal = 0, pf_publishErrorsTotal = 0, pf_consumesTotal = 0,
      pf_consumeSuccessTotal = 0, pf_consumeErrorsTotal = 0, pf_publishLatencies = [],
      pf_consumeLatencies = [], pf_connected = False, pf_lastConnectionTime = 0,
      pf_lastReconnectionTime = 0, pf_publishRate = NewRateTracker minute,
      pf_consumeRate = NewRateTracker minute\<rparr>"

definition RecordConnection :: "bool \<Rightarrow> instant \<Rightarrow> performance_monitor \<Rightarrow> performance_monitor" where
  "RecordConnection success now p =
     (let p1 = p\<lparr>pf_connectionsTotal := pf_connectionsTotal p + 1\<rparr> in
      if success then p1\<lparr>pf_connected := True, pf_lastConnectionTime := now\<rparr>
      else p1\<lparr>pf_connected := False\<rparr>)"

definition RecordReconnection :: "instant \<Rightarrow> performance_monitor \<Rightarrow> performance_monitor" where
  "RecordReconnection now p =
     p\<lparr>pf_reconnectionsTotal := pf_reconnectionsTotal p + 1, pf_lastReconnectionTime := now\<rparr>"

definition keep_latency :: "duration \<Rightarrow> duration list \<Rightarrow> duration list" where
  "keep_latency d ls =
     (let ls' = ls @ [d] in if length ls' > 1000 then drop (length ls' - 1000) ls' else ls')"

definition RecordPublish :: "bool \<Rightarrow> duration \<Rightarrow> instant \<Rightarrow> performance_monitor \<Rightarrow> performance_monitor" where
  "RecordPublish success d now p =
     p\<lparr>pf_publishesTotal := pf_publishesTotal p + 1,
       pf_publishSuccessTotal := (if success then pf_publishSuccessTotal p + 1 else pf_publishSuccessTotal p),
       pf_publishErrorsTotal := (if success then pf_publishErrorsTotal p else pf_publishErrorsTotal p + 1),
       pf_publishRate := Record now (pf_publishRate p),
       pf_publishLatencies := keep_latency d (pf_publishLatencies p)\<rparr>"

definition RecordConsume :: "bool \<Rightarrow> duration \<Rightarrow> instant \<Rightarrow> performance_monitor \<Rightarrow> performance_monitor" where
  "RecordConsume success d now p =
     p\<lparr>pf_consumesTotal := pf_consumesTotal p + 1,
       pf_consumeSuccessTotal := (if success then pf_consumeSuccessTotal p + 1 else pf_consumeSuccessTotal p),
       pf_consumeErrorsTotal := (if success then pf_consumeErrorsTotal p else pf_consumeErrorsTotal p + 1),
       pf_consumeRate := Record now (pf_consumeRate p),
       pf_consumeLatencies := keep_latency d (pf_consumeLatencies p)\<rparr>"

text \<open>The percentiles 50, 95 and 99: elements at fixed positions of the unsorted list.\<close>

definition calculateLatencyPercentiles :: "duration list \<Rightarrow> duration \<times> duration \<times> duration" where
  "calculateLatencyPercentiles ls =
     (let n = length ls in
      (if n \<ge> 2 then ls ! (n div 2) else 0,
       if n \<ge> 20 then ls ! (n * 95 div 100) else 0,
       if n \<ge> 100 then ls ! (n * 99 div 100) else 0))"

record performance_stats =
  fs_ConnectionsTotal :: "64 word"
  fs_ReconnectionsTotal :: "64 word"
  fs_IsConnected :: bool
  fs_PublishesTotal :: "64 word"
  fs_PublishSuccessTotal :: "64 word"
  fs_PublishErrorsTotal :: "64 word"
  fs_PublishRate :: nat
  fs_ConsumesTotal :: "64 word"
  fs_ConsumeSuccessTotal :: "64 word"
  fs_ConsumeErrorsTotal :: "64 word"
  fs_ConsumeRate :: nat
  fs_PublishLatencies :: "duration \<times> duration \<times> duration"
  fs_ConsumeLatencies :: "duration \<times> duration \<times> duration"

definition Monitor_GetStats :: "instant \<Rightarrow> performance_monitor \<Rightarrow> performance_stats" where
  "Monitor_GetStats now p =
     \<lparr>fs_ConnectionsTotal = pf_connectionsTotal p, fs_ReconnectionsTotal = pf_reconnectionsTotal p,
      fs_IsConnected = pf_connected p, fs_PublishesTotal = pf_publishesTotal p,
      fs_PublishSuccessTotal = pf_publishSuccessTotal p, fs_PublishErrorsTotal = pf_publishErrorsTotal p,
      fs_PublishRate = Rate_count now (pf_publishRate p), fs_ConsumesTotal = pf_consumesTotal p,
      fs_ConsumeSuccessTotal = pf_consumeSuccessTotal p, fs_ConsumeErrorsTotal = pf_consumeErrorsTotal p,
      fs_ConsumeRate = Rate_count now (pf_consumeRate p),
      fs_PublishLatencies = calculateLatencyPercentiles (pf_publishLatencies p),
      fs_ConsumeLatencies = calculateLatencyPercentiles (pf_consumeLatencies p)\<rparr>"

definition Reset :: "performance_monitor \<Rightarrow> performance_monitor" where
  "Reset p =
     p\<lparr>pf_connectionsTotal := 0, pf_reconnectionsTotal := 0, pf_publishesTotal := 0,
       pf_publishSuccessTotal := 0, pf_publishErrorsTotal := 0, pf_consumesTotal := 0,
       pf_consumeSuccessTotal := 0, pf_consumeErrorsTotal := 0, pf_publishLatencies := [],
       pf_consumeLatencies := [], pf_publishRate := NewRateTracker minute,
       pf_consumeRate := NewRateTracker minute\<rparr>"

definition GetTotalOperations :: "performance_monitor \<Rightarrow> 64 word" where
  "GetTotalOperations p = pf_publishesTotal p + pf_consumesTotal p"

section \<open>What the tracker keeps\<close>

lemma filter_clean_events:
  "cutoff \<le> c \<Longrightarrow> filter (\<lambda>e. e > c) (clean_events cutoff es) = filter (\<lambda>e. e > c) es"
proof -
  assume "cutoff \<le> c"
  then have "filter (\<lambda>e. e > c) (dropWhile (\<lambda>e. \<not> e > cutoff) es) = filter (\<lambda>e. e > c) es"
    by (induction es) auto
  then show ?thesis by (simp add: clean_events_def Let_def)
qed

lemma window_Record [simp]: "rt_window (Record now r) = rt_window r"
  by (simp add: Record_def)

lemma filter_records:
  "\<forall>t \<in> set ts. t \<le> now \<Longrightarrow> rt_window r' = rt_window r \<Longrightarrow> fold Record ts r = r' \<Longrightarrow>
   filter (\<lambda>e. e > now - rt_window r) (rt_events r') = filter (\<lambda>e. e > now - rt_window r) (rt_events r @ ts)"
proof (induction ts arbitrary: r)
  case (Cons t ts)
  have w: "rt_window (Record t r) = rt_window r" by simp
  have "filter (\<lambda>e. e > now - rt_window (Record t r)) (rt_events r') =
      filter (\<lambda>e. e > now - rt_window (Record t r)) (rt_events (Record t r) @ ts)"
    using Cons.prems by (intro Cons.IH) simp_all
  then show ?case using Cons.prems(1) by (simp add: w Record_def filter_clean_events)
qed simp

lemma window_fold [simp]: "rt_window (fold Record ts r) = rt_window r"
  by (induction ts arbitrary: r) simp_all

text \<open>\<open>keep_latency\<close> keeps the last 1000.\<close>

definition last_n :: "nat \<Rightarrow> 'a list \<Rightarrow> 'a list" where
  "last_n n xs = drop (length xs - n) xs"

lemma keep_latency_last: "keep_latency d (last_n 1000 ls) = last_n 1000 (ls @ [d])"
proof (cases "length ls < 1000")
  case False
  then have "Suc (length ls - 1000) = length ls - 999" by simp
  with False show ?thesis by (simp add: keep_latency_def last_n_def Let_def)
qed (simp add: keep_latency_def last_n_def)

lemma fold_keep_latency: "fold keep_latency ds (last_n 1000 ls) = last_n 1000 (ls @ ds)"
  by (induction ds arbitrary: ls) (simp_all add: keep_latency_last)

section \<open>Properties\<close>

text \<open>A recorded operation: whether it is a publish, its success, its latency and its time.\<close>

type_synonym operation_event = "bool \<times> bool \<times> duration \<times> instant"

definition record_operation :: "operation_event \<Rightarrow> performance_monitor \<Rightarrow> performance_monitor" where
  "record_operation e p =
     (case e of (publish, ok, d, t) \<Rightarrow> if publish then RecordPublish ok d t p else RecordConsume ok d t p)"

definition is_publish :: "operation_event \<Rightarrow> bool" where "is_publish e = fst e"
definition event_ok :: "operation_event \<Rightarrow> bool" where "event_ok e = fst (snd e)"
definition event_latency :: "operation_event \<Rightarrow> duration" where "event_latency e = fst (snd (snd e))"
definition event_time :: "operation_event \<Rightarrow> instant" where "event_time e = snd (snd (snd e))"

lemma publishes_recorded:
  "pf_publishesTotal (fold record_operation es p) = pf_publishesTotal p + of_nat (lcount is_publish es) \<and>
   pf_publishSuccessTotal (fold record_operation es p) =
     pf_publishSuccessTotal p + of_nat (lcount (\<lambda>e. is_publish e \<and> event_ok e) es) \<and>
   pf_publishErrorsTotal (fold record_operation es p) =
     pf_publishErrorsTotal p + of_nat (lcount (\<lambda>e. is_publish e \<and> \<not> event_ok e) es) \<and>
   pf_publishRate (fold record_operation es p) =
     fold Record (map event_time (filter is_publish es)) (pf_publishRate p) \<and>
   pf_publishLatencies (fold record_operation es p) =
     fold keep_latency (map event_latency (filter is_publish es)) (pf_publishLatencies p)"
  by (induction es arbitrary: p)
    (auto simp: record_operation_def RecordPublish_def RecordConsume_def is_publish_def event_ok_def
      event_time_def event_latency_def)

text \<open>After any operations, recorded in any interleaving with consumes, the statistics of a new monitor
  count exactly the publishes, the successful and the failed ones (modulo 2^64); the rate counts
  exactly the publishes within the last minute, although older events are thrown away as it goes;
  and the latencies kept are those of the last thousand publishes.\<close>

lemma performance_stats_truthful:
  assumes "\<forall>e \<in> set es. event_time e \<le> now"
  shows "fs_PublishesTotal (Monitor_GetStats now (fold record_operation es NewMonitor)) = of_nat (lcount is_publish es) \<and>
    fs_PublishSuccessTotal (Monitor_GetStats now (fold record_operation es NewMonitor)) =
      of_nat (lcount (\<lambda>e. is_publish e \<and> event_ok e) es) \<and>
    fs_PublishErrorsTotal (Monitor_GetStats now (fold record_operation es NewMonitor)) =
      of_nat (lcount (\<lambda>e. is_publish e \<and> \<not> event_ok e) es) \<and>
    fs_PublishRate (Monitor_GetStats now (fold record_operation es NewMonitor)) =
      lcount (\<lambda>e. is_publish e \<and> now - minute < event_time e) es \<and>
    pf_publishLatencies (fold record_operation es NewMonitor) =
      last_n 1000 (map event_latency (filter is_publish es))"
proof -
  let ?p = "fold record_operation es NewMonitor" and ?ts = "map event_time (filter is_publish es)"
  have "filter (\<lambda>e. e > now - rt_window (NewRateTracker minute)) (rt_events (fold Record ?ts (NewRateTracker minute))) =
      filter (\<lambda>e. e > now - rt_window (NewRateTracker minute)) (rt_events (NewRateTracker minute) @ ?ts)"
    using assms by (intro filter_records) auto
  then have "Rate_count now (pf_publishRate ?p) = length (filter (\<lambda>t. now - minute < t) ?ts)"
    using publishes_recorded [of es NewMonitor] by (simp add: Rate_count_def NewMonitor_def NewRateTracker_def)
  also have "\<dots> = lcount (\<lambda>e. is_publish e \<and> now - minute < event_time e) es"
    by (simp add: lcount_def filter_map comp_def conj_commute)
  finally have rate: "Rate_count now (pf_publishRate ?p) = lcount (\<lambda>e. is_publish e \<and> now - minute < event_time e) es" .
  have "last_n 1000 ([] :: duration list) = []" by (simp add: last_n_def)
  then have "fold keep_latency ds [] = last_n 1000 ds" for ds using fold_keep_latency [of ds "[]"] by simp
  with publishes_recorded [of es NewMonitor] rate show ?thesis
    by (simp add: Monitor_GetStats_def NewMonitor_def)
qed

text \<open>The latency percentiles depend on the order of the operations: recording the same latencies in
  increasing and in decreasing order gives a 99th percentile that is the highest but one or
  nearly the lowest, below the 50th.\<close>

lemma percentiles_depend_on_order:
  "calculateLatencyPercentiles (map int [0..<100]) = (50, 95, 99) \<and>
   calculateLatencyPercentiles (rev (map int [0..<100])) = (49, 4, 0)"
  by (simp add: calculateLatencyPercentiles_def Let_def rev_nth)

lemma performance_stats_truthful_witness:
  "fs_PublishRate (Monitor_GetStats (70 * second) (fold record_operation
      [(True, True, 3, 1), (False, True, 5, 2), (True, False, 4, 65 * second)] NewMonitor)) = 1"
  using performance_stats_truthful [of "[(True, True, 3, 1), (False, True, 5, 2), (True, False, 4, 65 * second)]" "70 * second"]
  by (simp add: event_time_def is_publish_def minute_def second_def)

end
