(* ===== verification/Batch_Loop.thy ===== *)
theory Batch_Loop
  imports Consumer_Process Labelled_Runs
begin

text \<open>
  The collecting loop of \<open>ConsumeBatch\<close> (src/consumer.go): its setup, its \<open>select\<close> over the
  context, the stop channel, the deliveries and the batch timer, and its exits. A label says which
  ready case the \<open>select\<close> takes, or what the world does meanwhile. What a batch does to its
  deliveries is \<open>processBatch\<close> of Consumer_Process.
\<close>

section \<open>State\<close>

record BatchConsumeConfig =
  bc_BatchSize :: int
  bc_BatchTimeout :: duration
  bc_AutoAck :: bool

definition batch_withDefaults :: "BatchConsumeConfig \<Rightarrow> BatchConsumeConfig" where
  "batch_withDefaults c =
     c\<lparr>bc_BatchSize := if bc_BatchSize c \<le> 0 then 100 else bc_BatchSize c,
       bc_BatchTimeout := if bc_BatchTimeout c \<le> 0 then 5 * second else bc_BatchTimeout c\<rparr>"

definition DefaultBatchConsumeConfig :: BatchConsumeConfig where
  "DefaultBatchConsumeConfig =
     \<lparr>bc_BatchSize = 100, bc_BatchTimeout = 5 * second, bc_AutoAck = False\<rparr>"

lemma defaults_of_zero [simp]:
  "batch_withDefaults \<lparr>bc_BatchSize = 0, bc_BatchTimeout = 0, bc_AutoAck = False\<rparr> = DefaultBatchConsumeConfig"
  by (simp add: batch_withDefaults_def DefaultBatchConsumeConfig_def)

text \<open>The prefetch is enough for a whole batch.\<close>

definition batch_prefetch :: "int \<Rightarrow> BatchConsumeConfig \<Rightarrow> int" where
  "batch_prefetch prefetchCount c =
     (if prefetchCount > 0 \<and> prefetchCount > bc_BatchSize c then prefetchCount else bc_BatchSize c)"

datatype batch_pc = BSelect | BReturned "string option"

text \<open>
  \<open>bl_queue\<close> is what the broker has pushed and the loop has not read; \<open>bl_finished\<close> are the
  deliveries the loop is done with, each with its final processing state, the first one first, and
  \<open>bl_handed\<close> the batches the handler was called with. \<open>bl_since\<close> is when the oldest delivery of
  the current batch was read. \<open>bl_chOpen\<close> says whether the AMQP channel of the call is open.
\<close>

record batch_loop =
  bl_config :: BatchConsumeConfig
  bl_rejectRequeue :: bool
  bl_consumer :: consumerConfig
  bl_main :: batch_pc
  bl_consuming :: bool
  bl_stop :: bool
  bl_ctxDone :: bool
  bl_chOpen :: bool
  bl_closed :: bool
  bl_queue :: "delivery list"
  bl_batch :: "(delivery \<times> processing) list"
  bl_due :: instant
  bl_now :: instant
  bl_health :: consumerHealth
  bl_handed :: "delivery list list"
  bl_finished :: "(delivery \<times> processing) list"
  bl_since :: instant

section \<open>Setup\<close>

text \<open>
  \<open>ConsumeBatch\<close> up to its loop. The arguments are the answers to getting a channel, setting its
  prefetch and subscribing; the channel it gets is number \<open>ch\<close>. \<open>stopped\<close> says whether the stop
  channel of the consumer has been closed before. No exit closes the channel.
\<close>

definition batch_exit :: "bool \<Rightarrow> string option \<Rightarrow> batch_loop \<Rightarrow> batch_loop" where
  "batch_exit clean r s =
     s\<lparr>bl_health := end_consume clean (bl_now s) (bl_health s), bl_consuming := False,
       bl_main := BReturned r\<rparr>"

definition batch_fails :: "string \<Rightarrow> string \<times> int \<Rightarrow> batch_loop \<Rightarrow> batch_loop" where
  "batch_fails what err s =
     batch_exit False (Some (what @ fst err))
       (s\<lparr>bl_health := failed 0 err (bl_now s) (bl_health s)\<rparr>)"

definition ConsumeBatch ::
  "consumerConfig \<Rightarrow> bool \<Rightarrow> BatchConsumeConfig \<Rightarrow> string \<Rightarrow> bool \<Rightarrow> instant \<Rightarrow> consumerHealth \<Rightarrow>
   (string \<times> int) option \<Rightarrow> (string \<times> int) option \<Rightarrow> (string \<times> int) option \<Rightarrow> nat \<Rightarrow> batch_loop" where
  "ConsumeBatch consumer rejectRequeue config queue stopped now h chan_answer qos consume ch =
     (let cf = batch_withDefaults config;
          s = \<lparr>bl_config = cf, bl_rejectRequeue = rejectRequeue, bl_consumer = consumer,
               bl_main = BSelect, bl_consuming = True, bl_stop = stopped, bl_ctxDone = False,
               bl_chOpen = False, bl_closed = False, bl_queue = [], bl_batch = [],
               bl_due = now + bc_BatchTimeout cf, bl_now = now,
               bl_health = begin_consume queue now h, bl_handed = [], bl_finished = [],
               bl_since = now\<rparr> in
      case chan_answer of
        Some e \<Rightarrow> batch_fails ''failed to get channel: '' e s
      | None \<Rightarrow>
          (let s1 = s\<lparr>bl_chOpen := True\<rparr> in
           case qos of
             Some e \<Rightarrow> batch_fails ''failed to set QoS: '' e s1
           | None \<Rightarrow>
               (case consume of
                  Some e \<Rightarrow> batch_fails ''failed to start consuming: '' e s1
                | None \<Rightarrow> s1\<lparr>bl_health := subscribed 0 ch now (bl_health s1)\<rparr>)))"

section \<open>The loop\<close>

text \<open>
  The current batch goes to the handler. The processing states of its deliveries are \<open>NewDelivery\<close>
  guards; the health they share learns of an acknowledgement the channel took.
\<close>

definition share_acks :: "channel \<Rightarrow> instant \<Rightarrow> processing list \<Rightarrow> consumerHealth \<Rightarrow> consumerHealth" where
  "share_acks chan now results h =
     (if chan WireAck = None \<and> list_ex (\<lambda>p. WireAck \<in> set (pr_wire p)) results then acked now h else h)"

definition flush_batch :: "channel \<Rightarrow> batch_handler \<Rightarrow> batch_loop \<Rightarrow> batch_loop" where
  "flush_batch chan handler s =
     (if bl_batch s = [] then s
      else
        (let results = processBatch (bc_AutoAck (bl_config s)) (bl_rejectRequeue s) chan (bl_now s)
               handler (bl_batch s) in
         s\<lparr>bl_batch := [], bl_handed := bl_handed s @ [map fst (bl_batch s)],
           bl_finished := bl_finished s @ zip (map fst (bl_batch s)) results,
           bl_health := share_acks chan (bl_now s) results (bl_health s)\<rparr>))"

definition reset_timer :: "batch_loop \<Rightarrow> batch_loop" where
  "reset_timer s = s\<lparr>bl_due := bl_now s + bc_BatchTimeout (bl_config s)\<rparr>"

text \<open>A delivery that cannot be decoded is rejected and skipped.\<close>

definition skip_undecodable :: "channel \<Rightarrow> delivery \<Rightarrow> processing \<Rightarrow> batch_loop \<Rightarrow> batch_loop" where
  "skip_undecodable chan d p s =
     s\<lparr>bl_finished := bl_finished s @
         [(d, if bc_AutoAck (bl_config s) then p else snd (Reject chan (bl_rejectRequeue s) p))]\<rparr>"

definition take_delivery :: "channel \<Rightarrow> batch_handler \<Rightarrow> delivery \<Rightarrow> batch_loop \<Rightarrow> batch_loop" where
  "take_delivery chan handler d s =
     (let h = delivered (bc_AutoAck (bl_config s)) (bl_now s) (bl_health s);
          s1 = s\<lparr>bl_health := h\<rparr>;
          p = NewDelivery h in
      case decode_batch_message (cn_Encryptor (bl_consumer s)) (cn_Compressor (bl_consumer s)) d of
        (Some _, d1) \<Rightarrow> skip_undecodable chan d1 p s1
      | (None, d1) \<Rightarrow>
          (let s2 = s1\<lparr>bl_batch := bl_batch s @ [(d1, p)],
                       bl_since := if bl_batch s = [] then bl_now s else bl_since s\<rparr> in
           if int (length (bl_batch s2)) \<ge> bc_BatchSize (bl_config s2)
           then reset_timer (flush_batch chan handler s2) else s2))"

datatype batch_case = OnContext | OnStop | OnDelivery | OnTimer

definition batch_select ::
  "batch_case \<Rightarrow> channel \<Rightarrow> batch_handler \<Rightarrow> batch_loop \<Rightarrow> batch_loop option" where
  "batch_select c chan handler s =
     (case bl_main s of
        BReturned _ \<Rightarrow> None
      | BSelect \<Rightarrow>
          (case c of
             OnContext \<Rightarrow>
               if bl_ctxDone s
               then Some (batch_exit True (Some ''context canceled'') (flush_batch chan handler s))
               else None
           | OnStop \<Rightarrow>
               if bl_stop s then Some (batch_exit True None (flush_batch chan handler s)) else None
           | OnDelivery \<Rightarrow>
               (case bl_queue s of
                  d # ds \<Rightarrow> Some (take_delivery chan handler d (s\<lparr>bl_queue := ds\<rparr>))
                | [] \<Rightarrow>
                    if bl_closed s
                    then Some (batch_exit False (Some ''delivery channel closed'')
                           (flush_batch chan handler
                             (s\<lparr>bl_health := closed 0 (bl_now s) (bl_health s)\<rparr>)))
                    else None)
           | OnTimer \<Rightarrow>
               if bl_due s \<le> bl_now s then Some (reset_timer (flush_batch chan handler s)) else None))"

text \<open>
  What the world does: the broker pushes a delivery, the delivery channel closes (with its AMQP
  channel, or alone after a cancel by the broker), the context ends, \<open>Close\<close> signals a consuming
  consumer to stop, time passes.
\<close>

datatype batch_label =
    BTake batch_case channel batch_handler
  | BPush delivery
  | BChannelCloses
  | BCancelled
  | BContextDone
  | BClose
  | BTime duration

fun batch_step :: "batch_label \<Rightarrow> batch_loop \<Rightarrow> batch_loop option" where
  "batch_step (BTake c chan handler) s = batch_select c chan handler s"
| "batch_step (BPush d) s =
     (if bl_chOpen s \<and> \<not> bl_closed s then Some (s\<lparr>bl_queue := bl_queue s @ [d]\<rparr>) else None)"
| "batch_step BChannelCloses s = Some (s\<lparr>bl_chOpen := False, bl_closed := True\<rparr>)"
| "batch_step BCancelled s = Some (s\<lparr>bl_closed := True\<rparr>)"
| "batch_step BContextDone s = Some (s\<lparr>bl_ctxDone := True\<rparr>)"
| "batch_step BClose s =
     Some (if bl_consuming s then s\<lparr>bl_stop := True, bl_consuming := False\<rparr> else s)"
| "batch_step (BTime d) s = (if 0 \<le> d then Some (s\<lparr>bl_now := bl_now s + d\<rparr>) else None)"

fun batch_run :: "batch_label list \<Rightarrow> batch_loop \<Rightarrow> batch_loop option" where
  "batch_run [] s = Some s"
| "batch_run (l # ls) s = (case batch_step l s of None \<Rightarrow> None | Some s' \<Rightarrow> batch_run ls s')"

interpretation batches: labelled_run batch_step batch_run
  by unfold_locales simp_all

text \<open>What the broker has pushed in a run, in order.\<close>

fun pushed :: "batch_label list \<Rightarrow> delivery list" where
  "pushed [] = []"
| "pushed (BPush d # ls) = d # pushed ls"
| "pushed (_ # ls) = pushed ls"


lemma pushed_append: "pushed (ls @ ls') = pushed ls @ pushed ls'"
  by (induction ls rule: pushed.induct) simp_all

lemma pushed_map: "pushed (map BPush ds) = ds"
  by (induction ds) simp_all

section \<open>The invariant of the loop\<close>

definition decodable :: "batch_loop \<Rightarrow> delivery \<Rightarrow> bool" where
  "decodable s d \<longleftrightarrow>
     fst (decode_batch_message (cn_Encryptor (bl_consumer s)) (cn_Compressor (bl_consumer s)) d) = None"

definition decoded :: "batch_loop \<Rightarrow> delivery \<Rightarrow> delivery" where
  "decoded s d =
     snd (decode_batch_message (cn_Encryptor (bl_consumer s)) (cn_Compressor (bl_consumer s)) d)"

text \<open>Nothing is lost: of the deliveries \<open>ts\<close> the loop has read, the decodable ones went to the
  handler in order or wait in the batch, and each one is finished or waits in the batch.\<close>

definition accounts :: "delivery list \<Rightarrow> batch_loop \<Rightarrow> bool" where
  "accounts ts s \<longleftrightarrow>
     concat (bl_handed s) @ map fst (bl_batch s) = map (decoded s) (filter (decodable s) ts) \<and>
     mset (map fst (bl_finished s)) + mset (map fst (bl_batch s)) = mset (map (decoded s) ts)"

definition batch_bounds :: "batch_loop \<Rightarrow> bool" where
  "batch_bounds s \<longleftrightarrow>
     int (length (bl_batch s)) < bc_BatchSize (bl_config s) \<and>
     (\<forall>b\<in>set (bl_handed s). b \<noteq> [] \<and> int (length b) \<le> bc_BatchSize (bl_config s)) \<and>
     (bl_main s \<noteq> BSelect \<longrightarrow> bl_batch s = [])"

definition batch_settled :: "batch_loop \<Rightarrow> bool" where
  "batch_settled s \<longleftrightarrow>
     (\<forall>x\<in>set (bl_batch s). guarded (snd x)) \<and>
     (\<not> bc_AutoAck (bl_config s) \<longrightarrow> (\<forall>x\<in>set (bl_finished s). settlements (snd x) = 1))"

definition batch_timer :: "batch_loop \<Rightarrow> bool" where
  "batch_timer s \<longleftrightarrow>
     0 \<le> bc_BatchTimeout (bl_config s) \<and> bl_due s \<le> bl_now s + bc_BatchTimeout (bl_config s) \<and>
     (bl_batch s \<noteq> [] \<longrightarrow> bl_due s \<le> bl_since s + bc_BatchTimeout (bl_config s))"

lemma processBatch_length: "length (processBatch aa rr chan now handler batch) = length batch"
  by (simp add: processBatch_def split: prod.split)

lemma processBatch_settles:
  assumes "\<forall>x\<in>set batch. guarded (snd x)" and "p \<in> set (processBatch False rr chan now handler batch)"
  shows "settlements p = 1"
proof -
  have l: "length (processBatch False rr chan now handler batch) = length batch"
    by (rule processBatch_length)
  obtain i where i: "i < length batch" and p: "p = processBatch False rr chan now handler batch ! i"
    using assms(2) by (metis in_set_conv_nth l)
  obtain ms r where h: "handler (map fst batch) = (ms, r)" by (cases "handler (map fst batch)")
  have g: "guarded (snd (batch ! i))" using assms(1) nth_mem [OF i] by blast
  have s: "p = settle_one False rr chan now (batch_errors (length batch) r ! i)
      (settle_manually chan now (if i < length ms then ms ! i else []) (snd (batch ! i)))"
    using i by (auto simp: p processBatch_def h Let_def)
  show ?thesis
    unfolding s by (cases "batch_errors (length batch) r ! i")
      (simp_all add: settle_one_def guarded_manually [OF g] settlements_settled)
qed

text \<open>What a flush, an exit and the timer leave alone.\<close>

lemma flush_batch_fields [simp]:
  "bl_config (flush_batch chan h s) = bl_config s" "bl_consumer (flush_batch chan h s) = bl_consumer s"
  "bl_main (flush_batch chan h s) = bl_main s" "bl_queue (flush_batch chan h s) = bl_queue s"
  "bl_due (flush_batch chan h s) = bl_due s" "bl_now (flush_batch chan h s) = bl_now s"
  "bl_batch (flush_batch chan h s) = []" "bl_chOpen (flush_batch chan h s) = bl_chOpen s"
  "bl_closed (flush_batch chan h s) = bl_closed s"
  by (simp_all add: flush_batch_def Let_def)

lemma reset_timer_fields [simp]:
  "bl_config (reset_timer s) = bl_config s" "bl_consumer (reset_timer s) = bl_consumer s"
  "bl_main (reset_timer s) = bl_main s" "bl_queue (reset_timer s) = bl_queue s"
  "bl_now (reset_timer s) = bl_now s" "bl_batch (reset_timer s) = bl_batch s"
  "bl_due (reset_timer s) = bl_now s + bc_BatchTimeout (bl_config s)"
  "bl_handed (reset_timer s) = bl_handed s" "bl_finished (reset_timer s) = bl_finished s"
  "bl_chOpen (reset_timer s) = bl_chOpen s" "bl_closed (reset_timer s) = bl_closed s"
  by (simp_all add: reset_timer_def)

lemma batch_exit_fields [simp]:
  "bl_config (batch_exit c r s) = bl_config s" "bl_consumer (batch_exit c r s) = bl_consumer s"
  "bl_main (batch_exit c r s) = BReturned r" "bl_queue (batch_exit c r s) = bl_queue s"
  "bl_now (batch_exit c r s) = bl_now s" "bl_batch (batch_exit c r s) = bl_batch s"
  "bl_due (batch_exit c r s) = bl_due s" "bl_since (batch_exit c r s) = bl_since s"
  "bl_handed (batch_exit c r s) = bl_handed s" "bl_finished (batch_exit c r s) = bl_finished s"
  "bl_chOpen (batch_exit c r s) = bl_chOpen s" "bl_closed (batch_exit c r s) = bl_closed s"
  by (simp_all add: batch_exit_def)

lemma decode_cong:
  assumes "bl_consumer s' = bl_consumer s"
  shows "decodable s' = decodable s" "decoded s' = decoded s"
  using assms by (auto simp: decodable_def decoded_def)

lemma accounts_same:
  assumes "bl_consumer s' = bl_consumer s" and "bl_batch s' = bl_batch s"
    and "bl_handed s' = bl_handed s" and "bl_finished s' = bl_finished s"
  shows "accounts ts s' = accounts ts s"
  by (simp add: accounts_def assms decode_cong [OF assms(1)])

lemma map_fst_zip_same: "length xs = length ys \<Longrightarrow> map fst (zip xs ys) = xs"
  by simp

lemma accounts_flush: "accounts ts s \<Longrightarrow> accounts ts (flush_batch chan h s)"
proof -
  assume a: "accounts ts s"
  have c: "bl_consumer (flush_batch chan h s) = bl_consumer s" by simp
  show "accounts ts (flush_batch chan h s)"
  proof (cases "bl_batch s = []")
    case True
    with a show ?thesis by (simp add: flush_batch_def)
  next
    case False
    with a show ?thesis unfolding accounts_def decode_cong [OF c]
      by (simp add: flush_batch_def Let_def processBatch_length map_fst_zip_same)
  qed
qed

lemma settled_flush: "batch_settled s \<Longrightarrow> batch_settled (flush_batch chan h s)"
  by (auto simp: batch_settled_def flush_batch_def Let_def
      dest: set_zip_rightD processBatch_settles)


lemma bounds_flush:
  "0 < bc_BatchSize (bl_config s) \<Longrightarrow> int (length (bl_batch s)) \<le> bc_BatchSize (bl_config s) \<Longrightarrow>
   \<forall>b\<in>set (bl_handed s). b \<noteq> [] \<and> int (length b) \<le> bc_BatchSize (bl_config s) \<Longrightarrow>
   batch_bounds (flush_batch chan h s)"
  by (auto simp: batch_bounds_def flush_batch_def Let_def)

text \<open>One delivery read.\<close>

lemma accounts_take:
  assumes "accounts ts s"
  shows "accounts (ts @ [d]) (take_delivery chan h d s)"
proof -
  obtain r d1 where dec: "decode_batch_message (cn_Encryptor (bl_consumer s))
      (cn_Compressor (bl_consumer s)) d = (r, d1)"
    by (cases "decode_batch_message (cn_Encryptor (bl_consumer s)) (cn_Compressor (bl_consumer s)) d")
  let ?hl = "delivered (bc_AutoAck (bl_config s)) (bl_now s) (bl_health s)"
  let ?s1 = "s\<lparr>bl_health := ?hl\<rparr>"
  let ?s2 = "?s1\<lparr>bl_batch := bl_batch s @ [(d1, NewDelivery ?hl)],
    bl_since := if bl_batch s = [] then bl_now s else bl_since s\<rparr>"
  show ?thesis
  proof (cases r)
    case (Some e)
    then have t: "take_delivery chan h d s = skip_undecodable chan d1 (NewDelivery ?hl) ?s1"
      by (simp add: take_delivery_def dec Let_def)
    have c: "bl_consumer (take_delivery chan h d s) = bl_consumer s" by (simp add: t skip_undecodable_def)
    have "\<not> decodable s d" "decoded s d = d1" by (simp_all add: decodable_def decoded_def dec Some)
    with assms show ?thesis unfolding accounts_def decode_cong [OF c] by (simp add: t skip_undecodable_def)
  next
    case None
    have c: "bl_consumer ?s2 = bl_consumer s" by simp
    have "decodable s d" "decoded s d = d1" by (simp_all add: decodable_def decoded_def dec None)
    with assms have a: "accounts (ts @ [d]) ?s2" unfolding accounts_def decode_cong [OF c] by simp
    have "accounts (ts @ [d]) (reset_timer (flush_batch chan h ?s2))"
      using accounts_flush [OF a] by (rule accounts_same [THEN iffD2, rotated -1]) (simp_all add: reset_timer_def)
    with a None show ?thesis by (simp add: take_delivery_def dec Let_def)
  qed
qed

lemma take_delivery_fields [simp]:
  "bl_config (take_delivery chan h d s) = bl_config s" "bl_consumer (take_delivery chan h d s) = bl_consumer s"
  "bl_main (take_delivery chan h d s) = bl_main s" "bl_queue (take_delivery chan h d s) = bl_queue s"
  "bl_now (take_delivery chan h d s) = bl_now s" "bl_chOpen (take_delivery chan h d s) = bl_chOpen s"
  "bl_closed (take_delivery chan h d s) = bl_closed s"
  by (simp_all add: take_delivery_def skip_undecodable_def Let_def split: prod.split option.split)

lemma bounds_take:
  assumes "batch_bounds s" and "bl_main s = BSelect"
  shows "batch_bounds (take_delivery chan h d s)"
proof -
  have size: "0 < bc_BatchSize (bl_config s)" using assms(1) by (auto simp: batch_bounds_def)
  obtain r d1 where dec: "decode_batch_message (cn_Encryptor (bl_consumer s))
      (cn_Compressor (bl_consumer s)) d = (r, d1)"
    by (cases "decode_batch_message (cn_Encryptor (bl_consumer s)) (cn_Compressor (bl_consumer s)) d")
  have reset: "batch_bounds (reset_timer s') = batch_bounds s'" for s'
    by (simp add: batch_bounds_def)
  show ?thesis
    using assms size
    by (cases r; auto simp: take_delivery_def dec Let_def skip_undecodable_def reset
        intro!: bounds_flush) (auto simp: batch_bounds_def)
qed

lemma settled_take:
  assumes "batch_settled s"
  shows "batch_settled (take_delivery chan h d s)"
proof -
  obtain r d1 where dec: "decode_batch_message (cn_Encryptor (bl_consumer s))
      (cn_Compressor (bl_consumer s)) d = (r, d1)"
    by (cases "decode_batch_message (cn_Encryptor (bl_consumer s)) (cn_Compressor (bl_consumer s)) d")
  have reset: "batch_settled (reset_timer s') = batch_settled s'" for s'
    by (simp add: batch_settled_def)
  show ?thesis
  proof (cases r)
    case None
    show ?thesis
      using assms by (auto simp: take_delivery_def dec None Let_def reset intro!: settled_flush)
        (auto simp: batch_settled_def)
  next
    case (Some e)
    with assms show ?thesis
      by (auto simp: take_delivery_def dec Let_def skip_undecodable_def batch_settled_def settlements_settled)
  qed
qed

lemma timer_take:
  assumes "batch_timer s"
  shows "batch_timer (take_delivery chan h d s)"
  using assms
  by (auto simp: take_delivery_def skip_undecodable_def batch_timer_def Let_def split: prod.split option.split)


definition batch_inv :: "delivery list \<Rightarrow> batch_loop \<Rightarrow> bool" where
  "batch_inv ps s \<longleftrightarrow>
     (\<exists>ts. ps = ts @ bl_queue s \<and> accounts ts s) \<and> batch_bounds s \<and> batch_settled s \<and> batch_timer s"

lemma batch_inv_start:
  "batch_inv [] (ConsumeBatch consumer rr config queue stopped now h a q c ch)"
proof -
  have "0 < bc_BatchSize (batch_withDefaults config) \<and> 0 \<le> bc_BatchTimeout (batch_withDefaults config)"
    by (simp add: batch_withDefaults_def second_def)
  then show ?thesis
    by (simp add: batch_inv_def ConsumeBatch_def batch_fails_def Let_def accounts_def batch_bounds_def
        batch_settled_def batch_timer_def batch_exit_def split: option.split)
qed

lemma batch_inv_same:
  assumes "batch_inv ps s" and "bl_config s' = bl_config s" and "bl_consumer s' = bl_consumer s"
    and "bl_main s' = bl_main s" and "bl_queue s' = bl_queue s @ new" and "bl_batch s' = bl_batch s"
    and "bl_handed s' = bl_handed s" and "bl_finished s' = bl_finished s"
    and "bl_due s' = bl_due s" and "bl_since s' = bl_since s" and "bl_now s \<le> bl_now s'"
  shows "batch_inv (ps @ new) s'"
  using assms accounts_same [OF assms(3,6,7,8)]
  by (auto simp: batch_inv_def batch_bounds_def batch_settled_def batch_timer_def)

lemma batch_inv_flush:
  assumes "batch_inv ps s"
  shows "batch_inv ps (flush_batch chan h s)"
proof -
  have "batch_bounds (flush_batch chan h s)"
    using assms by (intro bounds_flush) (auto simp: batch_inv_def batch_bounds_def)
  moreover have "batch_timer (flush_batch chan h s)"
    using assms by (simp add: batch_inv_def batch_timer_def)
  ultimately show ?thesis
    using assms accounts_flush settled_flush unfolding batch_inv_def by fastforce
qed

lemma accounts_exit [simp]: "accounts ts (batch_exit c r s) = accounts ts s"
  by (rule accounts_same) simp_all

lemma accounts_reset [simp]: "accounts ts (reset_timer s) = accounts ts s"
  by (rule accounts_same) simp_all

lemma batch_inv_exit: "batch_inv ps s \<Longrightarrow> bl_batch s = [] \<Longrightarrow> batch_inv ps (batch_exit c r s)"
  by (auto simp: batch_inv_def batch_timer_def batch_bounds_def batch_settled_def)

lemma batch_inv_reset: "batch_inv ps s \<Longrightarrow> bl_batch s = [] \<Longrightarrow> batch_inv ps (reset_timer s)"
  by (auto simp: batch_inv_def batch_timer_def batch_bounds_def batch_settled_def)

lemmas batch_inv_quiet = batch_inv_same [where new = "[]", simplified]

lemma batch_inv_health: "batch_inv ps s \<Longrightarrow> batch_inv ps (s\<lparr>bl_health := h\<rparr>)"
  using batch_inv_same [of ps s "s\<lparr>bl_health := h\<rparr>" "[]"] by simp

lemma batch_inv_take:
  assumes "batch_inv ps s" and "bl_main s = BSelect" and "bl_queue s = d # ds"
  shows "batch_inv ps (take_delivery chan h d (s\<lparr>bl_queue := ds\<rparr>))"
proof -
  let ?s = "s\<lparr>bl_queue := ds\<rparr>"
  obtain ts where ts: "ps = ts @ d # ds" "accounts ts s"
    using assms(1,3) by (auto simp: batch_inv_def)
  have "accounts ts ?s" using ts(2) by (rule accounts_same [THEN iffD2, rotated -1]) simp_all
  then have "accounts (ts @ [d]) (take_delivery chan h d ?s)" by (rule accounts_take)
  moreover have "batch_bounds ?s" "batch_settled ?s" "batch_timer ?s"
    using assms(1) by (simp_all add: batch_inv_def batch_bounds_def batch_settled_def batch_timer_def)
  ultimately show ?thesis
    using assms(2) ts(1) by (auto simp: batch_inv_def intro: bounds_take settled_take timer_take)
qed

lemma batch_inv_step:
  assumes "batch_inv ps s" and "batch_step l s = Some s'"
  shows "batch_inv (ps @ pushed [l]) s'"
proof (cases l)
  case (BTake c chan h)
  with assms(2) have main: "bl_main s = BSelect"
    by (auto simp: batch_select_def split: batch_pc.splits)
  show ?thesis
  proof (cases c)
    case OnDelivery
    show ?thesis
    proof (cases "bl_queue s")
      case Nil
      with OnDelivery BTake assms main show ?thesis
        by (auto simp: batch_select_def intro!: batch_inv_exit batch_inv_flush batch_inv_health
            split: if_splits)
    next
      case (Cons d ds)
      with OnDelivery BTake assms main show ?thesis
        by (auto simp: batch_select_def intro!: batch_inv_take)
    qed
  qed (use BTake assms main in \<open>auto simp: batch_select_def
      intro!: batch_inv_exit batch_inv_flush batch_inv_reset split: if_splits\<close>)
next
  case (BPush d)
  with assms show ?thesis by (auto intro!: batch_inv_same [OF assms(1)] split: if_splits)
next
  case BChannelCloses
  with assms show ?thesis by (auto intro!: batch_inv_quiet [OF assms(1)])
next
  case BCancelled
  with assms show ?thesis by (auto intro!: batch_inv_quiet [OF assms(1)])
next
  case BContextDone
  with assms show ?thesis by (auto intro!: batch_inv_quiet [OF assms(1)])
next
  case BClose
  with assms show ?thesis by (auto intro!: batch_inv_quiet [OF assms(1)] split: if_splits)
next
  case (BTime d)
  with assms show ?thesis by (auto intro!: batch_inv_quiet [OF assms(1)] split: if_splits)
qed

lemma batch_inv_run: "batch_inv ps s \<Longrightarrow> batch_run ls s = Some s' \<Longrightarrow> batch_inv (ps @ pushed ls) s'"
  using batches.history [where H = "\<lambda>ls. batch_inv (ps @ pushed ls)" and ps = "[]"] batch_inv_step
  by (fastforce simp: pushed_append)

section \<open>What the loop promises, and what it does not\<close>

text \<open>C22: a batch consumer loses nothing and keeps the order: the decodable deliveries it has read
  went to the handler in the order of their arrival, in batches of at most the configured size, or
  wait in the current batch; with manual acknowledgement each delivery it is done with was settled
  exactly once; and once it has returned no delivery it has read is left over.\<close>

theorem batch_consumer_loses_nothing:
  assumes "batch_run ls (ConsumeBatch consumer rr config queue stopped now h a q c ch) = Some s"
  shows "\<exists>taken. pushed ls = taken @ bl_queue s \<and>
    concat (bl_handed s) @ map fst (bl_batch s) = map (decoded s) (filter (decodable s) taken) \<and>
    mset (map fst (bl_finished s)) + mset (map fst (bl_batch s)) = mset (map (decoded s) taken) \<and>
    (\<forall>b\<in>set (bl_handed s). b \<noteq> [] \<and> int (length b) \<le> bc_BatchSize (bl_config s)) \<and>
    (\<not> bc_AutoAck (bl_config s) \<longrightarrow> (\<forall>x\<in>set (bl_finished s). settlements (snd x) = 1)) \<and>
    (bl_main s \<noteq> BSelect \<longrightarrow> bl_batch s = [])"
proof -
  have i: "batch_inv (pushed ls) s" using batch_inv_run [OF batch_inv_start assms] by simp
  then obtain ts where "pushed ls = ts @ bl_queue s" "accounts ts s" by (auto simp: batch_inv_def)
  with i show ?thesis
    by (intro exI [of _ ts]) (auto simp: batch_inv_def accounts_def batch_bounds_def batch_settled_def)
qed


text \<open>After the return nothing is read any more, and as long as the channel is open the broker
  goes on pushing.\<close>

lemma returned_step:
  assumes "bl_main s = BReturned r" and "batch_step l s = Some s'"
  shows "bl_main s' = BReturned r \<and> bl_finished s' = bl_finished s \<and> bl_batch s' = bl_batch s \<and>
    bl_queue s' = bl_queue s @ pushed [l]"
  using assms by (cases l) (auto simp: batch_select_def split: if_splits)

lemma returned_run:
  assumes "bl_main s = BReturned r" and "batch_run ls s = Some s'"
  shows "bl_finished s' = bl_finished s \<and> bl_queue s' = bl_queue s @ pushed ls"
proof -
  have "bl_main s' = BReturned r \<and> bl_finished s' = bl_finished s \<and> bl_queue s' = bl_queue s @ pushed ([] @ ls)"
    by (rule batches.history [where H = "\<lambda>ls x. bl_main x = BReturned r \<and> bl_finished x = bl_finished s \<and>
          bl_queue x = bl_queue s @ pushed ls", OF assms(2)])
      (use assms(1) in \<open>auto simp: pushed_append dest: returned_step\<close>)
  then show ?thesis by simp
qed

lemma open_step:
  assumes "batch_step l s = Some s'" and "l \<noteq> BChannelCloses" and "l \<noteq> BCancelled"
  shows "bl_chOpen s' = bl_chOpen s \<and> bl_closed s' = bl_closed s"
proof (cases l)
  case (BTake c chan h)
  with assms(1) show ?thesis
    by (auto simp: batch_select_def split: batch_pc.splits batch_case.splits list.splits if_splits)
qed (use assms in \<open>auto split: if_splits\<close>)

lemma open_run:
  "batch_run ls s = Some s' \<Longrightarrow> BChannelCloses \<notin> set ls \<Longrightarrow> BCancelled \<notin> set ls \<Longrightarrow>
   bl_chOpen s' = bl_chOpen s \<and> bl_closed s' = bl_closed s"
  by (rule batches.invariant_among [where P = "\<lambda>x. bl_chOpen x = bl_chOpen s \<and> bl_closed x = bl_closed s"
        and Q = "\<lambda>l. l \<noteq> BChannelCloses \<and> l \<noteq> BCancelled"]) (auto dest: open_step)

lemma push_all: "bl_chOpen s \<Longrightarrow> \<not> bl_closed s \<Longrightarrow> \<exists>s'. batch_run (map BPush ds) s = Some s'"
  by (induction ds arbitrary: s) simp_all


text \<open>The stop channel of a consumer is made once for all calls of ConsumeBatch, and \<open>Consume\<close>
  leaves it closed when it ends: the next ConsumeBatch is stopped before it starts.\<close>

lemma stopped_before_start:
  "\<exists>s. batch_step (BTake OnStop chan handler)
      (ConsumeBatch consumer rr config queue True now h None None None ch) = Some s \<and>
    bl_main s = BReturned None \<and> bl_handed s = []"
  by (simp add: ConsumeBatch_def batch_select_def batch_exit_def flush_batch_def Let_def)

section \<open>A run\<close>

definition demo_batch_consumer :: batch_loop where
  "demo_batch_consumer =
     ConsumeBatch (plain_config 0 QueueTypeQuorum None) True
       \<lparr>bc_BatchSize = 2, bc_BatchTimeout = 0, bc_AutoAck = False\<rparr> ''q'' False 1 zero_health
       None None None 7"

abbreviation (input) all_fine :: batch_handler where "all_fine \<equiv> \<lambda>ds. ([], Inr [])"

definition batch_demo_run :: "batch_label list" where
  "batch_demo_run =
     replicate 3 (BPush (demo_delivery (demo_message []))) @
     replicate 3 (BTake OnDelivery (\<lambda>_. None) all_fine)"

lemmas batch_demo_simps = demo_batch_consumer_def batch_demo_run_def ConsumeBatch_def
  batch_withDefaults_def second_def batch_select_def take_delivery_def decode_batch_message_def
  plain_config_def flush_batch_def reset_timer_def processBatch_def batch_errors_def fit_errors_def
  settle_one_def eval_nat_numeral Let_def

theorem batch_consumer_loses_nothing_witness:
  "\<exists>s. batch_run batch_demo_run demo_batch_consumer = Some s \<and> length (bl_finished s) = 2 \<and>
     (\<forall>x\<in>set (bl_finished s). settlements (snd x) = 1)"
proof -
  obtain s where s: "batch_run batch_demo_run demo_batch_consumer = Some s"
    and f: "length (bl_finished s) = 2" "\<not> bc_AutoAck (bl_config s)"
    by (simp add: batch_demo_simps)
  with batch_consumer_loses_nothing [OF s [unfolded demo_batch_consumer_def]] show ?thesis by auto
qed



end
