(* ===== verification/Worker_Loop.thy ===== *)
theory Worker_Loop
  imports Consumer_Process Consumer_Loop
begin

text \<open>
  Consuming with a channel per worker (src/consumer.go): \<open>consumeWithChannelPerWorker\<close>,
  \<open>workerWithOwnChannel\<close> with \<open>processDeliveriesWithOwnChannel\<close>, and \<open>Close\<close>. Every worker has a
  program counter that carries the channel it holds; a label says which goroutine moves.
\<close>

section \<open>State\<close>

datatype own_worker =
    OwTop
  | OwQos nat
  | OwSubscribe nat
  | OwSelect nat
  | OwBusy nat
  | OwDelay instant
  | OwDone

datatype own_main =
    OmStart
  | OmSpawn nat
  | OmWait
  | OmDrain "string option"
  | OmUnlock "string option"
  | OmReturned "string option"

text \<open>
  Channel 1 is the one the consumer was created with; the workers' channels are numbered from 2 in
  the order they are opened. \<open>ow_ended n\<close> says that the delivery channel of \<open>n\<close> has been closed.
\<close>

record own_loop =
  ow_concurrency :: nat
  ow_setsQos :: bool
  ow_autoAck :: bool
  ow_delay :: duration
  ow_main :: own_main
  ow_workers :: "own_worker list"
  ow_next :: nat
  ow_open :: "nat \<Rightarrow> bool"
  ow_ended :: "nat \<Rightarrow> bool"
  ow_deliveries :: "nat \<Rightarrow> nat"
  ow_stop :: bool
  ow_ctxDone :: bool
  ow_consuming :: bool
  ow_closer :: closer
  ow_health :: consumerHealth
  ow_now :: instant

definition start_own :: "string \<Rightarrow> nat \<Rightarrow> bool \<Rightarrow> bool \<Rightarrow> duration \<Rightarrow> instant \<Rightarrow> own_loop" where
  "start_own queue n qos autoAck delay now =
     \<lparr>ow_concurrency = n, ow_setsQos = qos, ow_autoAck = autoAck, ow_delay = delay,
      ow_main = OmStart, ow_workers = [], ow_next = 2, ow_open = (\<lambda>k. k = 1),
      ow_ended = (\<lambda>_. False), ow_deliveries = (\<lambda>_. 0), ow_stop = False, ow_ctxDone = False,
      ow_consuming = True, ow_closer = CloseNotCalled,
      ow_health = begin_consume queue now zero_health, ow_now = now\<rparr>"

section \<open>Workers\<close>

definition stopping :: "own_loop \<Rightarrow> bool" where
  "stopping s \<longleftrightarrow> ow_ctxDone s \<or> ow_stop s"

definition goto :: "nat \<Rightarrow> own_worker \<Rightarrow> own_loop \<Rightarrow> own_loop" where
  "goto i w s = s\<lparr>ow_workers := (ow_workers s)[i := w]\<rparr>"

definition shut :: "nat \<Rightarrow> own_loop \<Rightarrow> own_loop" where
  "shut n s = s\<lparr>ow_open := (ow_open s)(n := False), ow_ended := (ow_ended s)(n := True)\<rparr>"

definition own_retry :: "nat \<Rightarrow> string \<times> int \<Rightarrow> own_loop \<Rightarrow> own_loop" where
  "own_retry i err s =
     goto i (OwDelay (ow_now s + max (ow_delay s) minReconnectDelay))
       (s\<lparr>ow_health := failed (int i) err (ow_now s) (ow_health s)\<rparr>)"

definition open_own :: "nat \<Rightarrow> own_loop \<Rightarrow> own_loop" where
  "open_own i s =
     (let n = ow_next s in
      goto i (if ow_setsQos s then OwQos n else OwSubscribe n)
        (s\<lparr>ow_next := Suc n, ow_open := (ow_open s)(n := True),
           ow_ended := (ow_ended s)(n := False), ow_deliveries := (ow_deliveries s)(n := 0)\<rparr>))"

text \<open>The worker leaves its deliveries: its channel is closed whether it broke or not.\<close>

definition leave_own :: "nat \<Rightarrow> nat \<Rightarrow> bool \<Rightarrow> own_loop \<Rightarrow> own_loop" where
  "leave_own i n channelOK s =
     goto i (if channelOK then OwTop else OwDelay (ow_now s + max (ow_delay s) minReconnectDelay))
       (shut n (s\<lparr>ow_health := closed (int i) (ow_now s) (ow_health s)\<rparr>))"

text \<open>
  One step of worker \<open>i\<close>. \<open>ans\<close> is the answer of the operation it makes, and \<open>other\<close> the choice of
  a \<open>select\<close> that could also take its stop case.
\<close>

definition own_step :: "nat \<Rightarrow> (string \<times> int) option \<Rightarrow> bool \<Rightarrow> own_loop \<Rightarrow> own_loop option" where
  "own_step i ans other s =
     (if length (ow_workers s) \<le> i then None
      else
        (case ow_workers s ! i of
           OwTop \<Rightarrow>
             Some (if stopping s then goto i OwDone s
                   else case ans of Some err \<Rightarrow> own_retry i err s | None \<Rightarrow> open_own i s)
         | OwQos n \<Rightarrow>
             (case ans of
                Some err \<Rightarrow> Some (shut n (own_retry i err s))
              | None \<Rightarrow> if ow_open s n then Some (goto i (OwSubscribe n) s) else None)
         | OwSubscribe n \<Rightarrow>
             (case ans of
                Some err \<Rightarrow> Some (shut n (own_retry i err s))
              | None \<Rightarrow>
                  if ow_open s n
                  then Some (goto i (OwSelect n)
                    (s\<lparr>ow_health := subscribed (int i) n (ow_now s) (ow_health s)\<rparr>))
                  else None)
         | OwSelect n \<Rightarrow>
             if stopping s \<and> \<not> other then Some (leave_own i n True s)
             else if ow_deliveries s n > 0
             then Some (goto i (OwBusy n)
               (s\<lparr>ow_deliveries := (ow_deliveries s)(n := ow_deliveries s n - 1),
                  ow_health := delivered (ow_autoAck s) (ow_now s) (ow_health s)\<rparr>))
             else if ow_ended s n then Some (leave_own i n False s)
             else None
         | OwBusy n \<Rightarrow> Some (goto i (OwSelect n) s)
         | OwDelay due \<Rightarrow>
             if stopping s \<and> \<not> (other \<and> due \<le> ow_now s) then Some (goto i OwDone s)
             else if due \<le> ow_now s then Some (goto i OwTop s)
             else None
         | OwDone \<Rightarrow> None))"

section \<open>The caller of Consume, and Close\<close>

definition own_done :: "own_loop \<Rightarrow> bool" where
  "own_done s = list_all (\<lambda>w. w = OwDone) (ow_workers s)"

text \<open>\<open>Close\<close> holds the consumer's lock from its first step to its last.\<close>

definition closer_holds :: "own_loop \<Rightarrow> bool" where
  "closer_holds s \<longleftrightarrow> ow_closer s = CloseWaitsWorkers \<or> ow_closer s = CloseChannel"

definition own_main_step :: "bool \<Rightarrow> own_loop \<Rightarrow> own_loop option" where
  "own_main_step other s =
     (case ow_main s of
        OmStart \<Rightarrow> Some (s\<lparr>ow_stop := False, ow_main := OmSpawn (ow_concurrency s)\<rparr>)
      | OmSpawn n \<Rightarrow>
          (case n of
             0 \<Rightarrow> Some (s\<lparr>ow_main := OmWait\<rparr>)
           | Suc k \<Rightarrow> Some (s\<lparr>ow_workers := ow_workers s @ [OwTop], ow_main := OmSpawn k\<rparr>))
      | OmWait \<Rightarrow>
          if ow_ctxDone s \<and> \<not> (other \<and> ow_stop s)
          then Some (s\<lparr>ow_stop := True, ow_main := OmDrain (Some ''context canceled'')\<rparr>)
          else if ow_stop s then Some (s\<lparr>ow_main := OmDrain None\<rparr>)
          else None
      | OmDrain r \<Rightarrow>
          if own_done s
          then Some (s\<lparr>ow_health := end_consume True (ow_now s) (ow_health s), ow_main := OmUnlock r\<rparr>)
          else None
      | OmUnlock r \<Rightarrow>
          if closer_holds s then None else Some (s\<lparr>ow_consuming := False, ow_main := OmReturned r\<rparr>)
      | OmReturned r \<Rightarrow> None)"

definition own_close_step :: "own_loop \<Rightarrow> own_loop option" where
  "own_close_step s =
     (case ow_closer s of
        CloseNotCalled \<Rightarrow>
          Some (if ow_consuming s then s\<lparr>ow_stop := True, ow_closer := CloseWaitsWorkers\<rparr>
                else s\<lparr>ow_closer := CloseChannel\<rparr>)
      | CloseWaitsWorkers \<Rightarrow>
          if own_done s then Some (s\<lparr>ow_consuming := False, ow_closer := CloseChannel\<rparr>) else None
      | CloseChannel \<Rightarrow> Some ((shut 1 s)\<lparr>ow_closer := CloseDone\<rparr>)
      | CloseDone \<Rightarrow> None)"

section \<open>Interleavings\<close>

text \<open>A channel may break at any time, and the broker may cancel the subscription on it.\<close>

datatype own_label =
    OMain bool
  | OWorker nat "(string \<times> int) option" bool
  | OClose
  | ODelivery nat
  | OChannelCloses nat
  | OCancelled nat nat
  | OContextDone
  | OTime duration

fun own_loop_step :: "own_label \<Rightarrow> own_loop \<Rightarrow> own_loop option" where
  "own_loop_step (OMain other) s = own_main_step other s"
| "own_loop_step (OWorker i ans other) s = own_step i ans other s"
| "own_loop_step OClose s = own_close_step s"
| "own_loop_step (ODelivery n) s =
     (if ow_open s n \<and> \<not> ow_ended s n
      then Some (s\<lparr>ow_deliveries := (ow_deliveries s)(n := Suc (ow_deliveries s n))\<rparr>) else None)"
| "own_loop_step (OChannelCloses n) s = Some (shut n s)"
| "own_loop_step (OCancelled i n) s =
     Some (s\<lparr>ow_ended := (ow_ended s)(n := True),
             ow_health := cancelledByBroker (int i) n (ow_now s) (ow_health s)\<rparr>)"
| "own_loop_step OContextDone s = Some (s\<lparr>ow_ctxDone := True\<rparr>)"
| "own_loop_step (OTime d) s = (if 0 \<le> d then Some (s\<lparr>ow_now := ow_now s + d\<rparr>) else None)"

fun own_run :: "own_label list \<Rightarrow> own_loop \<Rightarrow> own_loop option" where
  "own_run [] s = Some s"
| "own_run (l # ls) s = (case own_loop_step l s of None \<Rightarrow> None | Some s' \<Rightarrow> own_run ls s')"

interpretation own_workers: labelled_run own_loop_step own_run
  by unfold_locales simp_all

section \<open>Which channels are open\<close>

fun held :: "own_worker \<Rightarrow> nat option" where
  "held (OwQos n) = Some n"
| "held (OwSubscribe n) = Some n"
| "held (OwSelect n) = Some n"
| "held (OwBusy n) = Some n"
| "held _ = None"

definition holds :: "own_loop \<Rightarrow> nat \<Rightarrow> nat \<Rightarrow> bool" where
  "holds s i n \<longleftrightarrow> i < length (ow_workers s) \<and> held (ow_workers s ! i) = Some n"

definition channels_held :: "own_loop \<Rightarrow> bool" where
  "channels_held s \<longleftrightarrow>
     (\<forall>n\<ge>2. ow_open s n \<longrightarrow> (\<exists>i. holds s i n)) \<and>
     (\<forall>i j n. holds s i n \<longrightarrow> holds s j n \<longrightarrow> i = j) \<and>
     (\<forall>i n. holds s i n \<longrightarrow> 2 \<le> n \<and> n < ow_next s) \<and> 2 \<le> ow_next s"

lemma holds_simps [simp]:
  "holds (s\<lparr>ow_health := h\<rparr>) = holds s" "holds (s\<lparr>ow_stop := b\<rparr>) = holds s"
  "holds (s\<lparr>ow_main := m\<rparr>) = holds s" "holds (s\<lparr>ow_now := t\<rparr>) = holds s"
  "holds (s\<lparr>ow_closer := c\<rparr>) = holds s" "holds (s\<lparr>ow_consuming := b\<rparr>) = holds s"
  "holds (s\<lparr>ow_deliveries := f\<rparr>) = holds s" "holds (s\<lparr>ow_ctxDone := b\<rparr>) = holds s"
  "holds (s\<lparr>ow_open := g\<rparr>) = holds s" "holds (s\<lparr>ow_ended := g\<rparr>) = holds s"
  "holds (s\<lparr>ow_next := k\<rparr>) = holds s" "holds (shut k s) = holds s"
  by (simp_all add: holds_def shut_def fun_eq_iff)

lemma holds_goto:
  "i < length (ow_workers s) \<Longrightarrow>
   holds (goto i w s) j n \<longleftrightarrow> (if j = i then held w = Some n else holds s j n)"
  by (auto simp: holds_def goto_def)

lemma goto_fields [simp]:
  "ow_open (goto i w s) = ow_open s" "ow_next (goto i w s) = ow_next s" "ow_now (goto i w s) = ow_now s"
  "ow_main (goto i w s) = ow_main s" "ow_ended (goto i w s) = ow_ended s"
  "ow_deliveries (goto i w s) = ow_deliveries s" "ow_concurrency (goto i w s) = ow_concurrency s"
  "ow_workers (goto i w s) = (ow_workers s)[i := w]" "ow_stop (goto i w s) = ow_stop s"
  "ow_ctxDone (goto i w s) = ow_ctxDone s"
  by (simp_all add: goto_def)

lemma shut_fields [simp]:
  "ow_open (shut n s) = (ow_open s)(n := False)" "ow_next (shut n s) = ow_next s"
  "ow_now (shut n s) = ow_now s" "ow_main (shut n s) = ow_main s" "ow_workers (shut n s) = ow_workers s"
  "ow_ended (shut n s) = (ow_ended s)(n := True)" "ow_deliveries (shut n s) = ow_deliveries s"
  "ow_concurrency (shut n s) = ow_concurrency s" "ow_stop (shut n s) = ow_stop s"
  "ow_ctxDone (shut n s) = ow_ctxDone s"
  by (simp_all add: shut_def)


lemma goto_shut: "goto i w (shut n s) = shut n (goto i w s)"
  by (simp add: goto_def shut_def)

lemma channels_held_same:
  assumes "channels_held s" and "holds s' = holds s" and "ow_next s' = ow_next s"
    and "\<And>n. 2 \<le> n \<Longrightarrow> ow_open s' n \<Longrightarrow> ow_open s n"
  shows "channels_held s'"
  using assms unfolding channels_held_def by simp

lemma channels_held_keep:
  assumes "channels_held s" and "i < length (ow_workers s)" and "held w = held (ow_workers s ! i)"
  shows "channels_held (goto i w s)"
proof (rule channels_held_same [OF assms(1)])
  show "holds (goto i w s) = holds s"
    using assms(2,3) by (auto simp: fun_eq_iff holds_goto) (auto simp: holds_def)
qed simp_all

lemma channels_held_release:
  assumes "channels_held s" and "holds s i n" and "held w = None"
  shows "channels_held (shut n (goto i w s))"
proof -
  have i: "i < length (ow_workers s)" using assms(2) by (simp add: holds_def)
  have u: "j = i" if "holds s j n" for j using assms(1,2) that by (auto simp: channels_held_def)
  show ?thesis
    unfolding channels_held_def
  proof (intro conjI allI impI)
    fix k assume "2 \<le> k" and k: "ow_open (shut n (goto i w s)) k"
    then obtain j where j: "holds s j k" "k \<noteq> n"
      using assms(1) by (auto simp: channels_held_def split: if_splits)
    then have "j \<noteq> i" using assms(2) by (auto simp: holds_def)
    with j show "\<exists>j. holds (shut n (goto i w s)) j k"
      by (intro exI [of _ j]) (simp add: holds_goto [OF i])
  next
    fix j j' k assume "holds (shut n (goto i w s)) j k" "holds (shut n (goto i w s)) j' k"
    with assms(1,3) show "j = j'" by (auto simp: holds_goto [OF i] channels_held_def split: if_splits)
  next
    fix j k assume h: "holds (shut n (goto i w s)) j k"
    with assms(1,3) show "2 \<le> k" by (auto simp: holds_goto [OF i] channels_held_def split: if_splits)
    from h assms(1,3) show "k < ow_next (shut n (goto i w s))"
      by (auto simp: holds_goto [OF i] channels_held_def split: if_splits)
  next
    show "2 \<le> ow_next (shut n (goto i w s))" using assms(1) by (simp add: channels_held_def)
  qed
qed

lemma channels_held_open:
  assumes "channels_held s" and i: "i < length (ow_workers s)" and "held (ow_workers s ! i) = None"
  shows "channels_held (open_own i s)"
proof -
  let ?n = "ow_next s"
  have h: "holds (open_own i s) j k \<longleftrightarrow> (if j = i then k = ?n else holds s j k)" for j k
    by (auto simp: open_own_def Let_def holds_goto i)
  have o: "ow_open (open_own i s) = (ow_open s)(?n := True)" "ow_next (open_own i s) = Suc ?n"
    by (simp_all add: open_own_def Let_def)
  have ni: "\<not> holds s i k" for k using assms(3) by (simp add: holds_def)
  have lt: "holds s j k \<Longrightarrow> 2 \<le> k \<and> k < ?n" for j k using assms(1) by (auto simp: channels_held_def)
  show ?thesis
    unfolding channels_held_def
  proof (intro conjI allI impI)
    fix k assume k: "2 \<le> k" "ow_open (open_own i s) k"
    show "\<exists>j. holds (open_own i s) j k"
    proof (cases "k = ?n")
      case True
      then show ?thesis by (intro exI [of _ i]) (simp add: h)
    next
      case False
      with k o obtain j where "holds s j k" using assms(1) by (auto simp: channels_held_def)
      with ni show ?thesis by (intro exI [of _ j]) (auto simp: h)
    qed
  next
    fix j j' k assume "holds (open_own i s) j k" "holds (open_own i s) j' k"
    with assms(1) show "j = j'" by (auto simp: h channels_held_def dest: lt split: if_splits)
  next
    fix j k assume "holds (open_own i s) j k"
    then show "2 \<le> k" "k < ow_next (open_own i s)"
      using assms(1) by (auto simp: h o channels_held_def dest: lt split: if_splits)
  next
    show "2 \<le> ow_next (open_own i s)" using assms(1) by (simp add: o channels_held_def)
  qed
qed

lemma channels_held_health: "channels_held s \<Longrightarrow> channels_held (s\<lparr>ow_health := h\<rparr>)"
  by (erule channels_held_same) simp_all

lemma channels_held_worker:
  assumes "channels_held s" and "own_step i ans other s = Some s'"
  shows "channels_held s'"
proof -
  have i: "i < length (ow_workers s)" using assms(2) by (auto simp: own_step_def split: if_splits)
  note keep = channels_held_keep [OF _ _]
  have keep: "channels_held (goto i w s1)"
    if "channels_held s1" "ow_workers s1 = ow_workers s" "held w = held (ow_workers s ! i)" for w s1
    using channels_held_keep [of s1 i w] that i by simp
  have rel: "channels_held (shut n (goto i w s1))"
    if "channels_held s1" "ow_workers s1 = ow_workers s" "held (ow_workers s ! i) = Some n" "held w = None" for n w s1
    using channels_held_release [of s1 i n w] that i by (simp add: holds_def)
  have dl: "channels_held (s\<lparr>ow_deliveries := f, ow_health := h\<rparr>)" for f h
    by (rule channels_held_same [OF assms(1)]) simp_all
  note H = channels_held_health [OF assms(1)]
  show ?thesis
  proof (cases "ow_workers s ! i")
    case OwTop
    with assms i show ?thesis
      by (auto simp: own_step_def own_retry_def intro!: keep H assms(1) channels_held_open
          split: if_splits option.splits)
  next
    case (OwQos n)
    with assms i show ?thesis
      by (auto simp: own_step_def own_retry_def intro!: keep rel H assms(1)
          split: if_splits option.splits)
  next
    case (OwSubscribe n)
    with assms i show ?thesis
      by (auto simp: own_step_def own_retry_def intro!: keep rel H assms(1)
          split: if_splits option.splits)
  next
    case (OwSelect n)
    with assms i show ?thesis
      by (auto simp: own_step_def leave_own_def goto_shut intro!: keep rel H dl split: if_splits)
  next
    case (OwBusy n)
    with assms i show ?thesis by (auto simp: own_step_def intro!: keep)
  next
    case (OwDelay d)
    with assms i show ?thesis by (auto simp: own_step_def intro!: keep split: if_splits)
  next
    case OwDone
    with assms i show ?thesis by (simp add: own_step_def)
  qed
qed

lemma holds_append: "holds (s\<lparr>ow_workers := ow_workers s @ [OwTop]\<rparr>) = holds s"
  by (auto simp: holds_def nth_append fun_eq_iff)

lemma channels_held_step:
  assumes "own_loop_step l s = Some s'" and "channels_held s"
  shows "channels_held s'"
proof (cases l)
  case (OMain other)
  with assms(1) show ?thesis
    by (auto simp: own_main_step_def holds_append intro!: channels_held_same [OF assms(2)]
        split: own_main.splits nat.splits if_splits)
next
  case (OWorker i ans other)
  with assms channels_held_worker show ?thesis by simp
next
  case OClose
  with assms(1) show ?thesis
    by (auto simp: own_close_step_def intro!: channels_held_same [OF assms(2)]
        split: closer.splits if_splits)
qed (use assms(1) in \<open>auto intro!: channels_held_same [OF assms(2)] split: if_splits\<close>)

lemma channels_held_run:
  "own_run ls (start_own queue n qos aa delay now) = Some s \<Longrightarrow> channels_held s"
  by (erule own_workers.invariant [OF _ _ channels_held_step])
    (auto simp: channels_held_def start_own_def holds_def)


section \<open>The end of a call\<close>

fun call_over :: "own_main \<Rightarrow> bool" where
  "call_over (OmUnlock r) = True"
| "call_over (OmReturned r) = True"
| "call_over _ = False"

definition own_ended :: "own_loop \<Rightarrow> bool" where
  "own_ended s \<longleftrightarrow> (call_over (ow_main s) \<longrightarrow> own_done s)"

lemma own_step_moves:
  assumes "own_step i ans other s = Some s'"
  shows "i < length (ow_workers s) \<and> ow_workers s ! i \<noteq> OwDone \<and> ow_main s' = ow_main s \<and>
    (\<exists>w. ow_workers s' = (ow_workers s)[i := w]) \<and> ow_stop s' = ow_stop s \<and>
    ow_ctxDone s' = ow_ctxDone s \<and> ow_next s \<le> ow_next s'"
  using assms
  by (auto simp: own_step_def own_retry_def open_own_def leave_own_def Let_def
      split: own_worker.splits option.splits if_splits)

lemma own_ended_step:
  assumes "own_loop_step l s = Some s'" and "own_ended s"
  shows "own_ended s'"
proof (cases l)
  case (OMain other)
  with assms show ?thesis
    by (auto simp: own_ended_def own_main_step_def own_done_def
        split: own_main.splits nat.splits if_splits)
next
  case (OWorker i ans other)
  with assms(1) own_step_moves [of i ans other s s']
  have m: "ow_main s' = ow_main s" and i: "i < length (ow_workers s)" "ow_workers s ! i \<noteq> OwDone"
    by auto
  then have "\<not> own_done s" by (auto simp: own_done_def list_all_length)
  with m assms(2) show ?thesis by (simp add: own_ended_def)
next
  case OClose
  with assms show ?thesis
    by (auto simp: own_ended_def own_close_step_def own_done_def split: closer.splits if_splits)
qed (use assms in \<open>auto simp: own_ended_def own_done_def split: if_splits\<close>)

lemma own_ended_run: "own_run ls (start_own queue n qos aa delay now) = Some s \<Longrightarrow> own_ended s"
  by (erule own_workers.invariant [OF _ _ own_ended_step]) (auto simp: own_ended_def start_own_def)

lemma done_holds_nothing: "own_done s \<Longrightarrow> \<not> holds s i n"
  by (auto simp: own_done_def holds_def list_all_length)

text \<open>C25: with a channel per worker no channel is leaked: every channel a worker opened that is
  still open is held by exactly one worker, and when Consume has returned all of them are closed.\<close>

theorem worker_channels_never_leak:
  assumes "own_run ls (start_own queue n qos aa delay now) = Some s" and "2 \<le> k" and "ow_open s k"
  shows "(\<exists>!i. holds s i k) \<and> \<not> call_over (ow_main s)"
proof -
  have c: "channels_held s" by (rule channels_held_run [OF assms(1)])
  with assms(2,3) obtain i where i: "holds s i k" by (auto simp: channels_held_def)
  have u: "j = i" if "holds s j k" for j using c i that by (auto simp: channels_held_def)
  have "\<not> own_done s" using i done_holds_nothing by blast
  with own_ended_run [OF assms(1)] i u show ?thesis by (auto simp: own_ended_def)
qed

text \<open>The workers are isolated: a step of one worker, also one that loses or closes its channel,
  changes neither another worker nor the channel and the deliveries of another worker.\<close>

lemma workers_isolated:
  assumes "own_run ls (start_own queue n qos aa delay now) = Some s"
    and "own_step i ans other s = Some s'" and "j \<noteq> i" and "j < length (ow_workers s)"
  shows "ow_workers s' ! j = ow_workers s ! j \<and>
    (\<forall>k. holds s j k \<longrightarrow> ow_open s' k = ow_open s k \<and> ow_ended s' k = ow_ended s k \<and>
       ow_deliveries s' k = ow_deliveries s k)"
proof -
  have c: "channels_held s" by (rule channels_held_run [OF assms(1)])
  have i: "i < length (ow_workers s)" using own_step_moves [OF assms(2)] by simp
  have "ow_workers s' ! j = ow_workers s ! j"
    using own_step_moves [OF assms(2)] assms(3) by auto
  moreover have "ow_open s' k = ow_open s k \<and> ow_ended s' k = ow_ended s k \<and>
      ow_deliveries s' k = ow_deliveries s k" if h: "holds s j k" for k
  proof -
    have ne: "held (ow_workers s ! i) \<noteq> Some k"
      using c h i assms(3) unfolding channels_held_def holds_def by blast
    have lt: "k \<noteq> ow_next s" using c h unfolding channels_held_def by blast
    show ?thesis
      using assms(2) ne lt
      by (auto simp: own_step_def own_retry_def open_own_def leave_own_def Let_def
          split: own_worker.splits option.splits if_splits)
  qed
  ultimately show ?thesis by blast
qed

section \<open>Stopping\<close>

text \<open>How many steps of its own a worker is from its end once it is told to stop.\<close>

fun to_end :: "own_worker \<Rightarrow> nat" where
  "to_end OwDone = 0"
| "to_end OwTop = 1"
| "to_end (OwDelay d) = 1"
| "to_end (OwSelect n) = 2"
| "to_end (OwBusy n) = 3"
| "to_end (OwSubscribe n) = 3"
| "to_end (OwQos n) = 4"

lemma stopping_step:
  assumes "stopping s" and "own_step i ans False s = Some s'"
  shows "stopping s' \<and> to_end (ow_workers s' ! i) < to_end (ow_workers s ! i)"
  using assms own_step_moves [OF assms(2), THEN conjunct1]
  by (auto simp: own_step_def stopping_def own_retry_def open_own_def leave_own_def Let_def
      split: own_worker.splits option.splits if_splits)

lemma stopping_moves:
  assumes "stopping s" and "i < length (ow_workers s)" and "ow_workers s ! i \<noteq> OwDone"
  shows "\<exists>s'. own_step i (Some err) False s = Some s'"
  using assms by (cases "ow_workers s ! i") (auto simp: own_step_def)

fun worker_alone :: "nat \<Rightarrow> (string \<times> int) option list \<Rightarrow> own_loop \<Rightarrow> own_loop option" where
  "worker_alone i [] s = Some s"
| "worker_alone i (a # as) s =
     (case own_step i a False s of None \<Rightarrow> None | Some s' \<Rightarrow> worker_alone i as s')"



text \<open>A worker that lost its channel subscribes again on a new one.\<close>

definition resubscribes :: "nat \<Rightarrow> own_loop \<Rightarrow> own_label list" where
  "resubscribes i s =
     [OWorker i None False, OTime (max (ow_delay s) minReconnectDelay), OWorker i None False,
      OWorker i None False] @ (if ow_setsQos s then [OWorker i None False] else []) @
     [OWorker i None False]"

lemma lost_worker_resubscribes:
  assumes "i < length (ow_workers s)" and "ow_workers s ! i = OwSelect n" and "ow_ended s n"
    and "ow_deliveries s n = 0" and "\<not> stopping s"
  shows "\<exists>s'. own_run (resubscribes i s) s = Some s' \<and> ow_workers s' ! i = OwSelect (ow_next s) \<and>
    ow_open s' (ow_next s) \<and> ss_active (sub (ow_health s') (int i))"
proof -
  have d: "0 \<le> max (ow_delay s) minReconnectDelay"
    by (simp add: minReconnectDelay_def millisecond_def)
  have h: "ss_active (sub (subscribed (int i) c t h) (int i))" for c t h
    by (simp add: subscribed_def with_sub_def sub_def refreshSinceLocked_def Let_def)
  show ?thesis
    using assms d h
    by (simp add: resubscribes_def own_step_def leave_own_def open_own_def stopping_def goto_def
        shut_def Let_def)
qed

section \<open>Retries\<close>

text \<open>
  A retry on a classic queue is published on the consumer's own channel, channel 1. A closed
  channel answers with an error.
\<close>

definition own_channel :: "own_loop \<Rightarrow> channel \<Rightarrow> channel" where
  "own_channel s chan w =
     (case w of
        WirePublish ex k m \<Rightarrow>
          if ow_open s 1 then chan w
          else Some ''Exception (504) Reason: \"channel/connection is not open\"''
      | _ \<Rightarrow> chan w)"

lemma channel_one_stays_closed_step:
  assumes "own_loop_step l s = Some s'" and "\<not> ow_open s 1 \<and> 2 \<le> ow_next s"
  shows "\<not> ow_open s' 1 \<and> 2 \<le> ow_next s'"
proof (cases l)
  case (OMain other)
  with assms show ?thesis
    by (auto simp: own_main_step_def split: own_main.splits nat.splits if_splits)
next
  case (OWorker i ans other)
  with assms show ?thesis
    by (auto simp: own_step_def own_retry_def open_own_def leave_own_def Let_def
        split: own_worker.splits option.splits if_splits)
next
  case OClose
  with assms show ?thesis
    by (auto simp: own_close_step_def split: closer.splits if_splits)
qed (use assms in \<open>auto split: if_splits\<close>)

text \<open>With a channel per worker nobody opens the consumer's own channel again: once it has
  closed, say with the connection, it stays closed although the workers consume again, and every
  failed message of a classic queue that has retries left is dead-lettered instead of retried.\<close>

lemma worker_retries_lost_after_reconnect:
  assumes "own_run ls (start_own q n qos aa delay now) = Some s" and "\<not> ow_open s 1"
    and "own_run ls' s = Some s'"
    and "\<not> cn_AutoAck cf" and "cn_QueueType cf = QueueTypeClassic" and "cn_Encryptor cf = None"
    and "cn_Compressor cf = None" and "getRetryCount (pub_Headers d) < cn_MaxRetries cf"
    and "0 < cn_MaxRetries cf" and "handler d = ([], Returns (Some (PlainError e)))"
  shows "\<exists>p. pr_wire (processMessage cf rr (own_channel s' chan) t queue handler d h) =
    [WireNack False, WirePublish [] queue p]"
proof -
  have "2 \<le> ow_next s" using channels_held_run [OF assms(1)] by (simp add: channels_held_def)
  with assms(2) have "\<not> ow_open s 1 \<and> 2 \<le> ow_next s" by simp
  from own_workers.invariant [where P = "\<lambda>s. \<not> ow_open s 1 \<and> 2 \<le> ow_next s", OF assms(3) this
      channel_one_stays_closed_step]
  have "\<not> ow_open s' 1 \<and> 2 \<le> ow_next s'" .
  then have c: "own_channel s' chan (WirePublish [] queue p) \<noteq> None" for p
    by (simp add: own_channel_def)
  let ?s0 = "in_flight 1 (NewDelivery (delivered False t h))"
  let ?rep = "republishWithRetry (own_channel s' chan) queue d (getRetryCount (pub_Headers d) + 1) ?s0"
  obtain p where r: "?rep = (own_channel s' chan (WirePublish [] queue p), send (WirePublish [] queue p) ?s0)"
    by (simp add: republishWithRetry_def Let_def)
  from c [of p] obtain e' where e': "own_channel s' chan (WirePublish [] queue p) = Some e'" by blast
  have "pr_wire (processMessage cf rr (own_channel s' chan) t queue handler d h) =
      [WireNack False, WirePublish [] queue p]"
    using assms(4-) r [unfolded e']
    by (simp add: processMessage_def decode_message_def handler_error_def handleProcessingError_def
        isSettled_def send_def open_ops Let_def)
  then show ?thesis ..
qed

section \<open>Runs\<close>

definition demo_own :: own_loop where "demo_own = start_own ''q'' 2 True False (5 * second) 1"

text \<open>Two workers subscribe, then the connection takes all channels with it.\<close>

definition own_starts :: "own_label list" where
  "own_starts =
     replicate 4 (OMain False) @ replicate 3 (OWorker 0 None False) @ replicate 3 (OWorker 1 None False)"

definition connection_lost :: "own_label list" where
  "connection_lost = [OChannelCloses 1, OChannelCloses 2, OChannelCloses 3]"

lemmas own_demo_simps = demo_own_def start_own_def own_starts_def own_main_step_def own_step_def
  open_own_def stopping_def goto_def shut_def eval_nat_numeral Let_def

theorem worker_channels_never_leak_witness:
  "\<exists>s. own_run own_starts demo_own = Some s \<and> ow_open s 3 \<and> holds s 1 3"
proof -
  obtain s where s: "own_run own_starts demo_own = Some s" and o: "ow_open s 3"
    and h: "holds s 1 3"
    by (simp add: own_demo_simps holds_def)
  from worker_channels_never_leak [OF s [unfolded demo_own_def], of 3] o have "\<exists>!i. holds s i 3" by simp
  with s o h show ?thesis by blast
qed

lemma workers_isolated_witness:
  "\<exists>s s'. own_run (own_starts @ [OChannelCloses 2]) demo_own = Some s \<and>
     own_step 0 None False s = Some s' \<and> ow_workers s' ! 1 = OwSelect 3 \<and> ow_open s' 3"
proof -
  obtain s s' where s: "own_run (own_starts @ [OChannelCloses 2]) demo_own = Some s"
    and s': "own_step 0 None False s = Some s'"
    and w: "ow_workers s ! 1 = OwSelect 3" "length (ow_workers s) = 2" "ow_open s 3"
    by (simp add: own_demo_simps leave_own_def)
  have "holds s 1 3" using w by (simp add: holds_def)
  with workers_isolated [OF s [unfolded demo_own_def] s', of 1] w have "ow_workers s' ! 1 = OwSelect 3 \<and> ow_open s' 3"
    by auto
  with s s' show ?thesis by blast
qed


lemma worker_retries_lost_after_reconnect_witness:
  "\<exists>s p. own_run (own_starts @ connection_lost) demo_own = Some s \<and>
     pr_wire (processMessage (plain_config 3 QueueTypeClassic None) False (own_channel s (\<lambda>_. None)) 1
       ''q'' (\<lambda>_. ([], Returns (Some (PlainError ''x'')))) (demo_delivery (demo_message [])) zero_health) =
     [WireNack False, WirePublish [] ''q'' p]"
proof -
  obtain s where s: "own_run (own_starts @ connection_lost) demo_own = Some s" and c: "\<not> ow_open s 1"
    by (simp add: own_demo_simps connection_lost_def)
  have "\<exists>p. pr_wire (processMessage (plain_config 3 QueueTypeClassic None) False
      (own_channel s (\<lambda>_. None)) 1 ''q'' (\<lambda>_. ([], Returns (Some (PlainError ''x''))))
      (demo_delivery (demo_message [])) zero_health) = [WireNack False, WirePublish [] ''q'' p]"
    by (rule worker_retries_lost_after_reconnect [OF s [unfolded demo_own_def] c, of "[]" s])
      (simp_all add: plain_config_def getRetryCount_def)
  with s show ?thesis by blast
qed

text \<open>\<open>Close\<close> is forgotten by a consumer that has not made its stop channel yet: it returns, and
  afterwards the workers start and wait for deliveries.\<close>

lemma close_before_start_forgotten:
  "\<exists>s. own_run (replicate 3 OClose @ own_starts) demo_own = Some s \<and> ow_closer s = CloseDone \<and>
     ow_main s = OmWait \<and> ow_workers s = [OwSelect 2, OwSelect 3] \<and> \<not> stopping s"
  by (simp add: own_demo_simps own_close_step_def own_done_def)

end
