(* ===== verification/Argument_Types.thy ===== *)
theory Argument_Types
  imports Topology
begin

text \<open>
  The types of the arguments a queue is declared with (src/admin.go, src/types.go,
  src/topology_validation.go). RabbitMQ refuses a declaration whose arguments have the wrong type,
  so every path that builds an argument table is followed: the options, the configurations, the
  registry, and what the validator declares again from it.
\<close>

section \<open>Well-typed arguments\<close>

fun is_integer :: "hval \<Rightarrow> bool" where
  "is_integer (VInt n) = True"
| "is_integer (VInt32 n) = True"
| "is_integer (VInt64 n) = True"
| "is_integer _ = False"

fun is_text :: "hval \<Rightarrow> bool" where
  "is_text (VStr s) = True"
| "is_text _ = False"

definition integer_arguments :: "string list" where
  "integer_arguments =
     [''x-message-ttl'', ''x-max-length'', ''x-max-length-bytes'', ''x-expires'',
      ''x-quorum-initial-group-size'', ''x-delivery-limit'']"

definition text_arguments :: "string list" where
  "text_arguments =
     [''x-queue-type'', ''x-dead-letter-exchange'', ''x-dead-letter-routing-key'', ''x-overflow'',
      ''x-ha-policy'', ''x-ha-sync-mode'']"

definition typed_argument :: "string \<Rightarrow> hval \<Rightarrow> bool" where
  "typed_argument k v \<longleftrightarrow>
     (k \<in> set integer_arguments \<longrightarrow> is_integer v) \<and> (k \<in> set text_arguments \<longrightarrow> is_text v)"

definition typed_table :: "table \<Rightarrow> bool" where
  "typed_table t = list_all (\<lambda>(k, v). typed_argument k v) t"

fun typed_method :: "amqp_method \<Rightarrow> bool" where
  "typed_method (QueueDeclare name d ad ex nw args) = typed_table args"
| "typed_method _ = True"

text \<open>What the caller gives is typed: tables of his own.\<close>

fun typed_option :: "queue_option \<Rightarrow> bool" where
  "typed_option (WithArguments args) = typed_table args"
| "typed_option _ = True"

definition typed_registry :: "topologyRegistry \<Rightarrow> bool" where
  "typed_registry r = list_all (\<lambda>(k, c). typed_table (qc_Arguments c)) (rg_queues r)"

definition typed_session :: "'b session \<Rightarrow> bool" where
  "typed_session s \<longleftrightarrow> typed_registry (registry_of s) \<and> list_all typed_method (se_sent s)"

lemma list_all_go_put: "list_all P m \<Longrightarrow> P (k, v) \<Longrightarrow> list_all P (go_put k v m)"
  by (induction m) auto

lemma typed_put: "typed_table t \<Longrightarrow> typed_argument k v \<Longrightarrow> typed_table (go_put k v t)"
  by (simp add: typed_table_def list_all_go_put)

lemma typed_Copy: "typed_table dst \<Longrightarrow> typed_table src \<Longrightarrow> typed_table (maps_Copy dst src)"
  unfolding maps_Copy_def
  by (induction src arbitrary: dst) (auto simp: typed_put, simp_all add: typed_table_def list_all_go_put)

lemmas argument_simps = typed_argument_def integer_arguments_def text_arguments_def

lemma typed_Nil [simp]: "typed_table []" by (simp add: typed_table_def)

section \<open>What the options build\<close>

lemma typed_apply_option:
  "typed_table (aq_Arguments c) \<Longrightarrow> typed_option opt \<Longrightarrow>
   typed_table (aq_Arguments (apply_queue_option opt c))"
  by (cases opt) (auto simp: set_arg_def Let_def argument_simps intro!: typed_put typed_Copy)

lemma typed_options:
  "typed_table (aq_Arguments c) \<Longrightarrow> list_all typed_option opts \<Longrightarrow>
   typed_table (aq_Arguments (fold apply_queue_option opts c))"
  by (induction opts arbitrary: c) (simp_all add: typed_apply_option)

lemma typed_apply_quorum:
  "typed_table (aq_Arguments c) \<Longrightarrow> typed_table (aq_Arguments (apply_quorum_option opt c))"
  by (cases opt) (auto simp: set_arg_def argument_simps intro!: typed_put)

lemma typed_quorum_options:
  "typed_table (aq_Arguments c) \<Longrightarrow> typed_table (aq_Arguments (fold apply_quorum_option opts c))"
  by (induction opts arbitrary: c) (simp_all add: typed_apply_quorum)

lemma typed_put_if: "typed_table t \<Longrightarrow> (b \<Longrightarrow> typed_argument k v) \<Longrightarrow> typed_table (put_if b k v t)"
  by (simp add: put_if_def typed_put)

lemma typed_ToArguments: "typed_table (qc_Arguments q) \<Longrightarrow> typed_table (ToArguments q)"
  unfolding ToArguments_def Let_def
  by (intro typed_put_if)
    (auto simp: ToArguments_type_def argument_simps intro!: typed_put typed_put_if typed_Copy
      split: queueType.split)

lemma typed_recreate: "typed_table (qc_Arguments c) \<Longrightarrow> list_all typed_option (recreate_queue_options c)"
  by (simp add: recreate_queue_options_def)

section \<open>Operations that keep the session typed\<close>

definition keeps :: "('b, 'a) operation \<Rightarrow> bool" where
  "keeps f \<longleftrightarrow> (\<forall>s. typed_session s \<longrightarrow> typed_session (snd (f s)))"

lemma keepsD: "keeps f \<Longrightarrow> typed_session s \<Longrightarrow> f s = (r, s') \<Longrightarrow> typed_session s'"
  by (auto simp: keeps_def dest: spec [of _ s])

named_theorems keeping

lemma keeps_and_then [keeping]: "keeps f \<Longrightarrow> (\<And>x. keeps (g x)) \<Longrightarrow> keeps (and_then f g)"
  unfolding keeps_def by (auto simp: and_then_def split: prod.splits sum.splits)

lemma keeps_context [keeping]: "keeps f \<Longrightarrow> keeps (in_context what f)"
  unfolding keeps_def [of "in_context what f"] in_context_def
  by (auto split: prod.splits sum.splits dest: keepsD)

lemma keeps_ok [keeping]: "keeps op_ok" "keeps (fails e)"
  by (simp_all add: keeps_def op_ok_def fails_def)

lemma keeps_each: "(\<And>x. x \<in> set xs \<Longrightarrow> keeps (f x)) \<Longrightarrow> keeps (each f xs)"
  by (induction xs) (simp_all add: keeping)

lemma typed_world [simp]:
  "typed_session (s\<lparr>se_world := w\<rparr>) = typed_session s"
  "typed_session (s\<lparr>se_world := w, se_sent := se_sent s @ [m]\<rparr>) = (typed_session s \<and> typed_method m)"
  by (auto simp: typed_session_def registry_of_def)

lemma keeps_rpc [keeping]: "typed_method m \<Longrightarrow> keeps (rpc E what m)"
  by (auto simp: keeps_def rpc_def split: prod.split option.split sum.split)

lemma keeps_exists [keeping]: "typed_method m \<Longrightarrow> keeps (exists_by E m)"
  by (auto simp: keeps_def exists_by_def Let_def split: prod.split option.split)

lemma typed_register:
  "typed_session s \<Longrightarrow> (\<And>r. typed_registry r \<Longrightarrow> typed_registry (f r)) \<Longrightarrow> typed_session (register f s)"
  by (auto simp: typed_session_def registry_of_def register_def split: option.splits)

lemma typed_RegisterQueue:
  "typed_registry r \<Longrightarrow> typed_table (qc_Arguments c) \<Longrightarrow> typed_registry (RegisterQueue c r)"
  by (simp add: typed_registry_def RegisterQueue_def list_all_go_put)

lemma typed_RegisterOther:
  "typed_registry (RegisterExchange x r) = typed_registry r"
  "typed_registry (RegisterBinding b r) = typed_registry r"
  by (simp_all add: typed_registry_def RegisterExchange_def RegisterBinding_def)

lemma keeps_register_queue [keeping]:
  "typed_table (qc_Arguments c) \<Longrightarrow> keeps (\<lambda>s. (Inr i, register (RegisterQueue c) s))"
  by (simp add: keeps_def typed_register typed_RegisterQueue)

lemma keeps_register_other [keeping]:
  "keeps (\<lambda>s. (Inr i, register (RegisterExchange x) s))"
  "keeps (\<lambda>s. (Inr i, register (RegisterBinding b) s))"
  by (simp_all add: keeps_def typed_register typed_RegisterOther)

lemma keeps_declare:
  "typed_table (aq_Arguments c) \<Longrightarrow> keeps (declareQueueLegacy E name c)"
  "typed_table (aq_Arguments c') \<Longrightarrow> keeps (declareQuorumQueueLegacy E name c')"
  by (auto simp: declareQueueLegacy_def declareQuorumQueueLegacy_def queue_method_def
      registered_queue_def intro!: keeping)

lemma keeps_DeclareQueue [keeping]: "list_all typed_option opts \<Longrightarrow> keeps (DeclareQueue E name opts)"
  using typed_options [of default_queue opts]
  by (auto simp: DeclareQueue_def Let_def declareQuorumQueueFromConfig_def default_queue_def
      set_arg_def adminQueueConfig.defs argument_simps intro!: keeps_declare typed_put)

lemma keeps_DeclareQuorumQueue [keeping]: "keeps (DeclareQuorumQueue E name opts)"
  unfolding DeclareQuorumQueue_def
  by (intro keeps_declare typed_quorum_options)
    (simp add: default_quorum_queue_def typed_table_def argument_simps)

lemma keeps_DeclareQueueWithDLQ [keeping]:
  "typed_table (qc_Arguments c) \<Longrightarrow> keeps (DeclareQueueWithDLQ E c)"
  by (auto simp: DeclareQueueWithDLQ_def typed_ToArguments intro!: keeping)

lemma keeps_DeclareExchange [keeping]: "keeps (DeclareExchange E name kind opts)"
  by (auto simp: DeclareExchange_def Let_def exchange_method_def intro!: keeping)

lemma keeps_BindQueue [keeping]: "keeps (BindQueue E queue exchange key opts)"
  by (auto simp: BindQueue_def Let_def intro!: keeping)


section \<open>The validator\<close>

text \<open>The iteration orders only rearrange what the maps have.\<close>

definition orders_ok :: "'b env \<Rightarrow> bool" where
  "orders_ok E \<longleftrightarrow> (\<forall>w xs. set (ev_queues E w xs) \<subseteq> set xs)"

lemma keeps_snd: "keeps f \<Longrightarrow> typed_session s \<Longrightarrow> typed_session (snd (f s))"
  by (simp add: keeps_def)

lemma typed_GetQueue:
  "typed_session s \<Longrightarrow> GetQueue name (registry_of s) = Some c \<Longrightarrow> typed_table (qc_Arguments c)"
  by (auto simp: typed_session_def typed_registry_def GetQueue_def list_all_iff dest!: map_of_SomeD)

lemma typed_ListQueues:
  assumes "orders_ok E" and "typed_session s"
    and "c \<in> set (ListQueues (ev_queues E w) (registry_of s))"
  shows "typed_table (qc_Arguments c)"
proof -
  have "c \<in> set (map snd (rg_queues (registry_of s)))"
    using assms(1,3) unfolding orders_ok_def ListQueues_def by blast
  with assms(2) show ?thesis by (auto simp: typed_session_def typed_registry_def list_all_iff)
qed

lemma keeps_bind_all [keeping]:
  "keeps (restore_binding E c)" "keeps (bind_queue E c)" "keeps (declare_exchange E x)"
  by (auto simp: restore_binding_def bind_queue_def declare_exchange_def intro!: keeping)

lemma keeps_recreate_bindings [keeping]:
  "keeps (recreateQueueBindings E name)" "keeps (recreateExchangeBindings E name)"
  unfolding keeps_def recreateQueueBindings_def recreateExchangeBindings_def
  by (intro allI impI keeps_snd [OF keeps_each] keeps_bind_all; assumption)+

lemma keeps_recreate [keeping]:
  "keeps (recreateExchange E x)"
  "typed_table (qc_Arguments c) \<Longrightarrow> keeps (recreateQueue E c)"
  by (auto simp: recreateExchange_def recreateQueue_def typed_recreate intro!: keeping)

lemma keeps_queries [keeping]: "keeps (QueueExists E name)" "keeps (ExchangeExists E name)"
  by (auto simp: QueueExists_def ExchangeExists_def intro!: keeping)

lemma keeps_restore_exchange:
  "keeps (\<lambda>s. if ex then (Inr (), s) else in_context what (recreateExchange E (f s)) s)"
  unfolding keeps_def
  by (cases ex) (simp_all add: keeps_snd [OF keeps_context [OF keeps_recreate(1)]])

lemma keeps_ensure [keeping]: "keeps (ensureExchangeExists E name)"
  unfolding ensureExchangeExists_def
  by (cases "name = []")
    (simp_all only: if_True if_False simp_thms keeps_ok keeps_and_then keeps_context keeps_queries
      keeps_restore_exchange)

lemma keeps_ValidateExchange: "keeps (ValidateExchange E v name)"
  unfolding keeps_def ValidateExchange_def
  by (auto split: option.split intro!: keeps_snd keeping)

lemma keeps_sync [keeping]:
  fixes E :: "'b env"
  assumes "typed_table (qc_Arguments c)"
  shows "keeps (sync_registry E name c)"
  unfolding keeps_def
proof (intro allI impI)
  fix s :: "'b session" assume s: "typed_session s"
  have "keeps (\<lambda>s. (Inr (f x), s))" for f :: "queue_info \<Rightarrow> queueInfo" and x
    by (simp add: keeps_def)
  then have k: "keeps (InspectQueue E name)"
    unfolding InspectQueue_def by (intro keeping) simp_all
  obtain r s' where r: "InspectQueue E name s = (r, s')" by (cases "InspectQueue E name s")
  have s': "typed_session s'" using keepsD [OF k s r] .
  have "qi_Arguments i = []" if "r = Inr i" for i
    using r that by (auto simp: InspectQueue_def and_then_def queue_info.defs queueInfo.defs
        split: prod.splits sum.splits)
  with s' show "typed_session (snd (sync_registry E name c s))"
    by (cases r) (auto simp: sync_registry_def r Let_def intro!: typed_register typed_RegisterQueue)
qed

lemma keeps_ensure_dependencies [keeping]: "keeps (ensure_dependencies E name c)"
proof -
  have "keeps (\<lambda>s. each (\<lambda>b. in_context (what b) (ensureExchangeExists E (bc_ExchangeName b)))
      (f s) s)" for what and f :: "'a session \<Rightarrow> bindingConfig list"
    unfolding keeps_def
    by (intro allI impI keeps_snd [OF keeps_each [OF keeps_context [OF keeps_ensure]]])
  then show ?thesis
    unfolding ensure_dependencies_def
    by (cases "qc_DeadLetterExchange c = []")
      (simp_all only: if_True if_False simp_thms keeps_and_then keeps_context keeps_ensure keeps_ok)
qed

lemma keeps_ValidateQueue: "keeps (ValidateQueue E v name)"
  unfolding keeps_def ValidateQueue_def
  by (auto split: option.split intro!: keeps_snd keeping dest: typed_GetQueue)

lemma typed_fold:
  "typed_session s \<Longrightarrow> (\<And>c s. c \<in> set cs \<Longrightarrow> typed_session s \<Longrightarrow> typed_session (f c s)) \<Longrightarrow>
   typed_session (fold f cs s)"
  by (induction cs arbitrary: s) simp_all

lemma typed_validate_exchange: "typed_session s \<Longrightarrow> typed_session (validate_exchange E c s)"
  by (auto simp: validate_exchange_def split: prod.splits sum.splits bool.splits
      intro!: keeps_snd keeping dest: keepsD [OF keeps_queries(2)])

lemma typed_validate_queue:
  "typed_session s \<Longrightarrow> typed_table (qc_Arguments c) \<Longrightarrow> typed_session (validate_queue E c s)"
  by (auto simp: validate_queue_def split: prod.splits sum.splits bool.splits
      intro!: keeps_snd keeping dest: keepsD [OF keeps_queries(1)])

lemma typed_validate_binding: "typed_session s \<Longrightarrow> typed_session (validate_binding E c s)"
  unfolding validate_binding_def by (rule keeps_snd) (auto intro!: keeping)

lemma typed_background:
  assumes "orders_ok E" and "typed_session s"
  shows "typed_session (performBackgroundValidation E s)"
proof -
  have "typed_session (validateAndRecreateExchanges E s)"
    unfolding validateAndRecreateExchanges_def using assms(2)
    by (rule typed_fold) (rule typed_validate_exchange)
  then have "typed_session (validateAndRecreateQueues E (validateAndRecreateExchanges E s))"
    unfolding validateAndRecreateQueues_def
    by (intro typed_fold typed_validate_queue) (auto intro: typed_ListQueues [OF assms(1)])
  then show ?thesis
    unfolding performBackgroundValidation_def validateAndRecreateBindings_def
    by (rule typed_fold) (rule typed_validate_binding)
qed

section \<open>Any sequence of operations\<close>

datatype topology_op =
    OpDeclareQueue string "queue_option list"
  | OpDeclareQuorumQueue string "quorum_option list"
  | OpDeclareQueueWithDLQ queueConfig
  | OpDeclareExchange string exchangeType "exchange_option list"
  | OpBindQueue string string string "binding_option list"
  | OpDeclareTopology topology
  | OpSetupTopology "exchangeConfig list" "queueConfig list" "bindingConfig list"
  | OpValidateExchange topologyValidator string
  | OpValidateQueue topologyValidator string
  | OpValidateAll topologyValidator

fun apply_topology_op :: "'b env \<Rightarrow> topology_op \<Rightarrow> 'b session \<Rightarrow> 'b session" where
  "apply_topology_op E (OpDeclareQueue name opts) s = snd (DeclareQueue E name opts s)"
| "apply_topology_op E (OpDeclareQuorumQueue name opts) s = snd (DeclareQuorumQueue E name opts s)"
| "apply_topology_op E (OpDeclareQueueWithDLQ c) s = snd (DeclareQueueWithDLQ E c s)"
| "apply_topology_op E (OpDeclareExchange name kind opts) s = snd (DeclareExchange E name kind opts s)"
| "apply_topology_op E (OpBindQueue queue exchange key opts) s = snd (BindQueue E queue exchange key opts s)"
| "apply_topology_op E (OpDeclareTopology t) s = snd (DeclareTopology E t s)"
| "apply_topology_op E (OpSetupTopology xs qs bs) s = snd (SetupTopology E xs qs bs s)"
| "apply_topology_op E (OpValidateExchange v name) s = snd (ValidateExchange E v name s)"
| "apply_topology_op E (OpValidateQueue v name) s = snd (ValidateQueue E v name s)"
| "apply_topology_op E (OpValidateAll v) s = snd (ValidateCompleteTopology E v s)"

text \<open>The tables the caller passes in are typed.\<close>

fun typed_op :: "topology_op \<Rightarrow> bool" where
  "typed_op (OpDeclareQueue name opts) = list_all typed_option opts"
| "typed_op (OpDeclareQueueWithDLQ c) = typed_table (qc_Arguments c)"
| "typed_op (OpDeclareTopology t) = list_all (\<lambda>q. typed_table (qd_Arguments q)) (tp_Queues t)"
| "typed_op (OpSetupTopology xs qs bs) = list_all (\<lambda>q. typed_table (qc_Arguments q)) qs"
| "typed_op _ = True"

lemma keeps_topology:
  "list_all (\<lambda>q. typed_table (qd_Arguments q)) (tp_Queues t) \<Longrightarrow> keeps (DeclareTopology E t)"
  "list_all (\<lambda>q. typed_table (qc_Arguments q)) qs \<Longrightarrow> keeps (SetupTopology E xs qs bs)"
  by (auto simp: DeclareTopology_def SetupTopology_def list_all_iff declaration_options_def
      config_options_def intro!: keeping keeps_each)

lemma typed_apply_op:
  assumes "orders_ok E" and "typed_op oper" and "typed_session s"
  shows "typed_session (apply_topology_op E oper s)"
  using assms typed_background [OF assms(1,3)]
  by (cases oper)
    (auto simp: ValidateCompleteTopology_def
      intro!: keeps_snd keeping keeps_topology keeps_ValidateExchange keeps_ValidateQueue)

text \<open>C27: every queue is declared with arguments of the types the broker asks for, on every path
  that declares one: whatever sequence of declarations and validations runs, and whatever the
  broker answers, lengths, TTLs, group sizes and limits are integers and types and dead-letter
  names are strings, as long as the tables given by the caller are so.\<close>

theorem declared_arguments_well_typed:
  assumes "orders_ok E" and "list_all typed_op ops"
    and "QueueDeclare name d ad ex nw args \<in>
      set (se_sent (fold (apply_topology_op E) ops
        \<lparr>se_world = w, se_registry = Some NewTopologyRegistry, se_sent = []\<rparr>))"
  shows "(k, v) \<in> set args \<Longrightarrow> typed_argument k v"
proof -
  let ?s0 = "\<lparr>se_world = w, se_registry = Some NewTopologyRegistry, se_sent = []\<rparr>"
  have "typed_session s \<Longrightarrow> typed_session (fold (apply_topology_op E) ops s)" for s
    using assms(2) by (induction ops arbitrary: s) (simp_all add: typed_apply_op [OF assms(1)])
  then have "typed_session (fold (apply_topology_op E) ops ?s0)"
    by (simp add: typed_session_def registry_of_def typed_registry_def NewTopologyRegistry_def)
  with assms(3) have "typed_table args" by (auto simp: typed_session_def list_all_iff)
  then show "(k, v) \<in> set args \<Longrightarrow> typed_argument k v" by (auto simp: typed_table_def list_all_iff)
qed

theorem declared_arguments_well_typed_witness:
  "\<exists>args. QueueDeclare ''q'' True False False False args \<in>
     set (se_sent (fold (apply_topology_op accepting_env)
       [OpDeclareQueue ''q'' [WithMaxLength 100, WithTTL (5 * second)]]
       \<lparr>se_world = (), se_registry = Some NewTopologyRegistry, se_sent = []\<rparr>)) \<and>
     (''x-message-ttl'', VInt64 5000) \<in> set args \<and> typed_argument ''x-message-ttl'' (VInt64 5000)"
proof -
  let ?ops = "[OpDeclareQueue ''q'' [WithMaxLength 100, WithTTL (5 * second)]]"
  let ?s0 = "\<lparr>se_world = (), se_registry = Some NewTopologyRegistry, se_sent = []\<rparr>"
  have o: "orders_ok accepting_env" by (simp add: orders_ok_def accepting_env_def)
  obtain args where a: "QueueDeclare ''q'' True False False False args \<in>
      set (se_sent (fold (apply_topology_op accepting_env) ?ops ?s0))"
    and m: "(''x-message-ttl'', VInt64 5000) \<in> set args"
    by (simp add: DeclareQueue_sent accepting_env_def queue_method_def default_queue_def set_arg_def
        Milliseconds_def second_def millisecond_def Let_def)
  from declared_arguments_well_typed [OF o _ a m] a m show ?thesis by auto
qed

end
