(* ===== verification/Streams.thy ===== *)
theory Streams
  imports Amqp_Types Labelled_Runs
begin

text \<open>
  The stream handler (src/streams/streams.go) and its wrapper of the stream protocol's client
  (src/streams/native/native.go). The client library is outside: it answers with an error or none.
  Calls run concurrently; each has a program counter, and one step is what it does under one lock.
\<close>

section \<open>The wrapper: options\<close>

record environmentOptions =
  eo_Host :: string
  eo_Port :: int
  eo_Username :: string
  eo_Password :: string
  eo_VHost :: string
  eo_MaxProducers :: int
  eo_MaxConsumers :: int
  eo_RequestedHeartbeat :: duration
  eo_RequestedMaxFrameSize :: int
  eo_TLSEnabled :: bool

text \<open>What the library is told; \<open>None\<close> leaves its own default.\<close>

record library_options =
  lo_Host :: string
  lo_Port :: int
  lo_User :: string
  lo_Password :: string
  lo_VHost :: string
  lo_MaxProducers :: "int option"
  lo_MaxConsumers :: "int option"
  lo_Heartbeat :: "duration option"
  lo_MaxFrameSize :: "int option"

definition or_default :: "'a \<Rightarrow> 'a \<Rightarrow> 'a \<Rightarrow> 'a" where
  "or_default zero d x = (if x = zero then d else x)"

definition if_positive :: "int \<Rightarrow> int option" where
  "if_positive n = (if n > 0 then Some n else None)"

definition native_NewEnvironment :: "environmentOptions \<Rightarrow> library_options" where
  "native_NewEnvironment o1 =
     \<lparr>lo_Host = or_default [] ''localhost'' (eo_Host o1), lo_Port = or_default 0 5552 (eo_Port o1),
      lo_User = or_default [] ''guest'' (eo_Username o1),
      lo_Password = or_default [] ''guest'' (eo_Password o1),
      lo_VHost = or_default [] ''/'' (eo_VHost o1),
      lo_MaxProducers = if_positive (eo_MaxProducers o1),
      lo_MaxConsumers = if_positive (eo_MaxConsumers o1),
      lo_Heartbeat = if_positive (eo_RequestedHeartbeat o1),
      lo_MaxFrameSize = if_positive (eo_RequestedMaxFrameSize o1)\<rparr>"

datatype offsetType =
    OffsetFirst
  | OffsetLast
  | OffsetNext
  | OffsetOffset
  | OffsetTimestamp
  | OffsetOther int

datatype offset_spec = SpecFirst | SpecLast | SpecNext | SpecOffset int | SpecTimestamp int

record consumerOptions =
  co_Name :: string
  co_OffsetType :: offsetType
  co_Offset :: int
  co_OffsetTime :: instant
  co_CRCCheck :: bool
  co_InitialCredits :: int

definition UnixMilli :: "instant \<Rightarrow> int" where
  "UnixMilli t = (t - unix_epoch) div millisecond"

definition offset_specification :: "consumerOptions \<Rightarrow> offset_spec" where
  "offset_specification c =
     (case co_OffsetType c of
        OffsetFirst \<Rightarrow> SpecFirst
      | OffsetLast \<Rightarrow> SpecLast
      | OffsetNext \<Rightarrow> SpecNext
      | OffsetOffset \<Rightarrow> SpecOffset (co_Offset c)
      | OffsetTimestamp \<Rightarrow> SpecTimestamp (UnixMilli (co_OffsetTime c))
      | OffsetOther n \<Rightarrow> SpecFirst)"

record library_consumer =
  lc_Name :: "string option"
  lc_CRCCheck :: bool
  lc_Credits :: "16 word option"
  lc_Offset :: offset_spec

text \<open>The credits are cut to 16 bits.\<close>

definition consumer_settings :: "consumerOptions \<Rightarrow> library_consumer" where
  "consumer_settings c =
     \<lparr>lc_Name = (if co_Name c \<noteq> [] then Some (co_Name c) else None), lc_CRCCheck = co_CRCCheck c,
      lc_Credits = (if co_InitialCredits c > 0 then Some (word_of_int (co_InitialCredits c)) else None),
      lc_Offset = offset_specification c\<rparr>"

record streamOptions =
  so_MaxLengthBytes :: int
  so_MaxAge :: duration
  so_MaxSegmentSizeBytes :: int

definition native_CreateStream :: "streamOptions \<Rightarrow> int option \<times> duration option \<times> int option" where
  "native_CreateStream c =
     (if_positive (so_MaxLengthBytes c), if_positive (so_MaxAge c), if_positive (so_MaxSegmentSizeBytes c))"

section \<open>The wrapper: messages\<close>

record messageProperties =
  mp_MessageID :: string
  mp_CorrelationID :: string
  mp_ContentType :: string
  mp_ReplyTo :: string
  mp_Subject :: string
  mp_GroupID :: string

record nativeMessage =
  nm_Body :: bytes
  nm_Properties :: messageProperties
  nm_Offset :: int
  nm_Timestamp :: instant
  nm_StreamName :: string

definition no_properties :: messageProperties where
  "no_properties =
     \<lparr>mp_MessageID = [], mp_CorrelationID = [], mp_ContentType = [], mp_ReplyTo = [],
      mp_Subject = [], mp_GroupID = []\<rparr>"

text \<open>A message of the library. Identifiers are of any type there, \<open>VNil\<close> if absent.\<close>

record library_properties =
  ap_MessageID :: hval
  ap_CorrelationID :: hval
  ap_ContentType :: string
  ap_ReplyTo :: string
  ap_Subject :: string
  ap_GroupID :: string

record library_message =
  am_Data :: bytes
  am_Properties :: "library_properties option"

definition text_or_nil :: "string \<Rightarrow> hval" where
  "text_or_nil s = (if s \<noteq> [] then VStr s else VNil)"

definition SendMessage_message :: "nativeMessage \<Rightarrow> library_message" where
  "SendMessage_message m =
     (let p = nm_Properties m in
      \<lparr>am_Data = nm_Body m,
       am_Properties =
         (if p \<noteq> no_properties
          then Some \<lparr>ap_MessageID = text_or_nil (mp_MessageID p),
                     ap_CorrelationID = text_or_nil (mp_CorrelationID p),
                     ap_ContentType = mp_ContentType p, ap_ReplyTo = mp_ReplyTo p,
                     ap_Subject = mp_Subject p, ap_GroupID = mp_GroupID p\<rparr>
          else None)\<rparr>)"

definition as_text :: "hval \<Rightarrow> string" where
  "as_text v = (case v of VStr s \<Rightarrow> s | _ \<Rightarrow> [])"

definition received_message :: "string \<Rightarrow> int \<Rightarrow> instant \<Rightarrow> library_message \<Rightarrow> nativeMessage" where
  "received_message stream offset now m =
     \<lparr>nm_Body = am_Data m,
      nm_Properties =
        (case am_Properties m of
           None \<Rightarrow> no_properties
         | Some p \<Rightarrow>
             \<lparr>mp_MessageID = as_text (ap_MessageID p), mp_CorrelationID = as_text (ap_CorrelationID p),
              mp_ContentType = ap_ContentType p, mp_ReplyTo = ap_ReplyTo p,
              mp_Subject = ap_Subject p, mp_GroupID = ap_GroupID p\<rparr>),
      nm_Offset = offset, nm_Timestamp = now, nm_StreamName = stream\<rparr>"

text \<open>The handler's conversions: a published message, and the delivery a stream handler gets.\<close>

definition native_of_message :: "message \<Rightarrow> nativeMessage" where
  "native_of_message m =
     \<lparr>nm_Body = m_Body m,
      nm_Properties = no_properties\<lparr>mp_MessageID := m_MessageID m, mp_CorrelationID := m_CorrelationID m,
                                     mp_ContentType := m_ContentType m\<rparr>,
      nm_Offset = 0, nm_Timestamp = 0, nm_StreamName = []\<rparr>"

definition zero_delivery :: delivery where
  "zero_delivery =
     \<lparr>pub_Headers = [], pub_ContentType = [], pub_DeliveryMode = 0, pub_Priority = 0,
      pub_CorrelationId = [], pub_ReplyTo = [], pub_Expiration = [], pub_MessageId = [],
      pub_Timestamp = 0, pub_Type = [], pub_UserId = [], pub_AppId = [], pub_Body = [],
      dl_MessageCount = 0, dl_DeliveryTag = 0, dl_Redelivered = False, dl_Exchange = [],
      dl_RoutingKey = []\<rparr>"

definition stream_delivery :: "nativeMessage \<Rightarrow> delivery" where
  "stream_delivery m =
     zero_delivery\<lparr>pub_Body := nm_Body m, pub_MessageId := mp_MessageID (nm_Properties m),
       pub_CorrelationId := mp_CorrelationID (nm_Properties m),
       pub_ContentType := mp_ContentType (nm_Properties m)\<rparr>"

section \<open>The handler\<close>

record stream_config =
  sg_MaxAge :: duration
  sg_MaxLengthMessages :: int
  sg_MaxLengthBytes :: int
  sg_MaxSegmentSizeBytes :: int
  sg_InitialClusterSize :: int

definition stream_options :: "stream_config \<Rightarrow> streamOptions" where
  "stream_options c =
     \<lparr>so_MaxLengthBytes = sg_MaxLengthBytes c, so_MaxAge = (if sg_MaxAge c > 0 then sg_MaxAge c else 0),
      so_MaxSegmentSizeBytes = sg_MaxSegmentSizeBytes c\<rparr>"

datatype stream_call =
    PublishToStream string message
  | ConsumeFromStream string
  | CreateStream string stream_config
  | DeleteStream string

datatype stream_pc =
    AtCheck
  | AtProducer
  | AtSend nat
  | AtConsumer
  | AtStore nat
  | AtWait nat
  | AtForget nat
  | AtClose nat
  | AtDrop
  | AtEnvironment
  | AtReturn "string option"

record call_state =
  ca_call :: stream_call
  ca_pc :: stream_pc
  ca_ctxDone :: bool

text \<open>Producers and consumers of the wrapper are numbered in the order of their creation.\<close>

record endpoint =
  ep_stream :: string
  ep_closed :: bool

record stream_handler =
  sh_closed :: bool
  sh_envClosed :: bool
  sh_producers :: "(string, nat) go_map"
  sh_consumers :: "(string, nat) go_map"
  sh_prods :: "endpoint list"
  sh_conss :: "endpoint list"
  sh_calls :: "call_state list"
  sh_sent :: "(string \<times> library_message) list"

definition NewHandler :: stream_handler where
  "NewHandler =
     \<lparr>sh_closed = False, sh_envClosed = False, sh_producers = [], sh_consumers = [], sh_prods = [],
      sh_conss = [], sh_calls = [], sh_sent = []\<rparr>"

definition close_endpoint :: "endpoint \<Rightarrow> endpoint" where
  "close_endpoint e = e\<lparr>ep_closed := True\<rparr>"

definition close_at :: "nat \<Rightarrow> endpoint list \<Rightarrow> endpoint list" where
  "close_at i es = (if i < length es then es[i := close_endpoint (es ! i)] else es)"

definition Handler_Close :: "stream_handler \<Rightarrow> stream_handler" where
  "Handler_Close s =
     (if sh_closed s then s
      else s\<lparr>sh_closed := True, sh_envClosed := True,
             sh_prods := fold close_at (map snd (sh_producers s)) (sh_prods s),
             sh_conss := fold close_at (map snd (sh_consumers s)) (sh_conss s)\<rparr>)"

definition go_to :: "nat \<Rightarrow> stream_pc \<Rightarrow> stream_handler \<Rightarrow> stream_handler" where
  "go_to i pc s = s\<lparr>sh_calls := (sh_calls s)[i := (sh_calls s ! i)\<lparr>ca_pc := pc\<rparr>]\<rparr>"

fun stream_of :: "stream_call \<Rightarrow> string" where
  "stream_of (PublishToStream n m) = n"
| "stream_of (ConsumeFromStream n) = n"
| "stream_of (CreateStream n c) = n"
| "stream_of (DeleteStream n) = n"

fun after_check :: "stream_call \<Rightarrow> stream_pc" where
  "after_check (PublishToStream n m) = AtProducer"
| "after_check (ConsumeFromStream n) = AtConsumer"
| "after_check (CreateStream n c) = AtEnvironment"
| "after_check (DeleteStream n) = AtDrop"

definition getOrCreateProducer ::
  "nat \<Rightarrow> string \<Rightarrow> string option \<Rightarrow> stream_handler \<Rightarrow> stream_handler" where
  "getOrCreateProducer i n ans s =
     (case go_get (sh_producers s) n of
        Some p \<Rightarrow> go_to i (AtSend p) s
      | None \<Rightarrow>
          (case (if sh_envClosed s then Some ''environment is closed''
                 else map_option (\<lambda>e. ''failed to create producer: '' @ e) ans) of
             Some e \<Rightarrow> go_to i (AtReturn (Some (''failed to get producer for stream '' @ n @ '': '' @ e))) s
           | None \<Rightarrow>
               (let p = length (sh_prods s) in
                go_to i (AtSend p)
                  (s\<lparr>sh_prods := sh_prods s @ [\<lparr>ep_stream = n, ep_closed = False\<rparr>],
                     sh_producers := go_put n p (sh_producers s)\<rparr>))))"

definition producer_SendMessage ::
  "nat \<Rightarrow> nat \<Rightarrow> string \<Rightarrow> message \<Rightarrow> string option \<Rightarrow> stream_handler \<Rightarrow> stream_handler" where
  "producer_SendMessage i p n m ans s =
     (if ep_closed (sh_prods s ! p) then go_to i (AtReturn (Some ''producer is closed'')) s
      else
        go_to i (AtReturn ans)
          (if ans = None
           then s\<lparr>sh_sent := sh_sent s @
                   [(ep_stream (sh_prods s ! p), SendMessage_message (native_of_message m))]\<rparr>
           else s))"

definition new_consumer :: "nat \<Rightarrow> string \<Rightarrow> string option \<Rightarrow> stream_handler \<Rightarrow> stream_handler" where
  "new_consumer i n ans s =
     (case (if sh_envClosed s then Some ''environment is closed''
            else map_option (\<lambda>e. ''failed to create consumer: '' @ e) ans) of
        Some e \<Rightarrow> go_to i (AtReturn (Some (''failed to create consumer for stream '' @ n @ '': '' @ e))) s
      | None \<Rightarrow>
          go_to i (AtStore (length (sh_conss s)))
            (s\<lparr>sh_conss := sh_conss s @ [\<lparr>ep_stream = n, ep_closed = False\<rparr>]\<rparr>))"

definition close_known :: "(string, nat) go_map \<Rightarrow> string \<Rightarrow> endpoint list \<Rightarrow> endpoint list" where
  "close_known m n es = (case go_get m n of Some k \<Rightarrow> close_at k es | None \<Rightarrow> es)"

definition drop_stream :: "string \<Rightarrow> stream_handler \<Rightarrow> stream_handler" where
  "drop_stream n s =
     s\<lparr>sh_prods := close_known (sh_producers s) n (sh_prods s), sh_producers := go_delete n (sh_producers s),
       sh_conss := close_known (sh_consumers s) n (sh_conss s), sh_consumers := go_delete n (sh_consumers s)\<rparr>"

text \<open>One step of call \<open>i\<close>; \<open>ans\<close> is the answer of the library to the operation it makes, if any.\<close>

definition call_step :: "nat \<Rightarrow> string option \<Rightarrow> stream_handler \<Rightarrow> stream_handler option" where
  "call_step i ans s =
     (if length (sh_calls s) \<le> i then None
      else
        (let c = ca_call (sh_calls s ! i); n = stream_of c in
         case ca_pc (sh_calls s ! i) of
           AtCheck \<Rightarrow>
             Some (if sh_closed s then go_to i (AtReturn (Some ''handler is closed'')) s
                   else go_to i (after_check c) s)
         | AtProducer \<Rightarrow> Some (getOrCreateProducer i n ans s)
         | AtSend p \<Rightarrow>
             (case c of PublishToStream n' m \<Rightarrow> Some (producer_SendMessage i p n m ans s) | _ \<Rightarrow> None)
         | AtConsumer \<Rightarrow> Some (new_consumer i n ans s)
         | AtStore k \<Rightarrow> Some (go_to i (AtWait k) (s\<lparr>sh_consumers := go_put n k (sh_consumers s)\<rparr>))
         | AtWait k \<Rightarrow> if ca_ctxDone (sh_calls s ! i) then Some (go_to i (AtForget k) s) else None
         | AtForget k \<Rightarrow> Some (go_to i (AtClose k) (s\<lparr>sh_consumers := go_delete n (sh_consumers s)\<rparr>))
         | AtClose k \<Rightarrow>
             Some (if ep_closed (sh_conss s ! k) then go_to i (AtReturn None) s
                   else go_to i (AtReturn ans) (s\<lparr>sh_conss := close_at k (sh_conss s)\<rparr>))
         | AtDrop \<Rightarrow> Some (go_to i AtEnvironment (drop_stream n s))
         | AtEnvironment \<Rightarrow>
             Some (go_to i (AtReturn (if sh_envClosed s then Some ''environment is closed'' else ans)) s)
         | AtReturn r \<Rightarrow> None))"

datatype stream_label =
    SCall stream_call
  | SStep nat "string option"
  | SContextDone nat
  | SClose

fun stream_step :: "stream_label \<Rightarrow> stream_handler \<Rightarrow> stream_handler option" where
  "stream_step (SCall c) s =
     Some (s\<lparr>sh_calls := sh_calls s @ [\<lparr>ca_call = c, ca_pc = AtCheck, ca_ctxDone = False\<rparr>]\<rparr>)"
| "stream_step (SStep i ans) s = call_step i ans s"
| "stream_step (SContextDone i) s =
     (if i < length (sh_calls s)
      then Some (s\<lparr>sh_calls := (sh_calls s)[i := (sh_calls s ! i)\<lparr>ca_ctxDone := True\<rparr>]\<rparr>) else None)"
| "stream_step SClose s = Some (Handler_Close s)"

fun stream_run :: "stream_label list \<Rightarrow> stream_handler \<Rightarrow> stream_handler option" where
  "stream_run [] s = Some s"
| "stream_run (l # ls) s = (case stream_step l s of None \<Rightarrow> None | Some s' \<Rightarrow> stream_run ls s')"

interpretation streaming: labelled_run stream_step stream_run
  by unfold_locales simp_all

section \<open>The invariant of the handler\<close>

definition producers_ok :: "stream_handler \<Rightarrow> bool" where
  "producers_ok s \<longleftrightarrow>
     (\<forall>p<length (sh_prods s). \<not> ep_closed (sh_prods s ! p) \<longrightarrow>
        go_get (sh_producers s) (ep_stream (sh_prods s ! p)) = Some p) \<and>
     (\<forall>n p. go_get (sh_producers s) n = Some p \<longrightarrow>
        p < length (sh_prods s) \<and> ep_stream (sh_prods s ! p) = n) \<and>
     (sh_closed s \<longrightarrow> sh_envClosed s \<and> list_all ep_closed (sh_prods s))"

fun pc_ok :: "stream_handler \<Rightarrow> stream_call \<Rightarrow> stream_pc \<Rightarrow> bool" where
  "pc_ok s c (AtSend p) = (p < length (sh_prods s) \<and> ep_stream (sh_prods s ! p) = stream_of c)"
| "pc_ok s c pc = True"

definition calls_ok :: "stream_handler \<Rightarrow> bool" where
  "calls_ok s \<longleftrightarrow> (\<forall>i<length (sh_calls s). pc_ok s (ca_call (sh_calls s ! i)) (ca_pc (sh_calls s ! i)))"

text \<open>What has been sent was asked for, to that stream.\<close>

definition sent_ok :: "stream_handler \<Rightarrow> bool" where
  "sent_ok s \<longleftrightarrow>
     (\<forall>x\<in>set (sh_sent s). \<exists>i<length (sh_calls s). \<exists>m.
        ca_call (sh_calls s ! i) = PublishToStream (fst x) m \<and>
        snd x = SendMessage_message (native_of_message m))"

definition handler_ok :: "stream_handler \<Rightarrow> bool" where
  "handler_ok s \<longleftrightarrow> producers_ok s \<and> calls_ok s \<and> sent_ok s"

lemma nth_updated: "xs[i := x] ! j = (if j = i \<and> i < length xs then x else xs ! j)"
  by (cases "i < length xs") (auto simp: nth_list_update list_update_beyond)

lemma close_at_simps [simp]:
  "length (close_at k es) = length es"
  "ep_stream (close_at k es ! p) = ep_stream (es ! p)"
  "p < length es \<Longrightarrow> ep_closed (close_at k es ! p) = (p = k \<or> ep_closed (es ! p))"
  by (auto simp: close_at_def close_endpoint_def nth_updated)

lemma close_all_simps [simp]:
  "length (fold close_at ks es) = length es"
  "ep_stream (fold close_at ks es ! p) = ep_stream (es ! p)"
  "p < length es \<Longrightarrow> ep_closed (fold close_at ks es ! p) = (p \<in> set ks \<or> ep_closed (es ! p))"
  by (induction ks arbitrary: es) auto

lemma close_known_simps [simp]:
  "length (close_known m n es) = length es"
  "ep_stream (close_known m n es ! p) = ep_stream (es ! p)"
  "p < length es \<Longrightarrow> ep_closed (close_known m n es ! p) = (go_get m n = Some p \<or> ep_closed (es ! p))"
  by (auto simp: close_known_def split: option.split)

lemma go_to_fields [simp]:
  "sh_closed (go_to i pc s) = sh_closed s" "sh_envClosed (go_to i pc s) = sh_envClosed s"
  "sh_producers (go_to i pc s) = sh_producers s" "sh_consumers (go_to i pc s) = sh_consumers s"
  "sh_prods (go_to i pc s) = sh_prods s" "sh_conss (go_to i pc s) = sh_conss s"
  "sh_sent (go_to i pc s) = sh_sent s" "length (sh_calls (go_to i pc s)) = length (sh_calls s)"
  "ca_call (sh_calls (go_to i pc s) ! j) = ca_call (sh_calls s ! j)"
  by (simp_all add: go_to_def nth_updated)

lemma pc_ok_prods: "sh_prods s' = sh_prods s \<Longrightarrow> pc_ok s' c pc = pc_ok s c pc"
  by (cases pc) simp_all

lemma go_to_pc: "i < length (sh_calls s) \<Longrightarrow>
  ca_pc (sh_calls (go_to i pc s) ! j) = (if j = i then pc else ca_pc (sh_calls s ! j))"
  by (simp add: go_to_def nth_updated)

lemma handler_ok_go_to:
  assumes "handler_ok s" and "i < length (sh_calls s)" and "pc_ok s (ca_call (sh_calls s ! i)) pc"
  shows "handler_ok (go_to i pc s)"
  using assms pc_ok_prods [of "go_to i pc s" s]
  by (simp add: handler_ok_def producers_ok_def calls_ok_def sent_ok_def go_to_pc)

text \<open>The number of producers only grows and none changes its stream.\<close>

lemma pc_ok_grows:
  assumes "pc_ok s c pc" and "length (sh_prods s) \<le> length (sh_prods s')"
    and "\<And>p. p < length (sh_prods s) \<Longrightarrow> ep_stream (sh_prods s' ! p) = ep_stream (sh_prods s ! p)"
  shows "pc_ok s' c pc"
  using assms by (cases pc) auto

lemma handler_ok_change:
  assumes "handler_ok s" and "sh_calls s' = sh_calls s" and "sh_sent s' = sh_sent s"
    and "producers_ok s'" and "length (sh_prods s) \<le> length (sh_prods s')"
    and "\<And>p. p < length (sh_prods s) \<Longrightarrow> ep_stream (sh_prods s' ! p) = ep_stream (sh_prods s ! p)"
  shows "handler_ok s'"
  using assms pc_ok_grows [OF _ assms(5,6)]
  by (simp add: handler_ok_def calls_ok_def sent_ok_def)

lemma producers_ok_same:
  "producers_ok s \<Longrightarrow> sh_prods s' = sh_prods s \<Longrightarrow> sh_producers s' = sh_producers s \<Longrightarrow>
   sh_closed s' = sh_closed s \<Longrightarrow> sh_envClosed s' = sh_envClosed s \<Longrightarrow> producers_ok s'"
  by (simp add: producers_ok_def)

lemma producers_okD:
  assumes "producers_ok s"
  shows "p < length (sh_prods s) \<Longrightarrow> \<not> ep_closed (sh_prods s ! p) \<Longrightarrow>
      go_get (sh_producers s) (ep_stream (sh_prods s ! p)) = Some p"
    and "go_get (sh_producers s) k = Some q \<Longrightarrow> q < length (sh_prods s) \<and> ep_stream (sh_prods s ! q) = k"
    and "sh_closed s \<Longrightarrow> sh_envClosed s \<and> (\<forall>p<length (sh_prods s). ep_closed (sh_prods s ! p))"
  using assms by (simp_all add: producers_ok_def list_all_length)

lemma producers_ok_new:
  assumes "producers_ok s" and "\<not> sh_envClosed s" and "go_get (sh_producers s) n = None"
  shows "producers_ok (s\<lparr>sh_prods := sh_prods s @ [\<lparr>ep_stream = n, ep_closed = False\<rparr>],
    sh_producers := go_put n (length (sh_prods s)) (sh_producers s)\<rparr>)"
    (is "producers_ok ?s")
  unfolding producers_ok_def
proof (intro conjI allI impI)
  fix p assume p: "p < length (sh_prods ?s)" "\<not> ep_closed (sh_prods ?s ! p)"
  show "go_get (sh_producers ?s) (ep_stream (sh_prods ?s ! p)) = Some p"
  proof (cases "p = length (sh_prods s)")
    case True
    then show ?thesis by simp
  next
    case False
    with p have q: "p < length (sh_prods s)" "\<not> ep_closed (sh_prods s ! p)" by (auto simp: nth_append)
    note g = producers_okD(1) [OF assms(1) q]
    with assms(3) have "ep_stream (sh_prods s ! p) \<noteq> n" by auto
    with g q show ?thesis by (simp add: nth_append)
  qed
next
  fix k p assume "go_get (sh_producers ?s) k = Some p"
  then have "k = n \<and> p = length (sh_prods s) \<or> go_get (sh_producers s) k = Some p"
    by (simp split: if_splits)
  then show "p < length (sh_prods ?s)" "ep_stream (sh_prods ?s ! p) = k"
    using producers_okD(2) [OF assms(1), of k p] by (auto simp: nth_append)
next
  assume "sh_closed ?s"
  then have False using producers_okD(3) [OF assms(1)] assms(2) by simp
  then show "sh_envClosed ?s" "list_all ep_closed (sh_prods ?s)" by simp_all
qed

lemma producers_ok_drop:
  assumes "producers_ok s"
  shows "producers_ok (drop_stream n s)"
proof -
  note a = producers_okD(1) [OF assms] and b = producers_okD(2) [OF assms] and c = producers_okD(3) [OF assms]
  show ?thesis
    unfolding producers_ok_def
  proof (intro conjI allI impI)
    fix p assume "p < length (sh_prods (drop_stream n s))" "\<not> ep_closed (sh_prods (drop_stream n s) ! p)"
    then have p: "p < length (sh_prods s)" "\<not> ep_closed (sh_prods s ! p)" "go_get (sh_producers s) n \<noteq> Some p"
      by (simp_all add: drop_stream_def)
    with a [of p] have "ep_stream (sh_prods s ! p) \<noteq> n" by auto
    with a [of p] p show "go_get (sh_producers (drop_stream n s)) (ep_stream (sh_prods (drop_stream n s) ! p)) = Some p"
      by (simp add: drop_stream_def)
  next
    fix k p assume "go_get (sh_producers (drop_stream n s)) k = Some p"
    then have "go_get (sh_producers s) k = Some p" by (simp add: drop_stream_def split: if_splits)
    with b [of k p] show "p < length (sh_prods (drop_stream n s))"
      "ep_stream (sh_prods (drop_stream n s) ! p) = k"
      by (simp_all add: drop_stream_def)
  next
    assume "sh_closed (drop_stream n s)"
    with c show "sh_envClosed (drop_stream n s)" "list_all ep_closed (sh_prods (drop_stream n s))"
      by (simp_all add: drop_stream_def list_all_length)
  qed
qed

lemma known_value: "go_get m n = Some p \<Longrightarrow> p \<in> snd ` set m"
  by (force dest: map_of_SomeD)

lemma producers_ok_close:
  assumes "producers_ok s"
  shows "producers_ok (Handler_Close s)"
proof -
  have "p \<in> snd ` set (sh_producers s)" if "p < length (sh_prods s)" "\<not> ep_closed (sh_prods s ! p)" for p
    using assms that by (intro known_value [where n = "ep_stream (sh_prods s ! p)"]) (simp add: producers_ok_def)
  then have "list_all ep_closed (fold close_at (map snd (sh_producers s)) (sh_prods s))"
    by (auto simp: list_all_length)
  with assms show ?thesis by (auto simp: producers_ok_def Handler_Close_def list_all_length)
qed

lemma Handler_Close_fields [simp]:
  "sh_calls (Handler_Close s) = sh_calls s" "sh_sent (Handler_Close s) = sh_sent s"
  "length (sh_prods (Handler_Close s)) = length (sh_prods s)"
  "ep_stream (sh_prods (Handler_Close s) ! p) = ep_stream (sh_prods s ! p)"
  by (simp_all add: Handler_Close_def)

lemma drop_stream_fields [simp]:
  "sh_calls (drop_stream n s) = sh_calls s" "sh_sent (drop_stream n s) = sh_sent s"
  "length (sh_prods (drop_stream n s)) = length (sh_prods s)"
  "ep_stream (sh_prods (drop_stream n s) ! p) = ep_stream (sh_prods s ! p)"
  by (simp_all add: drop_stream_def)

lemma handler_okD: "handler_ok s \<Longrightarrow> producers_ok s" by (simp add: handler_ok_def)

lemma handler_ok_close: "handler_ok s \<Longrightarrow> handler_ok (Handler_Close s)"
  by (rule handler_ok_change) (simp_all add: producers_ok_close handler_okD)

lemma handler_ok_drop: "handler_ok s \<Longrightarrow> handler_ok (drop_stream n s)"
  by (rule handler_ok_change) (simp_all add: producers_ok_drop handler_okD)

lemma handler_ok_get:
  assumes "handler_ok s" and "i < length (sh_calls s)" and "n = stream_of (ca_call (sh_calls s ! i))"
  shows "handler_ok (getOrCreateProducer i n ans s)"
proof (cases "go_get (sh_producers s) n")
  case None
  let ?s' = "s\<lparr>sh_prods := sh_prods s @ [\<lparr>ep_stream = n, ep_closed = False\<rparr>],
    sh_producers := go_put n (length (sh_prods s)) (sh_producers s)\<rparr>"
  have "handler_ok ?s'" if "\<not> sh_envClosed s"
    using assms(1)
    by (rule handler_ok_change)
      (use assms(1) that None in \<open>auto simp: handler_ok_def nth_append intro!: producers_ok_new\<close>)
  then have "handler_ok (go_to i (AtSend (length (sh_prods s))) ?s')" if "\<not> sh_envClosed s"
    using that assms(2,3) by (intro handler_ok_go_to) simp_all
  with assms None show ?thesis
    by (auto simp: getOrCreateProducer_def Let_def intro!: handler_ok_go_to split: option.split)
next
  case (Some p)
  with assms(1,3) have "pc_ok s (ca_call (sh_calls s ! i)) (AtSend p)"
    by (simp add: handler_ok_def producers_ok_def)
  with Some assms(1,2) show ?thesis by (simp add: getOrCreateProducer_def handler_ok_go_to)
qed

lemma handler_ok_send:
  assumes "handler_ok s" and "i < length (sh_calls s)" and "ca_pc (sh_calls s ! i) = AtSend p"
    and "ca_call (sh_calls s ! i) = PublishToStream n m"
  shows "handler_ok (producer_SendMessage i p n m ans s)"
proof -
  have "pc_ok s (ca_call (sh_calls s ! i)) (AtSend p)"
    using assms(1-3) by (auto simp: handler_ok_def calls_ok_def dest: spec [of _ i])
  with assms(4) have st: "ep_stream (sh_prods s ! p) = n" by simp
  let ?s' = "s\<lparr>sh_sent := sh_sent s @ [(n, SendMessage_message (native_of_message m))]\<rparr>"
  have "calls_ok ?s' = calls_ok s" using pc_ok_prods [of ?s' s] by (simp add: calls_ok_def)
  then have "handler_ok ?s'"
    using assms by (auto simp: handler_ok_def producers_ok_def sent_ok_def)
  with assms(1,2) st show ?thesis
    by (auto simp: producer_SendMessage_def intro!: handler_ok_go_to)
qed

lemma handler_ok_consumers:
  assumes "handler_ok s"
  shows "handler_ok (s\<lparr>sh_consumers := c\<rparr>)" "handler_ok (s\<lparr>sh_conss := d\<rparr>)"
  by (rule handler_ok_change [OF assms], simp_all add: producers_ok_same [OF handler_okD [OF assms]])+

lemma handler_ok_call:
  assumes "handler_ok s" and "call_step i ans s = Some s'"
  shows "handler_ok s'"
proof -
  have i: "i < length (sh_calls s)" using assms(2) by (auto simp: call_step_def split: if_splits)
  show ?thesis
    using assms i
    by (cases "ca_pc (sh_calls s ! i)"; cases "ca_call (sh_calls s ! i)")
      (auto simp: call_step_def Let_def new_consumer_def
        intro!: handler_ok_go_to handler_ok_consumers handler_ok_get handler_ok_drop
        intro: handler_ok_send split: if_splits option.splits)
qed


lemma handler_ok_call_begins:
  assumes "handler_ok s"
  shows "handler_ok (s\<lparr>sh_calls := sh_calls s @ [\<lparr>ca_call = c, ca_pc = AtCheck, ca_ctxDone = False\<rparr>]\<rparr>)"
    (is "handler_ok ?s")
proof -
  have "producers_ok ?s" using handler_okD [OF assms] by (rule producers_ok_same) simp_all
  moreover have "calls_ok ?s"
    unfolding calls_ok_def
  proof (intro allI impI)
    fix i assume "i < length (sh_calls ?s)"
    then show "pc_ok ?s (ca_call (sh_calls ?s ! i)) (ca_pc (sh_calls ?s ! i))"
      using assms pc_ok_prods [of ?s s]
      by (cases "i = length (sh_calls s)") (simp_all add: nth_append handler_ok_def calls_ok_def)
  qed
  moreover have "sent_ok ?s"
    unfolding sent_ok_def
  proof
    fix x assume "x \<in> set (sh_sent ?s)"
    with assms obtain i m where "i < length (sh_calls s)" "ca_call (sh_calls s ! i) = PublishToStream (fst x) m"
      "snd x = SendMessage_message (native_of_message m)"
      by (auto simp: handler_ok_def sent_ok_def)
    then show "\<exists>i<length (sh_calls ?s). \<exists>m. ca_call (sh_calls ?s ! i) = PublishToStream (fst x) m \<and>
        snd x = SendMessage_message (native_of_message m)"
      by (intro exI [of _ i] exI [of _ m] conjI) (simp_all add: nth_append)
  qed
  ultimately show ?thesis by (simp add: handler_ok_def)
qed

lemma handler_ok_step: "handler_ok s \<Longrightarrow> stream_step l s = Some s' \<Longrightarrow> handler_ok s'"
proof (cases l)
  case (SCall c)
  assume "handler_ok s" "stream_step l s = Some s'"
  with SCall show ?thesis using handler_ok_call_begins by auto
next
  case (SStep i ans)
  assume "handler_ok s" "stream_step l s = Some s'"
  with SStep show ?thesis using handler_ok_call by simp
next
  case (SContextDone i)
  assume h: "handler_ok s" "stream_step l s = Some s'"
  let ?s = "s\<lparr>sh_calls := (sh_calls s)[i := (sh_calls s ! i)\<lparr>ca_ctxDone := True\<rparr>]\<rparr>"
  have p: "pc_ok ?s c pc = pc_ok s c pc" for c pc by (rule pc_ok_prods) simp
  have f: "ca_call (sh_calls ?s ! j) = ca_call (sh_calls s ! j)" "ca_pc (sh_calls ?s ! j) = ca_pc (sh_calls s ! j)"
    "length (sh_calls ?s) = length (sh_calls s)" for j
    by (simp_all add: nth_updated)
  from h SContextDone have "s' = ?s" by (auto split: if_splits)
  with h(1) show ?thesis
    unfolding handler_ok_def calls_ok_def sent_ok_def
    by (simp only: f p) (auto intro: producers_ok_same)
next
  case SClose
  assume "handler_ok s" "stream_step l s = Some s'"
  with SClose show ?thesis using handler_ok_close [of s] by simp
qed

lemma handler_ok_run: "stream_run ls s = Some s' \<Longrightarrow> handler_ok s \<Longrightarrow> handler_ok s'"
  by (rule streaming.invariant [where P = handler_ok]) (auto dest: handler_ok_step)

lemma handler_ok_new: "handler_ok NewHandler"
  by (simp add: handler_ok_def producers_ok_def calls_ok_def sent_ok_def NewHandler_def)

section \<open>What the handler promises\<close>

text \<open>C39: the handler keeps at most one open producer per stream, and sends to a stream only what a
  call of PublishToStream asked to publish there.\<close>

theorem streams_keep_apart:
  assumes "stream_run ls NewHandler = Some s"
  shows "(\<forall>p q. p < length (sh_prods s) \<and> q < length (sh_prods s) \<and> \<not> ep_closed (sh_prods s ! p) \<and>
      \<not> ep_closed (sh_prods s ! q) \<and> ep_stream (sh_prods s ! p) = ep_stream (sh_prods s ! q) \<longrightarrow> p = q) \<and>
    (\<forall>x\<in>set (sh_sent s). \<exists>i<length (sh_calls s). \<exists>m.
       ca_call (sh_calls s ! i) = PublishToStream (fst x) m \<and>
       snd x = SendMessage_message (native_of_message m))"
proof -
  have h: "handler_ok s" by (rule handler_ok_run [OF assms handler_ok_new])
  note a = producers_okD(1) [OF handler_okD [OF h]]
  have "p = q" if "p < length (sh_prods s)" "q < length (sh_prods s)" "\<not> ep_closed (sh_prods s ! p)"
    "\<not> ep_closed (sh_prods s ! q)" "ep_stream (sh_prods s ! p) = ep_stream (sh_prods s ! q)" for p q
  proof -
    have "go_get (sh_producers s) (ep_stream (sh_prods s ! q)) = Some p"
      using a [OF that(1,3)] unfolding that(5) .
    with a [OF that(2,4)] show "p = q" by simp
  qed
  with h show ?thesis unfolding handler_ok_def sent_ok_def by blast
qed

lemma closed_call:
  assumes "handler_ok s" and "sh_closed s" and "call_step i ans s = Some s'"
  shows "sh_closed s' \<and> sh_sent s' = sh_sent s"
proof -
  have i: "i < length (sh_calls s)" using assms(3) by (auto simp: call_step_def split: if_splits)
  note env = producers_okD(3) [OF handler_okD [OF assms(1)] assms(2)]
  show ?thesis
  proof (cases "ca_pc (sh_calls s ! i)")
    case (AtSend p)
    have "pc_ok s (ca_call (sh_calls s ! i)) (AtSend p)"
      using assms(1) i AtSend by (auto simp: handler_ok_def calls_ok_def dest: spec [of _ i])
    with env have "ep_closed (sh_prods s ! p)" by simp
    with AtSend assms(2,3) i show ?thesis
      by (cases "ca_call (sh_calls s ! i)")
        (auto simp: call_step_def Let_def producer_SendMessage_def)
  qed (use assms(2,3) i env in \<open>auto simp: call_step_def Let_def getOrCreateProducer_def
      new_consumer_def split: option.splits if_splits, simp_all add: drop_stream_def\<close>)
qed

lemma closed_step:
  assumes "handler_ok s" and "sh_closed s" and "stream_step l s = Some s'"
  shows "sh_closed s' \<and> sh_sent s' = sh_sent s"
proof (cases l)
  case (SStep i ans)
  with assms closed_call show ?thesis by simp
qed (use assms in \<open>auto simp: Handler_Close_def split: if_splits\<close>)

text \<open>A closed handler sends nothing any more, whatever calls are still running or begin later.\<close>

lemma closed_handler_sends_nothing:
  assumes "stream_run ls NewHandler = Some s" and "sh_closed s" and "stream_run ls' s = Some s'"
  shows "sh_sent s' = sh_sent s"
proof -
  have "handler_ok s" by (rule handler_ok_run [OF assms(1) handler_ok_new])
  with assms(2) have "handler_ok s \<and> sh_closed s \<and> sh_sent s = sh_sent s" by simp
  from streaming.invariant [where P = "\<lambda>x. handler_ok x \<and> sh_closed x \<and> sh_sent x = sh_sent s",
      OF assms(3) this]
  show ?thesis using closed_step handler_ok_step by metis
qed

text \<open>What is published to a stream arrives with its body, its identifiers and its content type,
  and without its headers, its type and its address for replies.\<close>

lemma stream_roundtrip:
  "stream_delivery (received_message stream offset now (SendMessage_message (native_of_message m))) =
     zero_delivery\<lparr>pub_Body := m_Body m, pub_MessageId := m_MessageID m,
       pub_CorrelationId := m_CorrelationID m, pub_ContentType := m_ContentType m\<rparr>"
  by (auto simp: stream_delivery_def received_message_def SendMessage_message_def native_of_message_def
      no_properties_def zero_delivery_def text_or_nil_def as_text_def Let_def)

section \<open>What it does not promise\<close>

text \<open>Only the end of its context ends a call that consumes.\<close>

lemma waiting_step:
  assumes "stream_step l s = Some s'" and "l \<noteq> SContextDone i" and "i < length (sh_calls s)"
    and "ca_pc (sh_calls s ! i) = AtWait k" and "\<not> ca_ctxDone (sh_calls s ! i)"
  shows "i < length (sh_calls s') \<and> sh_calls s' ! i = sh_calls s ! i"
proof (cases l)
  case (SStep j ans)
  with assms have "j \<noteq> i" by (auto simp: call_step_def split: if_splits)
  then have other: "sh_calls (go_to j pc s1) ! i = sh_calls s1 ! i" for pc s1
    by (simp add: go_to_def nth_updated)
  show ?thesis
    using assms SStep
    by (cases "ca_pc (sh_calls s ! j)"; cases "ca_call (sh_calls s ! j)")
      (auto simp: call_step_def Let_def other getOrCreateProducer_def producer_SendMessage_def
        new_consumer_def split: if_splits option.splits)
qed (use assms in \<open>auto simp: nth_append nth_updated split: if_splits\<close>)

text \<open>Closing the handler does not end a call that consumes: as long as its context is not
  cancelled it waits, also after Close, whatever else happens.\<close>

lemma consumption_outlives_close:
  assumes "ca_pc (sh_calls s ! i) = AtWait k" and "i < length (sh_calls s)"
    and "\<not> ca_ctxDone (sh_calls s ! i)" and "stream_run ls (Handler_Close s) = Some s'"
    and "SContextDone i \<notin> set ls"
  shows "sh_closed s' \<longrightarrow> ca_pc (sh_calls s' ! i) = AtWait k"
proof -
  have "i < length (sh_calls s') \<and> ca_pc (sh_calls s' ! i) = AtWait k \<and> \<not> ca_ctxDone (sh_calls s' ! i)"
  proof (rule streaming.invariant_among [where Q = "\<lambda>l. l \<noteq> SContextDone i", OF assms(4)])
    show "i < length (sh_calls (Handler_Close s)) \<and> ca_pc (sh_calls (Handler_Close s) ! i) = AtWait k \<and>
        \<not> ca_ctxDone (sh_calls (Handler_Close s) ! i)"
      using assms(1-3) by simp
    show "\<forall>l \<in> set ls. l \<noteq> SContextDone i" using assms(5) by auto
  qed (use waiting_step in fastforce)
  then show ?thesis by simp
qed

text \<open>A second call that consumes the same stream makes the handler forget the first one: afterwards
  neither Close nor DeleteStream closes the first consumer.\<close>

lemma second_consumer_hides_first:
  assumes "i < length (sh_calls s)" and "ca_pc (sh_calls s ! i) = AtStore k" and "k \<noteq> k'"
    and "stream_of (ca_call (sh_calls s ! i)) = n" and "go_get (sh_consumers s) n = Some k'"
    and "\<And>m. m \<noteq> n \<Longrightarrow> go_get (sh_consumers s) m \<noteq> Some k'" and "go_map_ok (sh_consumers s)"
    and "\<not> sh_closed s" and "k' < length (sh_conss s)" and "\<not> ep_closed (sh_conss s ! k')"
  shows "\<exists>s'. stream_step (SStep i ans) s = Some s' \<and>
    \<not> ep_closed (sh_conss (Handler_Close s') ! k') \<and> \<not> ep_closed (sh_conss (drop_stream n s') ! k')"
proof -
  let ?m = "go_put n k (sh_consumers s)"
  have ok: "go_map_ok ?m" using assms(7) by simp
  have "k' \<notin> snd ` set ?m"
  proof
    assume "k' \<in> snd ` set ?m"
    then obtain m where "(m, k') \<in> set ?m" by auto
    then have "go_get ?m m = Some k'" by (simp add: go_get_iff [OF ok])
    with assms(3,6) show False by (auto split: if_splits)
  qed
  with assms show ?thesis
    by (auto simp: call_step_def Handler_Close_def drop_stream_def)
qed

text \<open>A producer whose connection is gone is never replaced: once the library answers every send
  with an error, every call of PublishToStream fails.\<close>

lemma stale_producer_stays:
  assumes "i < length (sh_calls s)" and "ca_pc (sh_calls s ! i) = AtProducer"
    and "ca_call (sh_calls s ! i) = PublishToStream n m" and "go_get (sh_producers s) n = Some p"
  shows "\<exists>s'. stream_run [SStep i None, SStep i (Some e)] s = Some s' \<and>
    ca_pc (sh_calls s' ! i) \<noteq> AtReturn None \<and> go_get (sh_producers s') n = Some p \<and>
    sh_sent s' = sh_sent s"
  using assms
  by (simp add: call_step_def getOrCreateProducer_def producer_SendMessage_def go_to_pc)

section \<open>Runs\<close>

definition demo_stream_message :: message where
  "demo_stream_message =
     \<lparr>m_Body = [1, 2], m_ContentType = ''text/plain'', m_Headers = [], m_Exchange = [], m_RoutingKey = [],
      m_Persistent = True, m_MessageID = ''m1'', m_CorrelationID = [], m_ReplyTo = ''reply'', m_Type = [],
      m_AppID = [], m_UserID = [], m_Timestamp = 0, m_Expiration = [], m_Priority = 0\<rparr>"

definition publish_run :: "stream_label list" where
  "publish_run = [SCall (PublishToStream ''s'' demo_stream_message), SStep 0 None, SStep 0 None, SStep 0 None]"

definition consume_run :: "stream_label list" where
  "consume_run = [SCall (ConsumeFromStream ''s''), SStep 0 None, SStep 0 None, SStep 0 None]"

lemmas stream_demo_simps = publish_run_def consume_run_def NewHandler_def call_step_def go_to_def
  getOrCreateProducer_def producer_SendMessage_def new_consumer_def Handler_Close_def Let_def

theorem streams_keep_apart_witness:
  "\<exists>s. stream_run publish_run NewHandler = Some s \<and> length (sh_sent s) = 1 \<and>
     (\<forall>x\<in>set (sh_sent s). \<exists>m. snd x = SendMessage_message (native_of_message m))"
proof -
  obtain s where s: "stream_run publish_run NewHandler = Some s" and n: "length (sh_sent s) = 1"
    by (simp add: stream_demo_simps)
  from streams_keep_apart [OF s] s n show ?thesis by blast
qed

lemma closed_handler_sends_nothing_witness:
  "\<exists>s s'. stream_run (publish_run @ [SClose]) NewHandler = Some s \<and>
     stream_run [SCall (PublishToStream ''s'' demo_stream_message), SStep 1 None] s = Some s' \<and>
     sh_sent s' = sh_sent s"
proof -
  obtain s s' where s: "stream_run (publish_run @ [SClose]) NewHandler = Some s" and c: "sh_closed s"
    and s': "stream_run [SCall (PublishToStream ''s'' demo_stream_message), SStep 1 None] s = Some s'"
    by (simp add: stream_demo_simps)
  from closed_handler_sends_nothing [OF s c s'] s s' show ?thesis by blast
qed

lemma consumption_outlives_close_witness:
  "\<exists>s. stream_run consume_run NewHandler = Some s \<and>
     ca_pc (sh_calls (Handler_Close s) ! 0) = AtWait 0"
proof -
  obtain s where s: "stream_run consume_run NewHandler = Some s"
    and w: "ca_pc (sh_calls s ! 0) = AtWait 0" "0 < length (sh_calls s)" "\<not> ca_ctxDone (sh_calls s ! 0)"
    and c: "sh_closed (Handler_Close s)"
    by (simp add: stream_demo_simps)
  from consumption_outlives_close [OF w, of "[]"] c s show ?thesis by auto
qed

end
