(* ===== verification/Assured_Publish.thy ===== *)
theory Assured_Publish
  imports Publish_Loop
begin

text \<open>
  The publish loop of \<open>publishWithDeliveryAssurance\<close> (src/publisher.go): it calls
  \<open>publishTracked\<close> until an attempt is accepted or nothing allows another one. What an attempt
  does to the publisher is in Delivery_Model; here it is its answer, by the number of the attempt.
\<close>

section \<open>The loop\<close>

datatype tracked = TrackAccepted | TrackDuplicate string | TrackFails go_error

record assured_script =
  as_track :: "nat \<Rightarrow> tracked"
  as_ctxDone :: "nat \<Rightarrow> bool"
  as_ctxWait :: "nat \<Rightarrow> bool"
  as_refresh :: "nat \<Rightarrow> string option"

datatype assured_event = Tracked nat tracked | AssuredWait duration | ChannelRefreshed "string option"

text \<open>What \<open>publishWithDeliveryAssurance\<close> reports.\<close>

datatype assured_result = Published | Duplicate string | PublishFailed go_error

definition result_of :: "go_error option \<Rightarrow> assured_result" where
  "result_of e = (case e of None \<Rightarrow> Published | Some e \<Rightarrow> PublishFailed e)"

definition result_text :: "assured_result \<Rightarrow> string option" where
  "result_text r =
     (case r of
        Published \<Rightarrow> None
      | Duplicate i \<Rightarrow> Some (''message with ID '' @ quoted i @
          '' is already pending delivery - MessageID must be unique for in-flight messages'')
      | PublishFailed e \<Rightarrow> Some (''failed to publish message: '' @ Error_text e))"

text \<open>
  The loop, from an attempt on; \<open>None\<close>: it never ends. Unlike in \<open>Publish\<close> the context is asked
  before the policy, and a context that is done ends the loop. A refresh that fails is followed by
  another attempt just as one that succeeds.
\<close>

partial_function (option) assured_loop ::
  "publish_config \<Rightarrow> assured_script \<Rightarrow> nat \<Rightarrow> go_error option \<Rightarrow> assured_event list \<Rightarrow>
   (assured_result \<times> assured_event list) option" where
  "assured_loop c S att publishErr log =
     (if pc_maxConnectionRetries c > 0 \<and> int att > pc_maxConnectionRetries c
      then Some (result_of publishErr, log)
      else
        (let log1 = log @ [Tracked att (as_track S att)] in
         case as_track S att of
           TrackAccepted \<Rightarrow> Some (Published, log1)
         | TrackDuplicate i \<Rightarrow> Some (Duplicate i, log1)
         | TrackFails e \<Rightarrow>
             if isChannelError (Some e) \<and> pc_AutoReconnect c
             then
               (if as_ctxDone S att then Some (PublishFailed ctx_error, log1)
                else if policy_refuses c att then Some (PublishFailed e, log1)
                else if as_ctxWait S att then Some (PublishFailed ctx_error, log1)
                else
                  assured_loop c S (Suc att) (Some e)
                    (log1 @ [AssuredWait (publish_delay c att), ChannelRefreshed (as_refresh S att)]))
             else Some (PublishFailed e, log1)))"

section \<open>What the caller is told\<close>

fun is_accepted :: "assured_event \<Rightarrow> bool" where
  "is_accepted (Tracked n TrackAccepted) = True"
| "is_accepted _ = False"

fun is_tracked :: "assured_event \<Rightarrow> bool" where
  "is_tracked (Tracked n t) = True"
| "is_tracked _ = False"

definition told :: "assured_result \<Rightarrow> nat" where
  "told r = (if r = Published then 1 else 0)"

lemma told_simps [simp]:
  "told Published = 1" "told (Duplicate i) = 0" "told (PublishFailed e) = 0" "told (result_of (Some e)) = 0"
  by (simp_all add: told_def result_of_def)

definition tells :: "nat \<Rightarrow> go_error option \<Rightarrow> assured_event list \<Rightarrow> assured_result \<times> assured_event list \<Rightarrow> bool" where
  "tells k e log y \<longleftrightarrow>
     (e \<noteq> None \<or> k = 0 \<longrightarrow> lcount is_accepted (snd y) = lcount is_accepted log + told (fst y))"

lemma assured_loop_tells:
  assumes "assured_loop c S k e log = Some y"
  shows "tells k e log y"
proof (rule assured_loop.raw_induct [where P = "\<lambda>c S k e log y. tells k e log y", OF _ assms])
  fix f :: "publish_config \<Rightarrow> assured_script \<Rightarrow> nat \<Rightarrow> go_error option \<Rightarrow> assured_event list \<Rightarrow>
    (assured_result \<times> assured_event list) option"
  fix c S k e log y
  assume ih: "\<And>c S k e log y. f c S k e log = Some y \<Longrightarrow> tells k e log y"
  assume step: "(if pc_maxConnectionRetries c > 0 \<and> int k > pc_maxConnectionRetries c
      then Some (result_of e, log)
      else
        (let log1 = log @ [Tracked k (as_track S k)] in
         case as_track S k of
           TrackAccepted \<Rightarrow> Some (Published, log1)
         | TrackDuplicate i \<Rightarrow> Some (Duplicate i, log1)
         | TrackFails e \<Rightarrow>
             if isChannelError (Some e) \<and> pc_AutoReconnect c
             then
               (if as_ctxDone S k then Some (PublishFailed ctx_error, log1)
                else if policy_refuses c k then Some (PublishFailed e, log1)
                else if as_ctxWait S k then Some (PublishFailed ctx_error, log1)
                else
                  f c S (Suc k) (Some e)
                    (log1 @ [AssuredWait (publish_delay c k), ChannelRefreshed (as_refresh S k)]))
             else Some (PublishFailed e, log1))) = Some y"
  show "tells k e log y"
  proof (cases "pc_maxConnectionRetries c > 0 \<and> int k > pc_maxConnectionRetries c")
    case True
    with step show ?thesis by (cases e) (auto simp: tells_def)
  next
    case False
    show ?thesis
    proof (cases "as_track S k")
      case (TrackFails e')
      have more: "tells (Suc k) (Some e') (log @ [Tracked k (TrackFails e'), AssuredWait (publish_delay c k),
          ChannelRefreshed (as_refresh S k)]) y"
        if "f c S (Suc k) (Some e') (log @ [Tracked k (TrackFails e'), AssuredWait (publish_delay c k),
          ChannelRefreshed (as_refresh S k)]) = Some y"
        using ih [OF that] .
      from step False TrackFails show ?thesis
        by (auto simp: Let_def tells_def dest!: more split: if_splits)
    qed (use step False in \<open>auto simp: Let_def tells_def\<close>)
  qed
qed

text \<open>C34: a publish with delivery assurance returns without an error if and only if an attempt of it was
  accepted, and then exactly one was: no retry of the loop can publish the message a second time
  under the same call.\<close>

theorem assured_publish_accepts_once:
  assumes "assured_loop c S 0 None [] = Some (r, log)"
  shows "lcount is_accepted log = (if result_text r = None then 1 else 0)"
  using assured_loop_tells [OF assms]
  by (cases r) (simp_all add: tells_def result_text_def)

section \<open>When the loop ends\<close>

definition assured_limit :: "publish_config \<Rightarrow> assured_script \<Rightarrow> nat \<Rightarrow> bool" where
  "assured_limit c S N \<longleftrightarrow>
     0 < pc_maxConnectionRetries c \<and> int N = pc_maxConnectionRetries c + 1 \<or>
     (\<exists>pol. pc_ReconnectPolicy c = Some pol \<and> 0 < MaxAttempts pol \<and> int N = MaxAttempts pol) \<or>
     (\<exists>k. (as_ctxDone S k \<or> as_ctxWait S k) \<and> N = Suc k)"

definition ends_by :: "publish_config \<Rightarrow> assured_script \<Rightarrow> nat \<Rightarrow> nat \<Rightarrow> go_error option \<Rightarrow> assured_event list \<Rightarrow> bool" where
  "ends_by c S N k e log \<longleftrightarrow>
     (\<exists>r log'. assured_loop c S k e log = Some (r, log') \<and>
        lcount is_tracked log' + k \<le> lcount is_tracked log + N)"

lemma assured_loop_ends:
  assumes "assured_limit c S N" and "k \<le> N"
    and "k = N \<longrightarrow> 0 < pc_maxConnectionRetries c \<and> int N = pc_maxConnectionRetries c + 1"
  shows "ends_by c S N k e log"
  using assms(2-3)
proof (induction "N - k" arbitrary: k e log)
  case 0
  then show ?case unfolding ends_by_def by (subst assured_loop.simps) auto
next
  case (Suc n k e log)
  have k: "Suc k \<le> N" using Suc.hyps(2) by simp
  have n: "n = N - Suc k" using Suc.hyps(2) by simp
  show ?case
  proof (cases "as_track S k")
    case (TrackFails e')
    let ?log = "log @ [Tracked k (TrackFails e'), AssuredWait (publish_delay c k), ChannelRefreshed (as_refresh S k)]"
    have "ends_by c S N (Suc k) (Some e') ?log" if "\<not> policy_refuses c k" "\<not> as_ctxDone S k" "\<not> as_ctxWait S k"
    proof (rule Suc.hyps(1) [OF n k], intro impI)
      assume "Suc k = N"
      then have "\<not> (\<exists>pol. pc_ReconnectPolicy c = Some pol \<and> 0 < MaxAttempts pol \<and> int N = MaxAttempts pol)"
        using that(1) by (auto simp: policy_refuses_def ReconnectPolicy_ShouldRetry_def)
      moreover have "\<not> (\<exists>k. (as_ctxDone S k \<or> as_ctxWait S k) \<and> N = Suc k)"
        using that(2,3) \<open>Suc k = N\<close> by auto
      ultimately show "0 < pc_maxConnectionRetries c \<and> int N = pc_maxConnectionRetries c + 1"
        using assms(1) unfolding assured_limit_def by blast
    qed
    with TrackFails k show ?thesis
      unfolding ends_by_def by (subst assured_loop.simps) (auto simp: Let_def)
  next
    case TrackAccepted
    with k show ?thesis unfolding ends_by_def by (subst assured_loop.simps) (auto simp: Let_def)
  next
    case (TrackDuplicate i)
    with k show ?thesis unfolding ends_by_def by (subst assured_loop.simps) (auto simp: Let_def)
  qed
qed

text \<open>With a limit on the connection retries, a policy that gives up or a context that ends, the
  loop ends, after at most as many attempts.\<close>

lemma assured_publish_returns:
  "assured_limit c S N \<Longrightarrow> 0 < N \<Longrightarrow>
   \<exists>r log. assured_loop c S 0 None [] = Some (r, log) \<and> lcount is_tracked log \<le> N"
  using assured_loop_ends [of c S N 0 None "[]"] by (auto simp: ends_by_def)

text \<open>The channel is gone twice, then the broker takes the message.\<close>

definition back_again :: assured_script where
  "back_again =
     \<lparr>as_track = (\<lambda>n. if n < 2 then TrackFails (PlainError ''connection closed'') else TrackAccepted),
      as_ctxDone = (\<lambda>_. False), as_ctxWait = (\<lambda>_. False), as_refresh = (\<lambda>_. None)\<rparr>"

theorem assured_publish_accepts_once_witness:
  "\<exists>log. assured_loop (demo_publish_config 3) back_again 0 None [] = Some (Published, log) \<and>
     lcount is_accepted log = 1"
proof -
  have e: "isChannelError (Some (PlainError ''connection closed''))"
    by (simp add: isChannelError_def contains_any_def)
  obtain log where l: "assured_loop (demo_publish_config 3) back_again 0 None [] = Some (Published, log)"
    by (simp add: assured_loop.simps demo_publish_config_def back_again_def e policy_refuses_def
        eval_nat_numeral Let_def)
  from assured_publish_accepts_once [OF l] l show ?thesis by (simp add: result_text_def)
qed

end
