(* ===== verification/Endpoints.thy ===== *)
theory Endpoints
  imports Publish_Loop Consumer_Process Consume_Guard Consumer_Loop
begin

text \<open>
  Creating publishers and consumers (src/client.go, src/publisher.go, src/consumer.go): the options,
  \<open>NewPublisher\<close> with the channels of \<open>initDeliveryAssurance\<close>, \<open>NewConsumer\<close>, and the consumer
  tags. The options give the configurations the other theories start from. Serializers are left
  out: the code stores them and never reads them.
\<close>

section \<open>Publisher options\<close>

record publisher_options =
  py_DefaultExchange :: string
  py_Mandatory :: bool
  py_Immediate :: bool
  py_Persistent :: bool
  py_ConfirmationEnabled :: bool
  py_ConfirmationTimeout :: duration
  py_RetryPolicy :: RetryPolicy
  py_Compressor :: "MessageCompressor option"
  py_CompressionThreshold :: int
  py_Encryptor :: "MessageEncryptor option"
  py_enableDeliveryAssurance :: bool
  py_defaultDeliveryCallback :: "callback option"
  py_deliveryTimeout :: duration
  py_defaultMandatory :: bool
  py_mandatoryGracePeriod :: duration
  py_enableAutomaticRetries :: bool
  py_maxRetryAttempts :: int
  py_retryDelay :: duration
  py_maxConnectionRetries :: int

definition default_publisher :: publisher_options where
  "default_publisher =
     \<lparr>py_DefaultExchange = [], py_Mandatory = False, py_Immediate = False, py_Persistent = True,
      py_ConfirmationEnabled = False, py_ConfirmationTimeout = 5 * second, py_RetryPolicy = NoRetry,
      py_Compressor = None, py_CompressionThreshold = 0, py_Encryptor = None,
      py_enableDeliveryAssurance = False, py_defaultDeliveryCallback = None,
      py_deliveryTimeout = 30 * second, py_defaultMandatory = False,
      py_mandatoryGracePeriod = 200 * millisecond, py_enableAutomaticRetries = False,
      py_maxRetryAttempts = 0, py_retryDelay = 0, py_maxConnectionRetries = 3\<rparr>"

datatype publisher_option =
    WithDefaultExchange string
  | WithMandatory
  | WithImmediate
  | WithPersistent
  | WithConfirmation duration
  | WithRetryPolicy RetryPolicy
  | WithCompression MessageCompressor
  | WithCompressionThreshold int
  | WithEncryption MessageEncryptor
  | WithDeliveryAssurance
  | WithDefaultDeliveryCallback callback
  | WithDeliveryTimeout duration
  | WithMandatoryByDefault bool
  | WithMandatoryGracePeriod duration
  | WithPublisherRetry int duration
  | WithPublisherConnectionRetry int

fun apply_publisher_option :: "publisher_option \<Rightarrow> publisher_options \<Rightarrow> publisher_options" where
  "apply_publisher_option (WithDefaultExchange x) c = c\<lparr>py_DefaultExchange := x\<rparr>"
| "apply_publisher_option WithMandatory c = c\<lparr>py_Mandatory := True\<rparr>"
| "apply_publisher_option WithImmediate c = c\<lparr>py_Immediate := True\<rparr>"
| "apply_publisher_option WithPersistent c = c\<lparr>py_Persistent := True\<rparr>"
| "apply_publisher_option (WithConfirmation t) c =
     c\<lparr>py_ConfirmationEnabled := True, py_ConfirmationTimeout := t\<rparr>"
| "apply_publisher_option (WithRetryPolicy p) c = c\<lparr>py_RetryPolicy := p\<rparr>"
| "apply_publisher_option (WithCompression z) c = c\<lparr>py_Compressor := Some z\<rparr>"
| "apply_publisher_option (WithCompressionThreshold n) c = c\<lparr>py_CompressionThreshold := n\<rparr>"
| "apply_publisher_option (WithEncryption e) c = c\<lparr>py_Encryptor := Some e\<rparr>"
| "apply_publisher_option WithDeliveryAssurance c = c\<lparr>py_enableDeliveryAssurance := True\<rparr>"
| "apply_publisher_option (WithDefaultDeliveryCallback cb) c = c\<lparr>py_defaultDeliveryCallback := Some cb\<rparr>"
| "apply_publisher_option (WithDeliveryTimeout t) c = c\<lparr>py_deliveryTimeout := t\<rparr>"
| "apply_publisher_option (WithMandatoryByDefault b) c = c\<lparr>py_defaultMandatory := b\<rparr>"
| "apply_publisher_option (WithMandatoryGracePeriod d) c = c\<lparr>py_mandatoryGracePeriod := d\<rparr>"
| "apply_publisher_option (WithPublisherRetry n d) c =
     c\<lparr>py_enableAutomaticRetries := True, py_maxRetryAttempts := n, py_retryDelay := d\<rparr>"
| "apply_publisher_option (WithPublisherConnectionRetry n) c = c\<lparr>py_maxConnectionRetries := n\<rparr>"

text \<open>The three configurations the publisher's parts use.\<close>

definition publishing_config ::
  "publisher_options \<Rightarrow> bool \<Rightarrow> ReconnectPolicy option \<Rightarrow> duration \<Rightarrow> publish_config" where
  "publishing_config c autoReconnect policy delay =
     \<lparr>pc_DefaultExchange = py_DefaultExchange c, pc_Mandatory = py_Mandatory c,
      pc_Immediate = py_Immediate c, pc_Persistent = py_Persistent c,
      pc_ConfirmationEnabled = py_ConfirmationEnabled c, pc_Compressor = py_Compressor c,
      pc_CompressionThreshold = py_CompressionThreshold c, pc_Encryptor = py_Encryptor c,
      pc_maxConnectionRetries = py_maxConnectionRetries c, pc_AutoReconnect = autoReconnect,
      pc_ReconnectPolicy = policy, pc_ReconnectDelay = delay, pc_validator = None\<rparr>"

section \<open>NewPublisher\<close>

text \<open>
  What the client and the broker answer: the channel of the publisher and its confirm mode, the
  channel of the delivery assurance and its confirm mode, and whether the connection recovers on
  its own. The outcome names the channels that were opened and those that were closed again.
\<close>

record publisher_answers =
  an_channel :: "string option"
  an_confirm :: "string option"
  an_assurance :: "string option"
  an_assuranceConfirm :: "string option"
  an_recovery :: bool

datatype endpoint_channel = MainChannel | AssuranceChannel

record 'a created =
  cr_result :: "string + 'a"
  cr_opened :: "endpoint_channel list"
  cr_closed :: "endpoint_channel list"

definition initDeliveryAssurance_channels ::
  "publisher_answers \<Rightarrow> string option \<times> endpoint_channel list \<times> endpoint_channel list" where
  "initDeliveryAssurance_channels a =
     (case an_assurance a of
        Some e \<Rightarrow> (Some (''failed to create confirmation channel: '' @ e), [], [])
      | None \<Rightarrow>
          (case an_assuranceConfirm a of
             Some e \<Rightarrow> (Some (''failed to enable confirm mode: '' @ e), [AssuranceChannel], [AssuranceChannel])
           | None \<Rightarrow>
               if an_recovery a
               then (Some ''delivery assurance requires amqp091 connection recovery to be disabled'',
                     [AssuranceChannel], [AssuranceChannel])
               else (None, [AssuranceChannel], [])))"

definition NewPublisher :: "publisher_option list \<Rightarrow> publisher_answers \<Rightarrow> publisher_options created" where
  "NewPublisher opts a =
     (let c = fold apply_publisher_option opts default_publisher in
      case an_channel a of
        Some e \<Rightarrow> \<lparr>cr_result = Inl (''failed to get channel: '' @ e), cr_opened = [], cr_closed = []\<rparr>
      | None \<Rightarrow>
          (case (if py_ConfirmationEnabled c then an_confirm a else None) of
             Some e \<Rightarrow>
               \<lparr>cr_result = Inl (''failed to enable confirm mode: '' @ e), cr_opened = [MainChannel],
                cr_closed = [MainChannel]\<rparr>
           | None \<Rightarrow>
               if py_enableDeliveryAssurance c
               then
                 (case initDeliveryAssurance_channels a of
                    (Some e, opened, shut) \<Rightarrow>
                      \<lparr>cr_result = Inl (''failed to initialize delivery assurance: '' @ e),
                       cr_opened = MainChannel # opened, cr_closed = shut @ [MainChannel]\<rparr>
                  | (None, opened, shut) \<Rightarrow>
                      \<lparr>cr_result = Inr c, cr_opened = MainChannel # opened, cr_closed = shut\<rparr>)
               else \<lparr>cr_result = Inr c, cr_opened = [MainChannel], cr_closed = []\<rparr>))"

section \<open>Consumer options\<close>

record consumer_options =
  cy_AutoAck :: bool
  cy_PrefetchCount :: int
  cy_PrefetchSize :: int
  cy_ConsumerTag :: string
  cy_Exclusive :: bool
  cy_NoLocal :: bool
  cy_NoWait :: bool
  cy_MessageTimeout :: duration
  cy_Concurrency :: int
  cy_RetryPolicy :: RetryPolicy
  cy_Compressor :: "MessageCompressor option"
  cy_Encryptor :: "MessageEncryptor option"
  cy_MaxRetries :: int
  cy_RetryBackoff :: duration
  cy_ChannelPerWorker :: bool
  cy_QueueType :: queueType

text \<open>The zero queue type is the empty string.\<close>

definition default_consumer :: "string \<Rightarrow> consumer_options" where
  "default_consumer tag =
     \<lparr>cy_AutoAck = False, cy_PrefetchCount = 1, cy_PrefetchSize = 0, cy_ConsumerTag = tag,
      cy_Exclusive = False, cy_NoLocal = False, cy_NoWait = False, cy_MessageTimeout = 30 * second,
      cy_Concurrency = 1, cy_RetryPolicy = NoRetry, cy_Compressor = None, cy_Encryptor = None,
      cy_MaxRetries = 0, cy_RetryBackoff = 0, cy_ChannelPerWorker = False,
      cy_QueueType = QueueTypeOther []\<rparr>"

datatype consumer_option =
    WithAutoAck
  | WithPrefetchCount int
  | WithPrefetchSize int
  | WithConsumerTag string
  | WithExclusiveConsumer
  | WithNoLocal
  | WithNoWait
  | WithMessageTimeout duration
  | WithConcurrency int
  | WithChannelPerWorker
  | WithQueueType queueType
  | WithConsumerRetryPolicy RetryPolicy
  | WithConsumerCompression MessageCompressor
  | WithConsumerEncryption MessageEncryptor
  | WithConsumerRetry int duration

fun apply_consumer_option :: "consumer_option \<Rightarrow> consumer_options \<Rightarrow> consumer_options" where
  "apply_consumer_option WithAutoAck c = c\<lparr>cy_AutoAck := True\<rparr>"
| "apply_consumer_option (WithPrefetchCount n) c = c\<lparr>cy_PrefetchCount := n\<rparr>"
| "apply_consumer_option (WithPrefetchSize n) c = c\<lparr>cy_PrefetchSize := n\<rparr>"
| "apply_consumer_option (WithConsumerTag t) c = c\<lparr>cy_ConsumerTag := t\<rparr>"
| "apply_consumer_option WithExclusiveConsumer c = c\<lparr>cy_Exclusive := True\<rparr>"
| "apply_consumer_option WithNoLocal c = c\<lparr>cy_NoLocal := True\<rparr>"
| "apply_consumer_option WithNoWait c = c\<lparr>cy_NoWait := True\<rparr>"
| "apply_consumer_option (WithMessageTimeout t) c = c\<lparr>cy_MessageTimeout := t\<rparr>"
| "apply_consumer_option (WithConcurrency n) c = c\<lparr>cy_Concurrency := n\<rparr>"
| "apply_consumer_option WithChannelPerWorker c = c\<lparr>cy_ChannelPerWorker := True\<rparr>"
| "apply_consumer_option (WithQueueType t) c = c\<lparr>cy_QueueType := t\<rparr>"
| "apply_consumer_option (WithConsumerRetryPolicy p) c = c\<lparr>cy_RetryPolicy := p\<rparr>"
| "apply_consumer_option (WithConsumerCompression z) c = c\<lparr>cy_Compressor := Some z\<rparr>"
| "apply_consumer_option (WithConsumerEncryption e) c = c\<lparr>cy_Encryptor := Some e\<rparr>"
| "apply_consumer_option (WithConsumerRetry n d) c = c\<lparr>cy_MaxRetries := n, cy_RetryBackoff := d\<rparr>"

definition consuming_config :: "consumer_options \<Rightarrow> consumerConfig" where
  "consuming_config c =
     \<lparr>cn_AutoAck = cy_AutoAck c, cn_MaxRetries = cy_MaxRetries c, cn_RetryBackoff = cy_RetryBackoff c,
      cn_QueueType = cy_QueueType c, cn_Encryptor = cy_Encryptor c, cn_Compressor = cy_Compressor c\<rparr>"

section \<open>NewConsumer\<close>

definition NewConsumer ::
  "string \<Rightarrow> consumer_option list \<Rightarrow> string option \<Rightarrow> string option \<Rightarrow> string option \<Rightarrow>
   consumer_options created" where
  "NewConsumer tag opts guarded_by chan_answer qos =
     (let c = fold apply_consumer_option opts (default_consumer tag) in
      case guarded_by of
        Some e \<Rightarrow> \<lparr>cr_result = Inl e, cr_opened = [], cr_closed = []\<rparr>
      | None \<Rightarrow>
          (case chan_answer of
             Some e \<Rightarrow> \<lparr>cr_result = Inl (''failed to get channel: '' @ e), cr_opened = [], cr_closed = []\<rparr>
           | None \<Rightarrow>
               (case (if cy_PrefetchCount c > 0 \<or> cy_PrefetchSize c > 0 then qos else None) of
                  Some e \<Rightarrow>
                    \<lparr>cr_result = Inl (''failed to set QoS: '' @ e), cr_opened = [MainChannel],
                     cr_closed = [MainChannel]\<rparr>
                | None \<Rightarrow> \<lparr>cr_result = Inr c, cr_opened = [MainChannel], cr_closed = []\<rparr>)))"

section \<open>Consumer tags\<close>

text \<open>A host name is a list of code points; the tag is made of bytes.\<close>

definition tag_rune :: "nat \<Rightarrow> bool" where
  "tag_rune r \<longleftrightarrow>
     97 \<le> r \<and> r \<le> 122 \<or> 65 \<le> r \<and> r \<le> 90 \<or> 48 \<le> r \<and> r \<le> 57 \<or> r = 45 \<or> r = 95 \<or> r = 46"

definition sanitizeHostname :: "nat list \<Rightarrow> string" where
  "sanitizeHostname hostname =
     (let result = map (\<lambda>r. if tag_rune r then char_of r else CHR ''-'') hostname in
      if length result > 50 then take 50 result else result)"

definition GenerateConsumerTag ::
  "nat list option \<Rightarrow> string option \<Rightarrow> int \<Rightarrow> string" where
  "GenerateConsumerTag hostname ulid nanos =
     (let host = sanitizeHostname (case hostname of
                   None \<Rightarrow> map of_char ''unknown-host'' | Some h \<Rightarrow> h) in
      case ulid of
        None \<Rightarrow> host @ ''-'' @ show_int nanos
      | Some u \<Rightarrow> host @ ''-'' @ u)"

definition worker_tag :: "string \<Rightarrow> nat \<Rightarrow> string" where
  "worker_tag tag i = (if tag \<noteq> [] then tag @ ''-worker-'' @ show_int (int i) else tag)"

section \<open>Channels\<close>

text \<open>Creating a publisher or a consumer never leaks a channel: when it fails, every channel it opened
  is closed again, and when it succeeds none of its channels is closed.\<close>

lemma new_endpoint_never_leaks:
  "(case cr_result (NewPublisher opts a) of
      Inl e \<Rightarrow> mset (cr_closed (NewPublisher opts a)) = mset (cr_opened (NewPublisher opts a))
    | Inr c \<Rightarrow> cr_closed (NewPublisher opts a) = [] \<and>
        cr_opened (NewPublisher opts a) = MainChannel # (if py_enableDeliveryAssurance c then [AssuranceChannel] else [])) \<and>
   (case cr_result (NewConsumer tag copts g ch q) of
      Inl e \<Rightarrow> cr_closed (NewConsumer tag copts g ch q) = cr_opened (NewConsumer tag copts g ch q)
    | Inr c \<Rightarrow> cr_closed (NewConsumer tag copts g ch q) = [] \<and>
        cr_opened (NewConsumer tag copts g ch q) = [MainChannel])"
  by (simp add: NewPublisher_def NewConsumer_def initDeliveryAssurance_channels_def Let_def
      split: option.split)

text \<open>A publisher with delivery assurance is created only on a connection that does not recover on
  its own.\<close>

lemma assurance_needs_no_recovery:
  "cr_result (NewPublisher opts a) = Inr c \<Longrightarrow> py_enableDeliveryAssurance c \<Longrightarrow>
   \<not> an_recovery a \<and> an_assuranceConfirm a = None"
  by (auto simp: NewPublisher_def initDeliveryAssurance_channels_def Let_def
      split: option.splits if_splits)

section \<open>Tags\<close>

definition tag_char :: "char \<Rightarrow> bool" where
  "tag_char x \<longleftrightarrow> tag_rune (of_char x)"

lemma tag_rune_bound: "tag_rune r \<Longrightarrow> r < 256"
  by (auto simp: tag_rune_def)

lemma tag_char_of_rune: "tag_char (if tag_rune r then char_of r else CHR ''-'')"
  using tag_rune_bound [of r] by (simp add: tag_char_def tag_rune_def)

lemma sanitized_chars: "\<forall>x \<in> set (sanitizeHostname h). tag_char x"
proof -
  have "\<forall>x \<in> set (map (\<lambda>r. if tag_rune r then char_of r else CHR ''-'') h). tag_char x"
    using tag_char_of_rune by (simp del: if_image_distrib)
  then show ?thesis by (simp only: sanitizeHostname_def Let_def split: if_split) (blast dest: in_set_takeD)
qed

lemma sanitized_length: "length (sanitizeHostname h) \<le> 50"
  by (simp add: sanitizeHostname_def Let_def)

lemma sanitized_twice: "sanitizeHostname (map of_char (sanitizeHostname h)) = sanitizeHostname h"
proof -
  have "map (\<lambda>r. if tag_rune r then char_of r else CHR ''-'') (map of_char (sanitizeHostname h)) =
      sanitizeHostname h"
    using sanitized_chars [of h] by (auto simp: tag_char_def intro!: map_idI)
  then show ?thesis using sanitized_length [of h] by (simp only: sanitizeHostname_def [of "map of_char (sanitizeHostname h)"] Let_def) simp
qed

text \<open>A generated consumer tag is one the broker accepts, and no two are the same: it consists of
  letters, digits, dashes, dots and underscores, has at most 51 characters more than its ULID, so
  fits the 255 bytes of a short string, and two tags of different ULIDs differ, whatever the names
  of their hosts.\<close>

lemma consumer_tags_valid:
  assumes "\<forall>x \<in> set u. tag_char x" and "length u = 26" and "length v = 26" and "u \<noteq> v"
  shows "(\<forall>x \<in> set (GenerateConsumerTag h (Some u) n). tag_char x) \<and>
    length (GenerateConsumerTag h (Some u) n) \<le> 77 \<and>
    GenerateConsumerTag h (Some u) n \<noteq> GenerateConsumerTag h' (Some v) n'"
proof (intro conjI)
  let ?s = "sanitizeHostname (case h of None \<Rightarrow> map of_char ''unknown-host'' | Some h \<Rightarrow> h)"
  have g: "GenerateConsumerTag h (Some u) n = ?s @ ''-'' @ u" by (simp add: GenerateConsumerTag_def Let_def)
  show "\<forall>x \<in> set (GenerateConsumerTag h (Some u) n). tag_char x"
    using assms(1) sanitized_chars by (auto simp: g tag_char_def tag_rune_def)
  show "length (GenerateConsumerTag h (Some u) n) \<le> 77"
    using sanitized_length assms(2) by (simp add: g)
  show "GenerateConsumerTag h (Some u) n \<noteq> GenerateConsumerTag h' (Some v) n'"
    using assms(2-4) by (auto simp: GenerateConsumerTag_def Let_def)
qed

lemma consumer_tags_valid_witness:
  "GenerateConsumerTag None (Some ''01ARZ3NDEKTSV4RRFFQ69G5FAV'') 0 \<noteq>
   GenerateConsumerTag None (Some ''01ARZ3NDEKTSV4RRFFQ69G5FAW'') 0"
  using consumer_tags_valid [of "''01ARZ3NDEKTSV4RRFFQ69G5FAV''" "''01ARZ3NDEKTSV4RRFFQ69G5FAW''" None 0 None 0]
  by (simp add: tag_char_def tag_rune_def)

text \<open>The tags of a consumer's workers differ from each other and from its own.\<close>

lemma worker_tags_differ: "worker_tag tag i = worker_tag tag j \<longleftrightarrow> tag = [] \<or> show_int (int i) = show_int (int j)"
  by (auto simp: worker_tag_def)

section \<open>What the default options mean\<close>

text \<open>A publisher created without options never publishes forever: its loop returns after at most four
  sends, whatever the broker answers and whatever the reconnect policy of the client.\<close>

lemma default_publisher_returns:
  "\<exists>c. cr_result (NewPublisher [] \<lparr>an_channel = None, an_confirm = None, an_assurance = None,
      an_assuranceConfirm = None, an_recovery = False\<rparr>) = Inr c \<and>
   (\<forall>S. \<exists>r p'. publish_loop (publishing_config c auto policy delay) S x rk m 0 None (p\<lparr>rg_events := []\<rparr>) =
      Some (r, p') \<and> attempts p' \<le> 4)"
proof (intro exI [of _ default_publisher] conjI allI)
  show "cr_result (NewPublisher [] \<lparr>an_channel = None, an_confirm = None, an_assurance = None,
      an_assuranceConfirm = None, an_recovery = False\<rparr>) = Inr default_publisher"
    by (simp add: NewPublisher_def default_publisher_def Let_def)
  fix S
  let ?c = "publishing_config default_publisher auto policy delay" and ?p = "p\<lparr>rg_events := []\<rparr>"
  have l: "attempt_limit ?c S 4"
    by (simp add: attempt_limit_def publishing_config_def default_publisher_def)
  have w: "all_waits (\<lambda>d. 100 * millisecond \<le> d) ?p" by (simp add: all_waits_def)
  have a: "attempts ?p = 0" by (simp add: attempts_def)
  show "\<exists>r p'. publish_loop ?c S x rk m 0 None ?p = Some (r, p') \<and> attempts p' \<le> 4"
    using publish_loop_stops [OF l _ _ w, of 0] a by fastforce
qed

text \<open>A concurrency of zero is accepted and leaves a consumer that subscribes and never handles a
  delivery: without a cancelled context or Close it stays in its loop with no worker.\<close>

lemma zero_concurrency_consumes_nothing:
  assumes "loop_run ls s = Some s'" and "LClose \<notin> set ls" and "LContextDone \<notin> set ls"
    and "loop_run [LMain None False, LMain None False, LMain None False]
           (start_consume queue False (nat (cy_Concurrency (apply_consumer_option (WithConcurrency 0) (default_consumer tag)))) delay now) = Some s"
  shows "lp_main s' = MWait \<and> workers_done s'"
proof -
  have "hung s" using assms(4)
    by (auto simp: start_consume_def main_step_def ensureValidChannel_def hung_def workers_done_def)
  from hung_run [OF this assms(1-3)] show ?thesis by (simp add: hung_def)
qed

end
