(* ===== verification/Protobuf.thy ===== *)
theory Protobuf
  imports Amqp_Types
begin

text \<open>
  The protobuf package (src/protobuf/protobuf.go): messages with a protobuf body and the
  multiplexer that routes them to handlers by the name of their type.

  The protobuf library is not under src/: its types ('t), its messages ('m), the full names of
  the types, and \<open>proto.Marshal\<close> and \<open>proto.Unmarshal\<close> are arguments, collected in a record. A type
  a handler is registered for is a pointer to a generated struct; for any other type the
  registration itself panics.
\<close>

section \<open>The protobuf library\<close>

record ('t, 'm) proto =
  proto_type :: "'m \<Rightarrow> 't"
  proto_FullName :: "'t \<Rightarrow> string"
  proto_GoType :: "'t \<Rightarrow> string"
  proto_Marshal :: "'m \<Rightarrow> string + bytes"
  proto_Unmarshal :: "'t \<Rightarrow> bytes \<Rightarrow> string + 'm"

text \<open>What the library documents: the full names are unique, a message is unmarshalled to the type
  asked for, and unmarshalling undoes marshalling.\<close>

definition proto_laws :: "('t, 'm, 'x) proto_scheme \<Rightarrow> bool" where
  "proto_laws L \<longleftrightarrow>
     inj (proto_FullName L) \<and>
     (\<forall>t b m. proto_Unmarshal L t b = Inr m \<longrightarrow> proto_type L m = t) \<and>
     (\<forall>m b. proto_Marshal L m = Inr b \<longrightarrow> proto_Unmarshal L (proto_type L m) b = Inr m)"

section \<open>Messages\<close>

definition ContentTypeProtobuf :: string where "ContentTypeProtobuf = ''application/protobuf''"

record basic_message =
  bm_Body :: bytes
  bm_ContentType :: string
  bm_Headers :: table

definition protobuf_NewMessage :: "bytes \<Rightarrow> basic_message" where
  "protobuf_NewMessage body = \<lparr>bm_Body = body, bm_ContentType = [], bm_Headers = []\<rparr>"

definition basic_WithContentType :: "string \<Rightarrow> basic_message \<Rightarrow> basic_message" where
  "basic_WithContentType ct m = m\<lparr>bm_ContentType := ct\<rparr>"

definition basic_WithHeader :: "string \<Rightarrow> hval \<Rightarrow> basic_message \<Rightarrow> basic_message" where
  "basic_WithHeader k v m = m\<lparr>bm_Headers := go_put k v (bm_Headers m)\<rparr>"

definition NewProtobufMessage ::
  "('t, 'm, 'x) proto_scheme \<Rightarrow> 'm option \<Rightarrow> string + basic_message" where
  "NewProtobufMessage L pb =
     (case pb of
        None \<Rightarrow> Inl ''protobuf message cannot be nil''
      | Some m \<Rightarrow>
          (case proto_Marshal L m of
             Inl e \<Rightarrow> Inl (''failed to marshal protobuf message: '' @ e)
           | Inr data \<Rightarrow>
               Inr (basic_WithHeader ''x-message-type'' (VStr (proto_FullName L (proto_type L m)))
                     (basic_WithContentType ContentTypeProtobuf (protobuf_NewMessage data)))))"

text \<open>A value given to the serializer: a protobuf message, or a value of another type, by its name.\<close>

datatype 'm any_value = ProtoValue 'm | OtherValue string

definition Serialize :: "('t, 'm, 'x) proto_scheme \<Rightarrow> 'm any_value \<Rightarrow> string + bytes" where
  "Serialize L msg =
     (case msg of
        OtherValue T \<Rightarrow> Inl (''message must implement proto.Message interface, got '' @ T)
      | ProtoValue m \<Rightarrow>
          (case proto_Marshal L m of
             Inl e \<Rightarrow> Inl (''failed to marshal protobuf message: '' @ e)
           | Inr data \<Rightarrow> Inr data))"

text \<open>The target is a pointer to fill: what matters is its type. The result is what it then holds.\<close>

definition Deserialize :: "('t, 'm, 'x) proto_scheme \<Rightarrow> bytes \<Rightarrow> 't any_value \<Rightarrow> string + 'm" where
  "Deserialize L data target =
     (case target of
        OtherValue T \<Rightarrow> Inl (''target must implement proto.Message interface, got '' @ T)
      | ProtoValue t \<Rightarrow>
          (case proto_Unmarshal L t data of
             Inl e \<Rightarrow> Inl (''failed to unmarshal protobuf message: '' @ e)
           | Inr m \<Rightarrow> Inr m))"

section \<open>The multiplexer\<close>

text \<open>A delivery of this package: an amqp delivery and the time it was received.\<close>

record proto_delivery = delivery +
  pd_acknowledger :: bool
  pd_ReceivedAt :: instant

text \<open>Handlers answer with an error or none.\<close>

record ('t, 'm) protobufHandler =
  ph_messageType :: 't
  ph_handler :: "'m \<Rightarrow> string option"

record ('t, 'm) messageMux =
  mux_handlers :: "(string, ('t, 'm) protobufHandler) go_map"
  mux_default :: "(proto_delivery \<Rightarrow> string option) option"
  mux_unknown :: "(string \<Rightarrow> bytes \<Rightarrow> string option) option"

definition NewMessageMux :: "('t, 'm) messageMux" where
  "NewMessageMux = \<lparr>mux_handlers = [], mux_default = None, mux_unknown = None\<rparr>"

text \<open>The wrapper checks the type of the message before it calls the handler.\<close>

definition RegisterHandler ::
  "('t, 'm, 'x) proto_scheme \<Rightarrow> 't \<Rightarrow> ('m \<Rightarrow> string option) \<Rightarrow> ('t, 'm) messageMux \<Rightarrow> ('t, 'm) messageMux" where
  "RegisterHandler L t h mux =
     mux\<lparr>mux_handlers :=
       go_put (proto_FullName L t)
         \<lparr>ph_messageType = t,
          ph_handler = (\<lambda>m. if proto_type L m = t then h m
            else Some (''message type mismatch: expected '' @ proto_GoType L t @ '', got '' @
              proto_GoType L (proto_type L m)))\<rparr>
         (mux_handlers mux)\<rparr>"

definition SetDefaultHandler ::
  "(proto_delivery \<Rightarrow> string option) option \<Rightarrow> ('t, 'm) messageMux \<Rightarrow> ('t, 'm) messageMux" where
  "SetDefaultHandler h mux = mux\<lparr>mux_default := h\<rparr>"

definition SetUnknownProtobufHandler ::
  "(string \<Rightarrow> bytes \<Rightarrow> string option) option \<Rightarrow> ('t, 'm) messageMux \<Rightarrow> ('t, 'm) messageMux" where
  "SetUnknownProtobufHandler h mux = mux\<lparr>mux_unknown := h\<rparr>"

text \<open>Which handler a delivery reaches, with what it is given. None: no handler is called.\<close>

datatype 'm called = TypedHandler string 'm | UnknownHandler string bytes | DefaultHandler proto_delivery

definition handleDefault ::
  "('t, 'm) messageMux \<Rightarrow> proto_delivery \<Rightarrow> 'm called option \<times> string option" where
  "handleDefault mux d =
     (case mux_default mux of
        None \<Rightarrow> (None, Some ''no default handler registered for non-protobuf message'')
      | Some h \<Rightarrow> (Some (DefaultHandler d), h d))"

text \<open>The minimal delivery: every field but these is the zero value.\<close>

definition minimal_delivery :: "string \<Rightarrow> bytes \<Rightarrow> instant \<Rightarrow> proto_delivery" where
  "minimal_delivery messageType data now =
     \<lparr>pub_Headers = [(''x-message-type'', VStr messageType)], pub_ContentType = ContentTypeProtobuf,
      pub_DeliveryMode = 0, pub_Priority = 0, pub_CorrelationId = [], pub_ReplyTo = [],
      pub_Expiration = [], pub_MessageId = [], pub_Timestamp = 0, pub_Type = [], pub_UserId = [],
      pub_AppId = [], pub_Body = data, dl_MessageCount = 0, dl_DeliveryTag = 0,
      dl_Redelivered = False, dl_Exchange = [], dl_RoutingKey = [], pd_acknowledger = False,
      pd_ReceivedAt = now\<rparr>"

definition handleUnknownProtobuf ::
  "('t, 'm) messageMux \<Rightarrow> string \<Rightarrow> bytes \<Rightarrow> instant \<Rightarrow> 'm called option \<times> string option" where
  "handleUnknownProtobuf mux messageType data now =
     (case mux_unknown mux of
        Some h \<Rightarrow> (Some (UnknownHandler messageType data), h messageType data)
      | None \<Rightarrow> handleDefault mux (minimal_delivery messageType data now))"

definition mux_Handle ::
  "('t, 'm, 'x) proto_scheme \<Rightarrow> ('t, 'm) messageMux \<Rightarrow> instant \<Rightarrow> proto_delivery \<Rightarrow>
   'm called option \<times> string option" where
  "mux_Handle L mux now d =
     (if pub_ContentType d \<noteq> ContentTypeProtobuf then handleDefault mux d
      else
        (case go_get (pub_Headers d) ''x-message-type'' of
           Some (VStr messageType) \<Rightarrow>
             (case go_get (mux_handlers mux) messageType of
                None \<Rightarrow> handleUnknownProtobuf mux messageType (pub_Body d) now
              | Some h \<Rightarrow>
                  (case proto_Unmarshal L (ph_messageType h) (pub_Body d) of
                     Inl e \<Rightarrow>
                       (None, Some (''failed to unmarshal protobuf message of type '' @ messageType @ '': '' @ e))
                   | Inr m \<Rightarrow> (Some (TypedHandler messageType m), ph_handler h m)))
         | _ \<Rightarrow> handleDefault mux d))"

definition GetRegisteredTypes :: "('t, 'm) messageMux \<Rightarrow> string list" where
  "GetRegisteredTypes mux = map fst (mux_handlers mux)"

definition IsProtobufMessage :: "proto_delivery \<Rightarrow> bool" where
  "IsProtobufMessage d \<longleftrightarrow>
     pub_ContentType d = ContentTypeProtobuf \<and> go_get (pub_Headers d) ''x-message-type'' \<noteq> None"

definition GetProtobufMessageType :: "proto_delivery \<Rightarrow> string \<times> bool" where
  "GetProtobufMessageType d =
     (if \<not> IsProtobufMessage d then ([], False)
      else (case go_get (pub_Headers d) ''x-message-type'' of
              Some (VStr t) \<Rightarrow> (t, True) | _ \<Rightarrow> ([], False)))"

section \<open>Registering\<close>

datatype ('t, 'm) mux_operation =
    CallRegister 't "'m \<Rightarrow> string option"
  | CallDefault "(proto_delivery \<Rightarrow> string option) option"
  | CallUnknown "(string \<Rightarrow> bytes \<Rightarrow> string option) option"

fun mux_call :: "('t, 'm, 'x) proto_scheme \<Rightarrow> ('t, 'm) mux_operation \<Rightarrow> ('t, 'm) messageMux \<Rightarrow> ('t, 'm) messageMux" where
  "mux_call L (CallRegister t h) mux = RegisterHandler L t h mux"
| "mux_call L (CallDefault h) mux = SetDefaultHandler h mux"
| "mux_call L (CallUnknown h) mux = SetUnknownProtobufHandler h mux"

text \<open>The handler registered last for a type, if any.\<close>

fun registered :: "('t, 'm) mux_operation list \<Rightarrow> 't \<Rightarrow> ('m \<Rightarrow> string option) option" where
  "registered [] t = None"
| "registered (c # cs) t =
     (case registered cs t of
        Some h \<Rightarrow> Some h
      | None \<Rightarrow> (case c of CallRegister t' h \<Rightarrow> if t' = t then Some h else None | _ \<Rightarrow> None))"

lemma registered_append:
  "registered (cs @ [c]) t =
     (case c of CallRegister t' h \<Rightarrow> if t' = t then Some h else registered cs t | _ \<Rightarrow> registered cs t)"
  by (induction cs) (auto split: mux_operation.splits option.splits)

lemma mux_calls_handlers:
  assumes "inj (proto_FullName L)"
  shows "go_map_ok (mux_handlers (fold (mux_call L) cs NewMessageMux)) \<and>
    (\<forall>t. rel_option (\<lambda>p h. ph_messageType p = t \<and> (\<forall>m. proto_type L m = t \<longrightarrow> ph_handler p m = h m))
       (go_get (mux_handlers (fold (mux_call L) cs NewMessageMux)) (proto_FullName L t)) (registered cs t)) \<and>
    (\<forall>n. go_get (mux_handlers (fold (mux_call L) cs NewMessageMux)) n \<noteq> None \<longrightarrow>
       n \<in> range (proto_FullName L))"
proof (induction cs rule: rev_induct)
  case Nil
  then show ?case by (simp add: NewMessageMux_def)
next
  case (snoc c cs)
  have e: "proto_FullName L t = proto_FullName L t' \<longleftrightarrow> t = t'" for t t'
    using assms by (auto dest: injD)
  show ?case
  proof (cases c)
    case (CallRegister t h)
    with snoc show ?thesis by (auto simp: RegisterHandler_def registered_append e)
  qed (use snoc in \<open>auto simp: SetDefaultHandler_def SetUnknownProtobufHandler_def registered_append\<close>)
qed

lemmas mux_entry = mux_calls_handlers [THEN conjunct2, THEN conjunct1, THEN spec]

section \<open>Routing\<close>

lemma routed_to_registered:
  assumes L: "proto_laws L" and h: "registered cs t = Some h"
    and d: "pub_ContentType d = ContentTypeProtobuf"
      "go_get (pub_Headers d) ''x-message-type'' = Some (VStr (proto_FullName L t))"
    and b: "proto_Unmarshal L t (pub_Body d) = Inr m"
  shows "mux_Handle L (fold (mux_call L) cs NewMessageMux) now d =
    (Some (TypedHandler (proto_FullName L t) m), h m)"
proof -
  have "inj (proto_FullName L)" and "proto_type L m = t" using L b by (auto simp: proto_laws_def)
  with mux_entry [where L = L and cs = cs and x = t] h obtain p where
    "go_get (mux_handlers (fold (mux_call L) cs NewMessageMux)) (proto_FullName L t) = Some p"
    "ph_messageType p = t" "ph_handler p m = h m"
    by (auto simp: option_rel_Some2)
  with d b show ?thesis by (simp add: mux_Handle_def)
qed

text \<open>C40: a protobuf message comes out as it went in: the message NewProtobufMessage makes is routed, on
  whatever delivery brings its body, content type and headers, to the handler registered last for
  its type, which gets the same message, and whose answer is the answer of the multiplexer.\<close>

theorem protobuf_roundtrip:
  assumes "proto_laws L" and "NewProtobufMessage L (Some m) = Inr msg"
    and "registered cs (proto_type L m) = Some h"
    and "pub_Body d = bm_Body msg" and "pub_ContentType d = bm_ContentType msg"
    and "pub_Headers d = bm_Headers msg"
  shows "mux_Handle L (fold (mux_call L) cs NewMessageMux) now d =
      (Some (TypedHandler (proto_FullName L (proto_type L m)) m), h m) \<and>
    GetProtobufMessageType d = (proto_FullName L (proto_type L m), True)"
proof -
  obtain b where b: "proto_Marshal L m = Inr b" and
    msg: "msg = \<lparr>bm_Body = b, bm_ContentType = ContentTypeProtobuf,
      bm_Headers = [(''x-message-type'', VStr (proto_FullName L (proto_type L m)))]\<rparr>"
    using assms(2) by (auto simp: NewProtobufMessage_def basic_WithHeader_def basic_WithContentType_def
        protobuf_NewMessage_def split: sum.splits)
  have "proto_Unmarshal L (proto_type L m) b = Inr m" using assms(1) b by (simp add: proto_laws_def)
  then show ?thesis
    using routed_to_registered [OF assms(1,3), of d m now] assms(4-6)
    by (simp add: msg GetProtobufMessageType_def IsProtobufMessage_def)
qed

text \<open>The multiplexer routes every delivery to one handler by its type, or reports an error: a typed
  handler only ever gets messages of the type it is registered for, and it is asked exactly when
  the header names a registered type and the body can be read; the answer is never the one for a
  message of the wrong type.\<close>

lemma mux_routes_by_type:
  assumes "proto_laws L"
  shows "fst (mux_Handle L (fold (mux_call L) cs NewMessageMux) now d) = Some (TypedHandler n m) \<longleftrightarrow>
    (\<exists>t h. registered cs t = Some h \<and> n = proto_FullName L t \<and> proto_type L m = t \<and>
       pub_ContentType d = ContentTypeProtobuf \<and>
       go_get (pub_Headers d) ''x-message-type'' = Some (VStr n) \<and>
       proto_Unmarshal L t (pub_Body d) = Inr m \<and>
       snd (mux_Handle L (fold (mux_call L) cs NewMessageMux) now d) = h m)"
    (is "fst ?r = _ \<longleftrightarrow> ?R")
proof
  let ?mux = "fold (mux_call L) cs NewMessageMux"
  assume f: "fst ?r = Some (TypedHandler n m)"
  have nd: "fst (handleDefault ?mux d') \<noteq> Some (TypedHandler n m)" for d'
    by (simp add: handleDefault_def split: option.split)
  have nu: "fst (handleUnknownProtobuf ?mux k b now) \<noteq> Some (TypedHandler n m)" for k b
    using nd by (simp add: handleUnknownProtobuf_def split: option.split)
  from f obtain p where p: "pub_ContentType d = ContentTypeProtobuf"
    "go_get (pub_Headers d) ''x-message-type'' = Some (VStr n)"
    "go_get (mux_handlers ?mux) n = Some p" "proto_Unmarshal L (ph_messageType p) (pub_Body d) = Inr m"
    using nd nu by (auto simp: mux_Handle_def split: if_splits option.splits hval.splits sum.splits)
  have i: "inj (proto_FullName L)" and ty: "proto_type L m = ph_messageType p"
    using assms p(4) by (auto simp: proto_laws_def)
  have "n \<in> range (proto_FullName L)" using mux_calls_handlers [OF i, of cs] p(3) by blast
  then obtain t where n: "n = proto_FullName L t" by blast
  from mux_entry [OF i, where cs = cs and x = t] p(3) obtain h where
    h: "ph_messageType p = t" "registered cs t = Some h"
    by (auto simp: n option_rel_Some1)
  have u: "proto_Unmarshal L t (pub_Body d) = Inr m" using p(4) h(1) by simp
  from routed_to_registered [OF assms h(2) p(1) _ u, of now] p(2) n have "snd ?r = h m" by simp
  with p(1,2) u h ty n show ?R by (intro exI [of _ t] exI [of _ h]) simp
next
  assume ?R
  then show "fst ?r = Some (TypedHandler n m)"
    using routed_to_registered [OF assms] by fastforce
qed

text \<open>A message of a type nobody registered reaches the default handler as another delivery: the
  acknowledger, the delivery tag and every property of the message are gone.\<close>

lemma unrouted_delivery_cannot_be_acknowledged:
  assumes "mux_unknown mux = None" and "mux_default mux = Some h"
    and "pub_ContentType d = ContentTypeProtobuf"
    and "go_get (pub_Headers d) ''x-message-type'' = Some (VStr n)" and "go_get (mux_handlers mux) n = None"
  shows "mux_Handle L mux now d =
      (Some (DefaultHandler (minimal_delivery n (pub_Body d) now)), h (minimal_delivery n (pub_Body d) now)) \<and>
    \<not> pd_acknowledger (minimal_delivery n (pub_Body d) now) \<and>
    dl_DeliveryTag (minimal_delivery n (pub_Body d) now) = 0 \<and>
    pub_MessageId (minimal_delivery n (pub_Body d) now) = []"
  using assms by (simp add: mux_Handle_def handleUnknownProtobuf_def handleDefault_def minimal_delivery_def)

section \<open>An instance of the library\<close>

text \<open>A library with two message types, of one byte each.\<close>

definition two_types :: "(bool, bool \<times> 8 word) proto" where
  "two_types =
     \<lparr>proto_type = fst, proto_FullName = (\<lambda>t. if t then ''a.A'' else ''a.B''),
      proto_GoType = (\<lambda>t. if t then ''*a.A'' else ''*a.B''), proto_Marshal = (\<lambda>m. Inr [snd m]),
      proto_Unmarshal = (\<lambda>t b. case b of [x] \<Rightarrow> Inr (t, x) | _ \<Rightarrow> Inl ''proto: cannot parse'')\<rparr>"

lemma two_types_laws: "proto_laws two_types"
  by (auto simp: proto_laws_def two_types_def inj_def split: list.splits if_splits)

definition some_delivery :: "string \<Rightarrow> bytes \<Rightarrow> proto_delivery" where
  "some_delivery n b = (minimal_delivery n b 1)\<lparr>dl_DeliveryTag := 7, pd_acknowledger := True\<rparr>"

theorem protobuf_roundtrip_witness:
  "mux_Handle two_types (fold (mux_call two_types) [CallRegister True (\<lambda>m. None)] NewMessageMux) 1
     (some_delivery ''a.A'' [5]) = (Some (TypedHandler ''a.A'' (True, 5)), None)"
  using protobuf_roundtrip [OF two_types_laws, of "(True, 5)"
    "\<lparr>bm_Body = [5], bm_ContentType = ContentTypeProtobuf, bm_Headers = [(''x-message-type'', VStr ''a.A'')]\<rparr>"
    "[CallRegister True (\<lambda>m. None)]" "\<lambda>m. None" "some_delivery ''a.A'' [5]" 1]
  by (simp add: NewProtobufMessage_def two_types_def some_delivery_def minimal_delivery_def
      basic_WithHeader_def basic_WithContentType_def protobuf_NewMessage_def)

lemma mux_routes_by_type_witness:
  "fst (mux_Handle two_types (fold (mux_call two_types) [CallRegister True (\<lambda>m. None)] NewMessageMux) 1
     (some_delivery ''a.B'' [5])) \<noteq> Some (TypedHandler ''a.B'' (False, 5))"
  using mux_routes_by_type [OF two_types_laws, of "[CallRegister True (\<lambda>m. None)]" 1
    "some_delivery ''a.B'' [5]" "''a.B''" "(False, 5)"]
  by (auto simp: two_types_def split: if_splits)

end
