(* ===== verification/Publisher_Close.thy ===== *)
theory Publisher_Close
  imports Go_Base Labelled_Runs
begin

text \<open>
  \<open>Close\<close> of a publisher (src/publisher.go) with what runs beside it: the publishes and refreshes
  that hold \<open>publishMu\<close>, the two helper goroutines of Close, the background goroutines, and other
  calls of Close. Which messages are settled or dropped is in Delivery_Model; this is about which
  channels are left open and how long Close takes. A step that never comes stands for a
  goroutine that is stuck.
\<close>

section \<open>State\<close>

datatype close_pc =
    CStart
  | CAnnounced
  | CBarrierWait instant
  | CWorkersWait instant
  | CTimers
  | CMain
  | CMainClosing
  | CReturned "string option"

datatype mutex_holder = Free | PublishUnchecked | PublishHolds | RefreshUnchecked | RefreshChecked | BarrierHolds

datatype barrier_pc = BNotStarted | BLock | BUnlock | BClosing nat | BDone

datatype waiter_pc = WNotStarted | WWaiting | WFinished

record publisher_close =
  cl_assurance :: bool
  cl_closed :: bool
  cl_shutdown :: bool
  cl_calls :: "close_pc list"
  cl_began :: instant
  cl_mutex :: mutex_holder
  cl_barrier :: barrier_pc
  cl_waiter :: waiter_pc
  cl_gen :: nat
  cl_open :: "nat list"
  cl_replaced :: "nat list"
  cl_goroutines :: nat
  cl_timers :: nat
  cl_mainOpen :: bool
  cl_now :: instant

text \<open>A publisher as it is created, with \<open>n\<close> calls of Close to come. With delivery assurance it has
  generation 1, its two readers and the keeper.\<close>

definition open_publisher :: "bool \<Rightarrow> nat \<Rightarrow> nat \<Rightarrow> instant \<Rightarrow> publisher_close" where
  "open_publisher assurance n pending now =
     \<lparr>cl_assurance = assurance, cl_closed = False, cl_shutdown = False, cl_calls = replicate n CStart,
      cl_began = 0, cl_mutex = Free, cl_barrier = BNotStarted, cl_waiter = WNotStarted, cl_gen = (if assurance then 1 else 0),
      cl_open = (if assurance then [1] else []), cl_replaced = [],
      cl_goroutines = (if assurance then 3 else 0), cl_timers = pending, cl_mainOpen = True,
      cl_now = now\<rparr>"

definition close_bound :: duration where "close_bound = 5 * second"

section \<open>Close\<close>

definition set_call :: "nat \<Rightarrow> close_pc \<Rightarrow> publisher_close \<Rightarrow> publisher_close" where
  "set_call i c s = s\<lparr>cl_calls := (cl_calls s)[i := c]\<rparr>"

text \<open>A step of one call of Close; \<open>ans\<close> is the answer to closing the main channel, when it comes.\<close>

definition Close_step :: "nat \<Rightarrow> string option \<Rightarrow> publisher_close \<Rightarrow> publisher_close option" where
  "Close_step i ans s =
     (if length (cl_calls s) \<le> i then None
      else
        (case cl_calls s ! i of
           CStart \<Rightarrow>
             Some (if \<not> cl_assurance s then set_call i CMain s
                   else if cl_closed s then set_call i (CReturned None) s
                   else set_call i CAnnounced (s\<lparr>cl_closed := True, cl_began := cl_now s\<rparr>))
         | CAnnounced \<Rightarrow>
             Some (set_call i (CBarrierWait (cl_now s + close_bound))
                     (s\<lparr>cl_shutdown := True, cl_barrier := BLock\<rparr>))
         | CBarrierWait due \<Rightarrow>
             if cl_barrier s = BDone \<or> due \<le> cl_now s
             then Some (set_call i (CWorkersWait (cl_now s + close_bound)) (s\<lparr>cl_waiter := WWaiting\<rparr>))
             else None
         | CWorkersWait due \<Rightarrow>
             if cl_waiter s = WFinished \<or> due \<le> cl_now s then Some (set_call i CTimers s) else None
         | CTimers \<Rightarrow> Some (set_call i CMain (s\<lparr>cl_timers := 0\<rparr>))
         | CMain \<Rightarrow> Some (set_call i (if cl_mainOpen s then CMainClosing else CReturned None) s)
         | CMainClosing \<Rightarrow>
             Some (set_call i (CReturned (case ans of None \<Rightarrow> None
                                          | Some e \<Rightarrow> Some (''failed to close channel: '' @ e)))
                     (s\<lparr>cl_mainOpen := False\<rparr>))
         | CReturned r \<Rightarrow> None))"

text \<open>\<open>closeConfirmChannel\<close>; an error is only logged.\<close>

definition closeConfirmChannel :: "nat \<Rightarrow> publisher_close \<Rightarrow> publisher_close" where
  "closeConfirmChannel g s = s\<lparr>cl_open := removeAll g (cl_open s)\<rparr>"

text \<open>The goroutine behind the barrier: it passes through the mutex and closes the channel that is
  current then.\<close>

definition barrier_step :: "publisher_close \<Rightarrow> publisher_close option" where
  "barrier_step s =
     (case cl_barrier s of
        BLock \<Rightarrow> if cl_mutex s = Free then Some (s\<lparr>cl_mutex := BarrierHolds, cl_barrier := BUnlock\<rparr>) else None
      | BUnlock \<Rightarrow> Some (s\<lparr>cl_mutex := Free, cl_barrier := BClosing (cl_gen s)\<rparr>)
      | BClosing g \<Rightarrow> Some ((closeConfirmChannel g s)\<lparr>cl_barrier := BDone\<rparr>)
      | _ \<Rightarrow> None)"

definition waiter_step :: "publisher_close \<Rightarrow> publisher_close option" where
  "waiter_step s =
     (if cl_waiter s = WWaiting \<and> cl_goroutines s = 0 then Some (s\<lparr>cl_waiter := WFinished\<rparr>) else None)"

section \<open>What runs beside it\<close>

text \<open>A refresh of the confirm channel, once it has opened a new channel: it takes the mutex, asks
  again whether the publisher is closed and whether another refresh was faster (\<open>stale\<close>), installs
  the channel, and afterwards closes the old one.\<close>

definition refresh_step :: "bool \<Rightarrow> publisher_close \<Rightarrow> publisher_close option" where
  "refresh_step stale s =
     (case cl_mutex s of
        Free \<Rightarrow> Some (s\<lparr>cl_mutex := RefreshUnchecked\<rparr>)
      | RefreshUnchecked \<Rightarrow> Some (s\<lparr>cl_mutex := if cl_closed s \<or> stale then Free else RefreshChecked\<rparr>)
      | RefreshChecked \<Rightarrow>
          Some (s\<lparr>cl_gen := Suc (cl_gen s), cl_open := Suc (cl_gen s) # cl_open s,
                  cl_replaced := cl_gen s # cl_replaced s, cl_goroutines := cl_goroutines s + 2,
                  cl_mutex := Free\<rparr>)
      | _ \<Rightarrow> None)"

definition close_replaced_step :: "publisher_close \<Rightarrow> publisher_close option" where
  "close_replaced_step s =
     (case cl_replaced s of [] \<Rightarrow> None | g # gs \<Rightarrow> Some (closeConfirmChannel g (s\<lparr>cl_replaced := gs\<rparr>)))"

text \<open>A publish takes the mutex, asks whether the publisher is closed, registers its message with a
  timer, and holds the mutex while it sends.\<close>

definition publish_step :: "publisher_close \<Rightarrow> publisher_close option" where
  "publish_step s =
     (case cl_mutex s of
        Free \<Rightarrow> Some (s\<lparr>cl_mutex := PublishUnchecked\<rparr>)
      | PublishUnchecked \<Rightarrow>
          Some (if cl_closed s then s\<lparr>cl_mutex := Free\<rparr>
                else s\<lparr>cl_mutex := PublishHolds, cl_timers := Suc (cl_timers s)\<rparr>)
      | PublishHolds \<Rightarrow> Some (s\<lparr>cl_mutex := Free\<rparr>)
      | _ \<Rightarrow> None)"

datatype close_label =
    LClose nat "string option"
  | LBarrier
  | LWaiter
  | LRefresh bool
  | LCloseReplaced
  | LPublish
  | LGoroutineEnds
  | LTime duration

fun close_step :: "close_label \<Rightarrow> publisher_close \<Rightarrow> publisher_close option" where
  "close_step (LClose i ans) s = Close_step i ans s"
| "close_step LBarrier s = barrier_step s"
| "close_step LWaiter s = waiter_step s"
| "close_step (LRefresh stale) s = (if cl_assurance s then refresh_step stale s else None)"
| "close_step LCloseReplaced s = close_replaced_step s"
| "close_step LPublish s = (if cl_assurance s then publish_step s else None)"
| "close_step LGoroutineEnds s =
     (case cl_goroutines s of 0 \<Rightarrow> None | Suc n \<Rightarrow> Some (s\<lparr>cl_goroutines := n\<rparr>))"
| "close_step (LTime d) s = (if 0 \<le> d then Some (s\<lparr>cl_now := cl_now s + d\<rparr>) else None)"

fun close_run :: "close_label list \<Rightarrow> publisher_close \<Rightarrow> publisher_close option" where
  "close_run [] s = Some s"
| "close_run (l # ls) s = (case close_step l s of None \<Rightarrow> None | Some s' \<Rightarrow> close_run ls s')"

interpretation closing: labelled_run close_step close_run
  by unfold_locales simp_all

section \<open>After the barrier\<close>

lemmas close_steps = Close_step_def barrier_step_def waiter_step_def refresh_step_def
  close_replaced_step_def publish_step_def set_call_def closeConfirmChannel_def

fun past_timers :: "close_pc \<Rightarrow> bool" where
  "past_timers CMain = True"
| "past_timers CMainClosing = True"
| "past_timers _ = False"

text \<open>Where the calls are: nobody has begun while the publisher is not closed, at most one call has
  announced the end, and the timers are cancelled when a call closes the main channel.\<close>

definition calls_ok :: "bool \<Rightarrow> bool \<Rightarrow> nat \<Rightarrow> close_pc list \<Rightarrow> bool" where
  "calls_ok closed started timers cs \<longleftrightarrow>
     (\<not> closed \<longrightarrow> set cs \<subseteq> {CStart} \<and> \<not> started) \<and>
     lcount (\<lambda>c. c = CAnnounced) cs + (if started then 1 else 0) \<le> 1 \<and>
     (\<forall>c \<in> set cs. past_timers c \<longrightarrow> timers = 0)"

lemma calls_ok_timers: "calls_ok closed started k cs \<Longrightarrow> calls_ok closed started 0 cs"
  by (simp add: calls_ok_def)

lemma calls_ok_register: "calls_ok False started k cs \<Longrightarrow> calls_ok False started k' cs"
  by (auto simp: calls_ok_def)

lemma calls_ok_update:
  assumes "calls_ok True started k cs" and "i < length cs" and "c \<noteq> CAnnounced" and "past_timers c \<longrightarrow> k = 0"
  shows "calls_ok True started k (cs[i := c])"
proof -
  have "lcount (\<lambda>c. c = CAnnounced) (cs[i := c]) \<le> lcount (\<lambda>c. c = CAnnounced) cs"
    using lcount_list_update [OF assms(2), of "\<lambda>c. c = CAnnounced" c] assms(3) by (auto split: if_splits)
  moreover have "\<forall>x \<in> set (cs[i := c]). past_timers x \<longrightarrow> k = 0"
    using assms(1,4) by (intro ball_list_update) (auto simp: calls_ok_def)
  ultimately show ?thesis using assms(1) by (auto simp: calls_ok_def)
qed

lemma calls_ok_begin:
  assumes "calls_ok False started k cs" and "i < length cs"
  shows "calls_ok True started k (cs[i := CAnnounced])"
proof -
  have "lcount (\<lambda>c. c = CAnnounced) cs = 0" using assms(1) by (auto simp: calls_ok_def lcount_zero_iff)
  then have "lcount (\<lambda>c. c = CAnnounced) (cs[i := CAnnounced]) \<le> 1"
    using lcount_list_update [OF assms(2), of "\<lambda>c. c = CAnnounced" CAnnounced] by simp
  moreover have "\<forall>x \<in> set (cs[i := CAnnounced]). \<not> past_timers x"
    using assms(1) by (intro ball_list_update) (auto simp: calls_ok_def)
  ultimately show ?thesis using assms(1) by (auto simp: calls_ok_def)
qed

lemma calls_ok_announce:
  assumes "calls_ok True started k cs" and "i < length cs" and "cs ! i = CAnnounced"
    and "c \<noteq> CAnnounced" and "\<not> past_timers c"
  shows "\<not> started \<and> calls_ok True True k (cs[i := c])"
proof -
  have "Suc (lcount (\<lambda>c. c = CAnnounced) (cs[i := c])) = lcount (\<lambda>c. c = CAnnounced) cs"
    using lcount_list_update [OF assms(2), of "\<lambda>c. c = CAnnounced" c] assms(3,4) by simp
  moreover have "\<forall>x \<in> set (cs[i := c]). past_timers x \<longrightarrow> k = 0"
    using assms(1,5) by (intro ball_list_update) (auto simp: calls_ok_def)
  ultimately show ?thesis using assms(1) by (auto simp: calls_ok_def split: if_splits)
qed

text \<open>The barrier keeps everybody out who has not asked again, so the channel it closes is the last.\<close>

definition channels_ok :: "barrier_pc \<Rightarrow> mutex_holder \<Rightarrow> nat \<Rightarrow> nat list \<Rightarrow> nat list \<Rightarrow> bool" where
  "channels_ok b m g opened replaced \<longleftrightarrow>
     (m = BarrierHolds \<longleftrightarrow> b = BUnlock) \<and>
     (b \<noteq> BNotStarted \<and> b \<noteq> BLock \<longrightarrow> m \<noteq> RefreshChecked) \<and>
     (\<forall>x. b = BClosing x \<longrightarrow> x = g) \<and> (b = BDone \<longrightarrow> g \<notin> set opened) \<and>
     set opened \<subseteq> insert g (set replaced)"

definition close_ok :: "publisher_close \<Rightarrow> bool" where
  "close_ok s \<longleftrightarrow>
     cl_assurance s \<and>
     calls_ok (cl_closed s) (cl_barrier s \<noteq> BNotStarted) (cl_timers s) (cl_calls s) \<and>
     channels_ok (cl_barrier s) (cl_mutex s) (cl_gen s) (cl_open s) (cl_replaced s)"

lemma close_ok_open: "close_ok (open_publisher True n pending now)"
  by (auto simp: close_ok_def open_publisher_def calls_ok_def channels_ok_def lcount_def)

lemma calls_ok_closed:
  "calls_ok closed started k cs \<Longrightarrow> i < length cs \<Longrightarrow> cs ! i \<noteq> CStart \<Longrightarrow> closed"
  by (metis calls_ok_def nth_mem singletonD subsetD)

lemma close_ok_call:
  assumes ok: "close_ok s" and s': "Close_step i ans s = Some s'"
  shows "close_ok s'"
proof -
  have i: "i < length (cl_calls s)" using s' by (auto simp: Close_step_def split: if_splits)
  have a: "cl_assurance s"
    and C: "calls_ok (cl_closed s) (cl_barrier s \<noteq> BNotStarted) (cl_timers s) (cl_calls s)"
    and H: "channels_ok (cl_barrier s) (cl_mutex s) (cl_gen s) (cl_open s) (cl_replaced s)"
    using ok by (simp_all add: close_ok_def)
  show ?thesis
  proof (cases "cl_closed s")
    case False
    then have "cl_calls s ! i = CStart" using calls_ok_closed [OF C i] by blast
    with False i s' a C H calls_ok_begin [OF _ i] show ?thesis
      by (auto simp: Close_step_def close_ok_def set_call_def)
  next
    case True
    have C: "calls_ok True (cl_barrier s \<noteq> BNotStarted) (cl_timers s) (cl_calls s)" using C True by simp
    note u = calls_ok_update [OF C i]
    show ?thesis
    proof (cases "cl_calls s ! i = CAnnounced")
      case announced: True
      from calls_ok_announce [OF C i announced, of "CBarrierWait (cl_now s + close_bound)"]
      have "cl_barrier s = BNotStarted"
        "calls_ok True True (cl_timers s) ((cl_calls s)[i := CBarrierWait (cl_now s + close_bound)])"
        by simp_all
      with H have "channels_ok BLock (cl_mutex s) (cl_gen s) (cl_open s) (cl_replaced s)"
        by (auto simp: channels_ok_def)
      with s' i a True announced show ?thesis
        using calls_ok_announce [OF C i announced, of "CBarrierWait (cl_now s + close_bound)"]
        by (auto simp: Close_step_def close_ok_def set_call_def)
    next
      case False
      have t: "past_timers (cl_calls s ! i) \<longrightarrow> cl_timers s = 0"
        using C nth_mem [OF i] by (auto simp: calls_ok_def)
      have z: "calls_ok True (cl_barrier s \<noteq> BNotStarted) 0 ((cl_calls s)[i := CMain])"
        using calls_ok_update [OF calls_ok_timers [OF C] i, of CMain] by simp
      have rest: "cl_barrier s' = cl_barrier s" "cl_mutex s' = cl_mutex s" "cl_gen s' = cl_gen s"
        "cl_open s' = cl_open s" "cl_replaced s' = cl_replaced s" "cl_assurance s'" "cl_closed s'"
        using s' False True a
        by (auto simp: Close_step_def set_call_def split: close_pc.splits if_splits)
      have "calls_ok True (cl_barrier s \<noteq> BNotStarted) (cl_timers s') (cl_calls s')"
        using s' False True a i t u z
        by (cases "cl_calls s ! i") (auto simp: Close_step_def set_call_def split: if_splits)
      with rest H show ?thesis by (simp add: close_ok_def)
    qed
  qed
qed

lemma close_ok_step:
  assumes ok: "close_ok s" and s': "close_step l s = Some s'"
  shows "close_ok s'"
proof (cases l)
  case (LClose i ans)
  with close_ok_call assms show ?thesis by simp
next
  case LBarrier
  with assms show ?thesis
    by (auto simp: close_ok_def channels_ok_def barrier_step_def closeConfirmChannel_def
        split: barrier_pc.splits if_splits)
next
  case LWaiter
  with assms show ?thesis by (auto simp: close_ok_def waiter_step_def split: if_splits)
next
  case (LRefresh stale)
  have "cl_barrier s \<noteq> BNotStarted \<longrightarrow> cl_closed s" using ok by (auto simp: close_ok_def calls_ok_def)
  with LRefresh assms show ?thesis
    by (auto simp: close_ok_def channels_ok_def refresh_step_def split: mutex_holder.splits if_splits)
next
  case LCloseReplaced
  with assms show ?thesis
    by (auto simp: close_ok_def channels_ok_def close_replaced_step_def closeConfirmChannel_def
        split: list.splits)
next
  case LPublish
  with assms show ?thesis
    by (auto simp: close_ok_def channels_ok_def publish_step_def calls_ok_register
        split: mutex_holder.splits if_splits)
next
  case LGoroutineEnds
  with assms show ?thesis by (auto simp: close_ok_def split: nat.splits)
next
  case (LTime d)
  with assms show ?thesis by (auto simp: close_ok_def split: if_splits)
qed

lemma close_ok_run: "close_ok s \<Longrightarrow> close_run ls s = Some s' \<Longrightarrow> close_ok s'"
  by (rule closing.invariant [where P = close_ok]) (auto dest: close_ok_step)

text \<open>Once the barrier is through, no channel is opened or made current any more.\<close>

lemma after_barrier_step:
  assumes "close_ok s" and "cl_barrier s = BDone" and "close_step l s = Some s'"
  shows "cl_barrier s' = BDone \<and> cl_gen s' = cl_gen s \<and> set (cl_open s') \<subseteq> set (cl_open s)"
proof -
  have c: "cl_closed s" "cl_mutex s \<noteq> RefreshChecked" and n: "\<forall>c \<in> set (cl_calls s). c \<noteq> CAnnounced"
    using assms(1,2) by (auto simp: close_ok_def calls_ok_def channels_ok_def lcount_zero_iff)
  show ?thesis
  proof (cases l)
    case (LClose i ans)
    with assms(3) have i: "i < length (cl_calls s)" by (auto simp: Close_step_def split: if_splits)
    with n have "cl_calls s ! i \<noteq> CAnnounced" by simp
    with LClose assms(2,3) c i show ?thesis
      by (auto simp: Close_step_def set_call_def split: close_pc.splits if_splits)
  next
    case (LRefresh stale)
    with assms(2,3) c show ?thesis by (auto simp: refresh_step_def split: mutex_holder.splits if_splits)
  next
    case LPublish
    with assms(2,3) show ?thesis by (auto simp: publish_step_def split: mutex_holder.splits if_splits)
  next
    case LCloseReplaced
    with assms(2,3) show ?thesis
      by (auto simp: close_replaced_step_def closeConfirmChannel_def split: list.splits)
  qed (use assms(2,3) in \<open>auto simp: barrier_step_def waiter_step_def split: if_splits nat.splits\<close>)
qed

lemma after_barrier_run:
  assumes "close_ok s" and "cl_barrier s = BDone" and "close_run ls s = Some s'"
  shows "cl_gen s' = cl_gen s \<and> set (cl_open s') \<subseteq> set (cl_open s)"
proof -
  have "close_ok s' \<and> cl_barrier s' = BDone \<and> cl_gen s' = cl_gen s \<and> set (cl_open s') \<subseteq> set (cl_open s)"
    by (rule closing.invariant [where P = "\<lambda>x. close_ok x \<and> cl_barrier x = BDone \<and> cl_gen x = cl_gen s \<and>
          set (cl_open x) \<subseteq> set (cl_open s)", OF assms(3)])
      (use assms(1,2) in \<open>auto dest: after_barrier_step close_ok_step\<close>)
  then show ?thesis by simp
qed

text \<open>C9: Close leaves no confirm channel behind: once its barrier is through, the current confirm channel
  is closed, no refresh that was under way or starts later installs another one or reopens one, and
  the only channels still open are replaced ones their refresh is about to close; and no timer of
  a pending message runs when Close closes the main channel.\<close>

theorem closed_publisher_leaves_no_channel:
  assumes "close_run ls (open_publisher True n pending now) = Some s" and "cl_barrier s = BDone"
    and "close_run ls' s = Some s'"
  shows "cl_gen s' = cl_gen s \<and> cl_gen s' \<notin> set (cl_open s') \<and> set (cl_open s') \<subseteq> set (cl_open s) \<and>
    set (cl_open s') \<subseteq> set (cl_replaced s') \<and>
    (CMainClosing \<in> set (cl_calls s') \<longrightarrow> cl_timers s' = 0)"
proof -
  have ok: "close_ok s" using close_ok_run [OF close_ok_open assms(1)] .
  have ok': "close_ok s'" using close_ok_run [OF ok assms(3)] .
  have r: "cl_gen s' = cl_gen s" "set (cl_open s') \<subseteq> set (cl_open s)"
    using after_barrier_run [OF ok assms(2,3)] by simp_all
  have g: "cl_gen s' \<notin> set (cl_open s')"
    using ok assms(2) r by (auto simp: close_ok_def channels_ok_def)
  have o: "set (cl_open s') \<subseteq> insert (cl_gen s') (set (cl_replaced s'))"
    using ok' by (simp add: close_ok_def channels_ok_def)
  have "\<forall>c \<in> set (cl_calls s'). past_timers c \<longrightarrow> cl_timers s' = 0"
    using ok' by (simp add: close_ok_def calls_ok_def)
  then have "CMainClosing \<in> set (cl_calls s') \<longrightarrow> cl_timers s' = 0" by (metis past_timers.simps(2))
  with r g o show ?thesis by blast
qed

section \<open>How long Close takes\<close>

text \<open>
  A run in which Close does not dawdle: time passes only while every call of it is waiting for
  somebody else, and no further than the end of its wait. Everything else may be as slow as it likes.
\<close>

fun may_wait :: "publisher_close \<Rightarrow> duration \<Rightarrow> close_pc \<Rightarrow> bool" where
  "may_wait s d (CBarrierWait due) \<longleftrightarrow> cl_barrier s \<noteq> BDone \<and> cl_now s + d \<le> due"
| "may_wait s d (CWorkersWait due) \<longleftrightarrow> cl_waiter s \<noteq> WFinished \<and> cl_now s + d \<le> due"
| "may_wait s d CStart \<longleftrightarrow> True"
| "may_wait s d CMainClosing \<longleftrightarrow> True"
| "may_wait s d (CReturned r) \<longleftrightarrow> True"
| "may_wait s d _ \<longleftrightarrow> d = 0"

definition prompt :: "publisher_close \<Rightarrow> close_label \<Rightarrow> bool" where
  "prompt s l \<longleftrightarrow> (case l of LTime d \<Rightarrow> (\<forall>c \<in> set (cl_calls s). may_wait s d c) | _ \<Rightarrow> True)"

definition prompt_step :: "close_label \<Rightarrow> publisher_close \<Rightarrow> publisher_close option" where
  "prompt_step l s = (if prompt s l then close_step l s else None)"

fun prompt_run :: "close_label list \<Rightarrow> publisher_close \<Rightarrow> publisher_close option" where
  "prompt_run [] s = Some s"
| "prompt_run (l # ls) s = (case prompt_step l s of None \<Rightarrow> None | Some s' \<Rightarrow> prompt_run ls s')"

interpretation prompt_closing: labelled_run prompt_step prompt_run
  by unfold_locales simp_all

text \<open>Such a run never blocks: when time cannot pass, a call of Close can move.\<close>

lemma may_wait_less: "may_wait s d c \<Longrightarrow> 0 \<le> d' \<Longrightarrow> d' \<le> d \<Longrightarrow> may_wait s d' c"
  by (cases c) auto

lemma may_wait_all:
  "\<forall>c \<in> set cs. \<exists>d > 0. may_wait s d c \<Longrightarrow> \<exists>d > 0. \<forall>c \<in> set cs. may_wait s d c"
proof (induction cs)
  case Nil
  then show ?case by (auto intro: exI [of _ 1])
next
  case (Cons c cs)
  then obtain d e where "0 < d" "\<forall>c \<in> set cs. may_wait s d c" "0 < e" "may_wait s e c" by auto
  then show ?case using may_wait_less by (intro exI [of _ "min d e"]) fastforce
qed

lemma prompt_never_blocks:
  assumes "\<And>i ans. Close_step i ans s = None"
  shows "\<exists>d > 0. prompt s (LTime d)"
proof -
  have "\<exists>d > 0. may_wait s d (cl_calls s ! i)" if "i < length (cl_calls s)" for i
  proof (cases "cl_calls s ! i")
    case (CBarrierWait due)
    then show ?thesis using assms [of i None] that
      by (intro exI [of _ "due - cl_now s"]) (simp add: Close_step_def split: if_splits)
  next
    case (CWorkersWait due)
    then show ?thesis using assms [of i None] that
      by (intro exI [of _ "due - cl_now s"]) (simp add: Close_step_def split: if_splits)
  next
    case (CReturned r)
    then show ?thesis by (intro exI [of _ 1]) simp
  qed (use assms [of i None] that in \<open>simp_all add: Close_step_def\<close>)
  then have "\<exists>d > 0. \<forall>c \<in> set (cl_calls s). may_wait s d c"
    by (intro may_wait_all) (auto simp: in_set_conv_nth)
  then show ?thesis by (auto simp: prompt_def)
qed

definition time_ok :: "publisher_close \<Rightarrow> close_pc \<Rightarrow> bool" where
  "time_ok s c =
     (case c of
        CAnnounced \<Rightarrow> cl_now s = cl_began s
      | CBarrierWait due \<Rightarrow> cl_now s \<le> due \<and> due = cl_began s + close_bound
      | CWorkersWait due \<Rightarrow> cl_now s \<le> due \<and> due \<le> cl_began s + 2 * close_bound
      | CTimers \<Rightarrow> cl_now s \<le> cl_began s + 2 * close_bound
      | CMain \<Rightarrow> cl_now s \<le> cl_began s + 2 * close_bound
      | _ \<Rightarrow> True)"

lemma time_ok_same: "cl_now s' = cl_now s \<Longrightarrow> cl_began s' = cl_began s \<Longrightarrow> time_ok s' c = time_ok s c"
  by (cases c) (simp_all add: time_ok_def)

definition same_calls :: "publisher_close \<Rightarrow> publisher_close \<Rightarrow> bool" where
  "same_calls s s' \<longleftrightarrow> cl_calls s' = cl_calls s \<and> cl_now s' = cl_now s \<and> cl_began s' = cl_began s"

lemma same_calls_others:
  "barrier_step s = Some s' \<Longrightarrow> same_calls s s'"
  "waiter_step s = Some s' \<Longrightarrow> same_calls s s'"
  "refresh_step stale s = Some s' \<Longrightarrow> same_calls s s'"
  "close_replaced_step s = Some s' \<Longrightarrow> same_calls s s'"
  "publish_step s = Some s' \<Longrightarrow> same_calls s s'"
  "close_step LGoroutineEnds s = Some s' \<Longrightarrow> same_calls s s'"
  by (auto simp: same_calls_def barrier_step_def waiter_step_def refresh_step_def
      close_replaced_step_def publish_step_def closeConfirmChannel_def
      split: barrier_pc.splits mutex_holder.splits list.splits nat.splits if_splits)

lemma time_ok_step:
  assumes ok: "close_ok s" and t: "\<forall>c \<in> set (cl_calls s). time_ok s c"
    and p: "prompt s l" and s': "close_step l s = Some s'"
  shows "\<forall>c \<in> set (cl_calls s'). time_ok s' c"
proof (cases l)
  case (LClose i ans)
  with s' have i: "i < length (cl_calls s)" by (auto simp: Close_step_def split: if_splits)
  then have ti: "time_ok s (cl_calls s ! i)" and m: "cl_calls s ! i \<in> set (cl_calls s)" using t by simp_all
  have b: "0 < close_bound" by (simp add: close_bound_def second_def)
  have cl: "\<not> cl_closed s \<longrightarrow> set (cl_calls s) \<subseteq> {CStart}" using ok by (auto simp: close_ok_def calls_ok_def)
  show ?thesis
  proof (cases "cl_closed s")
    case False
    then have "\<forall>c \<in> set ((cl_calls s)[i := CAnnounced]). c = CStart \<or> c = CAnnounced"
      using cl by (intro ball_list_update) auto
    moreover have "cl_calls s ! i = CStart" using cl m False by auto
    then have "cl_calls s' = (cl_calls s)[i := CAnnounced]" "cl_now s' = cl_began s'"
      using LClose s' i False ok by (auto simp: Close_step_def set_call_def close_ok_def)
    ultimately show ?thesis by (auto simp: time_ok_def)
  next
    case True
    obtain c where s: "cl_calls s' = (cl_calls s)[i := c]" "time_ok s' c"
      "cl_now s' = cl_now s" "cl_began s' = cl_began s"
      using LClose s' True i ti b ok
      by (cases "cl_calls s ! i") (auto simp: Close_step_def set_call_def time_ok_def close_ok_def split: if_splits)
    have "\<forall>x \<in> set (cl_calls s). time_ok s' x" using t time_ok_same [OF s(3,4)] by simp
    then show ?thesis unfolding s(1) using s(2) by (rule ball_list_update)
  qed
next
  case (LTime d)
  have "time_ok (s\<lparr>cl_now := cl_now s + d\<rparr>) c" if "c \<in> set (cl_calls s)" for c
  proof -
    have "time_ok s c" "may_wait s d c" using p t that LTime by (simp_all add: prompt_def)
    then show ?thesis by (cases c) (simp_all add: time_ok_def)
  qed
  with LTime s' show ?thesis by (auto split: if_splits)
qed (use t s' same_calls_others [where s = s and s' = s'] time_ok_same [of s' s] in
  \<open>auto simp: same_calls_def simp del: close_step.simps(7) split: if_splits\<close>)

lemma prompt_run_invariant:
  assumes "prompt_run ls s = Some s'" and "close_ok s" and "\<forall>c \<in> set (cl_calls s). time_ok s c"
  shows "close_ok s' \<and> (\<forall>c \<in> set (cl_calls s'). time_ok s' c)"
proof (rule prompt_closing.invariant [where P = "\<lambda>x. close_ok x \<and> (\<forall>c \<in> set (cl_calls x). time_ok x c)",
      OF assms(1)])
  show "close_ok s \<and> (\<forall>c \<in> set (cl_calls s). time_ok s c)" using assms(2,3) by simp
next
  fix l s s'
  assume "prompt_step l s = Some s'" and ok: "close_ok s \<and> (\<forall>c \<in> set (cl_calls s). time_ok s c)"
  then have "prompt s l" "close_step l s = Some s'" by (simp_all add: prompt_step_def split: if_splits)
  with ok show "close_ok s' \<and> (\<forall>c \<in> set (cl_calls s'). time_ok s' c)"
    using close_ok_step time_ok_step by blast
qed

text \<open>C10: Close reaches the closing of the main channel within ten seconds, however long a publish stays
  stuck on the wire holding the lock and however many background goroutines never end: whenever a
  call of it is still before that point, at most ten seconds have passed since it began.\<close>

theorem close_waits_at_most_ten_seconds:
  assumes "prompt_run ls (open_publisher True n pending now) = Some s"
    and "CAnnounced \<in> set (cl_calls s) \<or> CBarrierWait due \<in> set (cl_calls s) \<or>
      CWorkersWait due \<in> set (cl_calls s) \<or> CTimers \<in> set (cl_calls s) \<or> CMain \<in> set (cl_calls s)"
  shows "cl_now s \<le> cl_began s + 10 * second"
proof -
  have "\<forall>c \<in> set (cl_calls (open_publisher True n pending now)). time_ok (open_publisher True n pending now) c"
    by (simp add: open_publisher_def time_ok_def)
  with prompt_run_invariant [OF assms(1) close_ok_open] have t: "\<forall>c \<in> set (cl_calls s). time_ok s c"
    by blast
  have "0 \<le> close_bound" and e: "10 * second = 2 * close_bound" by (simp_all add: close_bound_def second_def)
  with assms(2) show ?thesis unfolding e by (elim disjE) (drule bspec [OF t], simp add: time_ok_def)+
qed

text \<open>A publish is stuck on the wire when Close is called, so both waits run out.\<close>

definition stuck_publish :: "close_label list" where
  "stuck_publish =
     [LPublish, LPublish, LClose 0 None, LClose 0 None, LTime (5 * second), LClose 0 None,
      LTime (5 * second), LClose 0 None, LClose 0 None]"

lemmas close_demo_simps = open_publisher_def close_steps prompt_step_def prompt_def close_bound_def second_def

theorem close_waits_at_most_ten_seconds_witness:
  "\<exists>s. prompt_run stuck_publish (open_publisher True 1 2 7) = Some s \<and>
     cl_calls s = [CMain] \<and> cl_now s = 10 * second + 7 \<and> cl_now s \<le> cl_began s + 10 * second"
proof -
  obtain s where s: "prompt_run stuck_publish (open_publisher True 1 2 7) = Some s"
    "cl_calls s = [CMain]" "cl_now s = 10 * second + 7"
    by (simp add: stuck_publish_def close_demo_simps)
  with close_waits_at_most_ten_seconds [OF s(1)] show ?thesis by (intro exI [of _ s]) simp
qed

text \<open>Closing the main channel is not bounded: while the broker does not answer, Close stays there.\<close>

lemma close_waits_for_main_channel:
  "\<exists>s. prompt_run (stuck_publish @ [LClose 0 None]) (open_publisher True 1 2 7) = Some s \<and>
     (\<forall>d \<ge> 0. \<exists>s'. prompt_run [LTime d] s = Some s' \<and> cl_calls s' = [CMainClosing])"
  by (simp add: stuck_publish_def close_demo_simps)

text \<open>Close runs while a refresh holds the lock: the refresh installs nothing.\<close>

definition refresh_during_close :: "close_label list" where
  "refresh_during_close =
     [LRefresh False, LClose 0 None, LRefresh False, LClose 0 None, LBarrier, LBarrier, LBarrier]"

theorem closed_publisher_leaves_no_channel_witness:
  "\<exists>s s'. close_run refresh_during_close (open_publisher True 1 2 7) = Some s \<and>
     close_run [LRefresh False, LRefresh False] s = Some s' \<and> cl_gen s' = 1 \<and> cl_gen s' \<notin> set (cl_open s')"
proof -
  obtain s s' where s: "close_run refresh_during_close (open_publisher True 1 2 7) = Some s"
    "cl_barrier s = BDone" "cl_gen s = 1" "close_run [LRefresh False, LRefresh False] s = Some s'"
    by (simp add: refresh_during_close_def close_demo_simps)
  from closed_publisher_leaves_no_channel [OF s(1,2,4)] s(3)
  have "cl_gen s' = 1" "cl_gen s' \<notin> set (cl_open s')" by metis+
  with s(1,4) show ?thesis by blast
qed

text \<open>A second call of Close returns at once, and without having closed anything.\<close>

lemma second_close_returns:
  "cl_assurance s \<Longrightarrow> cl_closed s \<Longrightarrow> i < length (cl_calls s) \<Longrightarrow> cl_calls s ! i = CStart \<Longrightarrow>
   Close_step i ans s = Some (set_call i (CReturned None) s)"
  by (simp add: Close_step_def)

end
