(* ===== verification/Message_Build.thy ===== *)
theory Message_Build
  imports Retry_Policy
begin

text \<open>
  Building messages (src/types.go): the setters of \<open>Message\<close>, JSON messages, and the typed errors.
  \<open>json.Marshal\<close> is an argument. \<open>WithExpiration\<close> prints a float without decimals: which way a
  value is rounded that lies between two milliseconds is the argument \<open>ms\<close>.
\<close>

section \<open>Setters\<close>

datatype message_setter =
    SetCorrelationID string
  | SetReplyTo string
  | SetType string
  | SetAppID string
  | SetUserID string
  | SetExpiration duration
  | SetPriority "8 word"
  | SetHeader string hval
  | SetHeaders table
  | SetContentType string
  | SetMessageID string
  | SetTimestamp instant
  | SetPersistent
  | SetTransient

definition expiration_text :: "(duration \<Rightarrow> int) \<Rightarrow> duration \<Rightarrow> string" where
  "expiration_text ms d = (if d < 0 \<and> ms d = 0 then ''-0'' else show_int (ms d))"

fun set_message :: "(duration \<Rightarrow> int) \<Rightarrow> message_setter \<Rightarrow> message \<Rightarrow> message" where
  "set_message ms (SetCorrelationID x) m = m\<lparr>m_CorrelationID := x\<rparr>"
| "set_message ms (SetReplyTo x) m = m\<lparr>m_ReplyTo := x\<rparr>"
| "set_message ms (SetType x) m = m\<lparr>m_Type := x\<rparr>"
| "set_message ms (SetAppID x) m = m\<lparr>m_AppID := x\<rparr>"
| "set_message ms (SetUserID x) m = m\<lparr>m_UserID := x\<rparr>"
| "set_message ms (SetExpiration d) m = m\<lparr>m_Expiration := expiration_text ms d\<rparr>"
| "set_message ms (SetPriority x) m = m\<lparr>m_Priority := x\<rparr>"
| "set_message ms (SetHeader k v) m = WithHeader k v m"
| "set_message ms (SetHeaders hs) m = WithHeaders hs m"
| "set_message ms (SetContentType x) m = m\<lparr>m_ContentType := x\<rparr>"
| "set_message ms (SetMessageID x) m = m\<lparr>m_MessageID := x\<rparr>"
| "set_message ms (SetTimestamp t) m = m\<lparr>m_Timestamp := Unix_of t\<rparr>"
| "set_message ms SetPersistent m = m\<lparr>m_Persistent := True\<rparr>"
| "set_message ms SetTransient m = m\<lparr>m_Persistent := False\<rparr>"

definition NewJSONMessage ::
  "string + bytes \<Rightarrow> string option \<Rightarrow> int \<Rightarrow> int \<Rightarrow> string + message" where
  "NewJSONMessage marshalled ulid unixNano unix =
     (case marshalled of
        Inl e \<Rightarrow> Inl (''failed to marshal JSON: '' @ e)
      | Inr body \<Rightarrow> Inr ((NewMessage body ulid unixNano unix)\<lparr>m_ContentType := ContentTypeJSON\<rparr>))"

section \<open>Typed errors\<close>

record library_error =
  er_Type :: string
  er_Message :: string
  er_Cause :: "go_error option"

definition library_error_text :: "library_error \<Rightarrow> string" where
  "library_error_text e =
     (case er_Cause e of
        Some c \<Rightarrow> er_Type e @ '': '' @ er_Message e @ '' (caused by: '' @ Error_text c @ '')''
      | None \<Rightarrow> er_Type e @ '': '' @ er_Message e)"

definition Unwrap :: "library_error \<Rightarrow> go_error option" where
  "Unwrap e = er_Cause e"

definition NewConnectionError :: "string \<Rightarrow> go_error option \<Rightarrow> library_error" where
  "NewConnectionError text cause = \<lparr>er_Type = ''ConnectionError'', er_Message = text, er_Cause = cause\<rparr>"

definition NewPublishError :: "string \<Rightarrow> go_error option \<Rightarrow> library_error" where
  "NewPublishError text cause = \<lparr>er_Type = ''PublishError'', er_Message = text, er_Cause = cause\<rparr>"

definition NewConsumeError :: "string \<Rightarrow> go_error option \<Rightarrow> library_error" where
  "NewConsumeError text cause = \<lparr>er_Type = ''ConsumeError'', er_Message = text, er_Cause = cause\<rparr>"

text \<open>Wrapping an error in a typed one keeps every text by which it is recognised.\<close>

lemma str_contains_middle: "str_contains s p \<Longrightarrow> str_contains (l @ s @ r) p"
  by (metis append.assoc str_contains_iff)

lemma library_error_classified:
  assumes "er_Cause e = Some c" and "contains_any (Error_text c) ps"
  shows "contains_any (library_error_text e) ps"
proof -
  obtain p where "p \<in> set ps" "str_contains (Error_text c) p"
    using assms(2) by (auto simp: contains_any_def list_ex_iff)
  then have "str_contains ((er_Type e @ '': '' @ er_Message e @ '' (caused by: '') @ Error_text c @ '')'') p"
    by (intro str_contains_middle)
  with \<open>p \<in> set ps\<close> assms(1) show ?thesis
    by (auto simp: contains_any_def list_ex_iff library_error_text_def)
qed

lemma connection_cause_recognised:
  "IsConnectionError (Some c) \<Longrightarrow> IsConnectionError (Some (PlainError (library_error_text (NewConnectionError s (Some c)))))"
  by (simp add: IsConnectionError_def library_error_classified NewConnectionError_def)

section \<open>Decimal numbers are read back\<close>

lemma digits_val_snoc: "digits_val (ds @ [c]) = 10 * digits_val ds + digit_val c"
  by (simp add: digits_val_def)

lemma digit_char: "k < 10 \<Longrightarrow> is_digit (char_of (48 + k)) \<and> digit_val (char_of (48 + k)) = k"
  by (simp add: is_digit_def digit_val_def)

lemma digits_digits: "(\<forall>c \<in> set (digits n). is_digit c) \<and> digits n \<noteq> [] \<and> digits_val (digits n) = n"
proof (induction n rule: digits.induct)
  case (1 n)
  show ?case
  proof (cases "n < 10")
    case True
    then show ?thesis using digit_char [of n] by (simp add: digits.simps [of n] digits_val_def)
  next
    case False
    with 1 digit_char [of "n mod 10"] show ?thesis
      by (simp add: digits.simps [of n] digits_val_snoc)
  qed
qed

lemma parse_millis:
  "parse_units (digits n @ ''ms'') 0 = (if n * 1000000 \<le> 2 ^ 63 then Some (n * 1000000) else None)"
proof -
  have d: "\<forall>c \<in> set (digits n). is_digit c" "digits n \<noteq> []" "digits_val (digits n) = n"
    using digits_digits by auto
  have t: "takeWhile is_digit (digits n @ ''ms'') = digits n" "dropWhile is_digit (digits n @ ''ms'') = ''ms''"
    using d(1) by (simp_all add: takeWhile_append2 dropWhile_append2 is_digit_def)
  have e: "parse_units [] k = Some k" for k by (simp add: parse_units.simps)
  have "n > 2 ^ 63 div 1000000 \<longleftrightarrow> \<not> n * 1000000 \<le> 2 ^ 63" unfolding not_le by (rule div_less_iff_less_mult) simp
  with d t e show ?thesis
    by (subst parse_units.simps) (simp add: Let_def unitMap_def digits_val_def is_digit_def)
qed

lemma ParseDuration_digits: "ParseDuration (digits n @ ''ms'') =
    (if n * 1000000 < 2 ^ 63 then Some (int (n * 1000000)) else None)"
proof -
  obtain c cs where ds: "digits n = c # cs" and c: "is_digit c"
    using digits_digits [of n] by (cases "digits n") auto
  then have "parse_sign (digits n @ ''ms'') = (False, digits n @ ''ms'')"
    by (auto simp: parse_sign_def is_digit_def)
  moreover have "digits n @ ''ms'' \<noteq> ''0''" by (simp add: ds)
  ultimately show ?thesis by (simp add: ParseDuration_def parse_millis del: parse_units.simps)
qed

section \<open>What is built is valid\<close>

text \<open>How far the printed milliseconds may be from the duration: half a millisecond, and what the float
  arithmetic adds to it.\<close>

definition rounds_to_ms :: "(duration \<Rightarrow> int) \<Rightarrow> bool" where
  "rounds_to_ms ms \<longleftrightarrow> (\<forall>d \<ge> 0. 0 \<le> ms d \<and> \<bar>ms d * 1000000 - d\<bar> \<le> 510000)"

definition printable_expiration :: "duration \<Rightarrow> bool" where
  "printable_expiration d \<longleftrightarrow> 0 \<le> d \<and> d \<le> max_int64 - millisecond"

lemma expiration_read_back:
  assumes "rounds_to_ms ms" and "printable_expiration d"
  shows "\<exists>t. ParseDuration (expiration_text ms d @ ''ms'') = Some t \<and> \<bar>t - d\<bar> \<le> 510000"
proof -
  have b: "0 \<le> ms d" "\<bar>ms d * 1000000 - d\<bar> \<le> 510000" "0 \<le> d" "d \<le> 2 ^ 63 - 1 - 1000000"
    using assms by (auto simp: rounds_to_ms_def printable_expiration_def max_int64_def millisecond_def)
  define n where "n = nat (ms d)"
  have n: "int n = ms d" "expiration_text ms d = digits n"
    using b(1,3) by (simp_all add: n_def expiration_text_def show_int_def)
  have "int (n * 1000000) < 2 ^ 63" using b n(1) by simp
  then have "n * 1000000 < 2 ^ 63" by (simp flip: of_nat_less_iff [where 'a = int])
  with b(2) n show ?thesis by (simp add: ParseDuration_digits)
qed

definition buildable :: "(duration \<Rightarrow> int) \<Rightarrow> message_setter \<Rightarrow> bool" where
  "buildable ms x \<longleftrightarrow>
     (case x of SetExpiration d \<Rightarrow> printable_expiration d | SetContentType t \<Rightarrow> t \<noteq> [] | _ \<Rightarrow> True)"

definition built_ok :: "message_setter list \<Rightarrow> message \<Rightarrow> bool" where
  "built_ok xs m \<longleftrightarrow>
     m_Body m \<noteq> [] \<and> m_ContentType m \<noteq> [] \<and>
     (m_Expiration m = [] \<or>
      (\<exists>d. SetExpiration d \<in> set xs \<and>
         (\<exists>t. ParseDuration (m_Expiration m @ ''ms'') = Some t \<and> \<bar>t - d\<bar> \<le> 510000)))"

lemma built_ok_set:
  assumes "rounds_to_ms ms" and "built_ok xs m" and "buildable ms x"
  shows "built_ok (xs @ [x]) (set_message ms x m)"
proof (cases x)
  case (SetExpiration d)
  with assms(3) have "printable_expiration d" by (simp add: buildable_def)
  from expiration_read_back [OF assms(1) this] assms(2) SetExpiration show ?thesis
    by (auto simp: built_ok_def)
qed (use assms in \<open>auto simp: built_ok_def buildable_def WithHeader_def WithHeaders_def\<close>)


text \<open>Rounding up from the half is one such rounding.\<close>

lemma half_up_rounds: "rounds_to_ms (\<lambda>d. (d + 500000) div 1000000)"
proof -
  have "0 \<le> (d + 500000) div 1000000 \<and> \<bar>(d + 500000) div 1000000 * 1000000 - d\<bar> \<le> 510000" if "0 \<le> d" for d :: int
  proof -
    have "0 \<le> (d + 500000) mod 1000000" "(d + 500000) mod 1000000 < 1000000" by simp_all
    moreover have "(d + 500000) div 1000000 * 1000000 = (d + 500000) - (d + 500000) mod 1000000"
      by (simp add: minus_mod_eq_div_mult)
    moreover have "0 \<le> (d + 500000) div 1000000" using that by (simp add: pos_imp_zdiv_nonneg_iff)
    ultimately show ?thesis by linarith
  qed
  then show ?thesis by (simp add: rounds_to_ms_def)
qed


text \<open>The largest durations give an expiration that Validate refuses.\<close>

lemma largest_expiration_invalid:
  "\<exists>e. Validate (set_message (\<lambda>d. (d + 500000) div 1000000) (SetExpiration max_int64)
     (NewMessage [1] None 5 1)) = Some (InvalidExpiration e)"
proof -
  define n :: nat where "n = 9223372036855"
  have "expiration_text (\<lambda>d. (d + 500000) div 1000000) max_int64 = digits n"
    by (simp add: expiration_text_def max_int64_def show_int_def n_def)
  moreover have "ParseDuration (digits n @ ''ms'') = None" by (simp add: ParseDuration_digits n_def)
  ultimately show ?thesis using digits_digits [of n]
    by (simp add: Validate_def NewMessage_def NewMessageWithID_def ContentTypeJSON_def)
qed

end
