(* ===== verification/Client_Services.thy ===== *)
theory Client_Services
  imports Client_Config Topology
begin

text \<open>
  What a client is equipped with (src/client.go, src/options.go): the plug-ins of its options, and
  its admin service with the topology validator, both made when they are first asked for. A
  plug-in is a value of an interface, 'p; nil is \<open>None\<close>.
\<close>

section \<open>Plug-ins\<close>

record 'p client_plugins =
  pl_Logger :: "'p option"
  pl_Metrics :: "'p option"
  pl_Tracer :: "'p option"
  pl_PerformanceMonitor :: "'p option"
  pl_AccessPolicy :: "'p option"
  pl_AuditLogger :: "'p option"
  pl_ConnectionPooler :: "'p option"
  pl_StreamHandler :: "'p option"
  pl_SagaOrchestrator :: "'p option"
  pl_GracefulShutdown :: "'p option"

datatype 'p plugin_option =
    WithLogger "'p option"
  | WithMetrics "'p option"
  | WithTracing "'p option"
  | WithAccessPolicy "'p option"
  | WithAuditLogging "'p option"
  | WithPerformanceMonitoring "'p option"
  | WithConnectionPooler "'p option"
  | WithStreamHandler "'p option"
  | WithSagaOrchestrator "'p option"
  | WithGracefulShutdown "'p option"

definition not_nil :: "string \<Rightarrow> 'p option \<Rightarrow> 'c \<Rightarrow> string + 'c" where
  "not_nil what p c = (if p = None then Inl (what @ '' cannot be nil'') else Inr c)"

fun apply_plugin_option :: "'p plugin_option \<Rightarrow> 'p client_plugins \<Rightarrow> string + 'p client_plugins" where
  "apply_plugin_option (WithLogger p) c = not_nil ''logger'' p (c\<lparr>pl_Logger := p\<rparr>)"
| "apply_plugin_option (WithMetrics p) c = not_nil ''metrics collector'' p (c\<lparr>pl_Metrics := p\<rparr>)"
| "apply_plugin_option (WithTracing p) c = not_nil ''tracer'' p (c\<lparr>pl_Tracer := p\<rparr>)"
| "apply_plugin_option (WithAccessPolicy p) c = Inr (c\<lparr>pl_AccessPolicy := p\<rparr>)"
| "apply_plugin_option (WithAuditLogging p) c = not_nil ''audit logger'' p (c\<lparr>pl_AuditLogger := p\<rparr>)"
| "apply_plugin_option (WithPerformanceMonitoring p) c =
     not_nil ''performance monitor'' p (c\<lparr>pl_PerformanceMonitor := p\<rparr>)"
| "apply_plugin_option (WithConnectionPooler p) c =
     not_nil ''connection pooler'' p (c\<lparr>pl_ConnectionPooler := p\<rparr>)"
| "apply_plugin_option (WithStreamHandler p) c = not_nil ''stream handler'' p (c\<lparr>pl_StreamHandler := p\<rparr>)"
| "apply_plugin_option (WithSagaOrchestrator p) c =
     not_nil ''saga orchestrator'' p (c\<lparr>pl_SagaOrchestrator := p\<rparr>)"
| "apply_plugin_option (WithGracefulShutdown p) c =
     not_nil ''graceful shutdown handler'' p (c\<lparr>pl_GracefulShutdown := p\<rparr>)"

text \<open>The defaults: plug-ins that do nothing, for the four that are called without a check.\<close>

definition default_plugins :: "'p \<Rightarrow> 'p \<Rightarrow> 'p \<Rightarrow> 'p \<Rightarrow> 'p client_plugins" where
  "default_plugins logger metrics tracer monitor =
     \<lparr>pl_Logger = Some logger, pl_Metrics = Some metrics, pl_Tracer = Some tracer,
      pl_PerformanceMonitor = Some monitor, pl_AccessPolicy = None, pl_AuditLogger = None,
      pl_ConnectionPooler = None, pl_StreamHandler = None, pl_SagaOrchestrator = None,
      pl_GracefulShutdown = None\<rparr>"

fun apply_plugin_options :: "'p plugin_option list \<Rightarrow> 'p client_plugins \<Rightarrow> string + 'p client_plugins" where
  "apply_plugin_options [] c = Inr c"
| "apply_plugin_options (opt # opts) c =
     (case apply_plugin_option opt c of Inl e \<Rightarrow> Inl e | Inr c' \<Rightarrow> apply_plugin_options opts c')"

definition observed :: "'p client_plugins \<Rightarrow> bool" where
  "observed c \<longleftrightarrow> pl_Logger c \<noteq> None \<and> pl_Metrics c \<noteq> None \<and> pl_Tracer c \<noteq> None \<and>
     pl_PerformanceMonitor c \<noteq> None"

lemma observed_option: "apply_plugin_option opt c = Inr c' \<Longrightarrow> observed c \<Longrightarrow> observed c'"
  by (cases opt) (auto simp: not_nil_def observed_def split: if_splits)

text \<open>The logger, the metrics, the tracer and the monitor are called everywhere without a check: no
  options leave one of them nil.\<close>

lemma plugins_never_nil:
  "apply_plugin_options opts (default_plugins l m t p) = Inr c \<Longrightarrow> observed c"
proof -
  have "apply_plugin_options opts c0 = Inr c \<Longrightarrow> observed c0 \<Longrightarrow> observed c" for c0
    by (induction opts arbitrary: c0) (auto split: sum.splits dest: observed_option)
  then show "apply_plugin_options opts (default_plugins l m t p) = Inr c \<Longrightarrow> observed c"
    by (simp add: observed_def default_plugins_def)
qed

section \<open>The admin service\<close>

record client_services =
  sv_config :: clientConfig
  sv_registry :: "topologyRegistry option"
  sv_validator :: "topologyValidator option"
  sv_admin :: bool
  sv_loops :: nat

text \<open>A new client: the registry is made when validation is configured.\<close>

definition new_services :: "clientConfig \<Rightarrow> client_services" where
  "new_services c =
     \<lparr>sv_config = c, sv_registry = (if cc_TopologyValidation c then Some NewTopologyRegistry else None),
      sv_validator = None, sv_admin = False, sv_loops = 0\<rparr>"

definition start_background :: "clientConfig \<Rightarrow> topologyValidator \<Rightarrow> bool \<times> topologyValidator" where
  "start_background c v =
     (if cc_TopologyBackgroundValidation c
      then EnableBackgroundValidation
             (if cc_TopologyValidationInterval c = 0 then 30 * second else cc_TopologyValidationInterval c) v
      else (False, v))"

definition Admin_once :: "client_services \<Rightarrow> client_services" where
  "Admin_once s =
     (let c = sv_config s in
      if sv_admin s then s
      else if cc_TopologyValidation c \<and> sv_validator s = None
      then (let v = Enable NewTopologyValidator;
                v1 = (if cc_TopologyAutoRecreation c then EnableAutoRecreate v else v);
                (started, v2) = start_background c v1 in
            s\<lparr>sv_admin := True, sv_validator := Some v2, sv_loops := sv_loops s + (if started then 1 else 0)\<rparr>)
      else s\<lparr>sv_admin := True\<rparr>)"

text \<open>The interval of the background validation is positive unless the environment sets it.\<close>

definition from_env :: "client_option \<Rightarrow> bool" where
  "from_env opt \<longleftrightarrow> (\<exists>e. opt = FromEnvWithPrefix e)"

lemma interval_option:
  "apply_option opt c = Inr c' \<Longrightarrow> \<not> from_env opt \<Longrightarrow> 0 < cc_TopologyValidationInterval c \<Longrightarrow>
   0 < cc_TopologyValidationInterval c'"
proof (cases opt)
  case (Topology t)
  then show "apply_option opt c = Inr c' \<Longrightarrow> 0 < cc_TopologyValidationInterval c \<Longrightarrow>
      0 < cc_TopologyValidationInterval c'"
    by (cases t) (auto simp: reject_if_def split: if_splits)
qed (auto simp: reject_if_def from_env_def split: if_splits)

lemma interval_options:
  "apply_options opts c = Inr c' \<Longrightarrow> \<forall>opt \<in> set opts. \<not> from_env opt \<Longrightarrow>
   0 < cc_TopologyValidationInterval c \<Longrightarrow> 0 < cc_TopologyValidationInterval c'"
  by (induction opts arbitrary: c) (auto split: sum.splits dest: interval_option)

lemmas services_simps = new_services_def Admin_once_def start_background_def EnableBackgroundValidation_def
  Enable_def EnableAutoRecreate_def NewTopologyValidator_def Let_def

text \<open>C28: a client validates its topology as its options say, from the first call of Admin on and not
  before: there is a validator exactly when validation is configured, it recreates and runs in the
  background exactly when that is configured too, with one background loop however often Admin is
  called, and with an interval that a ticker accepts.\<close>

theorem validator_follows_options:
  assumes "NewClient_config opts = Inr c" and "\<forall>opt \<in> set opts. \<not> from_env opt"
  shows "sv_validator (new_services c) = None \<and>
    (case sv_validator ((Admin_once ^^ Suc n) (new_services c)) of
       None \<Rightarrow> \<not> cc_TopologyValidation c
     | Some v \<Rightarrow> cc_TopologyValidation c \<and> sv_registry (new_services c) \<noteq> None \<and> tv_enabled v \<and>
         tv_autoRecreate v = cc_TopologyAutoRecreation c \<and>
         tv_backgroundEnabled v = cc_TopologyBackgroundValidation c \<and> 0 < tv_validationInterval v) \<and>
    sv_loops ((Admin_once ^^ Suc n) (new_services c)) =
      (if cc_TopologyValidation c \<and> cc_TopologyBackgroundValidation c then 1 else 0)"
proof -
  obtain c0 where c0: "apply_options opts default_clientConfig = Inr c0"
    "cc_TopologyValidationInterval c = cc_TopologyValidationInterval c0"
    using assms(1) by (auto simp: NewClient_config_def split: sum.splits if_splits)
  have i: "0 < cc_TopologyValidationInterval c"
    using interval_options [OF c0(1) assms(2)] c0(2) by (simp add: default_clientConfig_def second_def)
  have "sv_admin (Admin_once s)" for s by (simp add: Admin_once_def Let_def split: prod.split)
  then have "(Admin_once ^^ n) (Admin_once s) = Admin_once s" for s
    by (induction n) (simp_all add: Admin_once_def [of "Admin_once s"])
  then have "(Admin_once ^^ Suc n) (new_services c) = Admin_once (new_services c)"
    by (simp add: funpow_swap1)
  with i show ?thesis by (simp add: services_simps second_def)
qed

theorem validator_follows_options_witness:
  "\<exists>c v. NewClient_config [Topology WithTopologyValidation] = Inr c \<and>
     sv_validator ((Admin_once ^^ Suc 2) (new_services c)) = Some v \<and> tv_backgroundEnabled v"
proof -
  obtain c where c: "NewClient_config [Topology WithTopologyValidation] = Inr c" "cc_TopologyValidation c"
    "cc_TopologyBackgroundValidation c"
    by (auto simp: NewClient_config_def default_clientConfig_def)
  from validator_follows_options [OF c(1), of 2] c show ?thesis
    by (auto simp: from_env_def split: option.splits)
qed

text \<open>An interval from the environment is not checked: a negative one goes to the ticker, which panics.\<close>

lemma environment_interval_unchecked:
  assumes "NewClient_config [FromEnvWithPrefix (Inr e)] = Inr c"
    and "ec_TopologyValidation e" and "ec_TopologyBackgroundValidation e"
    and "ec_TopologyValidationInterval e < 0"
  shows "\<exists>v. sv_validator (Admin_once (new_services c)) = Some v \<and> tv_backgroundEnabled v \<and>
    tv_validationInterval v < 0"
  using assms
  by (auto simp: NewClient_config_def applyEnvConfigToClient_def services_simps split: option.splits if_splits)

end
