(* ===== verification/Shutdown_Signals.thy ===== *)
theory Shutdown_Signals
  imports Shutdown
begin

text \<open>
  The signal handling of the shutdown manager and its waiting callers (src/shutdown/shutdown.go).
  \<open>SetupSignalHandling\<close> starts two goroutines that receive from the same channel of one place: the
  handler of \<open>SetupSignalHandler\<close>, and its own, which closes the channel it returned. The manager
  itself moves by the steps of Shutdown.
\<close>

section \<open>Waiting for the end\<close>

text \<open>What \<open>WaitWithContext\<close> returns; \<open>None\<close>: it goes on waiting. When both are ready the runtime picks
  one (\<open>other\<close>).\<close>

datatype wait_result = WaitDone | WaitContext string

definition WaitWithContext :: "bool \<Rightarrow> string option \<Rightarrow> shutdown_manager \<Rightarrow> wait_result option" where
  "WaitWithContext other ctxErr s =
     (if sm_done s \<and> \<not> (other \<and> ctxErr \<noteq> None) then Some WaitDone
      else map_option WaitContext ctxErr)"

text \<open>\<open>CloseWithTimeout\<close> of the tracker: it is closed first; the result comes when nothing is in flight, or
  when the time is over.\<close>

definition CloseWithTimeout :: "bool \<Rightarrow> bool \<Rightarrow> in_flight_tracker \<Rightarrow> in_flight_tracker \<times> string option option" where
  "CloseWithTimeout expired other t =
     (tracker_close t,
      if tr_count t = 0 \<and> \<not> (other \<and> expired) then Some None
      else if expired then Some (Some ''context deadline exceeded'')
      else None)"

definition tracker_IsClosed :: "in_flight_tracker \<Rightarrow> bool" where
  "tracker_IsClosed t = tr_closed t"

definition IsShutdownComplete :: "shutdown_manager \<Rightarrow> bool" where
  "IsShutdownComplete s = IsShutdown s"

text \<open>\<open>ShutdownGracefully\<close> of the caller with number \<open>i\<close>: it has called Shutdown, and waits with its
  context only once Shutdown has returned.\<close>

definition ShutdownGracefully_returns :: "nat \<Rightarrow> bool \<Rightarrow> string option \<Rightarrow> shutdown_manager \<Rightarrow> wait_result option" where
  "ShutdownGracefully_returns i other ctxErr s =
     (if i < length (sm_callers s) \<and> sm_callers s ! i = CallReturned then WaitWithContext other ctxErr s
      else None)"

text \<open>The context of ShutdownGracefully never ends a shutdown: it returns only when the shutdown is
  done, however long its context has expired; and with an expired context it may then report the
  context's error although everything is shut down.\<close>

lemma shutdown_gracefully_ignores_context:
  assumes "shutdown_steps (NewShutdownManager c now) s" and "ShutdownGracefully_returns i other ctxErr s = Some r"
  shows "sm_done s \<and> ShutdownGracefully_returns i False ctxErr s = Some WaitDone \<and>
    (\<forall>e. ctxErr = Some e \<longrightarrow> ShutdownGracefully_returns i True ctxErr s = Some (WaitContext e))"
proof -
  have i: "i < length (sm_callers s)" "sm_callers s ! i = CallReturned"
    using assms(2) by (auto simp: ShutdownGracefully_returns_def split: if_splits)
  then have "CallReturned \<in> set (sm_callers s)" by (metis nth_mem)
  moreover have "callers_ok s" using shutdown_ok_steps [OF assms(1) shutdown_ok_new] by (simp add: shutdown_ok_def)
  ultimately have "sm_done s" by (auto simp: callers_ok_def)
  with i show ?thesis by (simp add: ShutdownGracefully_returns_def WaitWithContext_def)
qed

section \<open>Signals\<close>

text \<open>A goroutine waits for a signal, is in Shutdown as the caller with that number, or has ended.\<close>

datatype signal_pc = SigWaiting | SigShutdown nat | SigEnded

record shutdown_signals =
  sg_manager :: shutdown_manager
  sg_pending :: bool
  sg_received :: nat
  sg_handler :: signal_pc
  sg_waiter :: signal_pc
  sg_doneCh :: bool

definition SetupSignalHandling :: "shutdown_manager \<Rightarrow> shutdown_signals" where
  "SetupSignalHandling m =
     \<lparr>sg_manager = m, sg_pending = False, sg_received = 0, sg_handler = SigWaiting,
      sg_waiter = SigWaiting, sg_doneCh = False\<rparr>"

text \<open>The runtime puts a signal into the channel unless its one place is taken.\<close>

definition signal_arrives :: "shutdown_signals \<Rightarrow> shutdown_signals" where
  "signal_arrives s = s\<lparr>sg_pending := True, sg_received := Suc (sg_received s)\<rparr>"

definition call_shutdown :: "shutdown_signals \<Rightarrow> nat \<times> shutdown_signals" where
  "call_shutdown s =
     (length (sm_callers (sg_manager s)),
      s\<lparr>sg_pending := False, sg_manager := Shutdown_call (sg_manager s)\<rparr>)"

definition returned :: "shutdown_signals \<Rightarrow> nat \<Rightarrow> bool" where
  "returned s i \<longleftrightarrow> i < length (sm_callers (sg_manager s)) \<and> sm_callers (sg_manager s) ! i = CallReturned"

inductive signal_step :: "shutdown_signals \<Rightarrow> shutdown_signals \<Rightarrow> bool" where
  sg_manager: "shutdown_step (sg_manager s) m \<Longrightarrow> signal_step s (s\<lparr>sg_manager := m\<rparr>)"
| sg_signal: "signal_step s (signal_arrives s)"
| sg_handler_takes: "sg_handler s = SigWaiting \<Longrightarrow> sg_pending s \<Longrightarrow>
    signal_step s ((snd (call_shutdown s))\<lparr>sg_handler := SigShutdown (fst (call_shutdown s))\<rparr>)"
| sg_handler_ends: "sg_handler s = SigShutdown i \<Longrightarrow> returned s i \<Longrightarrow>
    signal_step s (s\<lparr>sg_handler := SigEnded\<rparr>)"
| sg_waiter_takes: "sg_waiter s = SigWaiting \<Longrightarrow> sg_pending s \<Longrightarrow>
    signal_step s ((snd (call_shutdown s))\<lparr>sg_waiter := SigShutdown (fst (call_shutdown s))\<rparr>)"
| sg_waiter_ends: "sg_waiter s = SigShutdown i \<Longrightarrow> returned s i \<Longrightarrow>
    signal_step s (s\<lparr>sg_waiter := SigEnded, sg_doneCh := True\<rparr>)"

inductive signal_steps :: "shutdown_signals \<Rightarrow> shutdown_signals \<Rightarrow> bool" where
  sgs_refl: "signal_steps s s"
| sgs_more: "signal_steps s s' \<Longrightarrow> signal_step s' s'' \<Longrightarrow> signal_steps s s''"

section \<open>Invariant\<close>

definition taken :: "signal_pc \<Rightarrow> nat" where
  "taken p = (if p = SigWaiting then 0 else 1)"

definition signals_ok :: "shutdown_signals \<Rightarrow> bool" where
  "signals_ok s \<longleftrightarrow>
     shutdown_ok (sg_manager s) \<and>
     taken (sg_handler s) + taken (sg_waiter s) + (if sg_pending s then 1 else 0) \<le> sg_received s \<and>
     (sg_doneCh s \<longleftrightarrow> sg_waiter s = SigEnded) \<and>
     (sg_handler s \<noteq> SigWaiting \<or> sg_waiter s \<noteq> SigWaiting \<longrightarrow> sm_once (sg_manager s) \<noteq> OnceNew) \<and>
     (sg_handler s = SigEnded \<or> sg_waiter s = SigEnded \<longrightarrow> sm_done (sg_manager s))"

lemma shutdown_call_once: "sm_once (Shutdown_call m) \<noteq> OnceNew"
  by (simp add: Shutdown_call_def split: once.split)

lemma shutdown_call_done: "sm_done (Shutdown_call m) = sm_done m"
  by (simp add: Shutdown_call_def split: once.split)

lemma shutdown_ok_one: "shutdown_step m m' \<Longrightarrow> shutdown_ok m \<Longrightarrow> shutdown_ok m'"
  by (rule shutdown_ok_steps [OF shs_more [OF shs_refl]])

lemma shutdown_step_keeps:
  "shutdown_step m m' \<Longrightarrow> (sm_once m \<noteq> OnceNew \<longrightarrow> sm_once m' \<noteq> OnceNew) \<and> (sm_done m \<longrightarrow> sm_done m')"
  by (induction rule: shutdown_step.induct) (auto simp: shutdown_operations split: once.splits)

lemma returned_done: "shutdown_ok (sg_manager s) \<Longrightarrow> returned s i \<Longrightarrow> sm_done (sg_manager s)"
  using nth_mem [of i "sm_callers (sg_manager s)"] by (auto simp: shutdown_ok_def callers_ok_def returned_def)

lemma signals_ok_step: "signal_step s s' \<Longrightarrow> signals_ok s \<Longrightarrow> signals_ok s'"
proof (induction rule: signal_step.induct)
  case (sg_manager s m)
  then show ?case using shutdown_ok_one shutdown_step_keeps by (fastforce simp: signals_ok_def)
next
  case (sg_handler_takes s)
  then show ?case
    using shutdown_ok_one [OF sh_call] shutdown_call_once
    by (auto simp: signals_ok_def call_shutdown_def taken_def shutdown_call_done)
next
  case (sg_waiter_takes s)
  then show ?case
    using shutdown_ok_one [OF sh_call] shutdown_call_once
    by (auto simp: signals_ok_def call_shutdown_def taken_def shutdown_call_done)
next
  case (sg_handler_ends s i)
  then show ?case using returned_done by (auto simp: signals_ok_def taken_def)
next
  case (sg_waiter_ends s i)
  then show ?case using returned_done by (auto simp: signals_ok_def taken_def)
qed (auto simp: signals_ok_def signal_arrives_def)

lemma signals_ok_steps: "signal_steps s s' \<Longrightarrow> signals_ok s \<Longrightarrow> signals_ok s'"
  by (induction rule: signal_steps.induct) (auto intro: signals_ok_step)

lemma signals_ok_setup: "shutdown_ok m \<Longrightarrow> signals_ok (SetupSignalHandling m)"
  by (simp add: signals_ok_def SetupSignalHandling_def taken_def)

section \<open>What a signal does\<close>

text \<open>C38: the channel that SetupSignalHandling returns is closed only after a shutdown that a signal began has
  returned; but one signal is received by one of two goroutines, so when the handler takes it the
  channel is not closed by it: as long as one signal has come, it is closed only if the handler
  took none.\<close>

theorem one_signal_one_goroutine:
  assumes "signal_steps (SetupSignalHandling (NewShutdownManager c now)) s"
  shows "(sg_doneCh s \<longrightarrow> sm_done (sg_manager s) \<and> 0 < sg_received s) \<and>
    (sg_received s \<le> 1 \<and> sg_handler s \<noteq> SigWaiting \<longrightarrow> \<not> sg_doneCh s \<and> sg_waiter s = SigWaiting) \<and>
    (sg_handler s \<noteq> SigWaiting \<or> sg_waiter s \<noteq> SigWaiting \<longrightarrow> sm_once (sg_manager s) \<noteq> OnceNew)"
proof -
  have "signals_ok s" using signals_ok_steps [OF assms signals_ok_setup [OF shutdown_ok_new]] .
  then show ?thesis by (auto simp: signals_ok_def taken_def split: if_splits)
qed

text \<open>The run in which it happens: one signal, the handler takes it, the shutdown is done, and the
  channel the caller waits on stays open.\<close>

definition signalled :: shutdown_signals where
  "signalled = signal_arrives (SetupSignalHandling (NewShutdownManager DefaultShutdownConfig 0))"

definition handled :: shutdown_signals where
  "handled = (snd (call_shutdown signalled))\<lparr>sg_handler := SigShutdown (fst (call_shutdown signalled))\<rparr>"

definition shut_down :: shutdown_signals where
  "shut_down = handled\<lparr>sg_manager :=
     once_done ((start_draining (start_closing (sg_manager handled)))\<lparr>sm_worker := WorkerEnded\<rparr>)\<rparr>"

lemmas signal_demo_simps = shut_down_def handled_def signalled_def signal_arrives_def call_shutdown_def
  SetupSignalHandling_def shutdown_operations NewShutdownManager_def NewInFlightTracker_def

lemma handled_reached: "signal_steps (SetupSignalHandling (NewShutdownManager DefaultShutdownConfig 0)) handled"
proof -
  have "signal_steps (SetupSignalHandling (NewShutdownManager DefaultShutdownConfig 0)) signalled"
    unfolding signalled_def by (rule sgs_more [OF sgs_refl sg_signal])
  then show ?thesis unfolding handled_def
    by (rule sgs_more) (rule sg_handler_takes; simp add: signal_demo_simps)
qed

lemma manager_steps:
  "shutdown_steps m m' \<Longrightarrow> signal_steps s0 s \<Longrightarrow> sg_manager s = m \<Longrightarrow> signal_steps s0 (s\<lparr>sg_manager := m'\<rparr>)"
proof (induction rule: shutdown_steps.induct)
  case (shs_refl m)
  have "s\<lparr>sg_manager := sg_manager s\<rparr> = s" by simp
  with shs_refl show ?case by metis
next
  case (shs_more m m' m'')
  then have "signal_steps s0 (s\<lparr>sg_manager := m'\<rparr>)" by simp
  moreover have "signal_step (s\<lparr>sg_manager := m'\<rparr>) ((s\<lparr>sg_manager := m'\<rparr>)\<lparr>sg_manager := m''\<rparr>)"
    using shs_more.hyps(2) by (intro signal_step.sg_manager) simp
  ultimately show ?case using sgs_more by fastforce
qed

lemma signal_may_not_close_channel:
  "signal_steps (SetupSignalHandling (NewShutdownManager DefaultShutdownConfig 0)) shut_down \<and>
   sm_done (sg_manager shut_down) \<and> sg_received shut_down = 1 \<and> \<not> sg_doneCh shut_down"
proof -
  let ?m = "sg_manager handled"
  let ?c = "start_closing ?m"
  let ?d = "start_draining ?c"
  have "shutdown_steps ?m ?c"
    by (rule shs_more [OF shs_refl sh_snapshot]) (simp add: signal_demo_simps)
  then have "shutdown_steps ?m ?d"
    by (rule shs_more) (rule sh_closed; simp add: signal_demo_simps)
  then have "shutdown_steps ?m (?d\<lparr>sm_worker := WorkerEnded\<rparr>)"
    by (rule shs_more) (rule sh_drained; simp add: signal_demo_simps)
  then have "shutdown_steps ?m (once_done (?d\<lparr>sm_worker := WorkerEnded\<rparr>))"
    by (rule shs_more) (rule sh_complete; simp add: signal_demo_simps)
  from manager_steps [OF this handled_reached refl] show ?thesis
    unfolding shut_down_def [symmetric] by (simp add: signal_demo_simps)
qed

theorem one_signal_one_goroutine_witness: "sg_waiter handled = SigWaiting \<and> \<not> sg_doneCh handled"
  using one_signal_one_goroutine [OF handled_reached]
  by (simp add: handled_def signalled_def signal_arrives_def call_shutdown_def SetupSignalHandling_def)

end
