(* ===== verification/Native_Streams.thy ===== *)
theory Native_Streams
  imports Streams
begin

text \<open>
  The wrapper of the stream library used on its own (src/streams/native/native.go): environments,
  producers and consumers, each of which refuses everything once it is closed. The library is an
  argument: a record of its operations over its own state 'w, which answer with an error or none.
\<close>

record 'w stream_library =
  li_Close :: "'w \<Rightarrow> string option \<times> 'w"
  li_Declare :: "string \<Rightarrow> int option \<times> duration option \<times> int option \<Rightarrow> 'w \<Rightarrow> string option \<times> 'w"
  li_Delete :: "string \<Rightarrow> 'w \<Rightarrow> string option \<times> 'w"
  li_Exists :: "string \<Rightarrow> 'w \<Rightarrow> (string + bool) \<times> 'w"
  li_NewProducer :: "string \<Rightarrow> string option \<Rightarrow> int option \<Rightarrow> duration option \<Rightarrow> 'w \<Rightarrow> string option \<times> 'w"
  li_Send :: "string \<Rightarrow> library_message \<Rightarrow> 'w \<Rightarrow> string option \<times> 'w"
  li_CloseProducer :: "string \<Rightarrow> 'w \<Rightarrow> string option \<times> 'w"
  li_Offset :: "string \<Rightarrow> 'w \<Rightarrow> int"
  li_StoreOffset :: "string \<Rightarrow> 'w \<Rightarrow> string option \<times> 'w"
  li_StoreCustomOffset :: "string \<Rightarrow> int \<Rightarrow> 'w \<Rightarrow> string option \<times> 'w"

section \<open>Environments\<close>

text \<open>An environment is closed or not; with it goes the state of the library.\<close>

definition Environment_Close :: "'w stream_library \<Rightarrow> bool \<times> 'w \<Rightarrow> string option \<times> bool \<times> 'w" where
  "Environment_Close L e =
     (if fst e then (None, e) else (let (err, w) = li_Close L (snd e) in (err, True, w)))"

definition Environment_CreateStream ::
  "'w stream_library \<Rightarrow> string \<Rightarrow> streamOptions \<Rightarrow> bool \<times> 'w \<Rightarrow> string option \<times> bool \<times> 'w" where
  "Environment_CreateStream L name opts e =
     (if fst e then (Some ''environment is closed'', e)
      else (let (err, w) = li_Declare L name (native_CreateStream opts) (snd e) in (err, False, w)))"

definition Environment_DeleteStream ::
  "'w stream_library \<Rightarrow> string \<Rightarrow> bool \<times> 'w \<Rightarrow> string option \<times> bool \<times> 'w" where
  "Environment_DeleteStream L name e =
     (if fst e then (Some ''environment is closed'', e)
      else (let (err, w) = li_Delete L name (snd e) in (err, False, w)))"

definition Environment_StreamExists ::
  "'w stream_library \<Rightarrow> string \<Rightarrow> bool \<times> 'w \<Rightarrow> (string + bool) \<times> bool \<times> 'w" where
  "Environment_StreamExists L name e =
     (if fst e then (Inl ''environment is closed'', e)
      else (let (r, w) = li_Exists L name (snd e) in (r, False, w)))"

section \<open>Producers\<close>

record producerOptions =
  po_Name :: string
  po_BatchSize :: int
  po_hasConfirmationHandler :: bool

definition Environment_NewProducer ::
  "'w stream_library \<Rightarrow> string \<Rightarrow> producerOptions \<Rightarrow> bool \<times> 'w \<Rightarrow> (string + endpoint) \<times> bool \<times> 'w" where
  "Environment_NewProducer L name opts e =
     (if fst e then (Inl ''environment is closed'', e)
      else
        (let (err, w) = li_NewProducer L name (if po_Name opts \<noteq> [] then Some (po_Name opts) else None)
                          (if_positive (po_BatchSize opts))
                          (if po_hasConfirmationHandler opts then Some (10 * second) else None) (snd e) in
         (case err of
            Some x \<Rightarrow> Inl (''failed to create producer: '' @ x)
          | None \<Rightarrow> Inr \<lparr>ep_stream = name, ep_closed = False\<rparr>, False, w)))"

definition plain_message :: "bytes \<Rightarrow> library_message" where
  "plain_message body = \<lparr>am_Data = body, am_Properties = None\<rparr>"

definition producer_Send :: "'w stream_library \<Rightarrow> endpoint \<Rightarrow> bytes \<Rightarrow> 'w \<Rightarrow> string option \<times> 'w" where
  "producer_Send L p body w =
     (if ep_closed p then (Some ''producer is closed'', w) else li_Send L (ep_stream p) (plain_message body) w)"

definition producer_SendWithID ::
  "'w stream_library \<Rightarrow> endpoint \<Rightarrow> bytes \<Rightarrow> int \<Rightarrow> 'w \<Rightarrow> string option \<times> 'w" where
  "producer_SendWithID L p body publishingID w =
     (if ep_closed p then (Some ''producer is closed'', w) else li_Send L (ep_stream p) (plain_message body) w)"

fun send_each :: "'w stream_library \<Rightarrow> string \<Rightarrow> bytes list \<Rightarrow> 'w \<Rightarrow> string option \<times> 'w" where
  "send_each L name [] w = (None, w)"
| "send_each L name (body # bodies) w =
     (case li_Send L name (plain_message body) w of
        (Some e, w') \<Rightarrow> (Some e, w')
      | (None, w') \<Rightarrow> send_each L name bodies w')"

definition producer_SendBatch :: "'w stream_library \<Rightarrow> endpoint \<Rightarrow> bytes list \<Rightarrow> 'w \<Rightarrow> string option \<times> 'w" where
  "producer_SendBatch L p bodies w =
     (if ep_closed p then (Some ''producer is closed'', w) else send_each L (ep_stream p) bodies w)"

definition producer_Close :: "'w stream_library \<Rightarrow> endpoint \<Rightarrow> 'w \<Rightarrow> string option \<times> endpoint \<times> 'w" where
  "producer_Close L p w =
     (if ep_closed p then (None, p, w)
      else (let (err, w') = li_CloseProducer L (ep_stream p) w in (err, close_endpoint p, w')))"

section \<open>Offsets of a consumer\<close>

definition GetOffset :: "'w stream_library \<Rightarrow> endpoint \<Rightarrow> 'w \<Rightarrow> int" where
  "GetOffset L c w = (if ep_closed c then - 1 else li_Offset L (ep_stream c) w)"

definition StoreOffset :: "'w stream_library \<Rightarrow> endpoint \<Rightarrow> int \<Rightarrow> 'w \<Rightarrow> string option \<times> 'w" where
  "StoreOffset L c offset w =
     (if ep_closed c then (Some ''consumer is closed'', w) else li_StoreOffset L (ep_stream c) w)"

definition StoreCustomOffset :: "'w stream_library \<Rightarrow> endpoint \<Rightarrow> int \<Rightarrow> 'w \<Rightarrow> string option \<times> 'w" where
  "StoreCustomOffset L c offset w =
     (if ep_closed c then (Some ''consumer is closed'', w)
      else li_StoreCustomOffset L (ep_stream c) offset w)"

section \<open>What the wrapper promises\<close>

text \<open>Something that can be closed: closing again does nothing and succeeds, and nothing that is
  closed asks the library for anything.\<close>

locale closable =
  fixes closed :: "'s \<Rightarrow> bool"
    and close :: "'s \<Rightarrow> string option \<times> 's"
  assumes closes: "closed (snd (close s))"
    and closed_stays: "closed s \<Longrightarrow> close s = (None, s)"
begin

lemma close_twice: "close (snd (close s)) = (None, snd (close s))"
  by (rule closed_stays [OF closes])

lemma close_again: "((\<lambda>s. snd (close s)) ^^ Suc n) s = snd (close s)"
proof (induction n)
  case (Suc n)
  then show ?case by (simp add: close_twice)
qed simp

end

interpretation environment: closable "fst :: bool \<times> 'w \<Rightarrow> bool" "Environment_Close L"
  for L :: "'w stream_library"
  by unfold_locales (simp_all add: Environment_Close_def split: prod.split)

interpretation producer: closable "\<lambda>s. ep_closed (fst s)" "\<lambda>s. producer_Close L (fst s) (snd s)"
  for L :: "'w stream_library"
  by unfold_locales (simp_all add: producer_Close_def close_endpoint_def split: prod.split)

lemma closed_environment_refuses:
  assumes "fst e"
  shows "Environment_CreateStream L n o1 e = (Some ''environment is closed'', e)"
    and "Environment_DeleteStream L n e = (Some ''environment is closed'', e)"
    and "Environment_StreamExists L n e = (Inl ''environment is closed'', e)"
    and "Environment_NewProducer L n o2 e = (Inl ''environment is closed'', e)"
  using assms by (simp_all add: Environment_CreateStream_def Environment_DeleteStream_def
      Environment_StreamExists_def Environment_NewProducer_def)

lemma closed_producer_refuses:
  assumes "ep_closed p"
  shows "producer_Send L p b w = (Some ''producer is closed'', w)"
    and "producer_SendWithID L p b i w = (Some ''producer is closed'', w)"
    and "producer_SendBatch L p bs w = (Some ''producer is closed'', w)"
  using assms by (simp_all add: producer_Send_def producer_SendWithID_def producer_SendBatch_def)

text \<open>The state of the library after the first messages of a batch.\<close>

definition after_sending :: "'w stream_library \<Rightarrow> string \<Rightarrow> bytes list \<Rightarrow> 'w \<Rightarrow> 'w" where
  "after_sending L name bodies w = fold (\<lambda>b w. snd (li_Send L name (plain_message b) w)) bodies w"

definition send_answer :: "'w stream_library \<Rightarrow> string \<Rightarrow> bytes list \<Rightarrow> nat \<Rightarrow> 'w \<Rightarrow> string option" where
  "send_answer L name bodies i w =
     fst (li_Send L name (plain_message (bodies ! i)) (after_sending L name (take i bodies) w))"

lemma send_answer_Cons:
  "send_answer L name (b # bs) 0 w = fst (li_Send L name (plain_message b) w)"
  "send_answer L name (b # bs) (Suc i) w = send_answer L name bs i (snd (li_Send L name (plain_message b) w))"
  by (simp_all add: send_answer_def after_sending_def)

lemma send_each_prefix:
  "send_each L n bs v = (r, v') \<Longrightarrow>
   (r = None \<longrightarrow> v' = after_sending L n bs v \<and> (\<forall>i < length bs. send_answer L n bs i v = None)) \<and>
      (r \<noteq> None \<longrightarrow> (\<exists>k < length bs. send_answer L n bs k v = r \<and> (\<forall>i < k. send_answer L n bs i v = None) \<and>
         v' = after_sending L n (take (Suc k) bs) v))"
proof (induction bs arbitrary: v)
  case Nil
  then show ?case by (simp add: after_sending_def)
next
  case (Cons b bs)
  obtain a v1 where s: "li_Send L n (plain_message b) v = (a, v1)" by fastforce
  have aft: "after_sending L n (b # cs) v = after_sending L n cs v1" for cs
    by (simp add: after_sending_def s)
  show ?case
  proof (cases a)
    case None
    with Cons.prems s have "send_each L n bs v1 = (r, v')" by simp
    note ih = Cons.IH [OF this]
    have ans: "send_answer L n (b # bs) i v = (case i of 0 \<Rightarrow> None | Suc j \<Rightarrow> send_answer L n bs j v1)" for i
      by (cases i) (simp_all add: send_answer_Cons s None)
    show ?thesis
    proof (cases r)
      case None
      with ih show ?thesis by (auto simp: aft ans split: nat.split)
    next
      case (Some e)
      with ih obtain k where k: "k < length bs" "send_answer L n bs k v1 = r"
        "\<forall>i < k. send_answer L n bs i v1 = None" "v' = after_sending L n (take (Suc k) bs) v1"
        by auto
      with Some show ?thesis
        by (intro conjI impI exI [of _ "Suc k"]) (auto simp: aft ans split: nat.split)
    qed
  next
    case (Some e)
    with Cons.prems s have "r = a" "v' = v1" by simp_all
    with Some show ?thesis
      by (intro conjI impI exI [of _ 0]) (auto simp: send_answer_Cons s after_sending_def)
  qed
qed

text \<open>A batch is sent in order up to the first message that fails, which is still tried, and not
  further: no error means that every message was accepted, and an error comes from the first message
  that was refused, with everything before it sent and nothing after it.\<close>

lemma batch_sends_prefix:
  assumes "\<not> ep_closed p" and "producer_SendBatch L p bodies w = (r, w')"
  shows "(r = None \<longrightarrow> w' = after_sending L (ep_stream p) bodies w \<and>
      (\<forall>i < length bodies. send_answer L (ep_stream p) bodies i w = None)) \<and>
    (r \<noteq> None \<longrightarrow> (\<exists>k < length bodies. send_answer L (ep_stream p) bodies k w = r \<and>
      (\<forall>i < k. send_answer L (ep_stream p) bodies i w = None) \<and>
      w' = after_sending L (ep_stream p) (take (Suc k) bodies) w))"
  using send_each_prefix [of L "ep_stream p" bodies w r w'] assms by (simp add: producer_SendBatch_def)

text \<open>A library that accepts two messages and then is full.\<close>

definition small_library :: "bytes list stream_library" where
  "small_library =
     \<lparr>li_Close = (\<lambda>w. (None, w)), li_Declare = (\<lambda>n o1 w. (None, w)), li_Delete = (\<lambda>n w. (None, w)),
      li_Exists = (\<lambda>n w. (Inr True, w)), li_NewProducer = (\<lambda>n a b c w. (None, w)),
      li_Send = (\<lambda>n m w. if length w < 2 then (None, w @ [am_Data m]) else (Some ''full'', w)),
      li_CloseProducer = (\<lambda>n w. (None, w)), li_Offset = (\<lambda>n w. int (length w)),
      li_StoreOffset = (\<lambda>n w. (None, w)), li_StoreCustomOffset = (\<lambda>n i w. (None, w))\<rparr>"

lemma batch_sends_prefix_witness:
  "\<exists>k < 4. send_answer small_library ''s'' [[1], [2], [3], [4]] k [] = Some ''full'' \<and>
     (\<forall>i < k. send_answer small_library ''s'' [[1], [2], [3], [4]] i [] = None)"
proof -
  have s: "producer_SendBatch small_library \<lparr>ep_stream = ''s'', ep_closed = False\<rparr> [[1], [2], [3], [4]] [] =
      (Some ''full'', [[1], [2]])"
    by (simp add: producer_SendBatch_def small_library_def plain_message_def)
  from batch_sends_prefix [OF _ s] show ?thesis by (auto simp: eval_nat_numeral)
qed

end
