(* ===== verification/Metrics.thy ===== *)
theory Metrics
  imports Consumer_Process
begin

text \<open>
  Metrics and traces: the calls of the metrics collector (src/interfaces.go) that consumer and
  publisher make, and what the OpenTelemetry collector and tracer (src/otel/otel.go) turn them
  into. The OpenTelemetry library is an argument: a meter that answers the request for an
  instrument with the instrument or an error; what is measured with an instrument is an entry of
  a list, and a histogram of seconds is given the duration itself.
\<close>

section \<open>Instruments\<close>

datatype metric_kind = Int64Counter | Float64Histogram | Int64Histogram

datatype metric_field =
    ConnectionCounter | ConnectionAttempts | ConnectionDuration | ReconnectionCounter
  | PublishCounter | PublishDuration | PublishMessageSize | ConfirmationCounter | ConfirmationDuration
  | DeliveryOutcomeCounter | DeliveryTimeoutCounter
  | ConsumeCounter | ConsumeDuration | ConsumeMessageSize
  | MessageReceivedCounter | MessageProcessedCounter | MessageRequeuedCounter
  | HealthCheckCounter | HealthCheckDuration | ErrorCounter

text \<open>The fields in the order in which they are made, with name, description and unit.\<close>

definition instruments :: "(metric_field \<times> metric_kind \<times> string \<times> string \<times> string) list" where
  "instruments =
     [(ConnectionCounter, Int64Counter, ''rabbitmq.connections'',
       ''Number of RabbitMQ connections established'', ''{connection}''),
      (ConnectionAttempts, Int64Counter, ''rabbitmq.connection.attempts'',
       ''Number of connection attempts'', ''{attempt}''),
      (ConnectionDuration, Float64Histogram, ''rabbitmq.connection.duration'',
       ''Duration of connection attempts'', ''s''),
      (ReconnectionCounter, Int64Counter, ''rabbitmq.reconnections'',
       ''Number of reconnection attempts'', ''{reconnection}''),
      (PublishCounter, Int64Counter, ''rabbitmq.publish.count'',
       ''Number of messages published'', ''{message}''),
      (PublishDuration, Float64Histogram, ''rabbitmq.publish.duration'',
       ''Duration of publish operations'', ''s''),
      (PublishMessageSize, Int64Histogram, ''rabbitmq.publish.message.size'',
       ''Size of published messages'', ''By''),
      (ConfirmationCounter, Int64Counter, ''rabbitmq.publish.confirmations'',
       ''Number of publish confirmations'', ''{confirmation}''),
      (ConfirmationDuration, Float64Histogram, ''rabbitmq.publish.confirmation.duration'',
       ''Duration waiting for publish confirmations'', ''s''),
      (DeliveryOutcomeCounter, Int64Counter, ''rabbitmq.delivery.outcomes'',
       ''Number of delivery outcomes by type'', ''{outcome}''),
      (DeliveryTimeoutCounter, Int64Counter, ''rabbitmq.delivery.timeouts'',
       ''Number of delivery timeouts'', ''{timeout}''),
      (ConsumeCounter, Int64Counter, ''rabbitmq.consume.count'',
       ''Number of messages consumed'', ''{message}''),
      (ConsumeDuration, Float64Histogram, ''rabbitmq.consume.duration'',
       ''Duration of consume operations'', ''s''),
      (ConsumeMessageSize, Int64Histogram, ''rabbitmq.consume.message.size'',
       ''Size of consumed messages'', ''By''),
      (MessageReceivedCounter, Int64Counter, ''rabbitmq.messages.received'',
       ''Number of messages received'', ''{message}''),
      (MessageProcessedCounter, Int64Counter, ''rabbitmq.messages.processed'',
       ''Number of messages processed'', ''{message}''),
      (MessageRequeuedCounter, Int64Counter, ''rabbitmq.messages.requeued'',
       ''Number of messages requeued'', ''{message}''),
      (HealthCheckCounter, Int64Counter, ''rabbitmq.health.checks'',
       ''Number of health checks'', ''{check}''),
      (HealthCheckDuration, Float64Histogram, ''rabbitmq.health.check.duration'',
       ''Duration of health checks'', ''s''),
      (ErrorCounter, Int64Counter, ''rabbitmq.errors'', ''Number of errors'', ''{error}'')]"

type_synonym ('i, 'w) meter =
  "metric_kind \<Rightarrow> string \<Rightarrow> string \<Rightarrow> string \<Rightarrow> 'w \<Rightarrow> (string + 'i) \<times> 'w"

fun create_instruments ::
  "('i, 'w) meter \<Rightarrow> (metric_field \<times> metric_kind \<times> string \<times> string \<times> string) list \<Rightarrow>
   (metric_field \<times> 'i) list \<Rightarrow> 'w \<Rightarrow> (string + (metric_field \<times> 'i) list) \<times> 'w" where
  "create_instruments mt [] c w = (Inr c, w)"
| "create_instruments mt ((f, kind, name, descr, unit1) # fs) c w =
     (case mt kind name descr unit1 w of
        (Inl e, w') \<Rightarrow> (Inl e, w')
      | (Inr i, w') \<Rightarrow> create_instruments mt fs (c @ [(f, i)]) w')"

definition NewMetricsCollector ::
  "('i, 'w) meter \<Rightarrow> 'w \<Rightarrow> (string + (metric_field \<times> 'i) list) \<times> 'w" where
  "NewMetricsCollector mt w = create_instruments mt instruments [] w"

section \<open>Measurements\<close>

datatype attr_value = AttrString string | AttrBool bool | AttrInt int | AttrInt64 int | AttrFloat64 "64 word"

type_synonym attributes = "(string \<times> attr_value) list"

datatype measurement =
    Added metric_field int attributes
  | RecordedSeconds metric_field duration attributes
  | RecordedBytes metric_field int attributes

datatype metrics_call =
    RecordConnection string
  | RecordConnectionAttempt bool duration
  | RecordReconnection int
  | RecordPublish string string int duration
  | RecordPublishConfirmation bool duration
  | RecordDeliveryOutcome deliveryOutcome duration
  | RecordDeliveryTimeout string
  | RecordConsume string int duration
  | RecordMessageReceived string
  | RecordMessageProcessed string bool duration
  | RecordMessageRequeued string
  | RecordHealthCheck bool duration
  | RecordError string go_error

fun outcome_string :: "deliveryOutcome \<Rightarrow> string" where
  "outcome_string DeliverySuccess = ''success''"
| "outcome_string DeliveryFailed = ''failed''"
| "outcome_string DeliveryNacked = ''nacked''"
| "outcome_string DeliveryTimeout = ''timeout''"

definition messaging :: "string \<Rightarrow> string \<Rightarrow> attributes" where
  "messaging operation destination =
     [(''messaging.system'', AttrString ''rabbitmq''), (''messaging.operation'', AttrString operation),
      (''messaging.destination.name'', AttrString destination)]"

fun measure :: "metrics_call \<Rightarrow> measurement list" where
  "measure (RecordConnection name) =
     [Added ConnectionCounter 1 [(''connection.name'', AttrString name)]]"
| "measure (RecordConnectionAttempt success d) =
     [Added ConnectionAttempts 1 [(''success'', AttrBool success)],
      RecordedSeconds ConnectionDuration d [(''success'', AttrBool success)]]"
| "measure (RecordReconnection n) = [Added ReconnectionCounter 1 [(''attempt'', AttrInt n)]]"
| "measure (RecordPublish exchange routingKey messageSize d) =
     (let attrs = messaging ''publish'' exchange @
                    [(''messaging.rabbitmq.routing_key'', AttrString routingKey)] in
      [Added PublishCounter 1 attrs, RecordedSeconds PublishDuration d attrs,
       RecordedBytes PublishMessageSize messageSize attrs])"
| "measure (RecordPublishConfirmation success d) =
     (let attrs = [(''success'', AttrBool success)] in
      [Added ConfirmationCounter 1 attrs, RecordedSeconds ConfirmationDuration d attrs])"
| "measure (RecordDeliveryOutcome outcome d) =
     [Added DeliveryOutcomeCounter 1 [(''outcome'', AttrString (outcome_string outcome))]]"
| "measure (RecordDeliveryTimeout messageID) =
     [Added DeliveryTimeoutCounter 1 [(''messaging.message.id'', AttrString messageID)]]"
| "measure (RecordConsume queue messageSize d) =
     (let attrs = messaging ''receive'' queue in
      [Added ConsumeCounter 1 attrs, RecordedSeconds ConsumeDuration d attrs,
       RecordedBytes ConsumeMessageSize messageSize attrs])"
| "measure (RecordMessageReceived queue) =
     [Added MessageReceivedCounter 1 [(''messaging.destination.name'', AttrString queue)]]"
| "measure (RecordMessageProcessed queue success d) =
     [Added MessageProcessedCounter 1 (messaging ''process'' queue @ [(''success'', AttrBool success)])]"
| "measure (RecordMessageRequeued queue) =
     [Added MessageRequeuedCounter 1 [(''messaging.destination.name'', AttrString queue)]]"
| "measure (RecordHealthCheck success d) =
     (let attrs = [(''success'', AttrBool success)] in
      [Added HealthCheckCounter 1 attrs, RecordedSeconds HealthCheckDuration d attrs])"
| "measure (RecordError operation err) =
     [Added ErrorCounter 1 [(''operation'', AttrString operation), (''error.type'', AttrString (Error_text err))]]"

definition measured :: "metrics_call list \<Rightarrow> measurement list" where
  "measured calls = concat (map measure calls)"

section \<open>Tracing\<close>

datatype span_value =
    AnyString string | AnyInt int | AnyInt64 int | AnyFloat64 "64 word" | AnyBool bool | AnyOther string

datatype spanStatus = SpanStatusUnset | SpanStatusOK | SpanStatusError

datatype span_event =
    SpanStart string attributes
  | SpanAttributes attributes
  | SpanStatus spanStatus string
  | SpanEnd

definition StartSpan :: "string \<Rightarrow> span_event list" where
  "StartSpan operation = [SpanStart operation [(''messaging.system'', AttrString ''rabbitmq'')]]"

text \<open>A value of another type is printed; \<open>AnyOther\<close> holds what is printed.\<close>

fun span_attribute :: "span_value \<Rightarrow> attr_value" where
  "span_attribute (AnyString v) = AttrString v"
| "span_attribute (AnyInt v) = AttrInt v"
| "span_attribute (AnyInt64 v) = AttrInt64 v"
| "span_attribute (AnyFloat64 v) = AttrFloat64 v"
| "span_attribute (AnyBool v) = AttrBool v"
| "span_attribute (AnyOther printed) = AttrString printed"

definition SetAttribute :: "string \<Rightarrow> span_value \<Rightarrow> span_event list \<Rightarrow> span_event list" where
  "SetAttribute key v s = s @ [SpanAttributes [(key, span_attribute v)]]"

text \<open>A status code is an integer: one that is neither OK nor Error is Unset.\<close>

definition SetStatus :: "int \<Rightarrow> string \<Rightarrow> span_event list \<Rightarrow> span_event list" where
  "SetStatus code descr s =
     s @ [SpanStatus (if code = 1 then SpanStatusOK else if code = 2 then SpanStatusError
                      else SpanStatusUnset) descr]"

definition End :: "span_event list \<Rightarrow> span_event list" where
  "End s = s @ [SpanEnd]"

section \<open>What the instruments promise\<close>

text \<open>Every instrument that is measured exists: a collector has one for each field, and no two fields
  share a name.\<close>

lemma create_instruments_fields:
  "create_instruments mt fs c w = (Inr c', w') \<Longrightarrow> map fst c' = map fst c @ map fst fs"
  by (induction mt fs c w rule: create_instruments.induct) (auto split: prod.splits sum.splits)

lemma collector_complete:
  assumes "NewMetricsCollector mt w = (Inr c, w')"
  shows "map fst c = map fst instruments \<and> (\<exists>i. map_of c f = Some i)"
proof -
  have m: "map fst c = map fst instruments"
    using create_instruments_fields [of mt instruments "[]" w c w'] assms by (simp add: NewMetricsCollector_def)
  have "f \<in> set (map fst instruments)" by (cases f) (simp_all add: instruments_def)
  then have "f \<in> fst ` set c" by (simp add: m [symmetric])
  then have "map_of c f \<noteq> None" by (simp add: map_of_eq_None_iff)
  with m show ?thesis by auto
qed

lemma instruments_distinct:
  "distinct (map fst instruments)" "distinct (map (\<lambda>(f, k, name, d, u). name) instruments)"
  by (simp_all add: instruments_def)

text \<open>A counter is added to, a histogram is given values of its own kind.\<close>

fun fits_kind :: "measurement \<Rightarrow> bool" where
  "fits_kind (Added f n attrs) = (\<exists>r. (f, Int64Counter, r) \<in> set instruments)"
| "fits_kind (RecordedSeconds f d attrs) = (\<exists>r. (f, Float64Histogram, r) \<in> set instruments)"
| "fits_kind (RecordedBytes f n attrs) = (\<exists>r. (f, Int64Histogram, r) \<in> set instruments)"

lemma measurements_fit: "m \<in> set (measured calls) \<Longrightarrow> fits_kind m"
proof -
  have "\<forall>m \<in> set (measure c). fits_kind m" for c
    by (cases c) (simp_all add: Let_def instruments_def)
  then show "m \<in> set (measured calls) \<Longrightarrow> fits_kind m" by (auto simp: measured_def)
qed

section \<open>Totals\<close>

fun amount :: "metric_field \<Rightarrow> (attributes \<Rightarrow> bool) \<Rightarrow> measurement \<Rightarrow> int" where
  "amount f P (Added g n attrs) = (if f = g \<and> P attrs then n else 0)"
| "amount f P m = 0"

definition counted :: "metric_field \<Rightarrow> (attributes \<Rightarrow> bool) \<Rightarrow> metrics_call list \<Rightarrow> int" where
  "counted f P calls = sum_list (map (amount f P) (measured calls))"

lemma counted_Nil [simp]: "counted f P [] = 0"
  by (simp add: counted_def measured_def)

lemma counted_Cons [simp]: "counted f P (c # cs) = sum_list (map (amount f P) (measure c)) + counted f P cs"
  by (simp add: counted_def measured_def)

lemma counted_append [simp]: "counted f P (cs @ ds) = counted f P cs + counted f P ds"
  by (simp add: counted_def measured_def)

lemma counted_replicate: "counted f P (replicate n c) = int n * sum_list (map (amount f P) (measure c))"
  by (induction n) (simp_all add: algebra_simps)

definition succeeded :: "bool \<Rightarrow> attributes \<Rightarrow> bool" where
  "succeeded ok attrs \<longleftrightarrow> map_of attrs ''success'' = Some (AttrBool ok)"

abbreviation "any_attributes \<equiv> \<lambda>attrs :: attributes. True"

section \<open>What consumer and publisher record\<close>

text \<open>One message: it is received, processed unless it cannot be decoded, and requeued as often as its
  processing counts it.\<close>

definition message_calls ::
  "consumerConfig \<Rightarrow> bool \<Rightarrow> channel \<Rightarrow> instant \<Rightarrow> string \<Rightarrow> handler \<Rightarrow> delivery \<Rightarrow> consumerHealth \<Rightarrow>
   duration \<Rightarrow> metrics_call list" where
  "message_calls cf rejectRequeue chan now queue handler d h spent =
     RecordMessageReceived queue #
     (case decode_message (cn_Encryptor cf) (cn_Compressor cf) d of
        (Some e, d1) \<Rightarrow> []
      | (None, d1) \<Rightarrow> [RecordMessageProcessed queue (handler_error (snd (handler d1)) = None) spent]) @
     replicate (pr_requeued (processMessage cf rejectRequeue chan now queue handler d h))
       (RecordMessageRequeued queue)"

text \<open>A batch: every message with its share of the time, and the status of the span.\<close>

definition batch_calls :: "string \<Rightarrow> bytes list \<Rightarrow> go_error option list \<Rightarrow> duration \<Rightarrow> metrics_call list" where
  "batch_calls queue bodies errors spent =
     concat (map (\<lambda>i.
       RecordMessageProcessed queue (errors ! i = None) (spent div int (length bodies)) #
       (if errors ! i = None
        then [RecordConsume queue (int (length (bodies ! i))) (spent div int (length bodies))] else []))
     [0..<length bodies])"

definition batch_status :: "nat \<Rightarrow> go_error option list \<Rightarrow> int \<times> string" where
  "batch_status n errors =
     (let failureCount = length (filter (\<lambda>e. e \<noteq> None) errors) in
      if failureCount > 0
      then (2, show_int (int failureCount) @ ''/'' @ show_int (int n) @ '' messages failed'')
      else (1, []))"

text \<open>A publish, once its last attempt is over.\<close>

definition publish_calls :: "string \<Rightarrow> string \<Rightarrow> bytes \<Rightarrow> duration \<Rightarrow> go_error option \<Rightarrow> metrics_call list" where
  "publish_calls exchange routingKey body spent publishErr =
     RecordPublish exchange routingKey (int (length body)) spent #
     (case publishErr of None \<Rightarrow> [] | Some e \<Rightarrow> [RecordError ''publish'' e])"

lemma counted_batch:
  assumes "length errors = length bodies"
  shows "counted MessageProcessedCounter (succeeded True) (batch_calls queue bodies errors spent) =
      int (length (filter (\<lambda>e. e = None) errors))" (is ?ok)
    and "counted MessageProcessedCounter (succeeded False) (batch_calls queue bodies errors spent) =
      int (length (filter (\<lambda>e. e \<noteq> None) errors))" (is ?failed)
    and "counted ConsumeCounter any_attributes (batch_calls queue bodies errors spent) =
      int (length (filter (\<lambda>e. e = None) errors))" (is ?consumed)
proof -
  define calls where "calls = (\<lambda>i. RecordMessageProcessed queue (errors ! i = None) (spent div int (length bodies)) #
    (if errors ! i = None
     then [RecordConsume queue (int (length (bodies ! i))) (spent div int (length bodies))] else []))"
  have b: "batch_calls queue bodies errors spent = concat (map calls [0..<length errors])"
    by (simp add: batch_calls_def calls_def assms)
  have f: "length (filter Q (take n errors)) = length (filter (\<lambda>i. Q (errors ! i)) [0..<n])"
    if "n \<le> length errors" for Q n
    using that by (induction n) (auto simp: take_Suc_conv_app_nth)
  have one: "counted MessageProcessedCounter (succeeded ok) (calls i) = (if (errors ! i = None) = ok then 1 else 0)"
    "counted ConsumeCounter any_attributes (calls i) = (if errors ! i = None then 1 else 0)" for ok i
    by (auto simp: calls_def messaging_def succeeded_def Let_def)
  have many: "counted g P (concat (map calls is)) = int (length (filter Q is))"
    if "\<And>i. counted g P (calls i) = (if Q i then 1 else 0)" for g P Q "is"
    using that by (induction "is") simp_all
  from f [of "length errors"] many one show ?ok ?failed ?consumed
    unfolding b by simp_all
qed

text \<open>C35: the metrics of a batch agree with what its handler returned: each message is counted once as
  processed, with success exactly for the messages without an error, those and no others are
  counted as consumed, and the span of the batch ends in an error exactly if a message failed; a
  handler that panicked has failed every message.\<close>

theorem batch_metrics_agree:
  assumes "bodies \<noteq> []" and errors: "errors = batch_errors (length bodies) result"
  shows "counted MessageProcessedCounter (succeeded True) (batch_calls queue bodies errors spent) +
      counted MessageProcessedCounter (succeeded False) (batch_calls queue bodies errors spent) =
      int (length bodies) \<and>
    counted ConsumeCounter any_attributes (batch_calls queue bodies errors spent) =
      counted MessageProcessedCounter (succeeded True) (batch_calls queue bodies errors spent) \<and>
    counted MessageProcessedCounter (succeeded False) (batch_calls queue bodies errors spent) =
      int (card {i. i < length bodies \<and> errors ! i \<noteq> None}) \<and>
    (fst (batch_status (length bodies) errors) = 2 \<longleftrightarrow> (\<exists>i < length bodies. errors ! i \<noteq> None)) \<and>
    (\<forall>v. result = Inl v \<longrightarrow>
       counted MessageProcessedCounter (succeeded False) (batch_calls queue bodies errors spent) =
         int (length bodies))"
proof -
  have l: "length errors = length bodies"
    by (auto simp: errors batch_errors_def fit_errors_def split: sum.split)
  note c = counted_batch [OF l, of queue spent]
  have s: "length (filter (\<lambda>e. e = None) errors) + length (filter (\<lambda>e. e \<noteq> None) errors) = length bodies"
    using sum_length_filter_compl [of "\<lambda>e. e = None" errors] by (simp add: l)
  have k: "length (filter (\<lambda>e. e \<noteq> None) errors) = card {i. i < length bodies \<and> errors ! i \<noteq> None}"
    by (simp add: length_filter_conv_card l)
  have st: "fst (batch_status (length bodies) errors) = 2 \<longleftrightarrow> (\<exists>i < length bodies. errors ! i \<noteq> None)"
  proof -
    have "(\<exists>i < length bodies. errors ! i \<noteq> None) \<longleftrightarrow> (\<exists>e \<in> set errors. e \<noteq> None)"
      by (metis in_set_conv_nth l)
    then show ?thesis by (auto simp: batch_status_def Let_def filter_empty_conv)
  qed
  have p: "length (filter (\<lambda>e. e \<noteq> None) errors) = length bodies" if "result = Inl v" for v
    using that by (simp add: errors batch_errors_def)
  from c s k st p show ?thesis by (intro conjI allI impI) (simp_all flip: of_nat_add)
qed

theorem batch_metrics_agree_witness:
  "counted MessageProcessedCounter (succeeded False)
     (batch_calls ''q'' [[1], [2]] (batch_errors (length [[1 :: 8 word], [2]]) (Inl ''boom'')) 10) = 2"
  using batch_metrics_agree [OF _ refl, of "[[1], [2]]" "''q''" "Inl ''boom''" 10] by simp

text \<open>One message is received once, processed at most once and requeued at most once. It is never counted as
  consumed: the counter of the consumed messages, like their sizes, knows batches alone.\<close>

lemma settlement_keeps_requeued:
  "pr_requeued (snd (Ack chan now s)) = pr_requeued s" "pr_requeued (snd (Nack chan r s)) = pr_requeued s"
  "pr_requeued (snd (Reject chan r s)) = pr_requeued s"
  "pr_requeued (snd (republishWithRetry chan queue d n s)) = pr_requeued s"
  by (auto simp: Ack_def Nack_def Reject_def republishWithRetry_def trySettle_def send_def Let_def
      split: option.split bool.split)

lemma settle_manually_requeued: "pr_requeued (settle_manually chan now ms s) = pr_requeued s"
  by (induction chan now ms s rule: settle_manually.induct) (simp_all add: settlement_keeps_requeued)

lemma republish_requeued:
  "republishWithRetry chan queue d n s = (r, s') \<Longrightarrow> pr_requeued s' = pr_requeued s"
  using settlement_keeps_requeued(4) [of chan queue d n s] by simp

lemma error_requeued:
  "pr_requeued (handleProcessingError cf rejectRequeue chan now queue d err s) \<le> Suc (pr_requeued s)"
  by (auto simp: handleProcessingError_def requeued_def settlement_keeps_requeued Let_def
      dest!: republish_requeued split: go_error.split prod.split option.split)

lemma processed_requeued: "pr_requeued (processMessage cf rejectRequeue chan now queue handler d h) \<le> 1"
proof -
  have f: "pr_requeued (in_flight n s) = pr_requeued s" for n s by (simp add: in_flight_def)
  have z: "pr_requeued (settle_manually chan now ms (in_flight 1 (NewDelivery c))) = 0" for ms c
    by (simp add: settle_manually_requeued f NewDelivery_def)
  have e: "pr_requeued (handleProcessingError cf rejectRequeue chan now queue d1 err s) \<le> 1"
    if "pr_requeued s = 0" for d1 err s
    using error_requeued [of cf rejectRequeue chan now queue d1 err s] that by simp
  have n: "pr_requeued (in_flight 1 (NewDelivery c)) = 0" for c by (simp add: f NewDelivery_def)
  show ?thesis
    by (auto simp: processMessage_def Let_def f z settlement_keeps_requeued intro!: e n
        split: prod.split option.split simp del: One_nat_def)
qed

lemma message_metrics:
  "counted MessageReceivedCounter any_attributes (message_calls cf rejectRequeue chan now queue handler d h spent) = 1"
  "counted MessageProcessedCounter any_attributes (message_calls cf rejectRequeue chan now queue handler d h spent) \<le> 1"
  "counted MessageRequeuedCounter any_attributes (message_calls cf rejectRequeue chan now queue handler d h spent) \<le> 1"
  "counted ConsumeCounter any_attributes (message_calls cf rejectRequeue chan now queue handler d h spent) = 0"
  using processed_requeued [of cf rejectRequeue chan now queue handler d h]
  by (auto simp: message_calls_def counted_replicate messaging_def split: prod.split option.split)

text \<open>A publish that failed is counted as published too.\<close>

lemma failed_publish_counted:
  "counted PublishCounter any_attributes (publish_calls exchange routingKey body spent (Some e)) = 1"
  by (simp add: publish_calls_def Let_def)

end
