(* ===== verification/Spec2Isabelle.thy ===== *)
theory Spec2Isabelle
  imports Delivery_Assurance Consumer_Process Consumer_Loop Topology Saga_Run Publish_Loop Pool Shutdown Consume_Guard Performance
    Batch_Loop Worker_Loop Argument_Types Streams Assured_Publish Endpoints Protobuf Publisher_Close
    Message_Build Client_Services Shutdown_Signals Native_Streams Metrics
begin

text \<open>
  A model of go-rabbitmq (the Go package under src/), a client library for RabbitMQ on top of the
  library amqp091-go. Every theory translates one part of the code; this theory imports them all.

  \<^bold>\<open>The program.\<close> A client (src/client.go) owns one connection, which a monitor goroutine dials again
  when it is lost. Publishers and consumers are made from the client and open channels on its
  connection. A publisher sends messages once, with a retry loop (\<open>Publish\<close>), or with delivery
  assurance: every message is registered in a sharded map while it awaits its confirmation, and the
  readers of the confirm channel, timers and retries settle it and call its callback. A consumer
  subscribes in a loop, hands deliveries to handlers and settles them, one at a time, in batches, or
  with a channel per worker. The admin service declares topology and remembers it in a registry,
  which the validator compares with the broker. Sub-packages add sagas, a pool of clients, graceful
  shutdown, streams, compression, encryption, protobuf routing, a performance monitor and
  OpenTelemetry.

  \<^bold>\<open>The theories.\<close>

  Foundations:
  \<^item> Go_Base: Go strings, maps, instants and durations (with their wrap-around and saturation),
    counting in lists and multisets; the lemmas all theories share.
  \<^item> Labelled_Runs: the locale of systems that move by labels. A component with interleavings has a
    partial step function and folds it over a list of labels; what a run keeps is proved once and
    interpreted for the steps of eight components.
  \<^item> Amqp_Types: messages, tables, queue configurations and their translation to the wire
    (src/types.go); Message_Build: the setters, JSON messages and typed errors of the same file.

  Publishing:
  \<^item> Pending_Map (src/pending_map.go): the map of pending messages; the locale \<open>pending_store\<close> is the
    interface the publisher relies on, interpreted on the sharded representation.
  \<^item> Delivery_Model, Delivery_Inv, Delivery_Live, Delivery_Assurance (src/publisher.go): delivery
    assurance as a step relation over all interleavings of publishes, frames, timers, goroutines,
    refreshes and Close; its safety invariant; its liveness invariant; the contract, with scripts of
    steps as witnesses. A Go pointer to a message is an address in \<open>pb_heap\<close>; a goroutine is an
    element of the multiset \<open>pb_goroutines\<close>; a handler that runs under the mutex of its message is
    one function; \<open>publishTracked\<close> is split where it gives the message up for the blocking send.
  \<^item> Publish_Loop, Assured_Publish: the retry loops of \<open>Publish\<close> and of
    \<open>publishWithDeliveryAssurance\<close>, confirmations, batches and parallel batches.
  \<^item> Publisher_Close: Close with its barrier and its waits beside publishes and refreshes.
  \<^item> Codec (src/compression, src/encryption): what publisher and consumer do to a body.

  Consuming:
  \<^item> Consumer_Process (src/consumer.go): one delivery or batch, from the channel to its settlement.
  \<^item> Consumer_Loop, Worker_Loop, Batch_Loop: the three consume loops as labelled steps of their
    goroutines, with Close.
  \<^item> Consume_Guard (src/consume_guard.go): where consuming is refused.
  \<^item> Endpoints: options and creation of publishers and consumers, and consumer tags.

  Client and health:
  \<^item> Client_Config (src/options.go, src/env.go), Client_Services: options, environment, plug-ins and
    the admin service; Client_State (src/client.go): connection, monitor, watchers and Close.
  \<^item> Retry_Policy (src/interfaces.go, src/backoff.go): errors, their classification, policies.
  \<^item> Health (src/health.go, src/publisher_health.go), Consumer_Health (src/consumer_health.go): the
    verdicts; both assessments interpret the locale \<open>held_assessment\<close>. The abstract specification of
    a consumer's history is \<open>spec_replay\<close>.

  Topology:
  \<^item> Admin (src/admin.go): options, registry (the locale \<open>keyed_registry\<close>, interpreted for exchanges,
    queues and bindings) and operations; Topology (src/topology_validation.go): the validator and its
    background loop; Argument_Types: the types of declared arguments on every path.

  Sub-packages:
  \<^item> Saga, Saga_Run (src/saga): the orchestrator, its handlers and its engine.
  \<^item> Pool (src/pool), Shutdown, Shutdown_Signals (src/shutdown), Performance (src/performance).
  \<^item> Streams, Native_Streams (src/streams): the stream handler as concurrent calls, and the wrapper
    of the stream library; what can be closed interprets the locale \<open>closable\<close>.
  \<^item> Protobuf (src/protobuf): messages, multiplexer and serializer.
  \<^item> Metrics (src/otel): what is measured for the calls that consumer and publisher make.

  \<^bold>\<open>How the code is read.\<close> A struct is a record with a prefix per type, an enumeration or a set of
  options a datatype, an error a string or a \<open>go_error\<close>, and an operation that may fail returns a
  sum. Delivery tags, generations and the counter of the pool are 64-bit words; other integers are
  \<open>int\<close> with \<open>wrap64\<close> where they may overflow. The clock is an argument or a field that a step moves
  forward. A goroutine is a program counter; what happens under one lock is one step, and a step that
  needs a lock waits for it. Where the runtime may choose among ready cases of a \<open>select\<close>, the label
  or an argument chooses. The iteration order of a Go map is an
  argument (\<open>orders_ok\<close> in Argument_Types: it visits nothing that is not in the map).

  \<^bold>\<open>What is proved.\<close> The properties are the theorems whose text begins with their number. In groups:
  \<^item> Delivery assurance: an accepted message ends exactly once, a refused one never calls back
    (C1, C13, C14), callbacks are truthful (C7), nothing is forgotten (C2), the statistics add up (C3).
  \<^item> Publishing otherwise: the loops end within their limits (C33, C34), a closed publisher leaves no
    confirm channel open and does not wait longer than ten seconds for it (C9, C10), and a message
    that was built is valid and is decoded to what was published (C19, C20).
  \<^item> Consuming: a message is settled once (C4), batches lose nothing and do not wait too long
    (C22, C24), channels of workers do not leak and stopped workers end (C25, C26), workers do not
    outlive their cycle (C29); the metrics of a batch agree with its handler (C35).
  \<^item> Client and health: state and reconnection (C15, C16), when Close returns (C11, C12), the verdicts
    (C8, C17, C18), the validator that follows the options (C28).
  \<^item> Topology: validation repairs (C6), redeclaration is identical (C31), arguments are typed (C27).
  \<^item> Sub-packages: compensation (C5), one queue per saga manager (C32), the pool (C36), shutdown and
    its signals (C37, C38), streams (C39), protobuf (C40).
  Where the code does less than it means to, the theorem states what it does (C11, C21, C23, C30,
  C32, C38), and further lemmas show it by a run, such as \<open>failed_retry_loses_default_callback\<close>,
  \<open>late_return_fails_next_message\<close> and \<open>signal_may_not_close_channel\<close>.

  \<^bold>\<open>Bounds and assumptions.\<close>
  \<^item> Delivery keys pack a generation and a tag into 64 bits. The steps of Delivery_Model stay below
    2^24 generations and 2^40 publishes on a channel (\<open>gen_limit\<close>, \<open>tag_limit\<close>), the limits that the
    code states beside \<open>deliveryTagBits\<close>.
  \<^item> Of amqp091-go, Delivery_Model assumes that a publish which returned an error was not answered
    (\<open>send_failed\<close>) and that tags grow (\<open>send_ok\<close>); frames are otherwise arbitrary. Of the broker,
    Topology assumes for C6 that channels open and calls do what AMQP says (\<open>working_broker\<close>).
  \<^item> The lists of the pool are shorter than 2^64 (theorems on round robin), and doubling a delay as
    a float is exact up to 2^52 nanoseconds (\<open>scale2\<close>). How a float of milliseconds is rounded
    when it is printed is an argument of Message_Build, within half a millisecond and what the float
    arithmetic adds (\<open>rounds_to_ms\<close>).
  \<^item> The round trips assume it of what they are built on: gzip, zlib and AES-GCM in Codec, and
    \<open>proto_laws\<close> in Protobuf. The other answers of code outside src/ are arguments without a law:
    dialling, pinging, \<open>url.Parse\<close>, the stream library, \<open>json.Marshal\<close>, the meter.
  \<^item> No recursion is bounded by fuel. The two retry loops may be unlimited and are partial functions
    with values in \<open>option\<close>, \<open>None\<close> for a loop that never ends; C33 shows when \<open>Publish\<close> returns.

  \<^bold>\<open>Not modelled.\<close> The console logger and the redaction of URLs (output only); the no-op plug-ins other
  than those in Codec; the examples and the tests; log messages and their fields everywhere; the
  spans of the single operations except in Metrics; YAML and JSON tags; the TLS configuration beyond
  whether it is given; the measured durations that only feed metrics; the registration of signals with the
  operating system. The amqp091 protocol itself is known only by what its calls return.
\<close>

end
